(* ===== verification/Kernel_Prelude.thy ===== *)
theory Kernel_Prelude
  imports Main "HOL-Library.Word"
begin

text \<open>
  Shared base of the development: the C integer types of the i686 target
  (\<^verbatim>\<open>size_t\<close>, \<^verbatim>\<open>uintptr_t\<close> and \<^verbatim>\<open>phys_addr_t\<close> are 32 bits wide), the faults an
  operation can end in, sequencing of operations that can fault, single bits of
  words, page alignment, the byte-addressed physical memory with its
  little-endian 32-bit and 64-bit accesses, and the interface of a bit array,
  which both the frame bitmap and the scheduler's priority bitmap implement.
\<close>

unbundle bit_operations_syntax

named_theorems frame_simps \<open>what an operation leaves unchanged\<close>
named_theorems kernel_defs \<open>definitions unfolded in component proofs\<close>

type_synonym u8 = "8 word"
type_synonym u16 = "16 word"
type_synonym u32 = "32 word"
type_synonym u64 = "64 word"

text \<open>Physical addresses (\<^verbatim>\<open>phys_addr_t\<close>, \<^verbatim>\<open>virt_addr_t\<close>) and kernel pointers; 0 is \<^verbatim>\<open>NULL\<close>.\<close>

type_synonym addr = u32


section \<open>Faults and sequencing\<close>

text \<open>
  An operation that cannot return normally ends in a fault: a failed
  \<^verbatim>\<open>kassert\<close> (a call of \<^verbatim>\<open>kernel_panic\<close>, which halts forever), the dereference of
  a null pointer, a division by zero, an array access out of range, or an access
  to an address that the page tables do not map.
\<close>

datatype fault = AssertFailed string | NullDeref | DivByZero | OutOfBounds | PageFault addr

definition andthen :: "fault + 'a \<Rightarrow> ('a \<Rightarrow> fault + 'b) \<Rightarrow> fault + 'b" where
  "andthen r k = (case r of Inl e \<Rightarrow> Inl e | Inr a \<Rightarrow> k a)"

lemma andthen_Inl [simp]: "andthen (Inl e) k = Inl e"
  by (simp add: andthen_def)

lemma andthen_Inr [simp]: "andthen (Inr a) k = k a"
  by (simp add: andthen_def)

lemma andthen_eq_Inr:
  "andthen r k = Inr b \<longleftrightarrow> (\<exists>a. r = Inr a \<and> k a = Inr b)"
  by (auto simp: andthen_def split: sum.splits)

lemma andthen_cong [fundef_cong]:
  "r = r' \<Longrightarrow> (\<And>a. r' = Inr a \<Longrightarrow> k a = k' a) \<Longrightarrow> andthen r k = andthen r' k'"
  by (auto simp: andthen_def split: sum.splits)


section \<open>Bits of words\<close>

text \<open>
  The C idioms \<^verbatim>\<open>x & (1 << n)\<close>, \<^verbatim>\<open>x |= (1 << n)\<close> and \<^verbatim>\<open>x &= ~(1 << n)\<close>; the simplifier
  writes the shifted one as a power of two.
\<close>

lemma and_shifted_one_eq_0 [simp]:
  fixes w :: "'a::len word"
  shows "w AND 2 ^ n = 0 \<longleftrightarrow> \<not> bit w n"
  by (simp add: and_exp_eq_0_iff_not_bit)

lemma bit_or_shifted_one [simp]:
  fixes w :: "'a::len word"
  assumes "n < LENGTH('a)"
  shows "bit (w OR 2 ^ n) m \<longleftrightarrow> bit w m \<or> m = n"
  using assms by (auto simp: bit_simps)

lemma bit_and_not_shifted_one [simp]:
  fixes w :: "'a::len word"
  assumes "n < LENGTH('a)"
  shows "bit (w AND NOT (2 ^ n)) m \<longleftrightarrow> bit w m \<and> m \<noteq> n"
  using assms by (auto simp: bit_simps dest: bit_imp_le_length)

lemma word_eq_minus_one_iff_bits:
  fixes w :: "'a::len word"
  shows "w = - 1 \<longleftrightarrow> (\<forall>n < LENGTH('a). bit w n)"
  by (auto simp: bit_eq_iff)

lemma word_eq_0_iff_bits:
  fixes w :: "'a::len word"
  shows "w = 0 \<longleftrightarrow> (\<forall>n < LENGTH('a). \<not> bit w n)"
  by (auto simp: bit_eq_iff dest: bit_imp_le_length)

lemma unat_Suc_less:
  fixes i j :: "'a::len word"
  assumes "i < j"
  shows "unat (i + 1) = Suc (unat i)"
proof -
  have "unat i < unat j" and "unat j < 2 ^ LENGTH('a)"
    using assms by (simp_all add: word_less_nat_alt)
  then have "Suc (unat i) < 2 ^ LENGTH('a)" by linarith
  then show ?thesis by (simp add: unat_word_ariths)
qed

lemma less_plus_one_iff:
  fixes i j k :: "'a::len word"
  assumes "i < j"
  shows "i + 1 \<le> k \<longleftrightarrow> i < k"
  using unat_Suc_less [OF assms] by (simp add: word_le_nat_alt word_less_nat_alt Suc_le_eq)


section \<open>Bit arrays\<close>

text \<open>
  The interface of an array of bits: reading a bit after a bit was set or
  cleared. The frame bitmap of the physical memory manager (bytes) and the
  priority bitmap of the scheduler (32-bit words) both provide it.
\<close>

locale bit_array =
  fixes valid :: "'i \<Rightarrow> bool"
    and test :: "'b \<Rightarrow> 'i \<Rightarrow> bool"
    and set_at :: "'i \<Rightarrow> 'b \<Rightarrow> 'b"
    and clear_at :: "'i \<Rightarrow> 'b \<Rightarrow> 'b"
  assumes test_set_at: "valid i \<Longrightarrow> valid j \<Longrightarrow> test (set_at i b) j \<longleftrightarrow> j = i \<or> test b j"
    and test_clear_at: "valid i \<Longrightarrow> valid j \<Longrightarrow> test (clear_at i b) j \<longleftrightarrow> j \<noteq> i \<and> test b j"
begin

lemma clear_bits_set_at:
  "valid i \<Longrightarrow> {j. valid j \<and> \<not> test (set_at i b) j} = {j. valid j \<and> \<not> test b j} - {i}"
  by (auto simp: test_set_at)

lemma clear_bits_clear_at:
  "valid i \<Longrightarrow> {j. valid j \<and> \<not> test (clear_at i b) j} = insert i {j. valid j \<and> \<not> test b j}"
  by (auto simp: test_clear_at)

lemma set_bits_set_at:
  "valid i \<Longrightarrow> {j. valid j \<and> test (set_at i b) j} = insert i {j. valid j \<and> test b j}"
  by (auto simp: test_set_at)

lemma set_bits_clear_at:
  "valid i \<Longrightarrow> {j. valid j \<and> test (clear_at i b) j} = {j. valid j \<and> test b j} - {i}"
  by (auto simp: test_clear_at)

end


section \<open>Codecs\<close>

text \<open>
  Encoding of a hardware structure that the processor decodes again: segment
  descriptors and interrupt gates.
\<close>

locale codec =
  fixes encode :: "'a \<Rightarrow> 'b" and decode :: "'b \<Rightarrow> 'a" and valid :: "'a \<Rightarrow> bool"
  assumes decode_encode: "valid x \<Longrightarrow> decode (encode x) = x"
begin

lemma encode_inj: "valid x \<Longrightarrow> valid y \<Longrightarrow> encode x = encode y \<longleftrightarrow> x = y"
  by (metis decode_encode)

end


section \<open>Pages and alignment\<close>

text \<open>\<^verbatim>\<open>IS_PAGE_ALIGNED\<close> of \<^verbatim>\<open>mmu.h\<close>: the low twelve bits are clear.\<close>

definition page_aligned :: "addr \<Rightarrow> bool" where
  "page_aligned a \<longleftrightarrow> a AND 4095 = 0"

lemma unat_u32_bound: "unat (a :: u32) < 4294967296"
  using unsigned_less [of a] by simp

lemma mask_12: "(4095 :: u32) = mask 12"
  by (simp add: mask_eq_exp_minus_1)

lemma page_aligned_unat: "page_aligned a \<longleftrightarrow> unat a mod 4096 = 0"
proof -
  have "unat (a AND 4095) = unat a mod 4096"
    by (simp add: mask_12 take_bit_eq_mask [symmetric] take_bit_eq_mod unat_mod)
  then show ?thesis
    by (metis page_aligned_def unat_eq_zero)
qed

lemma page_aligned_0 [simp]: "page_aligned 0"
  by (simp add: page_aligned_def)

lemma unat_frame_addr:
  assumes "unat f < 1048576"
  shows "unat (f * 4096 :: u32) = unat f * 4096"
  using assms by (simp add: unat_word_ariths)

lemma unat_frame_bound [simp]: "unat (a div 4096 :: u32) < 1048576"
  using unat_u32_bound [of a] by (simp add: unat_div less_mult_imp_div_less)

lemma page_aligned_frame_addr:
  "page_aligned (f * 4096)"
proof -
  have "unat (f * 4096 :: u32) mod 4096 = 0"
    by (simp add: unat_word_ariths mod_mod_cancel)
  then show ?thesis by (simp add: page_aligned_unat)
qed

lemma frame_of_frame_addr:
  assumes "unat f < 1048576"
  shows "(f * 4096 :: u32) div 4096 = f"
  using unat_frame_addr [OF assms] by (simp add: word_unat_eq_iff unat_div)

lemma frame_addr_of_frame:
  assumes "page_aligned a"
  shows "a div 4096 * 4096 = a"
proof -
  have *: "unat a div 4096 * 4096 = unat a"
    using assms by (auto simp: page_aligned_unat)
  have "unat (a div 4096 * 4096) = unat (a div 4096) * 4096"
    by (simp add: unat_frame_addr)
  also have "\<dots> = unat a"
    by (simp add: unat_div *)
  finally show ?thesis by (simp add: word_unat_eq_iff)
qed



section \<open>Physical memory\<close>

text \<open>
  Memory is a total map from byte addresses to bytes; the machine is
  little-endian. \<open>read32\<close> and \<open>write32\<close> are what the compiler emits for an access
  through a \<^verbatim>\<open>uint32_t*\<close>.
\<close>

type_synonym mem = "addr \<Rightarrow> u8"

definition read32 :: "mem \<Rightarrow> addr \<Rightarrow> u32" where
  "read32 m a = ucast (m a) OR push_bit 8 (ucast (m (a + 1)))
     OR push_bit 16 (ucast (m (a + 2))) OR push_bit 24 (ucast (m (a + 3)))"

definition write32 :: "addr \<Rightarrow> u32 \<Rightarrow> mem \<Rightarrow> mem" where
  "write32 a v m = m(a := ucast v, a + 1 := ucast (drop_bit 8 v),
     a + 2 := ucast (drop_bit 16 v), a + 3 := ucast (drop_bit 24 v))"

definition read64 :: "mem \<Rightarrow> addr \<Rightarrow> u64" where
  "read64 m a = ucast (read32 m a) OR push_bit 32 (ucast (read32 m (a + 4)))"

lemma read32_write32_same [simp]: "read32 (write32 a v m) a = v"
proof -
  have "a + 1 \<noteq> a" "a + 2 \<noteq> a" "a + 3 \<noteq> a" "a + 2 \<noteq> a + 1" "a + 3 \<noteq> a + 1" "a + 3 \<noteq> a + 2"
    by simp_all
  then have "read32 (write32 a v m) a = ucast (ucast v :: u8) OR push_bit 8 (ucast (ucast (drop_bit 8 v) :: u8))
     OR push_bit 16 (ucast (ucast (drop_bit 16 v) :: u8)) OR push_bit 24 (ucast (ucast (drop_bit 24 v) :: u8))"
    by (simp add: read32_def write32_def)
  also have "\<dots> = v"
  proof (rule bit_word_eqI)
    fix n
    assume "n < LENGTH(32)"
    moreover have "n < 8 \<or> 8 \<le> n \<and> n < 16 \<or> 16 \<le> n \<and> n < 24 \<or> 24 \<le> n"
      by linarith
    ultimately show "bit (ucast (ucast v :: u8) OR push_bit 8 (ucast (ucast (drop_bit 8 v) :: u8))
       OR push_bit 16 (ucast (ucast (drop_bit 16 v) :: u8))
       OR push_bit 24 (ucast (ucast (drop_bit 24 v) :: u8)) :: u32) n \<longleftrightarrow> bit v n"
      by (elim disjE) (auto simp: bit_simps)
  qed
  finally show ?thesis .
qed

text \<open>Two aligned words at different addresses share no byte.\<close>

lemma read32_write32_other:
  assumes "unat a mod 4 = 0" "unat b mod 4 = 0" "a \<noteq> b"
  shows "read32 (write32 a v m) b = read32 m b"
proof -
  have low: "unat (x + of_nat k) = unat x + k" if "unat x mod 4 = 0" "k < 4" for x :: addr and k
  proof -
    have "unat x + k < 2 ^ 32"
      using that unat_u32_bound [of x] by (simp, presburger)
    then show ?thesis
      using that by (simp add: unat_word_ariths unsigned_of_nat take_bit_eq_mod)
  qed
  have ne: "b + of_nat k \<noteq> a + of_nat l" if "k < 4" "l < 4" for k l
  proof
    assume "b + of_nat k = a + of_nat l"
    then have "unat b + k = unat a + l"
      using low [OF assms(2) that(1)] low [OF assms(1) that(2)] by simp
    then have "unat a = unat b"
      using assms that by presburger
    then show False using assms(3) by (simp add: word_unat_eq_iff)
  qed
  have *: "write32 a v m (b + of_nat k) = m (b + of_nat k)" if "k < 4" for k
    using ne [OF that, of 0] ne [OF that, of 1] ne [OF that, of 2] ne [OF that, of 3]
    by (simp add: write32_def)
  show ?thesis
    using * [of 0] * [of 1] * [of 2] * [of 3] by (simp add: read32_def)
qed

end
