(* ===== verification/Frame_Allocator.thy ===== *)
theory Frame_Allocator
  imports Kernel_Prelude
begin

text \<open>
  The contract between the physical memory manager and its clients (the MMU,
  the task subsystem, user task creation): which page an allocation returns,
  what a release gives back, and that neither faults while the allocator's
  invariant holds. The clients' facts about sequences of requests are proved
  once from the contract.
\<close>

text \<open>
  A client's requests. A client releases a page only while it holds it; a
  request that is not of this kind is skipped by the run.
\<close>

datatype page_request = Alloc | Release addr

text \<open>A run threads the allocator's state and the list of pages the client holds.\<close>

fun run_requests :: "('s \<Rightarrow> fault + addr \<times> 's) \<Rightarrow> (addr \<Rightarrow> 's \<Rightarrow> fault + 's) \<Rightarrow>
    page_request list \<Rightarrow> 's \<Rightarrow> addr list \<Rightarrow> fault + addr list \<times> 's" where
  "run_requests alloc release [] s held = Inr (held, s)"
| "run_requests alloc release (Alloc # rs) s held =
     andthen (alloc s) (\<lambda>(p, s').
       run_requests alloc release rs s' (if p = 0 then held else p # held))"
| "run_requests alloc release (Release p # rs) s held =
     (if p \<in> set held
      then andthen (release p s) (\<lambda>s'. run_requests alloc release rs s' (remove1 p held))
      else run_requests alloc release rs s held)"

locale frame_allocator =
  fixes alloc :: "'s \<Rightarrow> fault + addr \<times> 's"
    and release :: "addr \<Rightarrow> 's \<Rightarrow> fault + 's"
    and invar :: "'s \<Rightarrow> bool"
    and avail :: "'s \<Rightarrow> addr set"
    and managed :: "addr set"
  assumes alloc_some: "invar s \<Longrightarrow> avail s \<noteq> {} \<Longrightarrow>
      \<exists>p s'. alloc s = Inr (p, s') \<and> p \<in> avail s \<and> avail s' = avail s - {p} \<and> invar s'"
    and alloc_none: "invar s \<Longrightarrow> avail s = {} \<Longrightarrow> alloc s = Inr (0, s)"
    and release_ok: "invar s \<Longrightarrow> p \<in> managed \<Longrightarrow> p \<notin> avail s \<Longrightarrow>
      \<exists>s'. release p s = Inr s' \<and> avail s' = insert p (avail s) \<and> invar s'"
    and avail_managed: "invar s \<Longrightarrow> avail s \<subseteq> managed"
    and managed_page: "p \<in> managed \<Longrightarrow> p \<noteq> 0 \<and> page_aligned p"
begin

lemma alloc_total: "invar s \<Longrightarrow> \<exists>p s'. alloc s = Inr (p, s') \<and> invar s'"
  by (cases "avail s = {}") (use alloc_none alloc_some in fastforce)+

lemma alloc_page:
  assumes "invar s" and "alloc s = Inr (p, s')"
  shows "invar s'"
    and "p = 0 \<longleftrightarrow> avail s = {}"
    and "p = 0 \<Longrightarrow> s' = s"
    and "p \<noteq> 0 \<Longrightarrow> p \<in> avail s \<and> p \<in> managed \<and> page_aligned p"
    and "avail s' = avail s - {p}"
proof -
  have "invar s' \<and> (p = 0 \<longleftrightarrow> avail s = {}) \<and> (p = 0 \<longrightarrow> s' = s) \<and>
    (p \<noteq> 0 \<longrightarrow> p \<in> avail s \<and> p \<in> managed \<and> page_aligned p) \<and> avail s' = avail s - {p}"
  proof (cases "avail s = {}")
    case True
    with alloc_none [OF assms(1)] assms show ?thesis by simp
  next
    case False
    from alloc_some [OF assms(1) this] assms(2)
    have *: "p \<in> avail s" "avail s' = avail s - {p}" "invar s'" by auto
    moreover have "p \<in> managed" using * avail_managed [OF assms(1)] by blast
    ultimately show ?thesis using False managed_page by blast
  qed
  then show "invar s'" "p = 0 \<longleftrightarrow> avail s = {}" "p = 0 \<Longrightarrow> s' = s"
    "p \<noteq> 0 \<Longrightarrow> p \<in> avail s \<and> p \<in> managed \<and> page_aligned p" "avail s' = avail s - {p}"
    by blast+
qed

text \<open>An allocation followed by the release of the page it returned restores the free pages.\<close>

lemma alloc_release:
  assumes "invar s" and "alloc s = Inr (p, s')" and "p \<noteq> 0"
  shows "\<exists>s''. release p s' = Inr s'' \<and> avail s'' = avail s \<and> invar s''"
proof -
  note a = alloc_page [OF assms(1,2)]
  have "p \<in> managed" "p \<notin> avail s'" using a assms(3) by auto
  with release_ok [OF a(1)] show ?thesis
    using a assms(3) by (metis insert_Diff)
qed

text \<open>
  Every run of requests ends without a fault; the pages held stay distinct,
  are never null or misaligned, and are never among the free ones.
\<close>

definition holds :: "'s \<Rightarrow> addr list \<Rightarrow> bool" where
  "holds s held \<longleftrightarrow> invar s \<and> distinct held \<and> set held \<subseteq> managed \<and> set held \<inter> avail s = {}"

lemma holds_alloc:
  assumes "holds s held" and "alloc s = Inr (p, s')"
  shows "holds s' (if p = 0 then held else p # held)"
    and "p \<noteq> 0 \<Longrightarrow> avail s' \<union> set (p # held) = avail s \<union> set held"
    and "p = 0 \<Longrightarrow> avail s' = avail s"
proof -
  have "invar s" using assms(1) by (simp add: holds_def)
  note a = alloc_page [OF this assms(2)]
  show "holds s' (if p = 0 then held else p # held)"
    using assms(1) a by (auto simp: holds_def)
  show "p \<noteq> 0 \<Longrightarrow> avail s' \<union> set (p # held) = avail s \<union> set held"
    using a by auto
  show "p = 0 \<Longrightarrow> avail s' = avail s"
    using a by auto
qed

lemma holds_release:
  assumes "holds s held" and "p \<in> set held"
  obtains s' where "release p s = Inr s'" and "holds s' (remove1 p held)"
    and "avail s' \<union> set (remove1 p held) = avail s \<union> set held"
proof -
  have "invar s" "p \<in> managed" "p \<notin> avail s" using assms by (auto simp: holds_def)
  from release_ok [OF this] obtain s' where
    s': "release p s = Inr s'" "avail s' = insert p (avail s)" "invar s'" by blast
  moreover have "set (remove1 p held) = set held - {p}"
    using assms(1) by (simp add: holds_def)
  ultimately show thesis
    using assms that [of s'] by (auto simp: holds_def)
qed

lemma run_requests_holds:
  assumes "holds s held"
  shows "\<exists>held' s'. run_requests alloc release rs s held = Inr (held', s') \<and> holds s' held' \<and>
    avail s' \<union> set held' = avail s \<union> set held"
  using assms
proof (induction rs arbitrary: s held)
  case Nil
  then show ?case by simp
next
  case (Cons r rs)
  show ?case
  proof (cases r)
    case Alloc
    from Cons.prems have "invar s" by (simp add: holds_def)
    from alloc_total [OF this] obtain p s' where a: "alloc s = Inr (p, s')" by blast
    note h = holds_alloc [OF Cons.prems a]
    from Cons.IH [OF h(1)] show ?thesis
      using Alloc a h(2,3) by (cases "p = 0") (auto simp del: Un_insert_right)
  next
    case (Release p)
    show ?thesis
    proof (cases "p \<in> set held")
      case True
      from holds_release [OF Cons.prems True] obtain s' where
        "release p s = Inr s'" "holds s' (remove1 p held)"
        "avail s' \<union> set (remove1 p held) = avail s \<union> set held" .
      with Cons.IH [OF this(2)] show ?thesis using Release True by simp
    next
      case False
      with Cons Release show ?thesis by simp
    qed
  qed
qed

end

end
