(* ===== verification/Pmm.thy ===== *)
theory Pmm
  imports Frame_Allocator
begin

text \<open>
  The physical memory manager, \<^verbatim>\<open>mm/pmm.c\<close> with \<^verbatim>\<open>include/kernel/pmm.h\<close>: the frame
  bitmap, allocation, release and reservation of 4 KB frames, and
  initialisation from the boot loader's memory map. Operations work on every
  extension of the record \<open>pmm_st\<close>, so the components built on this one keep
  their state in extensions of it. \<open>free_set\<close> is the abstraction (the set of
  free frame numbers) and \<open>pmm_inv\<close> the invariant; under it no assertion of the
  code fails and the code implements the contract \<open>frame_allocator\<close>.
\<close>

section \<open>State\<close>

text \<open>
  \<^verbatim>\<open>pmm_state.bitmap\<close> is null until \<^verbatim>\<open>pmm_init\<close> lets it point to the static array
  \<^verbatim>\<open>frame_bitmap\<close>. \<open>kernel_assert\<close> is the build flag \<^verbatim>\<open>DEBUG\<close> / \<^verbatim>\<open>KERNEL_ASSERT\<close>: in
  other builds \<^verbatim>\<open>kassert\<close> expands to nothing.
\<close>

datatype bitmap_ptr = NullBitmap | FrameBitmap

record pmm_st =
  kernel_assert :: bool
  frame_bitmap :: "nat \<Rightarrow> u8"
  bitmap :: bitmap_ptr
  total_frames :: u32
  free_frames :: u32
  reserved_frames :: u32
  initialized :: bool

abbreviation FRAME_SIZE :: u32 where "FRAME_SIZE \<equiv> 4096"
abbreviation MAX_FRAMES :: u32 where "MAX_FRAMES \<equiv> 1048576"
abbreviation BITMAP_SIZE :: nat where "BITMAP_SIZE \<equiv> 131072"

definition kassert :: "'z pmm_st_scheme \<Rightarrow> bool \<Rightarrow> string \<Rightarrow> fault + unit" where
  "kassert s c expr = (if kernel_assert s \<and> \<not> c then Inl (AssertFailed expr) else Inr ())"


section \<open>Bitmap\<close>

definition bitmap_test :: "'z pmm_st_scheme \<Rightarrow> u32 \<Rightarrow> bool" where
  "bitmap_test s frame =
     (let byte = frame div 8; bit = frame mod 8
      in frame_bitmap s (unat byte) AND push_bit (unat bit) 1 \<noteq> 0)"

text \<open>The assignments \<^verbatim>\<open>frame_bitmap[byte] |= (1 << bit)\<close> and \<^verbatim>\<open>frame_bitmap[byte] &= ~(1 << bit)\<close>.\<close>

definition bitmap_or_bit :: "u32 \<Rightarrow> 'z pmm_st_scheme \<Rightarrow> 'z pmm_st_scheme" where
  "bitmap_or_bit frame s =
     (let byte = unat (frame div 8); bit = unat (frame mod 8)
      in s\<lparr>frame_bitmap := (frame_bitmap s)(byte := frame_bitmap s byte OR push_bit bit 1)\<rparr>)"

definition bitmap_and_not_bit :: "u32 \<Rightarrow> 'z pmm_st_scheme \<Rightarrow> 'z pmm_st_scheme" where
  "bitmap_and_not_bit frame s =
     (let byte = unat (frame div 8); bit = unat (frame mod 8)
      in s\<lparr>frame_bitmap := (frame_bitmap s)(byte := frame_bitmap s byte AND NOT (push_bit bit 1))\<rparr>)"

definition bitmap_set :: "u32 \<Rightarrow> 'z pmm_st_scheme \<Rightarrow> fault + 'z pmm_st_scheme" where
  "bitmap_set frame s =
     andthen (kassert s (frame < MAX_FRAMES) ''frame < MAX_FRAMES'') (\<lambda>_.
     let s' = bitmap_or_bit frame s in
     andthen (kassert s' (bitmap_test s' frame) ''bitmap_test(frame)'') (\<lambda>_.
     Inr s'))"

definition bitmap_clear :: "u32 \<Rightarrow> 'z pmm_st_scheme \<Rightarrow> fault + 'z pmm_st_scheme" where
  "bitmap_clear frame s =
     andthen (kassert s (frame < MAX_FRAMES) ''frame < MAX_FRAMES'') (\<lambda>_.
     let s' = bitmap_and_not_bit frame s in
     andthen (kassert s' (\<not> bitmap_test s' frame) ''!bitmap_test(frame)'') (\<lambda>_.
     Inr s'))"

text \<open>
  The two nested loops of \<^verbatim>\<open>bitmap_find_free\<close>. Their counters stay below
  \<^verbatim>\<open>BITMAP_SIZE\<close> and 8, so no counter wraps.
\<close>

function find_free_bit :: "u8 \<Rightarrow> nat \<Rightarrow> nat option" where
  "find_free_bit b n =
     (if n < 8 then (if b AND push_bit n 1 = 0 then Some n else find_free_bit b (Suc n))
      else None)"
  by pat_completeness auto
termination
  by (relation "measure (\<lambda>(b, n). 8 - n)") auto

declare find_free_bit.simps [simp del]

function bitmap_scan :: "(nat \<Rightarrow> u8) \<Rightarrow> nat \<Rightarrow> u32" where
  "bitmap_scan bm i =
     (if i < BITMAP_SIZE then
        (if bm i \<noteq> 0xFF then
           (case find_free_bit (bm i) 0 of
              Some n \<Rightarrow> of_nat (i * 8 + n)
            | None \<Rightarrow> bitmap_scan bm (Suc i))
         else bitmap_scan bm (Suc i))
      else MAX_FRAMES)"
  by pat_completeness auto
termination
  by (relation "measure (\<lambda>(bm, i). BITMAP_SIZE - i)") auto

declare bitmap_scan.simps [simp del]

definition bitmap_find_free :: "'z pmm_st_scheme \<Rightarrow> u32" where
  "bitmap_find_free s = bitmap_scan (frame_bitmap s) 0"


section \<open>Allocation, release, reservation\<close>

definition pmm_is_initialized :: "'z pmm_st_scheme \<Rightarrow> bool" where
  "pmm_is_initialized s = initialized s"

definition pmm_alloc_page :: "'z pmm_st_scheme \<Rightarrow> fault + addr \<times> 'z pmm_st_scheme" where
  "pmm_alloc_page s =
     (if \<not> initialized s \<or> bitmap s = NullBitmap then Inr (0, s)
      else
        andthen (kassert s (initialized s) ''pmm_state.initialized'') (\<lambda>_.
        andthen (kassert s (bitmap s \<noteq> NullBitmap) ''pmm_state.bitmap != NULL'') (\<lambda>_.
        andthen (kassert s (free_frames s \<le> total_frames s)
          ''pmm_state.free_frames <= pmm_state.total_frames'') (\<lambda>_.
        if free_frames s = 0 then Inr (0, s)
        else
          let frame = bitmap_find_free s in
          if frame \<ge> MAX_FRAMES then Inr (0, s)
          else
            andthen (kassert s (\<not> bitmap_test s frame) ''!bitmap_test(frame)'') (\<lambda>_.
            andthen (bitmap_set frame s) (\<lambda>s.
            let s = s\<lparr>free_frames := free_frames s - 1\<rparr>;
                addr = frame * FRAME_SIZE in
            if addr AND (FRAME_SIZE - 1) \<noteq> 0 then Inr (0, s)
            else
              andthen (kassert s (addr mod FRAME_SIZE = 0) ''addr aligned'') (\<lambda>_.
              Inr (addr, s))))))))"

definition pmm_free_page :: "addr \<Rightarrow> 'z pmm_st_scheme \<Rightarrow> fault + 'z pmm_st_scheme" where
  "pmm_free_page page s =
     andthen (kassert s (initialized s) ''pmm_state.initialized'') (\<lambda>_.
     andthen (kassert s (bitmap s \<noteq> NullBitmap) ''pmm_state.bitmap != NULL'') (\<lambda>_.
     andthen (kassert s (page mod FRAME_SIZE = 0) ''page aligned'') (\<lambda>_.
     let frame = page div FRAME_SIZE in
     andthen (kassert s (frame < MAX_FRAMES) ''frame < MAX_FRAMES'') (\<lambda>_.
     if \<not> bitmap_test s frame then Inr s
     else
       andthen (bitmap_clear frame s) (\<lambda>s.
       let s = s\<lparr>free_frames := free_frames s + 1\<rparr> in
       andthen (kassert s (\<not> bitmap_test s frame) ''!bitmap_test(frame)'') (\<lambda>_.
       andthen (kassert s (free_frames s \<le> total_frames s)
         ''pmm_state.free_frames <= pmm_state.total_frames'') (\<lambda>_.
       Inr s)))))))"

text \<open>The body of the loop of \<^verbatim>\<open>pmm_reserve_region\<close> for one frame, and the loop.\<close>

definition reserve_frame :: "u32 \<Rightarrow> 'z pmm_st_scheme \<Rightarrow> fault + 'z pmm_st_scheme" where
  "reserve_frame frame s =
     (if frame < MAX_FRAMES then
        (let s = (if \<not> bitmap_test s frame \<and> frame < total_frames s then
                    (if free_frames s > 0 then
                       s\<lparr>free_frames := free_frames s - 1,
                         reserved_frames := reserved_frames s + 1\<rparr>
                     else s)
                  else s)
         in bitmap_set frame s)
      else Inr s)"

function reserve_frames :: "u32 \<Rightarrow> u32 \<Rightarrow> 'z pmm_st_scheme \<Rightarrow> fault + 'z pmm_st_scheme" where
  "reserve_frames frame frame_end s =
     (if frame < frame_end then
        andthen (reserve_frame frame s) (\<lambda>s. reserve_frames (frame + 1) frame_end s)
      else Inr s)"
  by pat_completeness auto
termination
  by (relation "measure (\<lambda>(f, e, s). unat e - unat f)")
    (auto simp: unat_Suc_less word_less_nat_alt intro: diff_less_mono2)

declare reserve_frames.simps [simp del]

definition pmm_reserve_region :: "addr \<Rightarrow> u32 \<Rightarrow> 'z pmm_st_scheme \<Rightarrow> fault + 'z pmm_st_scheme" where
  "pmm_reserve_region start sz s =
     (let frame_start = start div FRAME_SIZE;
          frame_end = (start + sz + FRAME_SIZE - 1) div FRAME_SIZE
      in reserve_frames frame_start frame_end s)"

record pmm_stats =
  st_total_frames :: u32
  st_free_frames :: u32
  st_reserved_frames :: u32
  st_kernel_frames :: u32

text \<open>\<^verbatim>\<open>pmm_get_stats\<close> fills the caller's structure; a null pointer (\<open>None\<close>) is ignored.\<close>

definition pmm_get_stats :: "'z pmm_st_scheme \<Rightarrow> pmm_stats option \<Rightarrow> pmm_stats option" where
  "pmm_get_stats s stats =
     (case stats of
        None \<Rightarrow> None
      | Some _ \<Rightarrow> Some \<lparr>st_total_frames = total_frames s, st_free_frames = free_frames s,
          st_reserved_frames = reserved_frames s, st_kernel_frames = reserved_frames s\<rparr>)"


section \<open>The bitmap as a set of free frames\<close>

lemma kassert_true [simp]: "kassert s True e = Inr ()"
  by (simp add: kassert_def)

lemma kassert_release [simp]: "\<not> kernel_assert s \<Longrightarrow> kassert s c e = Inr ()"
  by (simp add: kassert_def)

lemma bitmap_test_bit:
  "bitmap_test s f \<longleftrightarrow> bit (frame_bitmap s (unat f div 8)) (unat f mod 8)"
  by (simp add: bitmap_test_def unat_div unat_mod)

lemma word_eq_div_mod_8:
  fixes f g :: u32
  shows "f = g \<longleftrightarrow> unat f div 8 = unat g div 8 \<and> unat f mod 8 = unat g mod 8"
  by (metis div_mod_decomp word_unat_eq_iff)

lemma bitmap_test_or_bit [simp]:
  "bitmap_test (bitmap_or_bit f s) g \<longleftrightarrow> g = f \<or> bitmap_test s g"
  by (auto simp: bitmap_test_bit bitmap_or_bit_def Let_def unat_div unat_mod word_eq_div_mod_8)

lemma bitmap_test_and_not_bit [simp]:
  "bitmap_test (bitmap_and_not_bit f s) g \<longleftrightarrow> g \<noteq> f \<and> bitmap_test s g"
  by (auto simp: bitmap_test_bit bitmap_and_not_bit_def Let_def unat_div unat_mod word_eq_div_mod_8)

interpretation frame_bits: bit_array
  "\<lambda>f. f < MAX_FRAMES" bitmap_test bitmap_or_bit bitmap_and_not_bit
  by unfold_locales auto

text \<open>The bitmap operations touch nothing but the bitmap.\<close>

lemma bitmap_or_bit_frame [simp, frame_simps]:
  "kernel_assert (bitmap_or_bit f s) = kernel_assert s"
  "bitmap (bitmap_or_bit f s) = bitmap s"
  "total_frames (bitmap_or_bit f s) = total_frames s"
  "free_frames (bitmap_or_bit f s) = free_frames s"
  "reserved_frames (bitmap_or_bit f s) = reserved_frames s"
  "initialized (bitmap_or_bit f s) = initialized s"
  "pmm_st.more (bitmap_or_bit f s) = pmm_st.more s"
  by (simp_all add: bitmap_or_bit_def Let_def)

lemma bitmap_and_not_bit_frame [simp, frame_simps]:
  "kernel_assert (bitmap_and_not_bit f s) = kernel_assert s"
  "bitmap (bitmap_and_not_bit f s) = bitmap s"
  "total_frames (bitmap_and_not_bit f s) = total_frames s"
  "free_frames (bitmap_and_not_bit f s) = free_frames s"
  "reserved_frames (bitmap_and_not_bit f s) = reserved_frames s"
  "initialized (bitmap_and_not_bit f s) = initialized s"
  "pmm_st.more (bitmap_and_not_bit f s) = pmm_st.more s"
  by (simp_all add: bitmap_and_not_bit_def Let_def)

lemma bitmap_test_upd [simp]:
  "bitmap_test (s\<lparr>free_frames := x\<rparr>) = bitmap_test s"
  "bitmap_test (s\<lparr>reserved_frames := x\<rparr>) = bitmap_test s"
  "bitmap_test (s\<lparr>total_frames := x\<rparr>) = bitmap_test s"
  "bitmap_test (s\<lparr>initialized := b\<rparr>) = bitmap_test s"
  by (simp_all add: bitmap_test_def fun_eq_iff)

lemma bitmap_set_ok [simp]: "f < MAX_FRAMES \<Longrightarrow> bitmap_set f s = Inr (bitmap_or_bit f s)"
  by (simp add: bitmap_set_def Let_def)

lemma bitmap_clear_ok [simp]: "f < MAX_FRAMES \<Longrightarrow> bitmap_clear f s = Inr (bitmap_and_not_bit f s)"
  by (simp add: bitmap_clear_def Let_def)

text \<open>Setting and clearing a clear bit restores the bitmap.\<close>

lemma or_bit_and_not_bit:
  assumes "\<not> bitmap_test s f"
  shows "(bitmap_and_not_bit f ((bitmap_or_bit f s)\<lparr>free_frames := x - 1\<rparr>))\<lparr>free_frames := x\<rparr> = s\<lparr>free_frames := x\<rparr>"
proof -
  let ?b = "unat f div 8" and ?n = "unat f mod 8"
  have "(frame_bitmap s ?b OR 2 ^ ?n) AND NOT (2 ^ ?n) = frame_bitmap s ?b"
    using assms by (intro bit_word_eqI) (auto simp: bitmap_test_bit)
  then show ?thesis
    by (simp add: bitmap_or_bit_def bitmap_and_not_bit_def Let_def unat_div unat_mod fun_upd_idem)
qed

definition free_set :: "'z pmm_st_scheme \<Rightarrow> u32 set" where
  "free_set s = {f. f < MAX_FRAMES \<and> \<not> bitmap_test s f}"

lemma free_set_finite [simp]: "finite (free_set s)"
  by simp

lemma free_set_upd [simp]:
  "free_set (s\<lparr>free_frames := x\<rparr>) = free_set s"
  "free_set (s\<lparr>reserved_frames := x\<rparr>) = free_set s"
  "free_set (s\<lparr>total_frames := x\<rparr>) = free_set s"
  "free_set (s\<lparr>initialized := b\<rparr>) = free_set s"
  by (simp_all add: free_set_def)

lemma free_set_or_bit [simp]: "f < MAX_FRAMES \<Longrightarrow> free_set (bitmap_or_bit f s) = free_set s - {f}"
  unfolding free_set_def by (rule frame_bits.clear_bits_set_at)

lemma free_set_and_not_bit [simp]:
  "f < MAX_FRAMES \<Longrightarrow> free_set (bitmap_and_not_bit f s) = insert f (free_set s)"
  unfolding free_set_def by (rule frame_bits.clear_bits_clear_at)


section \<open>The search for a free frame\<close>

lemma find_free_bit_Some:
  "find_free_bit b n = Some k \<Longrightarrow> n \<le> k \<and> k < 8 \<and> \<not> bit b k \<and> (\<forall>j. n \<le> j \<and> j < k \<longrightarrow> bit b j)"
proof (induction b n rule: find_free_bit.induct)
  case (1 b n)
  show ?case
  proof (cases "n < 8 \<and> bit b n")
    case True
    with 1 have "Suc n \<le> k \<and> k < 8 \<and> \<not> bit b k \<and> (\<forall>j. Suc n \<le> j \<and> j < k \<longrightarrow> bit b j)"
      by (simp add: find_free_bit.simps [of b n])
    moreover have "n \<le> j \<longleftrightarrow> j = n \<or> Suc n \<le> j" for j by auto
    ultimately show ?thesis using True by auto
  next
    case False
    with 1(2) show ?thesis by (auto simp: find_free_bit.simps [of b n] split: if_splits)
  qed
qed

lemma find_free_bit_None: "find_free_bit b n = None \<Longrightarrow> n \<le> k \<Longrightarrow> k < 8 \<Longrightarrow> bit b k"
proof (induction b n rule: find_free_bit.induct)
  case (1 b n)
  from 1(2,3,4) have "n < 8" "bit b n" "find_free_bit b (Suc n) = None"
    by (auto simp: find_free_bit.simps [of b n] split: if_splits)
  moreover have "k = n \<or> Suc n \<le> k" using 1(3) by auto
  ultimately show ?case using 1(1,4) by auto
qed

lemma find_free_bit_full: "find_free_bit b 0 = None \<longleftrightarrow> b = 0xFF"
proof
  assume "find_free_bit b 0 = None"
  then have "\<forall>k < LENGTH(8). bit b k" using find_free_bit_None [of b 0] by simp
  then show "b = 0xFF" by (simp only: word_eq_minus_one_iff_bits [symmetric]) simp
next
  assume b: "b = 0xFF"
  then have "\<forall>k < LENGTH(8). bit b k" by (simp only: word_eq_minus_one_iff_bits [symmetric]) simp
  then show "find_free_bit b 0 = None"
    by (cases "find_free_bit b 0") (auto dest: find_free_bit_Some)
qed

text \<open>The scan finds the first clear bit at or after byte \<open>i\<close>, if there is one.\<close>

lemma bitmap_scan_spec:
  assumes "i \<le> BITMAP_SIZE"
  shows "(\<exists>k. bitmap_scan bm i = of_nat k \<and> 8 * i \<le> k \<and> k < 8 * BITMAP_SIZE \<and>
      \<not> bit (bm (k div 8)) (k mod 8) \<and> (\<forall>j. 8 * i \<le> j \<and> j < k \<longrightarrow> bit (bm (j div 8)) (j mod 8))) \<or>
    bitmap_scan bm i = MAX_FRAMES \<and>
      (\<forall>j. 8 * i \<le> j \<and> j < 8 * BITMAP_SIZE \<longrightarrow> bit (bm (j div 8)) (j mod 8))"
  using assms
proof (induction bm i rule: bitmap_scan.induct)
  case (1 bm i)
  show ?case
  proof (cases "i < BITMAP_SIZE")
    case False
    then have "bitmap_scan bm i = MAX_FRAMES" by (simp add: bitmap_scan.simps [of bm i])
    with False show ?thesis by auto
  next
    case i: True
    show ?thesis
    proof (cases "find_free_bit (bm i) 0")
      case None
      then have full: "bm i = 0xFF" by (simp add: find_free_bit_full)
      then have all: "bit (bm (j div 8)) (j mod 8)" if "8 * i \<le> j" "j < 8 * Suc i" for j
      proof -
        have "j div 8 = i" using that by simp
        then show ?thesis using find_free_bit_None [OF None, of "j mod 8"] by simp
      qed
      have eq: "bitmap_scan bm i = bitmap_scan bm (Suc i)"
        using i full by (simp add: bitmap_scan.simps [of bm i])
      have step: "8 * i \<le> j \<longleftrightarrow> 8 * i \<le> j \<and> j < 8 * Suc i \<or> 8 * Suc i \<le> j" for j
        by auto
      from 1(2) i full
      have "(\<exists>k. bitmap_scan bm (Suc i) = of_nat k \<and> 8 * Suc i \<le> k \<and> k < 8 * BITMAP_SIZE \<and>
          \<not> bit (bm (k div 8)) (k mod 8) \<and>
          (\<forall>j. 8 * Suc i \<le> j \<and> j < k \<longrightarrow> bit (bm (j div 8)) (j mod 8))) \<or>
        bitmap_scan bm (Suc i) = MAX_FRAMES \<and>
          (\<forall>j. 8 * Suc i \<le> j \<and> j < 8 * BITMAP_SIZE \<longrightarrow> bit (bm (j div 8)) (j mod 8))"
        by (simp only: not_not simp_thms Suc_leI)
      then show ?thesis unfolding eq using all by (metis step)
    next
      case (Some n)
      from find_free_bit_Some [OF this]
      have n: "n < 8" "\<not> bit (bm i) n" "\<And>j. j < n \<Longrightarrow> bit (bm i) j" by auto
      have "bm i \<noteq> 0xFF" using Some by (metis find_free_bit_full option.distinct(1))
      then have eq: "bitmap_scan bm i = of_nat (i * 8 + n)"
        using i Some by (simp add: bitmap_scan.simps [of bm i])
      have "bit (bm (j div 8)) (j mod 8)" if "8 * i \<le> j" "j < i * 8 + n" for j
      proof -
        have "j div 8 = i" "j mod 8 < n" using that n(1) by presburger+
        then show ?thesis using n(3) by simp
      qed
      moreover have "(i * 8 + n) div 8 = i" "(i * 8 + n) mod 8 = n" using n(1) by simp_all
      ultimately show ?thesis
        using eq i n by (intro disjI1 exI [of _ "i * 8 + n"]) auto
    qed
  qed
qed


lemma free_set_of_nat:
  assumes "k < 8 * BITMAP_SIZE"
  shows "of_nat k \<in> free_set s \<longleftrightarrow> \<not> bit (frame_bitmap s (k div 8)) (k mod 8)"
  using assms by (simp add: free_set_def bitmap_test_bit word_less_nat_alt unsigned_of_nat take_bit_eq_mod)

lemma free_set_unat:
  "f \<in> free_set s \<longleftrightarrow> unat f < 8 * BITMAP_SIZE \<and> \<not> bit (frame_bitmap s (unat f div 8)) (unat f mod 8)"
  by (simp add: free_set_def bitmap_test_bit word_less_nat_alt)

text \<open>The frame found is the lowest free one; \<^verbatim>\<open>MAX_FRAMES\<close> means that there is none.\<close>

lemma bitmap_find_free_none:
  assumes "free_set s = {}"
  shows "bitmap_find_free s = MAX_FRAMES"
  using bitmap_scan_spec [of 0 "frame_bitmap s"] assms
  by (auto simp: bitmap_find_free_def) (use free_set_of_nat assms in force)

lemma bitmap_find_free_Min:
  assumes "free_set s \<noteq> {}"
  shows "bitmap_find_free s = Min (free_set s)"
proof -
  obtain g where g: "g \<in> free_set s" using assms by blast
  with bitmap_scan_spec [of 0 "frame_bitmap s"] obtain k where
    k: "bitmap_find_free s = of_nat k" "k < 8 * BITMAP_SIZE"
      "\<not> bit (frame_bitmap s (k div 8)) (k mod 8)"
      "\<And>j. j < k \<Longrightarrow> bit (frame_bitmap s (j div 8)) (j mod 8)"
    by (auto simp: bitmap_find_free_def free_set_unat)
  have "of_nat k \<le> f" if "f \<in> free_set s" for f
  proof -
    have "k \<le> unat f" using k(4) [of "unat f"] that by (auto simp: free_set_unat not_le [symmetric])
    then show ?thesis
      using k(2) by (simp add: word_le_nat_alt unsigned_of_nat take_bit_eq_mod)
  qed
  moreover have "of_nat k \<in> free_set s" using k(2,3) free_set_of_nat by blast
  ultimately show ?thesis using k(1) by (metis Min_eqI free_set_finite)
qed

lemma bitmap_find_free_in:
  assumes "free_set s \<noteq> {}"
  shows "bitmap_find_free s \<in> free_set s"
  using assms by (simp add: bitmap_find_free_Min)


section \<open>Invariant\<close>

text \<open>
  \<open>M\<close> is the set of frames the boot loader reported as available. The counters
  agree with the bitmap, only managed frames are free, and frame 0 (the null
  page) is never free.
\<close>

definition pmm_inv :: "u32 set \<Rightarrow> 'z pmm_st_scheme \<Rightarrow> bool" where
  "pmm_inv M s \<longleftrightarrow> initialized s \<and> bitmap s = FrameBitmap \<and>
     M \<subseteq> {f. f < MAX_FRAMES} \<and> free_set s \<subseteq> M \<and> 0 \<notin> free_set s \<and>
     unat (total_frames s) = card M \<and> unat (free_frames s) = card (free_set s)"

text \<open>The pages (addresses) of free frames, and those of the frames under management.\<close>

definition avail_pages :: "'z pmm_st_scheme \<Rightarrow> addr set" where
  "avail_pages s = (\<lambda>f. f * FRAME_SIZE) ` free_set s"

definition managed_pages :: "u32 set \<Rightarrow> addr set" where
  "managed_pages M = (\<lambda>f. f * FRAME_SIZE) ` {f \<in> M. f \<noteq> 0 \<and> f < MAX_FRAMES}"

lemma frame_addr_div [simp]: "f < MAX_FRAMES \<Longrightarrow> f * 4096 div 4096 = f" for f :: u32
  by (rule frame_of_frame_addr) (simp add: word_less_nat_alt)

lemma frame_addr_mod [simp]: "f < MAX_FRAMES \<Longrightarrow> f * 4096 mod 4096 = 0" for f :: u32
  by (simp add: word_unat_eq_iff unat_mod unat_frame_addr word_less_nat_alt)

lemma frame_addr_and [simp]: "f * 4096 AND 4095 = 0" for f :: u32
  using page_aligned_frame_addr [of f] by (simp add: page_aligned_def)

lemma frame_addr_inj: "f < MAX_FRAMES \<Longrightarrow> g < MAX_FRAMES \<Longrightarrow> f * 4096 = g * 4096 \<longleftrightarrow> f = g" for f g :: u32
  by (metis frame_addr_div)

lemma frame_addr_eq_0: "f < MAX_FRAMES \<Longrightarrow> f * 4096 = 0 \<longleftrightarrow> f = 0" for f :: u32
  using frame_addr_inj [of f 0] by simp

lemma free_frames_le_total:
  assumes "pmm_inv M s"
  shows "free_frames s \<le> total_frames s"
  using assms by (auto simp: pmm_inv_def word_le_nat_alt intro: card_mono)

lemma free_frames_eq_0:
  assumes "pmm_inv M s"
  shows "free_frames s = 0 \<longleftrightarrow> free_set s = {}"
  using assms by (auto simp: pmm_inv_def simp flip: unat_eq_zero)

text \<open>The whole of \<^verbatim>\<open>pmm_alloc_page\<close> on states that satisfy the invariant.\<close>

lemma pmm_alloc_page_inv:
  assumes "pmm_inv M s"
  shows "pmm_alloc_page s =
    (if free_set s = {} then Inr (0, s)
     else Inr (Min (free_set s) * FRAME_SIZE,
       (bitmap_or_bit (Min (free_set s)) s)\<lparr>free_frames := free_frames s - 1\<rparr>))"
proof -
  have i: "initialized s" "bitmap s \<noteq> NullBitmap" using assms by (auto simp: pmm_inv_def)
  show ?thesis
  proof (cases "free_set s = {}")
    case True
    with i free_frames_eq_0 [OF assms] free_frames_le_total [OF assms] show ?thesis
      by (simp add: pmm_alloc_page_def)
  next
    case False
    define f where "f = Min (free_set s)"
    have "f \<in> free_set s" using False by (simp add: f_def)
    then have "f < MAX_FRAMES" "\<not> MAX_FRAMES \<le> f" "\<not> bitmap_test s f"
      by (auto simp: free_set_def)
    moreover have "bitmap_find_free s = f" using False by (simp add: f_def bitmap_find_free_Min)
    ultimately show ?thesis
      using i False free_frames_eq_0 [OF assms] free_frames_le_total [OF assms]
      by (simp add: pmm_alloc_page_def Let_def f_def [symmetric])
  qed
qed

lemma pmm_inv_alloc:
  assumes "pmm_inv M s" and "f \<in> free_set s"
  shows "pmm_inv M ((bitmap_or_bit f s)\<lparr>free_frames := free_frames s - 1\<rparr>)"
proof -
  have f: "f < MAX_FRAMES" using assms(2) by (simp add: free_set_def)
  have "free_frames s \<noteq> 0" using assms free_frames_eq_0 by blast
  then have "unat (free_frames s - 1) = card (free_set s) - 1"
    using assms(1) by (simp add: pmm_inv_def unat_minus_one)
  with assms f show ?thesis by (auto simp: pmm_inv_def)
qed

text \<open>\<^verbatim>\<open>pmm_free_page\<close> on an allocated page and on a free one (a double free).\<close>

lemma pmm_free_page_inv:
  assumes "pmm_inv M s" and "f \<in> M" and "f \<notin> free_set s"
  shows "pmm_free_page (f * FRAME_SIZE) s =
    Inr ((bitmap_and_not_bit f s)\<lparr>free_frames := free_frames s + 1\<rparr>)"
    and "f \<noteq> 0 \<Longrightarrow> pmm_inv M ((bitmap_and_not_bit f s)\<lparr>free_frames := free_frames s + 1\<rparr>)"
proof -
  have f: "f < MAX_FRAMES" and i: "initialized s" "bitmap s \<noteq> NullBitmap"
    using assms by (auto simp: pmm_inv_def)
  then have t: "bitmap_test s f" using assms(3) by (simp add: free_set_def)
  have fin: "finite M" by simp
  have lt: "card (insert f (free_set s)) \<le> card M"
    using assms by (intro card_mono fin) (auto simp: pmm_inv_def)
  then have "unat (free_frames s) < unat (total_frames s)"
    using assms by (auto simp: pmm_inv_def)
  then have c: "unat (free_frames s + 1) = Suc (unat (free_frames s))"
    by (simp add: unat_Suc_less word_less_nat_alt)
  then have "free_frames s + 1 \<le> total_frames s"
    using lt assms by (auto simp: pmm_inv_def word_le_nat_alt)
  with f i t show "pmm_free_page (f * FRAME_SIZE) s =
    Inr ((bitmap_and_not_bit f s)\<lparr>free_frames := free_frames s + 1\<rparr>)"
    by (simp add: pmm_free_page_def Let_def)
  show "pmm_inv M ((bitmap_and_not_bit f s)\<lparr>free_frames := free_frames s + 1\<rparr>)" if "f \<noteq> 0"
    using assms c f that by (auto simp: pmm_inv_def)
qed

lemma pmm_free_page_double:
  assumes "pmm_inv M s" and "f \<in> free_set s"
  shows "pmm_free_page (f * FRAME_SIZE) s = Inr s"
proof -
  have "f < MAX_FRAMES" "\<not> bitmap_test s f" using assms(2) by (auto simp: free_set_def)
  with assms(1) show ?thesis by (simp add: pmm_free_page_def pmm_inv_def Let_def)
qed


text \<open>The contract of the allocator, discharged for the code's model.\<close>

lemma avail_pages_iff:
  assumes "f < MAX_FRAMES"
  shows "f * FRAME_SIZE \<in> avail_pages s \<longleftrightarrow> f \<in> free_set s"
  using assms by (auto simp: avail_pages_def free_set_def frame_addr_inj)

lemma avail_pages_upd [simp]: "avail_pages (s\<lparr>free_frames := x\<rparr>) = avail_pages s"
  by (simp add: avail_pages_def)

lemma avail_pages_or_bit:
  assumes "f < MAX_FRAMES"
  shows "avail_pages (bitmap_or_bit f s) = avail_pages s - {f * FRAME_SIZE}"
  using assms by (auto simp: avail_pages_def free_set_def frame_addr_inj)

lemma avail_pages_and_not_bit:
  assumes "f < MAX_FRAMES"
  shows "avail_pages (bitmap_and_not_bit f s) = insert (f * FRAME_SIZE) (avail_pages s)"
  using assms by (simp add: avail_pages_def)

interpretation pmm: frame_allocator
  pmm_alloc_page pmm_free_page "pmm_inv M" avail_pages "managed_pages M"
  for M
proof (unfold_locales, goal_cases)
  case (1 s)
  then have ne: "free_set s \<noteq> {}" by (auto simp: avail_pages_def)
  then have f: "Min (free_set s) \<in> free_set s" by simp
  then have "Min (free_set s) < MAX_FRAMES" by (simp add: free_set_def del: Min_less_iff)
  then show ?case
    using 1 ne f pmm_inv_alloc [OF 1(1) f] by (auto simp: pmm_alloc_page_inv avail_pages_or_bit avail_pages_iff)
next
  case (2 s)
  then show ?case by (simp add: pmm_alloc_page_inv avail_pages_def)
next
  case (3 s p)
  then obtain f where f: "p = f * FRAME_SIZE" "f \<in> M" "f \<noteq> 0" by (auto simp: managed_pages_def)
  then have lt: "f < MAX_FRAMES" using 3(1) by (auto simp: pmm_inv_def)
  then have "f \<notin> free_set s" using 3(3) f(1) avail_pages_iff by blast
  with pmm_free_page_inv [OF 3(1) f(2)] f lt show ?case by (simp add: avail_pages_and_not_bit)
next
  case (4 s)
  then show ?case by (auto simp: pmm_inv_def avail_pages_def managed_pages_def)
next
  case (5 p)
  then show ?case by (auto simp: managed_pages_def frame_addr_eq_0 page_aligned_frame_addr)
qed


section \<open>Reservation\<close>

text \<open>Fields that \<^verbatim>\<open>pmm_reserve_region\<close> and its loop leave alone.\<close>

definition same_setup :: "'z pmm_st_scheme \<Rightarrow> 'z pmm_st_scheme \<Rightarrow> bool" where
  "same_setup s t \<longleftrightarrow> kernel_assert t = kernel_assert s \<and> bitmap t = bitmap s \<and>
     total_frames t = total_frames s \<and> initialized t = initialized s \<and> pmm_st.more t = pmm_st.more s"

lemma same_setup_refl [simp]: "same_setup s s"
  by (simp add: same_setup_def)

lemma same_setup_trans: "same_setup s t \<Longrightarrow> same_setup t u \<Longrightarrow> same_setup s u"
  by (simp add: same_setup_def)

text \<open>The free counter is exact: it is the number of clear bits.\<close>

definition count_ok :: "'z pmm_st_scheme \<Rightarrow> bool" where
  "count_ok s \<longleftrightarrow> unat (free_frames s) = card (free_set s)"

lemma reserve_frame_spec:
  "\<exists>t. reserve_frame f s = Inr t \<and> same_setup s t \<and> free_set t = free_set s - {f} \<and>
     (count_ok s \<and> (f \<in> free_set s \<longrightarrow> f < total_frames s) \<longrightarrow> count_ok t)"
proof (cases "f < MAX_FRAMES")
  case False
  then show ?thesis by (simp add: reserve_frame_def) (auto simp: free_set_def)
next
  case True
  then have t: "bitmap_test s f \<longleftrightarrow> f \<notin> free_set s" by (simp add: free_set_def)
  show ?thesis
  proof (cases "f \<in> free_set s \<and> f < total_frames s \<and> free_frames s > 0")
    case c: True
    then have "unat (free_frames s - 1) = unat (free_frames s) - 1"
      by (metis less_irrefl unat_minus_one)
    with True c t show ?thesis
      by (auto simp: reserve_frame_def same_setup_def count_ok_def Let_def)
  next
    case c: False
    then have "reserve_frame f s = Inr (bitmap_or_bit f s)"
      using True t by (auto simp: reserve_frame_def Let_def)
    moreover have "f \<notin> free_set s" if "count_ok s" "f \<in> free_set s \<longrightarrow> f < total_frames s"
      using that c by (auto simp: count_ok_def word_neq_0_conv [symmetric])
    ultimately show ?thesis using True
      by (auto simp: same_setup_def count_ok_def)
  qed
qed

lemma word_interval_step:
  fixes f e :: "'a::len word"
  assumes "f < e"
  shows "{g. f \<le> g \<and> g < e} = insert f {g. f + 1 \<le> g \<and> g < e}"
  using assms by (auto simp: less_plus_one_iff [OF assms])

lemma reserve_frames_spec:
  "\<exists>t. reserve_frames f e s = Inr t \<and> same_setup s t \<and>
     free_set t = free_set s - {g. f \<le> g \<and> g < e} \<and>
     (count_ok s \<and> (\<forall>g \<in> free_set s. f \<le> g \<and> g < e \<longrightarrow> g < total_frames s) \<longrightarrow> count_ok t)"
proof (induction f e s rule: reserve_frames.induct)
  case (1 f e s)
  show ?case
  proof (cases "f < e")
    case False
    then have "{g. f \<le> g \<and> g < e} = {}" by auto
    then have "free_set s = free_set s - {g. f \<le> g \<and> g < e}" by blast
    with False show ?thesis by (simp add: reserve_frames.simps [of f e])
  next
    case True
    obtain u where u: "reserve_frame f s = Inr u" "same_setup s u" "free_set u = free_set s - {f}"
      "count_ok s \<Longrightarrow> f \<in> free_set s \<longrightarrow> f < total_frames s \<Longrightarrow> count_ok u"
      using reserve_frame_spec by blast
    from 1 [OF True u(1)] obtain t where t: "reserve_frames (f + 1) e u = Inr t" "same_setup u t"
      "free_set t = free_set u - {g. f + 1 \<le> g \<and> g < e}"
      "count_ok u \<Longrightarrow> \<forall>g \<in> free_set u. f + 1 \<le> g \<and> g < e \<longrightarrow> g < total_frames u \<Longrightarrow> count_ok t"
      by blast
    have "reserve_frames f e s = Inr t"
      using True u(1) t(1) by (simp add: reserve_frames.simps [of f e])
    moreover have "same_setup s t" using u(2) t(2) by (rule same_setup_trans)
    moreover have "free_set t = free_set s - {g. f \<le> g \<and> g < e}"
      using u(3) t(3) by (auto simp: word_interval_step [OF True])
    moreover have "count_ok t" if "count_ok s" "\<forall>g \<in> free_set s. f \<le> g \<and> g < e \<longrightarrow> g < total_frames s"
    proof (rule t(4))
      show "count_ok u" using that True by (intro u(4)) auto
      show "\<forall>g \<in> free_set u. f + 1 \<le> g \<and> g < e \<longrightarrow> g < total_frames u"
        using that(2) u(2,3) by (auto simp: same_setup_def less_plus_one_iff [OF True])
    qed
    ultimately show ?thesis by blast
  qed
qed

text \<open>The frames a region touches, when its last byte does not pass the end of the address space.\<close>

definition region_frames :: "addr \<Rightarrow> u32 \<Rightarrow> u32 set" where
  "region_frames start sz = {g. \<exists>b. unat start \<le> b \<and> b < unat start + unat sz \<and> unat g = b div 4096}"

lemma region_frames_interval:
  assumes "unat start + unat sz + 4095 < 2 ^ 32" and "0 < sz"
  shows "region_frames start sz =
    {g. start div FRAME_SIZE \<le> g \<and> g < (start + sz + FRAME_SIZE - 1) div FRAME_SIZE}"
proof -
  have e: "unat (4095 + (start + sz)) = unat start + unat sz + 4095"
    using assms(1) by (simp add: unat_word_ariths)
  have "(\<exists>b. unat start \<le> b \<and> b < unat start + unat sz \<and> unat g = b div 4096) \<longleftrightarrow>
    unat start div 4096 \<le> unat g \<and> unat g < (unat start + unat sz + 4095) div 4096" (is "?l \<longleftrightarrow> ?r") for g :: u32
  proof
    assume ?l
    then show ?r by (auto intro: div_le_mono)
  next
    assume r: ?r
    show ?l
    proof (cases "unat start \<le> unat g * 4096")
      case True
      have "Suc (unat g) \<le> (unat start + unat sz + 4095) div 4096" using r by simp
      then have "Suc (unat g) * 4096 \<le> unat start + unat sz + 4095"
        by (subst (asm) less_eq_div_iff_mult_less_eq) simp_all
      then have "unat g * 4096 < unat start + unat sz" by simp
      with True show ?thesis by (intro exI [of _ "unat g * 4096"]) simp
    next
      case False
      moreover have "unat g \<le> unat start div 4096"
        using False by (simp add: less_eq_div_iff_mult_less_eq)
      with r have "unat start div 4096 = unat g" by simp
      moreover have "0 < unat sz" using assms(2) by (simp add: word_less_nat_alt)
      ultimately show ?thesis using \<open>unat start div 4096 = unat g\<close>
        by (intro exI [of _ "unat start"]) simp
    qed
  qed
  then show ?thesis
    by (simp add: region_frames_def word_le_nat_alt word_less_nat_alt unat_div e)
qed


lemma reserve_region_spec:
  assumes "unat start + unat sz + 4095 < 2 ^ 32" and "0 < sz"
  shows "\<exists>t. pmm_reserve_region start sz s = Inr t \<and> same_setup s t \<and>
    free_set t = free_set s - region_frames start sz \<and>
    (count_ok s \<and> (\<forall>g \<in> free_set s \<inter> region_frames start sz. g < total_frames s) \<longrightarrow> count_ok t)"
  using reserve_frames_spec [of "start div FRAME_SIZE" "(start + sz + FRAME_SIZE - 1) div FRAME_SIZE" s]
  by (simp add: pmm_reserve_region_def Let_def region_frames_interval [OF assms] Ball_def) blast


section \<open>Properties\<close>

text \<open>A state with the eight frames 8 to 15 under management, all free.\<close>

definition sample_pmm :: pmm_st where
  "sample_pmm = \<lparr>kernel_assert = True, frame_bitmap = (\<lambda>_. 0xFF)(1 := 0), bitmap = FrameBitmap,
     total_frames = 8, free_frames = 8, reserved_frames = 0, initialized = True\<rparr>"

lemma bit_full_byte [simp]: "bit (255 :: int) (n mod 8)"
proof -
  have "(255 :: int) = mask 8" by (simp add: mask_eq_exp_minus_1)
  then show ?thesis by (simp only: bit_mask_iff) simp
qed

lemma sample_free_set: "free_set sample_pmm = {8, 9, 10, 11, 12, 13, 14, 15}"
proof -
  have "f \<in> free_set sample_pmm \<longleftrightarrow> unat f div 8 = 1" for f
    by (auto simp: free_set_unat sample_pmm_def)
  moreover have "n div 8 = 1 \<longleftrightarrow> n \<in> {8..<16}" for n :: nat by auto
  moreover have "{8..<16 :: nat} = {8, 9, 10, 11, 12, 13, 14, 15}" by auto
  ultimately show ?thesis by (simp only: set_eq_iff insert_iff empty_iff word_unat_eq_iff) simp
qed

lemma sample_pmm_inv: "pmm_inv {8, 9, 10, 11, 12, 13, 14, 15} sample_pmm"
  unfolding pmm_inv_def sample_free_set by (simp add: sample_pmm_def)

text \<open>
  C7: on every state that satisfies the invariant, \<^verbatim>\<open>pmm_alloc_page\<close> returns without a
  failed assertion and keeps the invariant; it returns 0, with the state
  unchanged, exactly when no frame is free, and otherwise the page-aligned
  address of the lowest free frame, which alone stops being free.
\<close>

theorem pmm_alloc_page_correct:
  assumes "pmm_inv M s"
  shows "\<exists>p s'. pmm_alloc_page s = Inr (p, s') \<and> pmm_inv M s' \<and>
    (p = 0 \<longleftrightarrow> free_set s = {}) \<and> (p = 0 \<longrightarrow> s' = s) \<and>
    (p \<noteq> 0 \<longrightarrow> page_aligned p \<and> p div FRAME_SIZE = Min (free_set s) \<and>
      free_set s' = free_set s - {Min (free_set s)})"
proof (cases "free_set s = {}")
  case True
  with assms show ?thesis by (simp add: pmm_alloc_page_inv)
next
  case False
  define f where "f = Min (free_set s)"
  have f: "f \<in> free_set s" using False by (simp add: f_def)
  then have lt: "f < MAX_FRAMES" and nz: "f * FRAME_SIZE \<noteq> 0"
    using assms by (auto simp: free_set_def pmm_inv_def frame_addr_eq_0)
  have "pmm_alloc_page s = Inr (f * FRAME_SIZE, (bitmap_or_bit f s)\<lparr>free_frames := free_frames s - 1\<rparr>)"
    using pmm_alloc_page_inv [OF assms] False by (simp add: f_def)
  with False lt nz pmm_inv_alloc [OF assms f] show ?thesis
    by (simp add: page_aligned_frame_addr f_def [symmetric])
qed

theorem pmm_alloc_page_correct_witness:
  "\<exists>p s'. pmm_alloc_page sample_pmm = Inr (p, s') \<and> p div FRAME_SIZE = 8"
  using pmm_alloc_page_correct [OF sample_pmm_inv] by (auto simp: sample_free_set)

text \<open>
  C9: releasing the page that an allocation returned gives back the state before
  the allocation, bit for bit and counter for counter.
\<close>

theorem pmm_alloc_free_restores:
  assumes "pmm_inv M s" and "pmm_alloc_page s = Inr (p, s')" and "p \<noteq> 0"
  shows "pmm_free_page p s' = Inr s"
proof -
  define f where "f = Min (free_set s)"
  have ne: "free_set s \<noteq> {}" using assms pmm_alloc_page_inv by fastforce
  then have f: "f \<in> free_set s" "f < MAX_FRAMES" "\<not> bitmap_test s f"
    using Min_in [of "free_set s"] by (auto simp: f_def free_set_def simp del: Min_less_iff)
  have p: "p = f * FRAME_SIZE" "s' = (bitmap_or_bit f s)\<lparr>free_frames := free_frames s - 1\<rparr>"
    using assms(2) pmm_alloc_page_inv [OF assms(1)] ne by (auto simp: f_def)
  have "pmm_inv M s'" "f \<in> M" "f \<notin> free_set s'"
    using p pmm_inv_alloc [OF assms(1) f(1)] f assms(1) by (auto simp: pmm_inv_def)
  then have "pmm_free_page p s' = Inr ((bitmap_and_not_bit f s')\<lparr>free_frames := free_frames s' + 1\<rparr>)"
    unfolding p(1) by (rule pmm_free_page_inv)
  also have "(bitmap_and_not_bit f s')\<lparr>free_frames := free_frames s' + 1\<rparr> = s"
    using or_bit_and_not_bit [OF f(3), of "free_frames s"] unfolding p(2) by simp
  finally show ?thesis .
qed

theorem pmm_alloc_free_restores_witness:
  "\<exists>s'. pmm_alloc_page sample_pmm = Inr (32768, s') \<and> pmm_free_page 32768 s' = Inr sample_pmm"
proof -
  have "pmm_alloc_page sample_pmm =
    Inr (32768, (bitmap_or_bit 8 sample_pmm)\<lparr>free_frames := free_frames sample_pmm - 1\<rparr>)"
    using pmm_alloc_page_inv [OF sample_pmm_inv] by (simp add: sample_free_set)
  with pmm_alloc_free_restores [OF sample_pmm_inv this] show ?thesis by simp
qed

text \<open>
  C8: from a state that satisfies the invariant, every sequence of allocations and of
  releases of held pages runs without a failed assertion and keeps the
  invariant; the pages the clients hold at the end are pairwise distinct,
  aligned, not null, were free at the start and are not free now: no page is
  ever handed out twice.
\<close>

theorem pmm_requests_safe:
  assumes "pmm_inv M s"
  shows "\<exists>held s'. run_requests pmm_alloc_page pmm_free_page rs s [] = Inr (held, s') \<and>
    pmm_inv M s' \<and> distinct held \<and>
    (\<forall>p \<in> set held. p \<noteq> 0 \<and> page_aligned p \<and> p \<in> avail_pages s \<and> p \<notin> avail_pages s') \<and>
    avail_pages s' \<union> set held = avail_pages s"
proof -
  have "pmm.holds M s []" using assms by (simp add: pmm.holds_def)
  from pmm.run_requests_holds [OF this, of rs] obtain held s' where
    h: "run_requests pmm_alloc_page pmm_free_page rs s [] = Inr (held, s')"
      "pmm.holds M s' held" "avail_pages s' \<union> set held = avail_pages s" by auto
  then show ?thesis
    using pmm.managed_page by (fastforce simp: pmm.holds_def)
qed

theorem pmm_requests_safe_witness:
  "\<exists>held s'. run_requests pmm_alloc_page pmm_free_page [Alloc, Alloc, Release 32768, Alloc] sample_pmm []
     = Inr (held, s') \<and> distinct held"
  using pmm_requests_safe [OF sample_pmm_inv, of "[Alloc, Alloc, Release 32768, Alloc]"] by blast

text \<open>
  C10: \<^verbatim>\<open>pmm_free_page\<close> on a managed page other than the null page: a held page becomes
  free and the invariant is kept; a page that is already free (a double free)
  changes nothing. No assertion fails in either case.
\<close>

theorem pmm_free_page_correct:
  assumes "pmm_inv M s" and "f \<in> M" and "f \<noteq> 0"
  shows "if f \<in> free_set s then pmm_free_page (f * FRAME_SIZE) s = Inr s
    else \<exists>s'. pmm_free_page (f * FRAME_SIZE) s = Inr s' \<and> pmm_inv M s' \<and>
      free_set s' = insert f (free_set s)"
proof -
  have "f < MAX_FRAMES" using assms by (auto simp: pmm_inv_def)
  then show ?thesis
    using pmm_free_page_inv [OF assms(1,2)] pmm_free_page_double [OF assms(1)] assms(3) by simp
qed

theorem pmm_free_page_correct_witness:
  "pmm_free_page (8 * FRAME_SIZE) sample_pmm = Inr sample_pmm \<and>
   (\<exists>s'. pmm_free_page (8 * FRAME_SIZE) ((bitmap_or_bit 8 sample_pmm)\<lparr>free_frames := free_frames sample_pmm - 1\<rparr>)
     = Inr s' \<and> 8 \<in> free_set s')"
proof -
  have 8: "8 \<in> free_set sample_pmm" "8 \<in> {8, 9, 10, 11, 12, 13, 14, 15 :: u32}" "(8 :: u32) \<noteq> 0"
    by (simp_all add: sample_free_set)
  have "8 \<notin> free_set ((bitmap_or_bit 8 sample_pmm)\<lparr>free_frames := free_frames sample_pmm - 1\<rparr>)" by simp
  with pmm_free_page_correct [OF pmm_inv_alloc [OF sample_pmm_inv 8(1)] 8(2,3)]
    pmm_free_page_correct [OF sample_pmm_inv 8(2,3)] 8(1)
  show ?thesis by (metis insertI1)
qed

text \<open>
  reserving a non-empty region that ends at least a page before the end of the address
  space never fails an assertion and withdraws from the free frames exactly
  those that share a byte with the region; the free counter stays exact if
  every free frame of the region lies below the total frame count.
\<close>

theorem pmm_reserve_region_correct:
  assumes "unat start + unat sz + 4095 < 2 ^ 32" and "0 < sz"
  shows "\<exists>t. pmm_reserve_region start sz s = Inr t \<and> same_setup s t \<and>
    free_set t = free_set s - region_frames start sz \<and>
    (count_ok s \<and> (\<forall>g \<in> free_set s \<inter> region_frames start sz. g < total_frames s) \<longrightarrow> count_ok t)"
  using assms by (rule reserve_region_spec)

theorem pmm_reserve_region_correct_witness:
  "\<exists>t. pmm_reserve_region 0x8000 1 sample_pmm = Inr t \<and>
     free_set t = free_set sample_pmm - region_frames 0x8000 1"
  using pmm_reserve_region_correct [of "0x8000" 1 sample_pmm] by auto

text \<open>
  A region that ends within the last page of the address space, or right at its
  end, is not reserved at all: the rounded end address wraps to a frame below
  the first one and the loop body never runs.
\<close>

theorem pmm_reserve_region_wraps:
  assumes "2 ^ 32 - 4095 \<le> unat start + unat sz" and "unat start + unat sz \<le> 2 ^ 32"
  shows "pmm_reserve_region start sz s = Inr s"
proof -
  have "4095 + (start + sz) = of_nat (unat start + unat sz + 4095)" by simp
  also have "\<dots> = of_nat (unat start + unat sz + 4095 - 2 ^ 32)"
    using assms(1) by (simp add: of_nat_diff)
  finally have "unat (4095 + (start + sz)) = unat start + unat sz + 4095 - 2 ^ 32"
    using assms(2) by (simp add: unsigned_of_nat take_bit_eq_mod)
  also have "\<dots> < 4096" using assms(2) by simp
  finally have "(4095 + (start + sz)) div 4096 = 0"
    by (simp add: word_unat_eq_iff unat_div)
  then show ?thesis
    by (simp add: pmm_reserve_region_def Let_def reserve_frames.simps)
qed

theorem pmm_reserve_region_wraps_witness:
  "pmm_reserve_region 0xFFFFF000 0x1000 sample_pmm = Inr sample_pmm"
  using pmm_reserve_region_wraps [of "0xFFFFF000" "0x1000" sample_pmm] by simp

end
