(* ===== verification/Pmm_Init.thy ===== *)
theory Pmm_Init
  imports Pmm
begin

text \<open>
  Initialisation of the physical memory manager, \<^verbatim>\<open>pmm_init\<close> of \<^verbatim>\<open>mm/pmm.c\<close>: the
  check of the boot loader's data, the walk over its memory map, the fallback
  of 128 MB, and the reservation of the null page, the VGA text buffer and the
  kernel image. The addresses of the linker symbols \<^verbatim>\<open>_kernel_start\<close> and
  \<^verbatim>\<open>_kernel_end\<close> are parameters. The walk follows sizes read from memory, so it
  may run forever: that is the result \<open>None\<close>.
\<close>

section \<open>Multiboot structures\<close>

record mmap_entry =
  me_size :: u32
  me_addr :: u64
  me_len :: u64
  me_type :: u32

definition read_mmap_entry :: "mem \<Rightarrow> addr \<Rightarrow> mmap_entry" where
  "read_mmap_entry m p = \<lparr>me_size = read32 m p, me_addr = read64 m (p + 4),
     me_len = read64 m (p + 12), me_type = read32 m (p + 20)\<rparr>"

record multiboot_info =
  mb_flags :: u32
  mb_mmap_length :: u32
  mb_mmap_addr :: u32

text \<open>The fields of \<^verbatim>\<open>struct multiboot_info\<close> that the code reads, at their packed offsets.\<close>

definition read_multiboot_info :: "mem \<Rightarrow> addr \<Rightarrow> multiboot_info" where
  "read_multiboot_info m p = \<lparr>mb_flags = read32 m p, mb_mmap_length = read32 m (p + 44),
     mb_mmap_addr = read32 m (p + 48)\<rparr>"

abbreviation MULTIBOOT_MAGIC :: u32 where "MULTIBOOT_MAGIC \<equiv> 0x2BADB002"
abbreviation MULTIBOOT_FLAG_MMAP :: u32 where "MULTIBOOT_FLAG_MMAP \<equiv> 0x040"
abbreviation MULTIBOOT_MEMORY_AVAILABLE :: u32 where "MULTIBOOT_MEMORY_AVAILABLE \<equiv> 1"


section \<open>Initialisation\<close>

text \<open>All frames allocated, all counters zero.\<close>

definition pmm_reset :: "'z pmm_st_scheme \<Rightarrow> 'z pmm_st_scheme" where
  "pmm_reset s = s\<lparr>frame_bitmap := fold (\<lambda>i bm. bm(i := 0xFF)) [0..<BITMAP_SIZE] (frame_bitmap s),
     bitmap := FrameBitmap, total_frames := 0, free_frames := 0, reserved_frames := 0\<rparr>"

text \<open>One frame made available, and the loop over the frames of an available region.\<close>

definition add_free_frame :: "u32 \<Rightarrow> 'z pmm_st_scheme \<Rightarrow> fault + 'z pmm_st_scheme" where
  "add_free_frame frame s = andthen (bitmap_clear frame s) (\<lambda>s.
     Inr (s\<lparr>total_frames := total_frames s + 1, free_frames := free_frames s + 1\<rparr>))"

function mark_available :: "u64 \<Rightarrow> u64 \<Rightarrow> 'z pmm_st_scheme \<Rightarrow> fault + 'z pmm_st_scheme" where
  "mark_available frame frame_end s =
     (if frame < frame_end then
        andthen (if frame < 1048576 then add_free_frame (ucast frame) s else Inr s)
          (\<lambda>s. mark_available (frame + 1) frame_end s)
      else Inr s)"
  by pat_completeness auto
termination
  by (relation "measure (\<lambda>(f, e, s). unat e - unat f)")
    (auto simp: unat_Suc_less word_less_nat_alt intro: diff_less_mono2)

declare mark_available.simps [simp del]

definition entry_first :: "mmap_entry \<Rightarrow> u64" where
  "entry_first x = (me_addr x + 4096 - 1) div 4096"

definition entry_end :: "mmap_entry \<Rightarrow> u64" where
  "entry_end x = (me_addr x + me_len x) div 4096"

definition add_entry :: "mmap_entry \<Rightarrow> 'z pmm_st_scheme \<Rightarrow> fault + 'z pmm_st_scheme" where
  "add_entry x s =
     (if me_type x = MULTIBOOT_MEMORY_AVAILABLE then mark_available (entry_first x) (entry_end x) s
      else Inr s)"

partial_function (option) parse_mmap ::
    "mem \<Rightarrow> addr \<Rightarrow> addr \<Rightarrow> 'z pmm_st_scheme \<Rightarrow> (fault + 'z pmm_st_scheme) option" where
  "parse_mmap m mmap mmap_end s =
     (if mmap < mmap_end then
        (let x = read_mmap_entry m mmap in
         case add_entry x s of
           Inl e \<Rightarrow> Some (Inl e)
         | Inr s \<Rightarrow> parse_mmap m (mmap + me_size x + 4) mmap_end s)
      else Some (Inr s))"

text \<open>The fallback: the first 128 MB are taken to be available.\<close>

function add_frames :: "u32 \<Rightarrow> u32 \<Rightarrow> 'z pmm_st_scheme \<Rightarrow> fault + 'z pmm_st_scheme" where
  "add_frames i n s =
     (if i < n \<and> i < MAX_FRAMES then
        andthen (add_free_frame i s) (\<lambda>s. add_frames (i + 1) n s)
      else Inr s)"
  by pat_completeness auto
termination
  by (relation "measure (\<lambda>(i, n, s). unat n - unat i)")
    (auto simp: unat_Suc_less word_less_nat_alt intro: diff_less_mono2)

declare add_frames.simps [simp del]

definition pmm_fallback :: "'z pmm_st_scheme \<Rightarrow> fault + 'z pmm_st_scheme" where
  "pmm_fallback s = add_frames 0 (128 * 1024 * 1024 div FRAME_SIZE) (pmm_reset s)"

definition reserve_critical :: "addr \<Rightarrow> addr \<Rightarrow> 'z pmm_st_scheme \<Rightarrow> fault + 'z pmm_st_scheme" where
  "reserve_critical kernel_start kernel_end s =
     andthen (pmm_reserve_region 0 FRAME_SIZE s) (\<lambda>s.
     andthen (pmm_reserve_region 0xb8000 (32 * 1024) s) (\<lambda>s.
     andthen (pmm_reserve_region kernel_start (kernel_end - kernel_start) s) (\<lambda>s.
     Inr (s\<lparr>initialized := True\<rparr>))))"

definition pmm_init :: "addr \<Rightarrow> addr \<Rightarrow> mem \<Rightarrow> u32 \<Rightarrow> addr \<Rightarrow> 'z pmm_st_scheme \<Rightarrow>
    (fault + 'z pmm_st_scheme) option" where
  "pmm_init kernel_start kernel_end m multiboot_magic mbi s =
     (let fallback = Some (andthen (pmm_fallback s) (reserve_critical kernel_start kernel_end)) in
      if multiboot_magic \<noteq> MULTIBOOT_MAGIC then fallback
      else if mbi = 0 \<or> mbi < 0x1000 then fallback
      else
        let info = read_multiboot_info m mbi in
        if mb_flags info AND MULTIBOOT_FLAG_MMAP = 0 then fallback
        else
          (case parse_mmap m (mb_mmap_addr info) (mb_mmap_addr info + mb_mmap_length info) (pmm_reset s) of
             None \<Rightarrow> None
           | Some r \<Rightarrow> Some (andthen r (reserve_critical kernel_start kernel_end))))"


section \<open>Available frames\<close>

text \<open>The frames that an entry makes available, in the 64-bit arithmetic of the code.\<close>

definition entry_frames :: "mmap_entry \<Rightarrow> u32 set" where
  "entry_frames x = {f. me_type x = MULTIBOOT_MEMORY_AVAILABLE \<and> f < MAX_FRAMES \<and>
     entry_first x \<le> ucast f \<and> ucast f < entry_end x}"

text \<open>The entries that the walk visits: the chain from \<open>p\<close> passes \<open>e\<close> after the last one.\<close>

fun mmap_chain :: "mem \<Rightarrow> addr \<Rightarrow> addr \<Rightarrow> mmap_entry list \<Rightarrow> bool" where
  "mmap_chain m p e [] = (e \<le> p)"
| "mmap_chain m p e (x # xs) =
     (p < e \<and> x = read_mmap_entry m p \<and> mmap_chain m (p + me_size x + 4) e xs)"

lemma bitmap_reset:
  "frame_bitmap (pmm_reset s) i = (if i < BITMAP_SIZE then 0xFF else frame_bitmap s i)"
proof -
  have "fold (\<lambda>i bm. bm(i := c)) [0..<n] f i = (if i < n then c else f i)"
    for n and f :: "nat \<Rightarrow> u8" and c
    by (induction n) auto
  then show ?thesis by (simp add: pmm_reset_def del: upt_rec_numeral)
qed

lemma free_set_reset [simp]: "free_set (pmm_reset s) = {}"
proof -
  have "bit (0xFF :: u8) (k mod 8)" for k :: nat
  proof -
    have "\<forall>n < LENGTH(8). bit (0xFF :: u8) n"
      by (simp only: word_eq_minus_one_iff_bits [symmetric]) simp
    then show ?thesis by simp
  qed
  then show ?thesis
    by (auto simp: free_set_unat bitmap_reset less_mult_imp_div_less)
qed

lemma pmm_reset_frame [simp]:
  "kernel_assert (pmm_reset s) = kernel_assert s" "bitmap (pmm_reset s) = FrameBitmap"
  "total_frames (pmm_reset s) = 0" "free_frames (pmm_reset s) = 0"
  "reserved_frames (pmm_reset s) = 0" "initialized (pmm_reset s) = initialized s"
  "pmm_st.more (pmm_reset s) = pmm_st.more s"
  by (simp_all add: pmm_reset_def)

text \<open>
  \<open>adds A n s t\<close>: from \<open>s\<close> to \<open>t\<close> the frames of \<open>A\<close> became free and \<open>n\<close> frames
  were counted, and nothing else changed.
\<close>

definition adds :: "u32 set \<Rightarrow> nat \<Rightarrow> 'z pmm_st_scheme \<Rightarrow> 'z pmm_st_scheme \<Rightarrow> bool" where
  "adds A n s t \<longleftrightarrow> kernel_assert t = kernel_assert s \<and> bitmap t = bitmap s \<and>
     initialized t = initialized s \<and> reserved_frames t = reserved_frames s \<and>
     pmm_st.more t = pmm_st.more s \<and> free_set t = free_set s \<union> A \<and>
     total_frames t = total_frames s + of_nat n \<and> free_frames t = free_frames s + of_nat n"

lemma adds_refl: "adds {} 0 s s"
  by (simp add: adds_def)

lemma adds_trans: "adds A n s t \<Longrightarrow> adds B m t u \<Longrightarrow> adds (A \<union> B) (n + m) s u"
  by (auto simp: adds_def)

lemma add_free_frame_adds:
  assumes "f < MAX_FRAMES"
  shows "\<exists>t. add_free_frame f s = Inr t \<and> adds {f} 1 s t"
  using assms by (simp add: add_free_frame_def adds_def)

lemma unat_ucast_up [simp]: "unat (ucast (g :: u32) :: u64) = unat g"
  by (simp add: unsigned_ucast_eq take_bit_eq_mod order_less_trans [OF unat_u32_bound])

lemma unat_ucast_frame:
  fixes f :: u64
  assumes "f < 1048576"
  shows "unat (ucast f :: u32) = unat f"
proof -
  have "unat f < 1048576" using assms by (simp add: word_less_nat_alt)
  then show ?thesis by (simp add: unsigned_ucast_eq take_bit_eq_mod)
qed

definition frames_between :: "u64 \<Rightarrow> u64 \<Rightarrow> u32 set" where
  "frames_between f e = {g. g < MAX_FRAMES \<and> f \<le> ucast g \<and> ucast g < e}"

lemma frames_between_unat:
  "g \<in> frames_between f e \<longleftrightarrow> unat g < 1048576 \<and> unat f \<le> unat g \<and> unat g < unat e"
  by (simp add: frames_between_def word_less_nat_alt word_le_nat_alt)

lemma frames_between_step:
  assumes "f < e"
  shows "frames_between f e =
    (if f < 1048576 then insert (ucast f) (frames_between (f + 1) e) else frames_between (f + 1) e)"
    and "ucast f \<notin> frames_between (f + 1) e"
proof -
  note s = unat_Suc_less [OF assms]
  have l: "unat f < unat e" using assms by (simp add: word_less_nat_alt)
  show "frames_between f e =
    (if f < 1048576 then insert (ucast f) (frames_between (f + 1) e) else frames_between (f + 1) e)"
  proof (cases "f < 1048576")
    case True
    have b: "unat f < 1048576" using True by (simp add: word_less_nat_alt)
    have "g \<in> frames_between f e \<longleftrightarrow> unat g = unat f \<or> g \<in> frames_between (f + 1) e" for g
      using b l unfolding frames_between_unat s by linarith
    moreover have "unat g = unat f \<longleftrightarrow> g = ucast f" for g :: u32
      using unat_ucast_frame [OF True] by (metis word_unat_eq_iff)
    ultimately show ?thesis using True by (simp add: set_eq_iff)
  next
    case False
    then have b: "\<not> unat f < 1048576" by (simp add: word_less_nat_alt)
    have "g \<in> frames_between f e \<longleftrightarrow> g \<in> frames_between (f + 1) e" for g
      using b unfolding frames_between_unat s by linarith
    then show ?thesis using False by (simp add: set_eq_iff)
  qed
  show "ucast f \<notin> frames_between (f + 1) e"
  proof
    assume a: "ucast f \<in> frames_between (f + 1) e"
    have "unat (ucast f :: u32) \<le> unat f"
      by (simp add: unsigned_ucast_eq take_bit_eq_mod)
    with a s show False by (simp add: frames_between_unat)
  qed
qed

lemma mark_available_adds:
  "\<exists>t. mark_available f e s = Inr t \<and> adds (frames_between f e) (card (frames_between f e)) s t"
proof (induction f e s rule: mark_available.induct)
  case (1 f e s)
  show ?case
  proof (cases "f < e")
    case False
    then have "frames_between f e = {}" by (auto simp: frames_between_unat word_less_nat_alt)
    with False show ?thesis by (simp add: mark_available.simps [of f e] adds_refl)
  next
    case fe: True
    note A = frames_between_step [OF fe]
    show ?thesis
    proof (cases "f < 1048576")
      case True
      then have "(ucast f :: u32) < MAX_FRAMES"
        using unat_ucast_frame [OF True] by (simp add: word_less_nat_alt)
      from add_free_frame_adds [OF this] obtain u where
        u: "add_free_frame (ucast f) s = Inr u" "adds {ucast f} 1 s u" by blast
      with 1 [OF fe, of u] True obtain t where t: "mark_available (f + 1) e u = Inr t"
        "adds (frames_between (f + 1) e) (card (frames_between (f + 1) e)) u t"
        by auto
      have "mark_available f e s = Inr t"
        using u(1) t(1) fe True by (simp add: mark_available.simps [of f e])
      moreover have "adds (frames_between f e) (card (frames_between f e)) s t"
        using adds_trans [OF u(2) t(2)] A True by simp
      ultimately show ?thesis by blast
    next
      case False
      with 1 [OF fe, of s] fe A show ?thesis by (simp add: mark_available.simps [of f e])
    qed
  qed
qed

lemma entry_frames_between:
  "entry_frames x = (if me_type x = MULTIBOOT_MEMORY_AVAILABLE
     then frames_between (entry_first x) (entry_end x) else {})"
  by (auto simp: entry_frames_def frames_between_def)

lemma add_entry_adds: "\<exists>t. add_entry x s = Inr t \<and> adds (entry_frames x) (card (entry_frames x)) s t"
  by (auto simp: add_entry_def entry_frames_between adds_refl intro: mark_available_adds)

text \<open>The walk ends on every chain of entries, without a fault, and adds their frames.\<close>

lemma parse_mmap_adds:
  assumes "mmap_chain m p e es"
  shows "\<exists>t. parse_mmap m p e s = Some (Inr t) \<and>
    adds (\<Union>x \<in> set es. entry_frames x) (\<Sum>x \<leftarrow> es. card (entry_frames x)) s t"
  using assms
proof (induction es arbitrary: p s)
  case Nil
  then show ?case by (auto simp: parse_mmap.simps adds_refl not_less)
next
  case (Cons x xs)
  obtain u where u: "add_entry x s = Inr u" "adds (entry_frames x) (card (entry_frames x)) s u"
    using add_entry_adds by blast
  from Cons obtain t where t: "parse_mmap m (p + me_size x + 4) e u = Some (Inr t)"
    "adds (\<Union>x \<in> set xs. entry_frames x) (\<Sum>x \<leftarrow> xs. card (entry_frames x)) u t"
    by force
  have "parse_mmap m p e s = Some (Inr t)"
    using Cons.prems u(1) t(1) by (simp add: parse_mmap.simps [of m p] Let_def)
  moreover note adds_trans [OF u(2) t(2)]
  ultimately show ?case by auto
qed


lemma add_frames_adds:
  assumes "n \<le> MAX_FRAMES"
  shows "\<exists>t. add_frames i n s = Inr t \<and>
    adds {g. i \<le> g \<and> g < n} (card {g. i \<le> g \<and> g < n}) s t"
  using assms
proof (induction i n s rule: add_frames.induct)
  case (1 i n s)
  show ?case
  proof (cases "i < n")
    case False
    then have "{g. i \<le> g \<and> g < n} = {}" by auto
    with False show ?thesis by (simp only: add_frames.simps [of i n]) (simp add: adds_refl)
  next
    case True
    then have i: "i < MAX_FRAMES" using 1(2) by simp
    from add_free_frame_adds [OF this] obtain u where
      u: "add_free_frame i s = Inr u" "adds {i} 1 s u" by blast
    with 1(1) [of u] True i 1(2) obtain t where t: "add_frames (i + 1) n u = Inr t"
      "adds {g. i + 1 \<le> g \<and> g < n} (card {g. i + 1 \<le> g \<and> g < n}) u t" by auto
    have "i \<notin> {g. i + 1 \<le> g \<and> g < n}" using less_plus_one_iff [OF True] by auto
    then have "card {g. i \<le> g \<and> g < n} = 1 + card {g. i + 1 \<le> g \<and> g < n}"
      by (simp add: word_interval_step [OF True])
    moreover have "add_frames i n s = Inr t"
      using u(1) t(1) True i by (simp add: add_frames.simps [of i n])
    ultimately show ?thesis
      using adds_trans [OF u(2) t(2)] by (simp add: word_interval_step [OF True])
  qed
qed

section \<open>Reserved regions\<close>

text \<open>The frames that \<^verbatim>\<open>pmm_init\<close> withholds: the null page, the VGA buffer, the kernel image.\<close>

definition critical_frames :: "addr \<Rightarrow> addr \<Rightarrow> u32 set" where
  "critical_frames kernel_start kernel_end =
     region_frames 0 FRAME_SIZE \<union> region_frames 0xb8000 (32 * 1024) \<union>
     region_frames kernel_start (kernel_end - kernel_start)"

lemma zero_in_critical: "0 \<in> critical_frames ks ke"
  by (auto simp: critical_frames_def region_frames_def intro: exI [of _ 0])

lemma reserve_critical_spec:
  assumes "ks < ke" and "unat ke + 4095 < 2 ^ 32"
  shows "\<exists>t. reserve_critical ks ke s = Inr t \<and> initialized t \<and>
    same_setup (s\<lparr>initialized := True\<rparr>) t \<and> free_set t = free_set s - critical_frames ks ke \<and>
    (count_ok s \<and> (\<forall>g \<in> free_set s \<inter> critical_frames ks ke. g < total_frames s) \<longrightarrow> count_ok t)"
proof -
  have k: "unat (ke - ks) = unat ke - unat ks" using assms(1) by (simp add: unat_sub)
  have k': "unat ks < unat ke" using assms(1) by (simp add: word_less_nat_alt)
  with k have k'': "0 < ke - ks" by (simp add: word_less_nat_alt)
  obtain t1 where 1: "pmm_reserve_region 0 FRAME_SIZE s = Inr t1" "same_setup s t1"
    "free_set t1 = free_set s - region_frames 0 FRAME_SIZE"
    "count_ok s \<and> (\<forall>g \<in> free_set s \<inter> region_frames 0 FRAME_SIZE. g < total_frames s) \<longrightarrow> count_ok t1"
    using reserve_region_spec [of 0 FRAME_SIZE s] by auto
  obtain t2 where 2: "pmm_reserve_region 0xb8000 (32 * 1024) t1 = Inr t2" "same_setup t1 t2"
    "free_set t2 = free_set t1 - region_frames 0xb8000 (32 * 1024)"
    "count_ok t1 \<and> (\<forall>g \<in> free_set t1 \<inter> region_frames 0xb8000 (32 * 1024). g < total_frames t1) \<longrightarrow> count_ok t2"
    using reserve_region_spec [of "0xb8000" "32 * 1024" t1] by auto
  obtain t3 where 3: "pmm_reserve_region ks (ke - ks) t2 = Inr t3" "same_setup t2 t3"
    "free_set t3 = free_set t2 - region_frames ks (ke - ks)"
    "count_ok t2 \<and> (\<forall>g \<in> free_set t2 \<inter> region_frames ks (ke - ks). g < total_frames t2) \<longrightarrow> count_ok t3"
    using reserve_region_spec [of ks "ke - ks" t2] k k' k'' assms(2) by auto
  have t: "total_frames t1 = total_frames s" "total_frames t2 = total_frames s"
    using 1(2) 2(2) by (simp_all add: same_setup_def)
  have "reserve_critical ks ke s = Inr (t3\<lparr>initialized := True\<rparr>)"
    using 1(1) 2(1) 3(1) by (simp add: reserve_critical_def)
  moreover have "free_set (t3\<lparr>initialized := True\<rparr>) = free_set s - critical_frames ks ke"
    using 1(3) 2(3) 3(3) by (auto simp: critical_frames_def)
  moreover have "count_ok t3" if "count_ok s" "\<forall>g \<in> free_set s \<inter> critical_frames ks ke. g < total_frames s"
    using that 1(3,4) 2(3,4) 3(4) t by (auto simp: critical_frames_def)
  ultimately show ?thesis
    using 1(2) 2(2) 3(2) by (auto simp: same_setup_def count_ok_def)
qed


text \<open>
  Whatever path made the frames of \<open>M\<close> available, reserving the critical regions
  gives a state that satisfies the invariant, if the counters were exact.
\<close>

lemma reserve_critical_inv:
  assumes "adds M (card M) (pmm_reset s) u" and "M \<subseteq> {f. f < MAX_FRAMES}"
    and "ks < ke" and "unat ke + 4095 < 2 ^ 32"
    and "\<forall>g \<in> M \<inter> critical_frames ks ke. unat g < card M"
  shows "\<exists>t. reserve_critical ks ke u = Inr t \<and> pmm_inv M t \<and>
    free_set t = M - critical_frames ks ke \<and> kernel_assert t = kernel_assert s \<and>
    pmm_st.more t = pmm_st.more s"
proof -
  have "card M = card (unat ` M)" by (rule card_image [symmetric]) (simp add: inj_on_def word_unat_eq_iff)
  also have "\<dots> \<le> card {..<1048576 :: nat}"
    using assms(2) by (intro card_mono) (auto simp: word_less_nat_alt)
  finally have "card M \<le> 1048576" by simp
  then have c: "unat (of_nat (card M) :: u32) = card M"
    by (simp add: unsigned_of_nat take_bit_eq_mod)
  have u: "free_set u = M" "unat (total_frames u) = card M" "count_ok u" "bitmap u = FrameBitmap"
    "kernel_assert u = kernel_assert s" "pmm_st.more u = pmm_st.more s"
    using assms(1) c by (auto simp: adds_def count_ok_def)
  obtain t where t: "reserve_critical ks ke u = Inr t" "initialized t"
    "same_setup (u\<lparr>initialized := True\<rparr>) t" "free_set t = free_set u - critical_frames ks ke"
    "count_ok u \<and> (\<forall>g \<in> free_set u \<inter> critical_frames ks ke. g < total_frames u) \<longrightarrow> count_ok t"
    using reserve_critical_spec [OF assms(3,4)] by blast
  have "count_ok t" using t(5) u assms(5) by (simp add: word_less_nat_alt)
  then have "pmm_inv M t"
    using t(2-4) u assms(2) zero_in_critical by (auto simp: pmm_inv_def same_setup_def count_ok_def)
  then show ?thesis using t u by (auto simp: same_setup_def)
qed

lemma sum_card_disjoint:
  assumes "sorted_wrt (\<lambda>x y. entry_frames x \<inter> entry_frames y = {}) es"
  shows "(\<Sum>x \<leftarrow> es. card (entry_frames x)) = card (\<Union>x \<in> set es. entry_frames x)"
  using assms
proof (induction es)
  case (Cons x es)
  then have "entry_frames x \<inter> (\<Union>y \<in> set es. entry_frames y) = {}" by auto
  with Cons show ?case by (simp add: card_Un_disjoint)
qed simp


section \<open>Properties\<close>

lemma card_words_below: "card {g :: u32. g < n} = unat n"
proof -
  have "unat ` {g. g < n} = {..<unat n}"
  proof (intro equalityI subsetI)
    fix k assume k: "k \<in> {..<unat n}"
    then have "unat (of_nat k :: u32) = k"
      using unat_u32_bound [of n] by (simp add: unsigned_of_nat take_bit_eq_mod)
    with k show "k \<in> unat ` {g. g < n}" by (metis imageI lessThan_iff mem_Collect_eq word_less_nat_alt)
  qed (auto simp: word_less_nat_alt)
  then show ?thesis
    by (metis card_image card_lessThan inj_onI word_unat_eq_iff)
qed

lemma region_frames_below:
  assumes "g \<in> region_frames start sz" and "unat start + unat sz \<le> 4096 * n"
  shows "unat g < n"
  using assms by (auto simp: region_frames_def less_mult_imp_div_less)

text \<open>
  Without usable multiboot data (wrong magic number, an information pointer below
  4096, or no memory map flag) \<^verbatim>\<open>pmm_init\<close> ends without a failed assertion in a
  state that satisfies the invariant for the first 32768 frames, all of them
  free but those of the null page, the VGA buffer and the kernel image.
\<close>

theorem pmm_init_fallback_correct:
  assumes "magic \<noteq> MULTIBOOT_MAGIC \<or> mbi < 0x1000 \<or>
      mb_flags (read_multiboot_info m mbi) AND MULTIBOOT_FLAG_MMAP = 0"
    and "ks < ke" and "unat ke + 4095 < 2 ^ 32"
  shows "\<exists>t. pmm_init ks ke m magic mbi s = Some (Inr t) \<and> pmm_inv {f. f < 32768} t \<and>
    free_set t = {f. f < 32768} - critical_frames ks ke"
proof -
  have eq: "pmm_init ks ke m magic mbi s = Some (andthen (pmm_fallback s) (reserve_critical ks ke))"
    using assms(1) by (auto simp: pmm_init_def Let_def)
  obtain u where u: "pmm_fallback s = Inr u"
    "adds {g. g < 32768} (card {g :: u32. g < 32768}) (pmm_reset s) u"
    using add_frames_adds [of 32768 0 "pmm_reset s"] by (auto simp: pmm_fallback_def)
  have "{f :: u32. f < 32768} \<subseteq> {f. f < MAX_FRAMES}" by (auto simp: word_less_nat_alt)
  moreover have "\<forall>g \<in> {f. f < 32768} \<inter> critical_frames ks ke. unat g < card {f :: u32. f < 32768}"
    unfolding card_words_below by (auto simp: word_less_nat_alt)
  ultimately show ?thesis
    using reserve_critical_inv [OF u(2) _ assms(2,3)] u(1) eq by auto
qed

theorem pmm_init_fallback_correct_witness:
  "\<exists>t. pmm_init 0x100000 0x200000 (\<lambda>_. 0) 0 0 sample_pmm = Some (Inr t) \<and> pmm_inv {f. f < 32768} t"
  using pmm_init_fallback_correct [of 0 0 "\<lambda>_. 0" "0x100000" "0x200000" sample_pmm] by auto

lemma pmm_init_mmap_spec:
  fixes m :: mem and mbi :: addr
  defines "info \<equiv> read_multiboot_info m mbi"
  assumes "0x1000 \<le> mbi" and "mb_flags info AND MULTIBOOT_FLAG_MMAP \<noteq> 0"
    and "mmap_chain m (mb_mmap_addr info) (mb_mmap_addr info + mb_mmap_length info) es"
    and "sorted_wrt (\<lambda>x y. entry_frames x \<inter> entry_frames y = {}) es"
    and "ks < ke" and "unat ke + 4095 < 2 ^ 32"
    and "M = (\<Union>x \<in> set es. entry_frames x)"
    and "\<forall>g \<in> M \<inter> critical_frames ks ke. unat g < card M"
  shows "\<exists>t. pmm_init ks ke m MULTIBOOT_MAGIC mbi s = Some (Inr t) \<and> pmm_inv M t \<and>
    free_set t = M - critical_frames ks ke \<and>
    pmm_st.more t = pmm_st.more s"
proof -
  have "mbi \<noteq> 0" "\<not> mbi < 0x1000" using assms(2) by (auto simp: not_less)
  then have eq: "pmm_init ks ke m MULTIBOOT_MAGIC mbi s =
    (case parse_mmap m (mb_mmap_addr info) (mb_mmap_addr info + mb_mmap_length info) (pmm_reset s) of
       None \<Rightarrow> None | Some r \<Rightarrow> Some (andthen r (reserve_critical ks ke)))"
    using assms(3) by (simp add: pmm_init_def Let_def info_def)
  obtain u where u: "parse_mmap m (mb_mmap_addr info) (mb_mmap_addr info + mb_mmap_length info) (pmm_reset s)
      = Some (Inr u)" "adds M (card M) (pmm_reset s) u"
    using parse_mmap_adds [OF assms(4)] sum_card_disjoint [OF assms(5)] assms(8) by fastforce
  have "M \<subseteq> {f. f < MAX_FRAMES}" using assms(8) by (auto simp: entry_frames_def)
  from reserve_critical_inv [OF u(2) this assms(6,7,9)] show ?thesis using eq u(1) by auto
qed


text \<open>A boot loader's memory with one map entry: 32 MB from address 0.\<close>

definition sample_mem :: mem where
  "sample_mem = write32 0x2000 0x40 (write32 0x202C 24 (write32 0x2030 0x3000
     (write32 0x3000 20 (write32 0x3004 0 (write32 0x3008 0
     (write32 0x300C 0x2000000 (write32 0x3010 0 (write32 0x3014 1 (\<lambda>_. 0)))))))))"

definition sample_entry :: mmap_entry where
  "sample_entry = \<lparr>me_size = 20, me_addr = 0, me_len = 0x2000000, me_type = 1\<rparr>"

lemma sample_mem_info: "read_multiboot_info sample_mem 0x2000 =
    \<lparr>mb_flags = 0x40, mb_mmap_length = 24, mb_mmap_addr = 0x3000\<rparr>"
  by (simp add: sample_mem_def read_multiboot_info_def read32_write32_other)

lemma sample_mem_entry: "read_mmap_entry sample_mem 0x3000 = sample_entry"
  by (simp add: sample_mem_def read_mmap_entry_def read64_def read32_write32_other sample_entry_def)

lemma sample_entry_frames: "entry_frames sample_entry = {f. f < 8192}"
  by (auto simp: entry_frames_def entry_first_def entry_end_def sample_entry_def word_less_nat_alt word_le_nat_alt)


text \<open>
  A memory map entry of available memory contributes exactly the frames that lie
  wholly inside its region (and below 4 GB), if the region ends at least a
  page before the end of the 64-bit address space.
\<close>

theorem entry_frames_whole:
  assumes "unat (me_addr x) + unat (me_len x) + 4095 < 2 ^ 64"
  shows "f \<in> entry_frames x \<longleftrightarrow> me_type x = MULTIBOOT_MEMORY_AVAILABLE \<and> unat f < 1048576 \<and>
    unat (me_addr x) \<le> unat f * 4096 \<and> unat f * 4096 + 4096 \<le> unat (me_addr x) + unat (me_len x)"
proof -
  have a: "unat (4095 + me_addr x) = unat (me_addr x) + 4095"
    "unat (me_addr x + me_len x) = unat (me_addr x) + unat (me_len x)"
    using assms by (simp_all add: unat_word_ariths)
  have b: "unat f < n div 4096 \<longleftrightarrow> unat f * 4096 + 4096 \<le> n" for n
    using less_eq_div_iff_mult_less_eq [of 4096 "Suc (unat f)" n] by (simp add: Suc_le_eq add.commute)
  have c: "(unat (me_addr x) + 4095) div 4096 \<le> unat f \<longleftrightarrow> unat (me_addr x) \<le> unat f * 4096"
    using div_less_iff_less_mult [of 4096 "unat (me_addr x) + 4095" "Suc (unat f)"] by (simp add: less_Suc_eq_le)
  show ?thesis
    by (auto simp: entry_frames_def entry_first_def entry_end_def word_less_nat_alt word_le_nat_alt
        unat_div a b c)
qed

theorem entry_frames_whole_witness: "8191 \<in> entry_frames sample_entry \<and> 8192 \<notin> entry_frames sample_entry"
proof -
  have "unat (me_addr sample_entry) + unat (me_len sample_entry) + 4095 < 2 ^ 64"
    by (simp add: sample_entry_def)
  from entry_frames_whole [OF this, of 8191] entry_frames_whole [OF this, of 8192]
  show ?thesis by (simp add: sample_entry_def)
qed

end
