(* ===== verification/Address_Space.thy ===== *)
theory Address_Space
  imports Kernel_Prelude
begin

text \<open>
  The index arithmetic of two-level page tables and the contract between the
  MMU and its clients (boot, user task creation): what a mapping makes visible
  to the address translation, what it leaves alone, and when it can be
  installed. The clients' facts about installing many pages are proved once
  from the contract.
\<close>

section \<open>Addresses and indices\<close>

definition PAGE_ALIGN_DOWN :: "addr \<Rightarrow> addr" where
  "PAGE_ALIGN_DOWN a = a AND NOT 4095"

definition PD_INDEX :: "addr \<Rightarrow> u32" where
  "PD_INDEX virt = drop_bit 22 virt AND 0x3FF"

definition PT_INDEX :: "addr \<Rightarrow> u32" where
  "PT_INDEX virt = drop_bit 12 virt AND 0x3FF"

lemma mask_10: "(1023 :: u32) = mask 10"
  by (simp add: mask_eq_exp_minus_1)

lemma unat_PD_INDEX: "unat (PD_INDEX v) = unat v div 4194304"
proof -
  have "unat (drop_bit 22 v) = unat v div 4194304" by (simp add: drop_bit_eq_div unat_div)
  moreover have "unat v div 4194304 < 1024" using unat_u32_bound [of v] by simp
  ultimately show ?thesis
    by (simp add: PD_INDEX_def mask_10 take_bit_eq_mask [symmetric] take_bit_eq_mod unat_mod)
qed

lemma unat_PT_INDEX: "unat (PT_INDEX v) = unat v div 4096 mod 1024"
proof -
  have "unat (drop_bit 12 v) = unat v div 4096" by (simp add: drop_bit_eq_div unat_div)
  then show ?thesis
    by (simp add: PT_INDEX_def mask_10 take_bit_eq_mask [symmetric] take_bit_eq_mod unat_mod)
qed

lemma PD_INDEX_bound [simp]: "unat (PD_INDEX v) < 1024"
  using unat_u32_bound [of v] by (simp add: unat_PD_INDEX)

lemma PT_INDEX_bound [simp]: "unat (PT_INDEX v) < 1024"
  by (simp add: unat_PT_INDEX)

lemma align_down_split: "PAGE_ALIGN_DOWN a = a - a mod 4096"
proof -
  have "PAGE_ALIGN_DOWN a + (a AND 4095) = a"
  proof -
    have "PAGE_ALIGN_DOWN a + (a AND 4095) = PAGE_ALIGN_DOWN a OR (a AND 4095)"
      by (rule disjunctive_add) (auto simp: PAGE_ALIGN_DOWN_def bit_simps)
    also have "\<dots> = a"
      by (rule bit_word_eqI) (auto simp: PAGE_ALIGN_DOWN_def bit_simps)
    finally show ?thesis .
  qed
  moreover have "a AND 4095 = a mod 4096"
    by (simp add: mask_12 take_bit_eq_mask [symmetric] take_bit_eq_mod)
  ultimately show ?thesis by (simp add: eq_diff_eq)
qed

lemma unat_PAGE_ALIGN_DOWN: "unat (PAGE_ALIGN_DOWN a) = unat a div 4096 * 4096"
proof -
  have "a mod 4096 \<le> a" by (simp add: word_le_nat_alt unat_mod)
  then have "unat (PAGE_ALIGN_DOWN a) = unat a - unat a mod 4096"
    by (simp add: align_down_split unat_sub unat_mod)
  then show ?thesis by (simp add: minus_mod_eq_div_mult)
qed

lemma page_aligned_align_down [simp]: "page_aligned (PAGE_ALIGN_DOWN a)"
  by (simp add: page_aligned_unat unat_PAGE_ALIGN_DOWN)

lemma align_down_aligned [simp]: "page_aligned a \<Longrightarrow> PAGE_ALIGN_DOWN a = a"
  by (auto simp: page_aligned_unat word_unat_eq_iff unat_PAGE_ALIGN_DOWN)

text \<open>The two indices determine the page of a virtual address and nothing else.\<close>

lemma same_page_iff:
  "PD_INDEX v = PD_INDEX w \<and> PT_INDEX v = PT_INDEX w \<longleftrightarrow> PAGE_ALIGN_DOWN v = PAGE_ALIGN_DOWN w"
proof -
  have d: "n div 4194304 = n div 4096 div 1024" for n :: nat
    by (simp add: div_mult2_eq [symmetric])
  have "m * 4096 = n * 4096 \<longleftrightarrow> m div 1024 = n div 1024 \<and> m mod 1024 = n mod 1024" for m n :: nat
    by (metis div_mod_decomp mult_cancel2 zero_neq_numeral)
  then show ?thesis
    unfolding word_unat_eq_iff unat_PD_INDEX unat_PT_INDEX unat_PAGE_ALIGN_DOWN d by blast
qed

text \<open>
  Entry \<open>i\<close> of the table at \<open>base\<close>, \<^verbatim>\<open>base[i]\<close> of a \<^verbatim>\<open>uint32_t*\<close>. Entries of
  page-aligned tables are aligned words, and different entries lie at
  different addresses.
\<close>

definition entry_addr :: "addr \<Rightarrow> u32 \<Rightarrow> addr" where
  "entry_addr base i = base + 4 * i"

lemma unat_entry_addr:
  assumes "page_aligned base" and "unat i < 1024"
  shows "unat (entry_addr base i) = unat base + 4 * unat i"
proof -
  have four: "unat (4 * i) = 4 * unat i" using assms(2) by (simp add: unat_word_ariths)
  have "unat base div 4096 * 4096 = unat base"
    using assms(1) by (auto simp: page_aligned_unat)
  moreover have "unat base div 4096 < 1048576" using unat_frame_bound [of base] by (simp add: unat_div)
  ultimately have "unat base \<le> 1048575 * 4096" by linarith
  with assms(2) four show ?thesis by (simp add: entry_addr_def unat_word_ariths)
qed

lemma entry_addr_word_aligned:
  assumes "page_aligned base" and "unat i < 1024"
  shows "unat (entry_addr base i) mod 4 = 0"
proof -
  have "unat base mod 4 = 0"
    using assms(1) mod_mod_cancel [of 4 4096 "unat base"] by (simp add: page_aligned_unat)
  then show ?thesis by (simp add: unat_entry_addr [OF assms] mod_add_eq [symmetric])
qed

lemma entry_addr_inj:
  assumes "page_aligned b" "unat i < 1024" "page_aligned c" "unat j < 1024"
  shows "entry_addr b i = entry_addr c j \<longleftrightarrow> b = c \<and> i = j"
proof
  assume "entry_addr b i = entry_addr c j"
  then have *: "unat b + 4 * unat i = unat c + 4 * unat j"
    using unat_entry_addr assms by metis
  moreover have "(unat b + 4 * unat i) div 4096 = unat b div 4096"
    "(unat c + 4 * unat j) div 4096 = unat c div 4096"
    using assms by (auto simp: page_aligned_unat elim!: dvdE simp flip: dvd_eq_mod_eq_0)
  ultimately have "unat b div 4096 = unat c div 4096" by simp
  then have "unat b = unat c"
    using assms(1,3) by (metis add.right_neutral div_mult_mod_eq page_aligned_unat)
  with * show "b = c \<and> i = j" by (simp add: word_unat_eq_iff)
qed simp

lemma read32_entry:
  assumes "page_aligned b" "unat i < 1024" "page_aligned c" "unat j < 1024"
  shows "read32 (write32 (entry_addr b i) x m) (entry_addr c j) =
    (if b = c \<and> i = j then x else read32 m (entry_addr c j))"
  using entry_addr_inj [OF assms] read32_write32_other entry_addr_word_aligned assms
  by (metis read32_write32_same)


section \<open>The contract\<close>

text \<open>
  \<open>translate s v\<close> is the page the hardware finds for the virtual address \<open>v\<close>, with
  its flags. Installing a page needs the page table of its 4 MB slot; \<open>budget\<close> is
  the number of tables that can still be allocated and \<open>footprint\<close> the pages that are
  free or used for tables, which no operation changes. \<open>install_pages\<close> is a client
  that maps page after page and stops at the first null result.
\<close>

fun install_pages :: "(addr \<Rightarrow> addr \<Rightarrow> u32 \<Rightarrow> 's \<Rightarrow> fault + addr \<times> 's) \<Rightarrow>
    (addr \<times> addr \<times> u32) list \<Rightarrow> 's \<Rightarrow> fault + 's" where
  "install_pages map_page [] s = Inr s"
| "install_pages map_page ((phys, virt, flags) # ps) s =
     andthen (map_page phys virt flags s) (\<lambda>(r, s'). if r = 0 then Inr s' else install_pages map_page ps s')"

fun last_request :: "addr \<Rightarrow> (addr \<times> addr \<times> u32) list \<Rightarrow> (addr \<times> u32) option" where
  "last_request v [] = None"
| "last_request v ((phys, virt, flags) # ps) =
     (case last_request v ps of
        Some r \<Rightarrow> Some r
      | None \<Rightarrow> if v = virt then Some (phys, flags) else None)"

locale address_space =
  fixes map_page :: "addr \<Rightarrow> addr \<Rightarrow> u32 \<Rightarrow> 's \<Rightarrow> fault + addr \<times> 's"
    and unmap_page :: "addr \<Rightarrow> 's \<Rightarrow> 's"
    and translate :: "'s \<Rightarrow> addr \<Rightarrow> (addr \<times> u32) option"
    and visible :: "addr \<Rightarrow> u32 \<Rightarrow> (addr \<times> u32) option"
    and invar :: "'s \<Rightarrow> bool"
    and slots :: "'s \<Rightarrow> u32 set"
    and budget :: "'s \<Rightarrow> nat"
    and footprint :: "'s \<Rightarrow> addr set"
  assumes map_ok: "invar s \<Longrightarrow> page_aligned phys \<Longrightarrow> page_aligned virt \<Longrightarrow>
      PD_INDEX virt \<in> slots s \<or> 0 < budget s \<Longrightarrow>
      \<exists>s'. map_page phys virt flags s = Inr (virt, s') \<and> invar s' \<and>
        slots s' = insert (PD_INDEX virt) (slots s) \<and>
        budget s' = budget s - (if PD_INDEX virt \<in> slots s then 0 else 1) \<and>
        (\<forall>v. translate s' v =
          (if PAGE_ALIGN_DOWN v = virt then visible phys flags else translate s v)) \<and>
        footprint s' = footprint s"
    and map_full: "invar s \<Longrightarrow> PD_INDEX virt \<notin> slots s \<Longrightarrow> budget s = 0 \<Longrightarrow>
      map_page phys virt flags s = Inr (0, s)"
    and unmap_ok: "invar s \<Longrightarrow> page_aligned virt \<Longrightarrow>
      invar (unmap_page virt s) \<and>
      translate (unmap_page virt s) v = (if PAGE_ALIGN_DOWN v = virt then None else translate s v) \<and>
      footprint (unmap_page virt s) = footprint s"
begin

lemma map_unmap:
  assumes "invar s" "page_aligned phys" "page_aligned virt"
    and "PD_INDEX virt \<in> slots s \<or> 0 < budget s"
  shows "\<exists>s'. map_page phys virt flags s = Inr (virt, s') \<and> invar (unmap_page virt s') \<and>
    (\<forall>v. translate (unmap_page virt s') v = (if PAGE_ALIGN_DOWN v = virt then None else translate s v))"
  using map_ok [OF assms, of flags] unmap_ok [OF _ assms(3)] by fastforce

text \<open>
  Installing a list of pages succeeds when a table can be allocated for each
  4 MB slot that has none yet; afterwards the last request for a page decides
  its translation and all other pages translate as before. Tables are added only
  for slots of the list.
\<close>

lemma install_pages_ok:
  assumes "invar s"
    and "\<forall>(phys, virt, flags) \<in> set ps. page_aligned phys \<and> page_aligned virt \<and> virt \<noteq> 0"
    and "card ((\<lambda>(phys, virt, flags). PD_INDEX virt) ` set ps - slots s) \<le> budget s"
  shows "\<exists>s'. install_pages map_page ps s = Inr s' \<and> invar s' \<and>
    (\<forall>v. translate s' v = (case last_request (PAGE_ALIGN_DOWN v) ps of
        None \<Rightarrow> translate s v | Some (phys, flags) \<Rightarrow> visible phys flags)) \<and>
    footprint s' = footprint s \<and> slots s' \<subseteq> slots s \<union> (\<lambda>(phys, virt, flags). PD_INDEX virt) ` set ps"
  using assms
proof (induction ps arbitrary: s)
  case Nil
  then show ?case by simp
next
  case (Cons r ps)
  obtain phys virt flags where r: "r = (phys, virt, flags)" by (metis prod_cases3)
  define ix where "ix = (\<lambda>(phys :: addr, virt, flags :: u32). PD_INDEX virt)"
  have al: "page_aligned phys" "page_aligned virt" "virt \<noteq> 0" using Cons.prems(2) r by auto
  have card: "card (ix ` set (r # ps) - slots s) \<le> budget s"
    using Cons.prems(3) by (simp add: ix_def)
  have ixr: "ix r = PD_INDEX virt" by (simp add: ix_def r)
  have room: "PD_INDEX virt \<in> slots s \<or> 0 < budget s"
  proof (rule disjCI)
    assume "\<not> 0 < budget s"
    with card have "ix ` set (r # ps) - slots s = {}" by simp
    then show "PD_INDEX virt \<in> slots s" using ixr by auto
  qed
  from map_ok [OF Cons.prems(1) al(1,2) this] obtain s1 where
    s1: "map_page phys virt flags s = Inr (virt, s1)" "invar s1"
      "slots s1 = insert (PD_INDEX virt) (slots s)"
      "budget s1 = budget s - (if PD_INDEX virt \<in> slots s then 0 else 1)"
      "\<And>v. translate s1 v = (if PAGE_ALIGN_DOWN v = virt then visible phys flags else translate s v)"
      "footprint s1 = footprint s"
    by blast
  have "card (ix ` set ps - slots s1) \<le> budget s1"
  proof (cases "PD_INDEX virt \<in> slots s")
    case True
    then have "ix ` set ps - slots s1 = ix ` set (r # ps) - slots s" using s1(3) ixr by auto
    with card True s1(4) show ?thesis by simp
  next
    case False
    then have "ix ` set (r # ps) - slots s = insert (PD_INDEX virt) (ix ` set ps - slots s1)"
      "PD_INDEX virt \<notin> ix ` set ps - slots s1"
      using s1(3) ixr by auto
    with card False s1(4) show ?thesis by simp
  qed
  with Cons.IH [OF s1(2)] Cons.prems(2) obtain s' where
    "install_pages map_page ps s1 = Inr s'" "invar s'"
    "\<And>v. translate s' v = (case last_request (PAGE_ALIGN_DOWN v) ps of
        None \<Rightarrow> translate s1 v | Some (phys, flags) \<Rightarrow> visible phys flags)"
    "footprint s' = footprint s1" and sl: "slots s' \<subseteq> slots s1 \<union> ix ` set ps"
    by (auto simp: ix_def)
  moreover have "slots s' \<subseteq> slots s \<union> ix ` set (r # ps)" using sl s1(3) ixr by auto
  ultimately show ?case using s1 al(3) by (auto simp: r ix_def split: option.splits)
qed

end

end
