(* ===== verification/Mmu.thy ===== *)
theory Mmu
  imports Pmm Address_Space
begin

text \<open>
  The x86 memory management unit, \<^verbatim>\<open>arch/x86/mmu.c\<close> with \<^verbatim>\<open>include/kernel/mmu.h\<close>:
  page directories and page tables as words in physical memory, the operations
  on them in the order of the source, the hardware's table walk as the
  abstraction (\<open>translate\<close>), and the interpretation of the contract
  \<open>address_space\<close>. Page directories and page tables are accessed at their physical
  addresses, as the code does (it relies on the identity mapping).
\<close>

section \<open>State\<close>

text \<open>
  \<^verbatim>\<open>page_table_t*\<close> is null or the address of the static \<^verbatim>\<open>pt_storage\<close>, the only
  object of that type. \<open>tlb_flushed\<close> records the operands of \<^verbatim>\<open>invlpg\<close>, latest first.
\<close>

record page_table =
  page_directory :: addr
  pd_phys :: addr

datatype pt_ptr = NullPt | PtStorage

record mmu_st = pmm_st +
  memory :: mem
  pt_storage :: page_table
  kernel_address_space :: pt_ptr
  cr0 :: u32
  cr3 :: u32
  tlb_flushed :: "addr list"

abbreviation PDE_PRESENT :: u32 where "PDE_PRESENT \<equiv> 1"
abbreviation PDE_WRITABLE :: u32 where "PDE_WRITABLE \<equiv> 2"
abbreviation PDE_USER :: u32 where "PDE_USER \<equiv> 4"
abbreviation PTE_PRESENT :: u32 where "PTE_PRESENT \<equiv> 1"
abbreviation PTE_WRITABLE :: u32 where "PTE_WRITABLE \<equiv> 2"
abbreviation PTE_USER :: u32 where "PTE_USER \<equiv> 4"
abbreviation PTE_NOCACHE :: u32 where "PTE_NOCACHE \<equiv> 16"
abbreviation MMU_PRESENT :: u32 where "MMU_PRESENT \<equiv> 1"
abbreviation MMU_WRITABLE :: u32 where "MMU_WRITABLE \<equiv> 2"
abbreviation MMU_USER :: u32 where "MMU_USER \<equiv> 4"
abbreviation MMU_NOCACHE :: u32 where "MMU_NOCACHE \<equiv> 8"
abbreviation ENTRIES_PER_TABLE :: nat where "ENTRIES_PER_TABLE \<equiv> 1024"

definition PAGE_FRAME :: "u32 \<Rightarrow> addr" where
  "PAGE_FRAME e = e AND NOT 0xFFF"

definition flags_to_x86 :: "u32 \<Rightarrow> u32" where
  "flags_to_x86 flags =
     (let f = (0 :: u32);
          f = (if flags AND MMU_PRESENT \<noteq> 0 then f OR PTE_PRESENT else f);
          f = (if flags AND MMU_WRITABLE \<noteq> 0 then f OR PTE_WRITABLE else f);
          f = (if flags AND MMU_USER \<noteq> 0 then f OR PTE_USER else f);
          f = (if flags AND MMU_NOCACHE \<noteq> 0 then f OR PTE_NOCACHE else f)
      in f)"

definition flush_tlb_single :: "addr \<Rightarrow> 'z mmu_st_scheme \<Rightarrow> 'z mmu_st_scheme" where
  "flush_tlb_single virt s = s\<lparr>tlb_flushed := virt # tlb_flushed s\<rparr>"

definition get_entry :: "'z mmu_st_scheme \<Rightarrow> addr \<Rightarrow> u32 \<Rightarrow> u32" where
  "get_entry s table i = read32 (memory s) (entry_addr table i)"

definition set_entry :: "addr \<Rightarrow> u32 \<Rightarrow> u32 \<Rightarrow> 'z mmu_st_scheme \<Rightarrow> 'z mmu_st_scheme" where
  "set_entry table i v s = s\<lparr>memory := write32 (entry_addr table i) v (memory s)\<rparr>"

definition zero_table :: "addr \<Rightarrow> 'z mmu_st_scheme \<Rightarrow> 'z mmu_st_scheme" where
  "zero_table table s = fold (\<lambda>i. set_entry table (of_nat i) 0) [0..<ENTRIES_PER_TABLE] s"


section \<open>Operations\<close>

definition mmu_create_address_space :: "'z mmu_st_scheme \<Rightarrow> fault + pt_ptr \<times> 'z mmu_st_scheme" where
  "mmu_create_address_space s =
     (if \<not> pmm_is_initialized s then Inr (NullPt, s)
      else
        andthen (pmm_alloc_page s) (\<lambda>(pd, s).
        if pd = 0 then Inr (NullPt, s)
        else if \<not> page_aligned pd then Inr (NullPt, s)
        else Inr (PtStorage,
          (zero_table pd s)\<lparr>pt_storage := \<lparr>page_directory = pd, pd_phys = pd\<rparr>\<rparr>)))"

fun free_tables :: "addr \<Rightarrow> nat list \<Rightarrow> 'z mmu_st_scheme \<Rightarrow> fault + 'z mmu_st_scheme" where
  "free_tables pd [] s = Inr s"
| "free_tables pd (i # is) s =
     andthen
       (if get_entry s pd (of_nat i) AND PDE_PRESENT \<noteq> 0
        then pmm_free_page (PAGE_FRAME (get_entry s pd (of_nat i))) s
        else Inr s)
       (free_tables pd is)"

definition mmu_destroy_address_space :: "pt_ptr \<Rightarrow> 'z mmu_st_scheme \<Rightarrow> fault + 'z mmu_st_scheme" where
  "mmu_destroy_address_space pt s =
     (if pt = NullPt then Inr s
      else
        andthen (free_tables (page_directory (pt_storage s)) [0..<ENTRIES_PER_TABLE] s) (\<lambda>s.
        pmm_free_page (pd_phys (pt_storage s)) s))"

text \<open>
  \<open>ensure_table\<close> is the conditional of \<^verbatim>\<open>mmu_map_page\<close> that allocates a missing page
  table; its result is false on the early return with \<^verbatim>\<open>NULL\<close>.
\<close>

definition ensure_table :: "addr \<Rightarrow> u32 \<Rightarrow> 'z mmu_st_scheme \<Rightarrow> fault + bool \<times> 'z mmu_st_scheme" where
  "ensure_table pd pd_index s =
     (if get_entry s pd pd_index AND PDE_PRESENT = 0 then
        andthen (pmm_alloc_page s) (\<lambda>(pt_phys, s).
        if pt_phys = 0 then Inr (False, s)
        else Inr (True, set_entry pd pd_index
               (pt_phys OR PDE_PRESENT OR PDE_WRITABLE OR PDE_USER) (zero_table pt_phys s)))
      else Inr (True, s))"

definition mmu_map_page ::
  "pt_ptr \<Rightarrow> addr \<Rightarrow> addr \<Rightarrow> u32 \<Rightarrow> 'z mmu_st_scheme \<Rightarrow> fault + addr \<times> 'z mmu_st_scheme" where
  "mmu_map_page pt phys virt flags s =
     (if pt = NullPt then Inr (0, s)
      else if \<not> page_aligned phys \<or> \<not> page_aligned virt then Inr (0, s)
      else
        let pd = page_directory (pt_storage s);
            pd_index = PD_INDEX virt;
            pt_index = PT_INDEX virt in
        andthen (ensure_table pd pd_index s) (\<lambda>(ok, s).
        if \<not> ok then Inr (0, s)
        else
          let table = PAGE_FRAME (get_entry s pd pd_index);
              x86_flags = flags_to_x86 flags;
              s = set_entry table pt_index (phys OR x86_flags) s
          in Inr (virt, flush_tlb_single virt s)))"

definition mmu_unmap_page :: "pt_ptr \<Rightarrow> addr \<Rightarrow> 'z mmu_st_scheme \<Rightarrow> 'z mmu_st_scheme" where
  "mmu_unmap_page pt virt s =
     (if pt = NullPt then s
      else if \<not> page_aligned virt then s
      else
        let pd = page_directory (pt_storage s);
            pd_index = PD_INDEX virt;
            pt_index = PT_INDEX virt in
        if get_entry s pd pd_index AND PDE_PRESENT = 0 then s
        else
          let table = PAGE_FRAME (get_entry s pd pd_index)
          in flush_tlb_single virt (set_entry table pt_index 0 s))"

definition mmu_switch_address_space :: "pt_ptr \<Rightarrow> 'z mmu_st_scheme \<Rightarrow> 'z mmu_st_scheme" where
  "mmu_switch_address_space pt s =
     (if pt = NullPt then s else s\<lparr>cr3 := pd_phys (pt_storage s)\<rparr>)"

definition mmu_get_current_address_space :: "'z mmu_st_scheme \<Rightarrow> pt_ptr" where
  "mmu_get_current_address_space s = kernel_address_space s"

definition mmu_get_kernel_address_space :: "'z mmu_st_scheme \<Rightarrow> pt_ptr" where
  "mmu_get_kernel_address_space s = kernel_address_space s"

text \<open>The loop of \<^verbatim>\<open>mmu_init\<close>: \<open>virt\<close> stays below 16 MB and cannot wrap.\<close>

function identity_map :: "addr \<Rightarrow> 'z mmu_st_scheme \<Rightarrow> fault + 'z mmu_st_scheme" where
  "identity_map virt s =
     (if virt < 16 * 1024 * 1024 then
        andthen (mmu_map_page (kernel_address_space s) virt virt (MMU_PRESENT OR MMU_WRITABLE) s)
          (\<lambda>(result, s). if result = 0 then Inr s else identity_map (virt + FRAME_SIZE) s)
      else Inr s)"
  by pat_completeness auto
termination
proof (relation "measure (\<lambda>(v, s). 16777216 - unat v)", goal_cases)
  case (2 virt s x xa y)
  then have "unat virt < 16777216" by (simp add: word_less_nat_alt)
  then have "unat (virt + 4096) = unat virt + 4096" by (simp add: unat_word_ariths)
  with \<open>unat virt < 16777216\<close> show ?case by simp
qed simp

declare identity_map.simps [simp del]

definition mmu_init :: "'z mmu_st_scheme \<Rightarrow> fault + 'z mmu_st_scheme" where
  "mmu_init s =
     andthen (mmu_create_address_space s) (\<lambda>(pt, s).
     let s = s\<lparr>kernel_address_space := pt\<rparr> in
     if kernel_address_space s = NullPt then Inr s
     else if \<not> page_aligned (pd_phys (pt_storage s)) then Inr s
     else if free_frames s = 0 then Inr s
     else
       andthen (identity_map FRAME_SIZE s) (\<lambda>s.
       let s = mmu_switch_address_space (kernel_address_space s) s
       in Inr (s\<lparr>cr0 := cr0 s OR push_bit 31 1\<rparr>)))"


section \<open>Frame facts\<close>

text \<open>The MMU's fields are invisible to the physical memory manager, and the other way round.\<close>

lemma pmm_fields_mmu_upd [simp, frame_simps]:
  "free_set (s\<lparr>memory := m\<rparr>) = free_set s"
  "free_set (s\<lparr>pt_storage := t\<rparr>) = free_set s"
  "free_set (s\<lparr>kernel_address_space := p\<rparr>) = free_set s"
  "free_set (s\<lparr>cr0 := x\<rparr>) = free_set s"
  "free_set (s\<lparr>cr3 := x\<rparr>) = free_set s"
  "free_set (s\<lparr>tlb_flushed := l\<rparr>) = free_set s"
  by (simp_all add: free_set_def bitmap_test_def)

lemma avail_pages_mmu_upd [simp, frame_simps]:
  "avail_pages (s\<lparr>memory := m\<rparr>) = avail_pages s"
  "avail_pages (s\<lparr>pt_storage := t\<rparr>) = avail_pages s"
  "avail_pages (s\<lparr>kernel_address_space := p\<rparr>) = avail_pages s"
  "avail_pages (s\<lparr>cr0 := x\<rparr>) = avail_pages s"
  "avail_pages (s\<lparr>cr3 := x\<rparr>) = avail_pages s"
  "avail_pages (s\<lparr>tlb_flushed := l\<rparr>) = avail_pages s"
  by (simp_all add: avail_pages_def)

lemma pmm_inv_mmu_upd [simp, frame_simps]:
  "pmm_inv M (s\<lparr>memory := m\<rparr>) = pmm_inv M s"
  "pmm_inv M (s\<lparr>pt_storage := t\<rparr>) = pmm_inv M s"
  "pmm_inv M (s\<lparr>kernel_address_space := p\<rparr>) = pmm_inv M s"
  "pmm_inv M (s\<lparr>cr0 := x\<rparr>) = pmm_inv M s"
  "pmm_inv M (s\<lparr>cr3 := x\<rparr>) = pmm_inv M s"
  "pmm_inv M (s\<lparr>tlb_flushed := l\<rparr>) = pmm_inv M s"
  by (simp_all add: pmm_inv_def)

lemma kassert_Inr: "kassert s c e = Inr u \<longleftrightarrow> kassert s c e = Inr ()"
  by simp

lemma bitmap_set_more: "bitmap_set f s = Inr s' \<Longrightarrow> pmm_st.more s' = pmm_st.more s"
  by (auto simp: bitmap_set_def andthen_eq_Inr Let_def)

lemma bitmap_clear_more: "bitmap_clear f s = Inr s' \<Longrightarrow> pmm_st.more s' = pmm_st.more s"
  by (auto simp: bitmap_clear_def andthen_eq_Inr Let_def)

lemma pmm_alloc_page_more: "pmm_alloc_page s = Inr (p, s') \<Longrightarrow> pmm_st.more s' = pmm_st.more s"
  by (auto simp: pmm_alloc_page_def andthen_eq_Inr Let_def dest: bitmap_set_more split: if_splits)

lemma pmm_free_page_more: "pmm_free_page p s = Inr s' \<Longrightarrow> pmm_st.more s' = pmm_st.more s"
  by (auto simp: pmm_free_page_def andthen_eq_Inr Let_def dest: bitmap_clear_more split: if_splits)

lemma more_eq_mmu_fields:
  fixes s t :: "'z mmu_st_scheme"
  assumes "pmm_st.more s = pmm_st.more t"
  shows "memory s = memory t" "pt_storage s = pt_storage t"
    "kernel_address_space s = kernel_address_space t" "cr0 s = cr0 t" "cr3 s = cr3 t"
    "tlb_flushed s = tlb_flushed t" "mmu_st.more s = mmu_st.more t"
  using assms by (cases s, cases t, simp)+

lemmas pmm_alloc_page_mmu [frame_simps] = more_eq_mmu_fields [OF pmm_alloc_page_more]
lemmas pmm_free_page_mmu [frame_simps] = more_eq_mmu_fields [OF pmm_free_page_more]


section \<open>Tables in memory\<close>

lemma get_set_entry:
  assumes "page_aligned b" "unat i < 1024" "page_aligned c" "unat j < 1024"
  shows "get_entry (set_entry b i x s) c j = (if b = c \<and> i = j then x else get_entry s c j)"
  using read32_entry [OF assms] by (simp add: get_entry_def set_entry_def)

lemma set_entry_frame [simp, frame_simps]:
  "free_set (set_entry b i x s) = free_set s"
  "avail_pages (set_entry b i x s) = avail_pages s"
  "pmm_inv M (set_entry b i x s) = pmm_inv M s"
  "pt_storage (set_entry b i x s) = pt_storage s"
  "kernel_address_space (set_entry b i x s) = kernel_address_space s"
  "free_frames (set_entry b i x s) = free_frames s"
  "cr0 (set_entry b i x s) = cr0 s"
  "cr3 (set_entry b i x s) = cr3 s"
  "tlb_flushed (set_entry b i x s) = tlb_flushed s"
  "mmu_st.more (set_entry b i x s) = mmu_st.more s"
  by (simp_all add: set_entry_def)

lemma get_entry_upd [simp, frame_simps]:
  "get_entry (s\<lparr>pt_storage := t\<rparr>) = get_entry s"
  "get_entry (s\<lparr>kernel_address_space := p\<rparr>) = get_entry s"
  "get_entry (s\<lparr>cr0 := x\<rparr>) = get_entry s"
  "get_entry (s\<lparr>cr3 := x\<rparr>) = get_entry s"
  "get_entry (s\<lparr>tlb_flushed := l\<rparr>) = get_entry s"
  by (simp_all add: get_entry_def fun_eq_iff)

lemma zero_entries_frame:
  fixes s :: "'z mmu_st_scheme" and b :: addr and js :: "nat list"
  defines "z \<equiv> fold (\<lambda>i. set_entry b (of_nat i) 0) js s"
  shows "free_set z = free_set s" "avail_pages z = avail_pages s" "pmm_inv M z = pmm_inv M s"
    "pt_storage z = pt_storage s" "kernel_address_space z = kernel_address_space s"
    "free_frames z = free_frames s" "cr0 z = cr0 s" "cr3 z = cr3 s"
    "tlb_flushed z = tlb_flushed s" "mmu_st.more z = mmu_st.more s"
  unfolding z_def by (induction js arbitrary: s) simp_all

lemmas zero_table_frame [simp, frame_simps] =
  zero_entries_frame [where js = "[0..<1024]", folded zero_table_def]

lemma get_entry_zero_entries:
  assumes "page_aligned b" "page_aligned c" "unat j < 1024" "set js \<subseteq> {0..<1024}"
  shows "get_entry (fold (\<lambda>i. set_entry b (of_nat i) 0) js s) c j =
    (if b = c \<and> unat j \<in> set js then 0 else get_entry s c j)"
  using assms
proof (induction js arbitrary: s)
  case Nil
  then show ?case by simp
next
  case (Cons i js)
  have i: "unat (of_nat i :: u32) = i" using Cons.prems(4) by (simp add: unsigned_of_nat take_bit_eq_mod)
  then have "(of_nat i = j) = (i = unat j)" by (auto simp: word_unat_eq_iff)
  with Cons i show ?case by (auto simp: get_set_entry)
qed

lemma get_entry_zero_table:
  assumes "page_aligned b" "page_aligned c" "unat j < 1024"
  shows "get_entry (zero_table b s) c j = (if b = c then 0 else get_entry s c j)"
proof -
  have "unat j \<in> set [0..<1024]" "set [0..<1024 :: nat] \<subseteq> {0..<1024}" using assms(3) by auto
  then show ?thesis unfolding zero_table_def get_entry_zero_entries [OF assms \<open>set _ \<subseteq> _\<close>] by simp
qed


section \<open>Entry words\<close>

lemma PAGE_FRAME_eq: "PAGE_FRAME e = PAGE_ALIGN_DOWN e"
  by (simp add: PAGE_FRAME_def PAGE_ALIGN_DOWN_def)

lemma page_aligned_PAGE_FRAME [simp]: "page_aligned (PAGE_FRAME e)"
  by (simp add: PAGE_FRAME_eq)

lemma page_aligned_low_bits:
  assumes "page_aligned a" and "n < 12"
  shows "\<not> bit a n"
proof -
  have "\<not> bit (a AND 4095) n" using assms(1) by (simp add: page_aligned_def)
  then show ?thesis using assms(2) by (simp add: mask_12 bit_simps)
qed

lemma page_frame_or:
  assumes "page_aligned a" and "f AND 4095 = f"
  shows "PAGE_FRAME (a OR f) = a" and "(a OR f) AND 4095 = f"
proof -
  have "bit a n \<Longrightarrow> \<not> n < 12" for n
    using page_aligned_low_bits [OF assms(1)] by blast
  moreover have "bit f n \<Longrightarrow> n < 12" for n
    using arg_cong [OF assms(2), of "\<lambda>x. bit x n"] by (auto simp: mask_12 bit_simps)
  ultimately show "PAGE_FRAME (a OR f) = a" "(a OR f) AND 4095 = f"
    unfolding PAGE_FRAME_def mask_12 by (auto intro!: bit_word_eqI simp: bit_simps)
qed

lemma and_1_bit: "(e :: u32) AND 1 = 0 \<longleftrightarrow> \<not> bit e 0"
  using and_shifted_one_eq_0 [of e 0] by simp

lemma flags_to_x86_low: "flags_to_x86 flags AND 4095 = flags_to_x86 flags"
  by (simp add: flags_to_x86_def Let_def)

lemma flags_to_x86_present: "bit (flags_to_x86 flags) 0 \<longleftrightarrow> flags AND MMU_PRESENT \<noteq> 0"
  by (simp add: flags_to_x86_def Let_def)

lemma pde_word:
  assumes "page_aligned a"
  shows "PAGE_FRAME (a OR PDE_PRESENT OR PDE_WRITABLE OR PDE_USER) = a"
    and "bit (a OR PDE_PRESENT OR PDE_WRITABLE OR PDE_USER) 0"
  using page_frame_or(1) [OF assms, of 7] by (simp_all add: bit_or_iff)


section \<open>Translation and invariant\<close>

text \<open>
  The hardware's walk of the two levels; the result is the physical page and
  the low twelve bits of the page table entry.
\<close>

definition translate :: "'z mmu_st_scheme \<Rightarrow> addr \<Rightarrow> (addr \<times> u32) option" where
  "translate s v =
     (let pde = get_entry s (page_directory (pt_storage s)) (PD_INDEX v) in
      if pde AND PDE_PRESENT = 0 then None
      else
        let pte = get_entry s (PAGE_FRAME pde) (PT_INDEX v) in
        if pte AND PTE_PRESENT = 0 then None else Some (PAGE_FRAME pte, pte AND 4095))"

definition visible :: "addr \<Rightarrow> u32 \<Rightarrow> (addr \<times> u32) option" where
  "visible phys flags = (if flags AND MMU_PRESENT = 0 then None else Some (phys, flags_to_x86 flags))"

text \<open>The slots of 4 MB that have a page table, the page of that table, and all pages an address space owns.\<close>

definition table_slots :: "'z mmu_st_scheme \<Rightarrow> u32 set" where
  "table_slots s = {i. unat i < 1024 \<and> bit (get_entry s (page_directory (pt_storage s)) i) 0}"

definition table_page :: "'z mmu_st_scheme \<Rightarrow> u32 \<Rightarrow> addr" where
  "table_page s i = PAGE_FRAME (get_entry s (page_directory (pt_storage s)) i)"

definition owned_pages :: "'z mmu_st_scheme \<Rightarrow> addr set" where
  "owned_pages s = insert (page_directory (pt_storage s)) (table_page s ` table_slots s)"

text \<open>
  The directory and the tables live in distinct managed pages that are not
  free, so neither an allocation nor an access to one table disturbs another.
\<close>

definition mmu_inv :: "u32 set \<Rightarrow> 'z mmu_st_scheme \<Rightarrow> bool" where
  "mmu_inv M s \<longleftrightarrow> pmm_inv M s \<and>
     pd_phys (pt_storage s) = page_directory (pt_storage s) \<and>
     page_directory (pt_storage s) \<in> managed_pages M - avail_pages s \<and>
     (\<forall>i \<in> table_slots s. table_page s i \<in> managed_pages M - avail_pages s \<and>
        table_page s i \<noteq> page_directory (pt_storage s)) \<and>
     inj_on (table_page s) (table_slots s)"

lemma translate_None: "PD_INDEX v \<notin> table_slots s \<Longrightarrow> translate s v = None"
  by (simp add: translate_def table_slots_def and_1_bit Let_def)

lemma translate_table:
  "PD_INDEX v \<in> table_slots s \<Longrightarrow> translate s v =
    (let pte = get_entry s (table_page s (PD_INDEX v)) (PT_INDEX v) in
     if pte AND PTE_PRESENT = 0 then None else Some (PAGE_FRAME pte, pte AND 4095))"
  by (simp add: translate_def table_slots_def and_1_bit Let_def table_page_def)

lemma mmu_inv_pd:
  assumes "mmu_inv M s"
  shows "page_aligned (page_directory (pt_storage s))"
  using assms pmm.managed_page by (auto simp: mmu_inv_def)

lemma mmu_inv_table:
  assumes "mmu_inv M s" and "i \<in> table_slots s"
  shows "page_aligned (table_page s i)" "table_page s i \<noteq> page_directory (pt_storage s)"
    "table_page s i \<in> managed_pages M" "table_page s i \<notin> avail_pages s"
  using assms by (auto simp: mmu_inv_def table_page_def)

text \<open>What a state shows to the MMU: the invariant only looks at the directory.\<close>

lemma mmu_view_cong:
  assumes "pt_storage s' = pt_storage s"
    and "\<And>i. unat i < 1024 \<Longrightarrow> get_entry s' (page_directory (pt_storage s)) i = get_entry s (page_directory (pt_storage s)) i"
  shows "table_slots s' = table_slots s" and "i \<in> table_slots s \<Longrightarrow> table_page s' i = table_page s i"
    and "pmm_inv M s' \<Longrightarrow> avail_pages s' \<subseteq> avail_pages s \<Longrightarrow> mmu_inv M s \<Longrightarrow> mmu_inv M s'"
    and "owned_pages s' = owned_pages s"
proof -
  show slots: "table_slots s' = table_slots s"
    using assms by (auto simp: table_slots_def)
  show tp: "table_page s' i = table_page s i" if "i \<in> table_slots s" for i
    using assms that by (simp add: table_page_def table_slots_def)
  show "mmu_inv M s'" if "pmm_inv M s'" "avail_pages s' \<subseteq> avail_pages s" "mmu_inv M s"
    using that assms(1) slots tp inj_on_cong [of "table_slots s" "table_page s'" "table_page s"]
    by (auto simp: mmu_inv_def)
  show "owned_pages s' = owned_pages s"
    using assms(1) slots tp by (auto simp: owned_pages_def)
qed

text \<open>Writing one entry of a page table changes the translation of one page.\<close>

lemma set_pte_spec:
  fixes x :: u32
  assumes "mmu_inv M s" and "i \<in> table_slots s" and "unat k < 1024"
  defines "s' \<equiv> set_entry (table_page s i) k x s"
  shows "mmu_inv M s'" and "table_slots s' = table_slots s" and "owned_pages s' = owned_pages s"
    and "translate s' v = (if PD_INDEX v = i \<and> PT_INDEX v = k
      then (if x AND PTE_PRESENT = 0 then None else Some (PAGE_FRAME x, x AND 4095))
      else translate s v)"
proof -
  note tb = mmu_inv_table [OF assms(1)]
  have pd: "get_entry s' (page_directory (pt_storage s)) j = get_entry s (page_directory (pt_storage s)) j"
    if "unat j < 1024" for j
    using tb [OF assms(2)] mmu_inv_pd [OF assms(1)] that assms(3) by (simp add: s'_def get_set_entry)
  have "pt_storage s' = pt_storage s" by (simp add: s'_def)
  note view = mmu_view_cong [OF this pd]
  show "mmu_inv M s'"
    by (rule view(3)) (use assms(1) in \<open>simp_all add: s'_def mmu_inv_def\<close>)
  show slots: "table_slots s' = table_slots s" by (rule view(1))
  show "owned_pages s' = owned_pages s" by (rule view(4))
  show "translate s' v = (if PD_INDEX v = i \<and> PT_INDEX v = k
      then (if x AND PTE_PRESENT = 0 then None else Some (PAGE_FRAME x, x AND 4095))
      else translate s v)"
  proof (cases "PD_INDEX v \<in> table_slots s")
    case False
    then show ?thesis using slots assms(2) by (auto simp: translate_None)
  next
    case True
    have "table_page s i = table_page s (PD_INDEX v) \<longleftrightarrow> PD_INDEX v = i"
      using assms(1,2) True by (auto simp: mmu_inv_def dest: inj_onD)
    then have "get_entry s' (table_page s (PD_INDEX v)) (PT_INDEX v) =
        (if PD_INDEX v = i \<and> PT_INDEX v = k then x else get_entry s (table_page s (PD_INDEX v)) (PT_INDEX v))"
      using tb [OF assms(2)] tb [OF True] assms(3) by (auto simp: s'_def get_set_entry)
    then show ?thesis
      using True slots view(2) [OF _ True] by (auto simp: translate_table Let_def)
  qed
qed

lemma set_directory_entry_spec:
  assumes inv: "mmu_inv M s" and i: "unat i < 1024" "i \<notin> table_slots s"
    and p: "p \<in> managed_pages M" "p \<notin> avail_pages s" "p \<noteq> page_directory (pt_storage s)"
      "\<forall>j \<in> table_slots s. table_page s j \<noteq> p"
    and zero: "\<And>k. unat k < 1024 \<Longrightarrow> get_entry s p k = 0"
  defines "s' \<equiv> set_entry (page_directory (pt_storage s)) i (p OR PDE_PRESENT OR PDE_WRITABLE OR PDE_USER) s"
  shows "mmu_inv M s'" and "table_slots s' = insert i (table_slots s)" and "table_page s' i = p"
    and "translate s' = translate s" and "owned_pages s' = insert p (owned_pages s)"
proof -
  let ?pd = "page_directory (pt_storage s)"
  have al: "page_aligned p" "page_aligned ?pd" using p(1) pmm.managed_page mmu_inv_pd [OF inv] by auto
  have get: "get_entry s' ?pd j = (if j = i then p OR PDE_PRESENT OR PDE_WRITABLE OR PDE_USER else get_entry s ?pd j)"
    if "unat j < 1024" for j
    using al that i by (simp add: s'_def get_set_entry)
  have pt: "pt_storage s' = pt_storage s" by (simp add: s'_def)
  show slots: "table_slots s' = insert i (table_slots s)"
    using get i pde_word(2) [OF al(1)] by (auto simp: table_slots_def pt split: if_splits)
  show tpi: "table_page s' i = p"
    using get [OF i(1)] pde_word(1) [OF al(1)] by (simp add: table_page_def pt)
  have tp: "table_page s' j = table_page s j" if "j \<in> table_slots s" for j
    using get [of j] that i by (auto simp: table_page_def pt table_slots_def)
  show "owned_pages s' = insert p (owned_pages s)"
    using tp tpi by (auto simp: owned_pages_def slots pt)
  show "mmu_inv M s'"
    unfolding mmu_inv_def slots
  proof (intro conjI)
    show "inj_on (table_page s') (insert i (table_slots s))"
      using inv i tp tpi p(4) by (auto simp: mmu_inv_def inj_on_def)
  qed (use inv p tp tpi in \<open>auto simp: mmu_inv_def pt s'_def\<close>)
  show "translate s' = translate s"
  proof
    fix v
    have other: "get_entry s' q k = get_entry s q k" if "page_aligned q" "q \<noteq> ?pd" "unat k < 1024" for q k
      using that al i by (simp add: s'_def get_set_entry)
    consider "PD_INDEX v = i" | "PD_INDEX v \<noteq> i" "PD_INDEX v \<in> table_slots s"
      | "PD_INDEX v \<noteq> i" "PD_INDEX v \<notin> table_slots s" by blast
    then show "translate s' v = translate s v"
    proof cases
      case 1
      with other [OF al(1) p(3)] zero slots tpi i(2) show ?thesis
        by (simp add: translate_table translate_None Let_def)
    next
      case 2
      with other mmu_inv_table [OF inv 2(2)] slots tp show ?thesis
        by (simp add: translate_table Let_def)
    next
      case 3
      with slots show ?thesis by (simp add: translate_None)
    qed
  qed
qed

text \<open>Allocating a page and clearing it disturbs neither directory nor tables.\<close>

lemma fresh_page_spec:
  assumes inv: "mmu_inv M s" and alloc: "pmm_alloc_page s = Inr (p, s1)" and nz: "p \<noteq> 0"
  defines "s2 \<equiv> zero_table p s1"
  shows "mmu_inv M s2" "table_slots s2 = table_slots s" "translate s2 = translate s"
    and "\<And>j. j \<in> table_slots s \<Longrightarrow> table_page s2 j = table_page s j"
    and "p \<in> managed_pages M" "p \<in> avail_pages s" "avail_pages s2 = avail_pages s - {p}"
    and "\<And>k. unat k < 1024 \<Longrightarrow> get_entry s2 p k = 0"
    and "pt_storage s2 = pt_storage s" and "owned_pages s2 = owned_pages s"
proof -
  have pinv: "pmm_inv M s" using inv by (simp add: mmu_inv_def)
  note a = pmm.alloc_page [OF pinv alloc]
  show p: "p \<in> managed_pages M" "p \<in> avail_pages s" using a nz by auto
  have al: "page_aligned p" "page_aligned (page_directory (pt_storage s))"
    using a nz mmu_inv_pd [OF inv] by auto
  show avail: "avail_pages s2 = avail_pages s - {p}" using a(5) by (simp add: s2_def)
  show pt: "pt_storage s2 = pt_storage s"
    using pmm_alloc_page_mmu(2) [OF alloc] by (simp add: s2_def)
  show "get_entry s2 p k = 0" if "unat k < 1024" for k
    using al that by (simp add: s2_def get_entry_zero_table)
  have other: "get_entry s2 q k = get_entry s q k" if "page_aligned q" "q \<notin> avail_pages s" "unat k < 1024" for q k
  proof -
    have "q \<noteq> p" using that(2) p(2) by blast
    then have "get_entry s2 q k = get_entry s1 q k"
      using al that by (simp add: s2_def get_entry_zero_table)
    then show ?thesis using pmm_alloc_page_mmu(1) [OF alloc] by (simp add: get_entry_def)
  qed
  have dir: "get_entry s2 (page_directory (pt_storage s)) i = get_entry s (page_directory (pt_storage s)) i"
    if "unat i < 1024" for i
    using other [OF al(2)] that inv by (simp add: mmu_inv_def)
  note view = mmu_view_cong [OF pt dir]
  show slots: "table_slots s2 = table_slots s" by (rule view(1))
  show "owned_pages s2 = owned_pages s" by (rule view(4))
  show tp: "table_page s2 j = table_page s j" if "j \<in> table_slots s" for j
    using view(2) [OF _ that] by blast
  show "mmu_inv M s2"
    by (rule view(3)) (use inv a avail in \<open>auto simp: s2_def\<close>)
  show "translate s2 = translate s"
  proof
    fix v
    show "translate s2 v = translate s v"
    proof (cases "PD_INDEX v \<in> table_slots s")
      case True
      with slots tp mmu_inv_table [OF inv True] other show ?thesis
        by (simp add: translate_table Let_def)
    qed (simp add: translate_None slots)
  qed
qed

lemma ensure_table_present:
  assumes "i \<in> table_slots s"
  shows "ensure_table (page_directory (pt_storage s)) i s = Inr (True, s)"
  using assms by (simp add: ensure_table_def table_slots_def and_1_bit)

lemma ensure_table_full:
  assumes "mmu_inv M s" and "i \<notin> table_slots s" and "unat i < 1024" and "avail_pages s = {}"
  shows "ensure_table (page_directory (pt_storage s)) i s = Inr (False, s)"
proof -
  have "pmm_alloc_page s = Inr (0, s)" using assms by (intro pmm.alloc_none) (auto simp: mmu_inv_def)
  with assms(2,3) show ?thesis by (simp add: ensure_table_def table_slots_def and_1_bit)
qed

lemma ensure_table_alloc:
  assumes inv: "mmu_inv M s" and i: "i \<notin> table_slots s" "unat i < 1024" and ne: "avail_pages s \<noteq> {}"
  shows "\<exists>s' p. ensure_table (page_directory (pt_storage s)) i s = Inr (True, s') \<and> mmu_inv M s' \<and>
    table_slots s' = insert i (table_slots s) \<and> translate s' = translate s \<and>
    p \<in> avail_pages s \<and> avail_pages s' = avail_pages s - {p} \<and> pt_storage s' = pt_storage s \<and>
    owned_pages s' = insert p (owned_pages s)"
proof -
  have pinv: "pmm_inv M s" using inv by (simp add: mmu_inv_def)
  from pmm.alloc_total [OF pinv] obtain p s1 where alloc: "pmm_alloc_page s = Inr (p, s1)" by blast
  have nz: "p \<noteq> 0" using pmm.alloc_page(2) [OF pinv alloc] ne by blast
  define s2 where "s2 = zero_table p s1"
  note f = fresh_page_spec [OF inv alloc nz, folded s2_def]
  have p: "p \<notin> avail_pages s2" "p \<noteq> page_directory (pt_storage s2)"
    "\<forall>j \<in> table_slots s2. table_page s2 j \<noteq> p"
    using f inv mmu_inv_table [OF inv] by (auto simp: mmu_inv_def)
  have i2: "i \<notin> table_slots s2" using i f by simp
  let ?s' = "set_entry (page_directory (pt_storage s2)) i (p OR PDE_PRESENT OR PDE_WRITABLE OR PDE_USER) s2"
  note d = set_directory_entry_spec [OF f(1) i(2) i2 f(5) p f(8)]
  have "ensure_table (page_directory (pt_storage s)) i s = Inr (True, ?s')"
    using alloc nz i f(9) by (simp add: ensure_table_def table_slots_def and_1_bit s2_def)
  with d f show ?thesis by (intro exI [of _ ?s'] exI [of _ p]) simp
qed


section \<open>The contract of the page tables\<close>

abbreviation page_budget :: "'z mmu_st_scheme \<Rightarrow> nat" where
  "page_budget s \<equiv> card (avail_pages s)"

abbreviation page_footprint :: "'z mmu_st_scheme \<Rightarrow> addr set" where
  "page_footprint s \<equiv> avail_pages s \<union> owned_pages s"

lemma avail_pages_finite [simp]: "finite (avail_pages s)"
  by (simp add: avail_pages_def)

lemma flush_tlb_frame [simp, frame_simps]:
  "mmu_inv M (flush_tlb_single v s) = mmu_inv M s"
  "table_slots (flush_tlb_single v s) = table_slots s"
  "translate (flush_tlb_single v s) = translate s"
  "avail_pages (flush_tlb_single v s) = avail_pages s"
  "pt_storage (flush_tlb_single v s) = pt_storage s"
  "owned_pages (flush_tlb_single v s) = owned_pages s"
  by (simp_all add: flush_tlb_single_def mmu_inv_def owned_pages_def table_slots_def table_page_def [abs_def]
      translate_def fun_eq_iff Let_def)

lemma same_page_aligned:
  "page_aligned virt \<Longrightarrow> PD_INDEX v = PD_INDEX virt \<and> PT_INDEX v = PT_INDEX virt \<longleftrightarrow> PAGE_ALIGN_DOWN v = virt"
  by (simp add: same_page_iff)

lemma map_with_table:
  fixes flags :: u32
  assumes "mmu_inv M s" "PD_INDEX virt \<in> table_slots s" "page_aligned phys" "page_aligned virt"
  defines "s' \<equiv> flush_tlb_single virt
    (set_entry (table_page s (PD_INDEX virt)) (PT_INDEX virt) (phys OR flags_to_x86 flags) s)"
  shows "mmu_inv M s'" "table_slots s' = table_slots s"
    "translate s' v = (if PAGE_ALIGN_DOWN v = virt then visible phys flags else translate s v)"
    "avail_pages s' = avail_pages s" "owned_pages s' = owned_pages s"
proof -
  have k: "unat (PT_INDEX virt) < 1024" by simp
  note p = set_pte_spec [OF assms(1,2) k, of "phys OR flags_to_x86 flags"]
  show "mmu_inv M s'" "table_slots s' = table_slots s" "avail_pages s' = avail_pages s"
    "owned_pages s' = owned_pages s"
    using p by (simp_all add: s'_def)
  have "bit (phys OR flags_to_x86 flags) 0 \<longleftrightarrow> flags AND MMU_PRESENT \<noteq> 0"
    using page_aligned_low_bits [OF assms(3)] flags_to_x86_present by (simp add: bit_or_iff)
  then show "translate s' v = (if PAGE_ALIGN_DOWN v = virt then visible phys flags else translate s v)"
    unfolding s'_def flush_tlb_frame p(4) same_page_aligned [OF assms(4)] and_1_bit
    using page_frame_or [OF assms(3) flags_to_x86_low, of flags] by (simp add: visible_def and_1_bit)
qed

lemma mmu_map_page_present:
  assumes "mmu_inv M s" "page_aligned phys" "page_aligned virt" "PD_INDEX virt \<in> table_slots s"
  shows "mmu_map_page PtStorage phys virt flags s = Inr (virt, flush_tlb_single virt
    (set_entry (table_page s (PD_INDEX virt)) (PT_INDEX virt) (phys OR flags_to_x86 flags) s))"
  using assms by (simp add: mmu_map_page_def Let_def ensure_table_present table_page_def)

lemma mmu_map_page_missing:
  assumes "page_aligned phys" "page_aligned virt"
    and "ensure_table (page_directory (pt_storage s)) (PD_INDEX virt) s = Inr (True, s1)"
    and "mmu_inv M s1" "PD_INDEX virt \<in> table_slots s1" "pt_storage s1 = pt_storage s"
  shows "mmu_map_page PtStorage phys virt flags s = mmu_map_page PtStorage phys virt flags s1"
  unfolding mmu_map_page_present [OF assms(4,1,2,5)]
  using assms by (simp add: mmu_map_page_def Let_def table_page_def)

lemma mmu_map_page_spec:
  assumes inv: "mmu_inv M s" and al: "page_aligned phys" "page_aligned virt"
    and room: "PD_INDEX virt \<in> table_slots s \<or> 0 < page_budget s"
  shows "\<exists>s'. mmu_map_page PtStorage phys virt flags s = Inr (virt, s') \<and> mmu_inv M s' \<and>
    table_slots s' = insert (PD_INDEX virt) (table_slots s) \<and>
    page_budget s' = page_budget s - (if PD_INDEX virt \<in> table_slots s then 0 else 1) \<and>
    (\<forall>v. translate s' v = (if PAGE_ALIGN_DOWN v = virt then visible phys flags else translate s v)) \<and>
    avail_pages s' \<union> owned_pages s' = avail_pages s \<union> owned_pages s"
proof (cases "PD_INDEX virt \<in> table_slots s")
  case True
  with map_with_table [OF inv True al] show ?thesis
    by (simp add: mmu_map_page_present [OF inv al True] insert_absorb)
next
  case False
  then have "avail_pages s \<noteq> {}" using room by auto
  from ensure_table_alloc [OF inv False _ this] obtain s1 p where
    s1: "ensure_table (page_directory (pt_storage s)) (PD_INDEX virt) s = Inr (True, s1)" "mmu_inv M s1"
      "table_slots s1 = insert (PD_INDEX virt) (table_slots s)" "translate s1 = translate s"
      "p \<in> avail_pages s" "avail_pages s1 = avail_pages s - {p}" "pt_storage s1 = pt_storage s"
      "owned_pages s1 = insert p (owned_pages s)" by auto
  have t: "PD_INDEX virt \<in> table_slots s1" using s1(3) by simp
  have "page_budget s1 = page_budget s - 1" using s1(5,6) by simp
  moreover have "avail_pages s1 \<union> owned_pages s1 = avail_pages s \<union> owned_pages s" using s1(5,6,8) by auto
  ultimately show ?thesis using map_with_table [OF s1(2) t al] s1(3,4) False
    by (simp add: mmu_map_page_missing [OF al s1(1,2) t s1(7)] mmu_map_page_present [OF s1(2) al t])
qed

lemma mmu_map_page_full:
  assumes "mmu_inv M s" "PD_INDEX virt \<notin> table_slots s" "page_budget s = 0"
  shows "mmu_map_page PtStorage phys virt flags s = Inr (0, s)"
proof -
  have "avail_pages s = {}" using assms(3) by simp
  with ensure_table_full [OF assms(1,2)] show ?thesis by (simp add: mmu_map_page_def Let_def)
qed

lemma mmu_unmap_page_spec:
  assumes "mmu_inv M s" "page_aligned virt"
  shows "mmu_inv M (mmu_unmap_page PtStorage virt s)"
    and "translate (mmu_unmap_page PtStorage virt s) v = (if PAGE_ALIGN_DOWN v = virt then None else translate s v)"
    and "page_footprint (mmu_unmap_page PtStorage virt s) = page_footprint s"
proof -
  have k: "unat (PT_INDEX virt) < 1024" by simp
  have *: "mmu_inv M (mmu_unmap_page PtStorage virt s) \<and>
    translate (mmu_unmap_page PtStorage virt s) v = (if PAGE_ALIGN_DOWN v = virt then None else translate s v) \<and>
    page_footprint (mmu_unmap_page PtStorage virt s) = page_footprint s"
  proof (cases "PD_INDEX virt \<in> table_slots s")
    case True
    then have "mmu_unmap_page PtStorage virt s =
        flush_tlb_single virt (set_entry (table_page s (PD_INDEX virt)) (PT_INDEX virt) 0 s)"
      using assms(2) by (simp add: mmu_unmap_page_def Let_def table_slots_def and_1_bit table_page_def)
    with set_pte_spec [OF assms(1) True k, of 0] show ?thesis
      by (simp add: same_page_aligned [OF assms(2)])
  next
    case False
    then have "mmu_unmap_page PtStorage virt s = s"
      by (simp add: mmu_unmap_page_def Let_def table_slots_def and_1_bit)
    moreover have "translate s v = None" if "PAGE_ALIGN_DOWN v = virt"
      using that False same_page_aligned [OF assms(2), of v] by (simp add: translate_None)
    ultimately show ?thesis using assms(1) by simp
  qed
  then show "mmu_inv M (mmu_unmap_page PtStorage virt s)"
    and "translate (mmu_unmap_page PtStorage virt s) v = (if PAGE_ALIGN_DOWN v = virt then None else translate s v)"
    and "page_footprint (mmu_unmap_page PtStorage virt s) = page_footprint s"
    by blast+
qed

interpretation mmu: address_space
  "mmu_map_page PtStorage" "mmu_unmap_page PtStorage" translate visible "mmu_inv M" table_slots page_budget
  page_footprint for M
  by unfold_locales (simp_all only: mmu_map_page_spec mmu_map_page_full mmu_unmap_page_spec simp_thms)


section \<open>Creation, destruction, boot\<close>

lemma mmu_create_spec:
  assumes inv: "pmm_inv M s" and ne: "avail_pages s \<noteq> {}"
  shows "\<exists>p s'. mmu_create_address_space s = Inr (PtStorage, s') \<and> mmu_inv M s' \<and>
    p \<in> avail_pages s \<and> avail_pages s' = avail_pages s - {p} \<and>
    pt_storage s' = \<lparr>page_directory = p, pd_phys = p\<rparr> \<and> table_slots s' = {} \<and>
    kernel_address_space s' = kernel_address_space s \<and> cr0 s' = cr0 s \<and> cr3 s' = cr3 s"
proof -
  from pmm.alloc_total [OF inv] obtain p s1 where alloc: "pmm_alloc_page s = Inr (p, s1)" by blast
  note a = pmm.alloc_page [OF inv alloc]
  have p: "p \<noteq> 0" "page_aligned p" "p \<in> avail_pages s" "p \<in> managed_pages M" using a ne by auto
  let ?s' = "(zero_table p s1)\<lparr>pt_storage := \<lparr>page_directory = p, pd_phys = p\<rparr>\<rparr>"
  have "mmu_create_address_space s = Inr (PtStorage, ?s')"
    using inv alloc p by (simp add: mmu_create_address_space_def pmm_is_initialized_def pmm_inv_def)
  moreover have "table_slots ?s' = {}"
    using p(2) by (auto simp: table_slots_def get_entry_zero_table)
  moreover have "mmu_inv M ?s'"
    using a p calculation(2) by (simp add: mmu_inv_def)
  ultimately show ?thesis
    using a p pmm_alloc_page_mmu [OF alloc] by (intro exI [of _ p] exI [of _ ?s']) simp
qed

lemma translate_empty: "table_slots s = {} \<Longrightarrow> translate s = (\<lambda>_. None)"
  by (simp add: fun_eq_iff translate_None)

lemma free_tables_spec:
  assumes "pmm_inv M s" and "distinct js"
    and "\<forall>j \<in> set js. bit (get_entry s pd (of_nat j)) 0 \<longrightarrow>
      PAGE_FRAME (get_entry s pd (of_nat j)) \<in> managed_pages M - avail_pages s"
    and "inj_on (\<lambda>j. PAGE_FRAME (get_entry s pd (of_nat j))) {j \<in> set js. bit (get_entry s pd (of_nat j)) 0}"
  shows "\<exists>s'. free_tables pd js s = Inr s' \<and> pmm_inv M s' \<and> pmm_st.more s' = pmm_st.more s \<and>
    avail_pages s' = avail_pages s \<union>
      (\<lambda>j. PAGE_FRAME (get_entry s pd (of_nat j))) ` {j \<in> set js. bit (get_entry s pd (of_nat j)) 0}"
  using assms
proof (induction js arbitrary: s)
  case Nil
  then show ?case by simp
next
  case (Cons j js)
  let ?e = "\<lambda>s j. get_entry s pd (of_nat j)"
  show ?case
  proof (cases "bit (?e s j) 0")
    case False
    then have "{k \<in> set (j # js). bit (?e s k) 0} = {k \<in> set js. bit (?e s k) 0}" by auto
    with Cons False show ?thesis by (simp add: and_1_bit)
  next
    case True
    have set: "{k \<in> set (j # js). bit (?e s k) 0} = insert j {k \<in> set js. bit (?e s k) 0}" using True by auto
    from True Cons.prems(3) have p: "PAGE_FRAME (?e s j) \<in> managed_pages M" "PAGE_FRAME (?e s j) \<notin> avail_pages s"
      by auto
    from pmm.release_ok [OF Cons.prems(1) this] obtain s1 where
      s1: "pmm_free_page (PAGE_FRAME (?e s j)) s = Inr s1"
        "avail_pages s1 = insert (PAGE_FRAME (?e s j)) (avail_pages s)" "pmm_inv M s1" by blast
    have e: "get_entry s1 = get_entry s"
      using pmm_free_page_mmu(1) [OF s1(1)] by (intro ext) (simp add: get_entry_def)
    have inj: "inj_on (\<lambda>k. PAGE_FRAME (?e s k)) {k \<in> set js. bit (?e s k) 0}"
      "\<forall>k \<in> set js. bit (?e s k) 0 \<longrightarrow> PAGE_FRAME (?e s k) \<noteq> PAGE_FRAME (?e s j)"
      using Cons.prems(2,4) unfolding set by (auto simp: image_iff)
    have "\<exists>s'. free_tables pd js s1 = Inr s' \<and> pmm_inv M s' \<and> pmm_st.more s' = pmm_st.more s1 \<and>
      avail_pages s' = avail_pages s1 \<union> (\<lambda>k. PAGE_FRAME (?e s1 k)) ` {k \<in> set js. bit (?e s1 k) 0}"
      using Cons.prems(2,3) s1 inj by (intro Cons.IH) (auto simp: e)
    with s1 True pmm_free_page_more [OF s1(1)] show ?thesis
      unfolding set e by (auto simp: and_1_bit)
  qed
qed

lemma slots_image:
  "(\<lambda>j. PAGE_FRAME (get_entry s (page_directory (pt_storage s)) (of_nat j))) `
     {j \<in> set [0..<1024]. bit (get_entry s (page_directory (pt_storage s)) (of_nat j)) 0} =
   table_page s ` table_slots s"
proof -
  have "table_slots s = of_nat ` {j \<in> set [0..<1024]. bit (get_entry s (page_directory (pt_storage s)) (of_nat j)) 0}"
    by (auto simp: table_slots_def unsigned_of_nat take_bit_eq_mod image_iff intro!: exI [of _ "unat _"])
  then show ?thesis by (simp add: image_image table_page_def)
qed

lemma of_nat_u32_inj: "i < 1024 \<Longrightarrow> j < 1024 \<Longrightarrow> (of_nat i :: u32) = of_nat j \<longleftrightarrow> i = j"
  by (simp add: word_unat_eq_iff unsigned_of_nat take_bit_eq_mod)

lemma mmu_destroy_spec:
  assumes "mmu_inv M s"
  shows "\<exists>s'. mmu_destroy_address_space PtStorage s = Inr s' \<and> pmm_inv M s' \<and>
    avail_pages s' = avail_pages s \<union> owned_pages s"
proof -
  let ?pd = "page_directory (pt_storage s)" and ?js = "[0..<1024]"
  let ?t = "\<lambda>j. PAGE_FRAME (get_entry s ?pd (of_nat j))"
  let ?P = "{j \<in> set ?js. bit (get_entry s ?pd (of_nat j)) 0}"
  have pinv: "pmm_inv M s" using assms by (simp add: mmu_inv_def)
  have slot: "of_nat j \<in> table_slots s" if "j \<in> ?P" for j
    using that by (simp add: table_slots_def unsigned_of_nat take_bit_eq_mod)
  have page: "\<forall>j \<in> set ?js. bit (get_entry s ?pd (of_nat j)) 0 \<longrightarrow> ?t j \<in> managed_pages M - avail_pages s"
    using slot assms by (auto simp: mmu_inv_def table_page_def)
  have inj: "inj_on ?t ?P"
  proof (rule inj_onI)
    fix i j
    assume ij: "i \<in> ?P" "j \<in> ?P" "?t i = ?t j"
    then have "(of_nat i :: u32) = of_nat j"
      using assms slot by (auto simp: mmu_inv_def inj_on_def table_page_def)
    then show "i = j" using ij by (simp add: of_nat_u32_inj)
  qed
  from free_tables_spec [OF pinv distinct_upt page inj] obtain s1 where
    s1: "free_tables ?pd ?js s = Inr s1" "pmm_inv M s1" "pmm_st.more s1 = pmm_st.more s"
      "avail_pages s1 = avail_pages s \<union> table_page s ` table_slots s"
    unfolding slots_image by blast
  have "?pd \<in> managed_pages M" "?pd \<notin> avail_pages s1" "pd_phys (pt_storage s1) = ?pd"
    using assms s1(4) more_eq_mmu_fields(2) [OF s1(3)] by (auto simp: mmu_inv_def)
  with pmm.release_ok [OF s1(2)] s1 show ?thesis
    by (fastforce simp: mmu_destroy_address_space_def owned_pages_def)
qed

lemma mmu_map_page_kernel:
  assumes "mmu_map_page pt phys virt flags s = Inr (r, s')"
  shows "kernel_address_space s' = kernel_address_space s" "cr0 s' = cr0 s" "cr3 s' = cr3 s"
    "pt_storage s' = pt_storage s"
  using assms
  by (auto simp: mmu_map_page_def ensure_table_def flush_tlb_single_def Let_def andthen_eq_Inr
      pmm_alloc_page_mmu split: if_splits)

abbreviation page_no :: "nat \<Rightarrow> addr" where
  "page_no k \<equiv> of_nat k * FRAME_SIZE"

definition identity_pages :: "nat list \<Rightarrow> (addr \<times> addr \<times> u32) list" where
  "identity_pages ks = map (\<lambda>k. (page_no k, page_no k, MMU_PRESENT OR MMU_WRITABLE)) ks"

lemma unat_page_no: "k < 1048576 \<Longrightarrow> unat (page_no k) = k * 4096"
  by (simp add: unat_word_ariths unsigned_of_nat take_bit_eq_mod)

lemma identity_map_install:
  assumes "kernel_address_space s = PtStorage" and "n \<le> 4096"
  shows "identity_map (page_no n) s = install_pages (mmu_map_page PtStorage) (identity_pages [n..<4096]) s"
  using assms
proof (induction "4096 - n" arbitrary: n s)
  case 0
  then show ?case by (simp add: identity_map.simps identity_pages_def)
next
  case (Suc d)
  then have n: "n < 4096" "[n..<4096] = n # [Suc n..<4096]" "d = 4096 - Suc n"
    by (simp_all add: upt_conv_Cons)
  have lt: "page_no n < 16777216" using n(1) by (simp add: word_less_nat_alt unat_page_no)
  have nx: "page_no n + 4096 = page_no (Suc n)" by (simp add: algebra_simps)
  show ?case
  proof (cases "mmu_map_page PtStorage (page_no n) (page_no n) (MMU_PRESENT OR MMU_WRITABLE) s")
    case (Inl e)
    with lt n Suc.prems show ?thesis by (simp add: identity_map.simps identity_pages_def)
  next
    case (Inr r)
    obtain q t where r: "r = (q, t)" by fastforce
    have "kernel_address_space t = PtStorage" using mmu_map_page_kernel(1) Inr r Suc.prems by metis
    with Suc.hyps(1) [OF n(3)] n(1)
    have "identity_map (page_no (Suc n)) t = install_pages (mmu_map_page PtStorage) (identity_pages [Suc n..<4096]) t"
      by simp
    with lt n Suc.prems Inr r show ?thesis
      by (simp add: identity_map.simps [of "page_no n"] nx identity_pages_def)
  qed
qed

lemma identity_map_kernel:
  "identity_map v s = Inr s' \<Longrightarrow> kernel_address_space s' = kernel_address_space s \<and> pt_storage s' = pt_storage s"
proof (induction v s rule: identity_map.induct)
  case (1 v s)
  show ?case
  proof (cases "v < 16777216")
    case True
    with 1(2) obtain r t where m: "mmu_map_page (kernel_address_space s) v v (MMU_PRESENT OR MMU_WRITABLE) s = Inr (r, t)"
      and rest: "(if r = 0 then Inr t else identity_map (v + FRAME_SIZE) t) = Inr s'"
      by (auto simp: identity_map.simps [of v] andthen_eq_Inr)
    note k = mmu_map_page_kernel(1,4) [OF m]
    show ?thesis
    proof (cases "r = 0")
      case False
      then have "identity_map (v + FRAME_SIZE) t = Inr s'" using rest by simp
      with 1(1) [OF _ m refl False] True k show ?thesis by simp
    qed (use rest k in simp)
  qed (use 1(2) in \<open>simp add: identity_map.simps [of v]\<close>)
qed

lemma last_request_identity:
  "last_request v (identity_pages ks) = (if \<exists>k \<in> set ks. v = page_no k then Some (v, MMU_PRESENT OR MMU_WRITABLE) else None)"
  by (induction ks) (auto simp: identity_pages_def)

text \<open>Pages 1 to 4095 fall into the first four slots.\<close>

lemma identity_slots:
  "(\<lambda>(phys, virt, flags). PD_INDEX virt) ` set (identity_pages [1..<4096]) \<subseteq> {0, 1, 2, 3}"
proof -
  have "PD_INDEX (page_no k) \<in> {0, 1, 2, 3}" if "k < 4096" for k
  proof -
    have "unat (PD_INDEX (page_no k)) = k * 4096 div 4194304"
      using that by (simp add: unat_PD_INDEX unat_page_no)
    also have "\<dots> < 4" using that by (simp add: div_less_iff_less_mult)
    finally have "unat (PD_INDEX (page_no k)) \<in> {0, 1, 2, 3}" by auto
    then show ?thesis by (simp add: word_unat_eq_iff)
  qed
  then have "PD_INDEX (page_no k) \<in> {0, 1, 2, 3}" if "k \<in> set [1..<4096]" for k using that by simp
  then show ?thesis unfolding identity_pages_def by (simp only: set_map image_image image_subset_iff split) blast
qed

lemma identity_range:
  "(\<exists>k \<in> set [1..<4096]. PAGE_ALIGN_DOWN v = page_no k) \<longleftrightarrow> 4096 \<le> v \<and> v < 16777216"
proof -
  have "PAGE_ALIGN_DOWN v = page_no k \<longleftrightarrow> unat v div 4096 = k" if "k < 4096" for k
    using that by (simp add: word_unat_eq_iff unat_PAGE_ALIGN_DOWN unat_page_no del: of_nat_mult)
  then have "(\<exists>k \<in> set [1..<4096]. PAGE_ALIGN_DOWN v = page_no k) \<longleftrightarrow>
      unat v div 4096 \<in> set [1..<4096]" by auto
  also have "\<dots> \<longleftrightarrow> 4096 \<le> unat v \<and> unat v < 16777216"
    by (simp add: Suc_le_eq div_greater_zero_iff div_less_iff_less_mult)
  finally show ?thesis by (simp add: word_le_nat_alt word_less_nat_alt)
qed

lemma identity_map_spec:
  assumes "mmu_inv M s" "kernel_address_space s = PtStorage" "table_slots s = {}" "4 \<le> page_budget s"
  shows "\<exists>s'. identity_map FRAME_SIZE s = Inr s' \<and> mmu_inv M s' \<and>
    (\<forall>v. translate s' v = (if 4096 \<le> v \<and> v < 16777216
       then Some (PAGE_ALIGN_DOWN v, PTE_PRESENT OR PTE_WRITABLE) else None)) \<and>
    page_footprint s' = page_footprint s \<and> table_slots s' \<subseteq> {0, 1, 2, 3}"
proof -
  have "card ((\<lambda>(phys, virt, flags). PD_INDEX virt) ` set (identity_pages [1..<4096])) \<le> card {0, 1, 2, 3 :: u32}"
    by (intro card_mono identity_slots) simp
  then have "card ((\<lambda>(phys, virt, flags). PD_INDEX virt) ` set (identity_pages [1..<4096]) - table_slots s) \<le> page_budget s"
    using assms(3,4) by simp
  moreover have "page_no k \<noteq> 0" if "1 \<le> k" "k < 4096" for k
    using that unat_page_no [of k] by (auto simp: word_unat_eq_iff simp del: of_nat_mult)
  then have "\<forall>(phys, virt, flags) \<in> set (identity_pages [1..<4096]).
      page_aligned phys \<and> page_aligned virt \<and> virt \<noteq> 0"
    by (auto simp: identity_pages_def page_aligned_frame_addr)
  ultimately obtain s' where s': "install_pages (mmu_map_page PtStorage) (identity_pages [1..<4096]) s = Inr s'"
    "mmu_inv M s'"
    "\<And>v. translate s' v = (case last_request (PAGE_ALIGN_DOWN v) (identity_pages [1..<4096]) of
        None \<Rightarrow> translate s v | Some (phys, flags) \<Rightarrow> visible phys flags)"
    "page_footprint s' = page_footprint s"
    "table_slots s' \<subseteq> table_slots s \<union> (\<lambda>(phys, virt, flags). PD_INDEX virt) ` set (identity_pages [1..<4096])"
    using mmu.install_pages_ok [OF assms(1)] by blast
  have "visible p (MMU_PRESENT OR MMU_WRITABLE) = Some (p, PTE_PRESENT OR PTE_WRITABLE)" for p
    by (simp add: visible_def flags_to_x86_def)
  with s'(3) have "translate s' v = (if 4096 \<le> v \<and> v < 16777216
       then Some (PAGE_ALIGN_DOWN v, PTE_PRESENT OR PTE_WRITABLE) else None)" for v
    unfolding last_request_identity identity_range translate_empty [OF assms(3)] by simp
  moreover have "table_slots s' \<subseteq> {0, 1, 2, 3}" using s'(5) identity_slots assms(3) by blast
  ultimately show ?thesis
    using s'(1,2,4) identity_map_install [OF assms(2), of 1] by simp
qed


section \<open>Properties\<close>

text \<open>Sample states: the frames 8 to 15 free before paging, and frame 8 taken as an empty directory.\<close>

definition sample_boot :: mmu_st where
  "sample_boot = pmm_st.extend sample_pmm (mmu_st.fields (\<lambda>_. 0) \<lparr>page_directory = 0, pd_phys = 0\<rparr> NullPt 0x11 0 [])"

definition sample_mmu :: mmu_st where
  "sample_mmu = (bitmap_or_bit 8 sample_boot)\<lparr>free_frames := free_frames sample_boot - 1,
     pt_storage := \<lparr>page_directory = 0x8000, pd_phys = 0x8000\<rparr>, kernel_address_space := PtStorage\<rparr>"

abbreviation sample_frames :: "u32 set" where
  "sample_frames \<equiv> {8, 9, 10, 11, 12, 13, 14, 15}"

lemma sample_boot_free: "free_set sample_boot = sample_frames"
  using sample_free_set by (simp add: sample_boot_def free_set_def bitmap_test_def pmm_st.defs sample_pmm_def)

lemma sample_boot_inv: "pmm_inv sample_frames sample_boot"
  unfolding pmm_inv_def sample_boot_free by (simp add: sample_boot_def pmm_st.defs sample_pmm_def)

lemma sample_budget: "page_budget sample_boot = 8"
  unfolding avail_pages_def sample_boot_free by simp

lemma sample_mmu_slots: "table_slots sample_mmu = {}"
  by (simp add: sample_mmu_def sample_boot_def bitmap_or_bit_def Let_def pmm_st.defs mmu_st.defs sample_pmm_def table_slots_def get_entry_def read32_def)

lemma sample_mmu_inv: "mmu_inv sample_frames sample_mmu"
proof -
  have "8 \<in> free_set sample_boot" by (simp add: sample_boot_free)
  from pmm_inv_alloc [OF sample_boot_inv this] have "pmm_inv sample_frames sample_mmu"
    by (simp add: sample_mmu_def)
  moreover have "0x8000 \<in> managed_pages sample_frames" "0x8000 \<notin> avail_pages sample_mmu"
    using avail_pages_or_bit [of 8 sample_boot]
    by (auto simp: managed_pages_def sample_mmu_def intro: rev_image_eqI [of 8])
  ultimately show ?thesis
    by (simp add: mmu_inv_def sample_mmu_slots) (simp add: sample_mmu_def)
qed

lemma sample_mmu_avail: "0 < page_budget sample_mmu" "free_set sample_mmu \<noteq> {}"
proof -
  have "free_set sample_mmu = sample_frames - {8}"
    by (simp add: sample_mmu_def sample_boot_free)
  then show "free_set sample_mmu \<noteq> {}" by auto
  then show "0 < page_budget sample_mmu" by (simp add: card_gt_0_iff avail_pages_def)
qed

text \<open>
  C12: mapping a page in a well-formed address space never faults and keeps it
  well-formed. If the page table of the 4 MB slot is missing and no frame is
  free, the result is null and nothing changes; otherwise the virtual address
  is returned, exactly the mapped page translates to the given frame with the
  converted flags (to nothing, without the present flag), every other address
  translates as before, and at most one frame is taken, for the page table.
\<close>

theorem mmu_map_page_correct:
  assumes "mmu_inv M s" and "page_aligned phys" and "page_aligned virt"
  shows "\<exists>r s'. mmu_map_page PtStorage phys virt flags s = Inr (r, s') \<and>
    (if PD_INDEX virt \<notin> table_slots s \<and> free_set s = {} then r = 0 \<and> s' = s
     else r = virt \<and> mmu_inv M s' \<and>
       (\<forall>v. translate s' v = (if PAGE_ALIGN_DOWN v = virt then visible phys flags else translate s v)) \<and>
       page_budget s' = page_budget s - (if PD_INDEX virt \<in> table_slots s then 0 else 1))"
proof (cases "PD_INDEX virt \<notin> table_slots s \<and> free_set s = {}")
  case True
  then have "page_budget s = 0" by (simp add: avail_pages_def)
  with True mmu.map_full [OF assms(1)] show ?thesis by simp
next
  case False
  then have "PD_INDEX virt \<in> table_slots s \<or> 0 < page_budget s" by (auto simp: card_gt_0_iff avail_pages_def)
  from mmu.map_ok [OF assms this] show ?thesis unfolding if_not_P [OF False] by blast
qed

theorem mmu_map_page_correct_witness:
  "\<exists>s'. mmu_map_page PtStorage 0xB8000 0x400000 3 sample_mmu = Inr (0x400000, s') \<and>
     translate s' 0x400123 = visible 0xB8000 3"
proof -
  have al: "page_aligned 0xB8000" "page_aligned 0x400000" by (simp_all add: page_aligned_def)
  have "PAGE_ALIGN_DOWN 0x400123 = 0x400000" by (simp add: PAGE_ALIGN_DOWN_def)
  with mmu_map_page_correct [OF sample_mmu_inv al, of 3] sample_mmu_avail(2) show ?thesis by auto
qed

text \<open>
  Unmapping a page that was just mapped leaves it without translation and
  every other page with the translation it had before the mapping.
\<close>

theorem mmu_map_unmap:
  assumes "mmu_inv M s" and "page_aligned phys" and "page_aligned virt"
    and "PD_INDEX virt \<in> table_slots s \<or> free_set s \<noteq> {}"
  shows "\<exists>s'. mmu_map_page PtStorage phys virt flags s = Inr (virt, s') \<and>
    mmu_inv M (mmu_unmap_page PtStorage virt s') \<and>
    (\<forall>v. translate (mmu_unmap_page PtStorage virt s') v =
      (if PAGE_ALIGN_DOWN v = virt then None else translate s v))"
  using mmu.map_unmap [OF assms(1-3)] assms(4) by (auto simp: card_gt_0_iff avail_pages_def)

theorem mmu_map_unmap_witness:
  "\<exists>s'. mmu_map_page PtStorage 0xB8000 0x400000 3 sample_mmu = Inr (0x400000, s') \<and>
     translate (mmu_unmap_page PtStorage 0x400000 s') 0x400000 = None"
proof -
  have al: "page_aligned 0xB8000" "page_aligned 0x400000" by (simp_all add: page_aligned_def)
  with mmu_map_unmap [OF sample_mmu_inv al, of 3] sample_mmu_avail(2) show ?thesis by auto
qed

text \<open>
  C13: no page table is leaked. Creating an address space on any state with a
  free frame, installing any list of aligned pages for which tables can be allocated
  and destroying it again runs without a fault and ends with exactly the free
  pages of the start.
\<close>

theorem mmu_create_install_destroy:
  assumes "pmm_inv M s" and "free_set s \<noteq> {}"
    and "\<forall>(phys, virt, flags) \<in> set ps. page_aligned phys \<and> page_aligned virt \<and> virt \<noteq> 0"
    and "card ((\<lambda>(phys, virt, flags). PD_INDEX virt) ` set ps) < card (free_set s)"
  shows "\<exists>s1 s2 s3. mmu_create_address_space s = Inr (PtStorage, s1) \<and>
    install_pages (mmu_map_page PtStorage) ps s1 = Inr s2 \<and>
    (\<forall>v. translate s2 v = (case last_request (PAGE_ALIGN_DOWN v) ps of
        None \<Rightarrow> None | Some (phys, flags) \<Rightarrow> visible phys flags)) \<and>
    mmu_destroy_address_space PtStorage s2 = Inr s3 \<and> pmm_inv M s3 \<and> avail_pages s3 = avail_pages s"
proof -
  have ne: "avail_pages s \<noteq> {}" using assms(2) by (simp add: avail_pages_def)
  from mmu_create_spec [OF assms(1) ne] obtain p s1 where
    s1: "mmu_create_address_space s = Inr (PtStorage, s1)" "mmu_inv M s1" "p \<in> avail_pages s"
      "avail_pages s1 = avail_pages s - {p}" "pt_storage s1 = \<lparr>page_directory = p, pd_phys = p\<rparr>"
      "table_slots s1 = {}" by blast
  have foot: "page_footprint s1 = avail_pages s"
    using s1(3-6) by (auto simp: owned_pages_def)
  have "page_budget s = card (free_set s)"
    unfolding avail_pages_def by (rule card_image) (auto simp: inj_on_def free_set_def frame_addr_inj)
  then have "card ((\<lambda>(phys, virt, flags). PD_INDEX virt) ` set ps - table_slots s1) \<le> page_budget s1"
    using s1(3,4,6) assms(4) by simp
  from mmu.install_pages_ok [OF s1(2) assms(3) this] obtain s2 where
    s2: "install_pages (mmu_map_page PtStorage) ps s1 = Inr s2" "mmu_inv M s2"
      "\<forall>v. translate s2 v = (case last_request (PAGE_ALIGN_DOWN v) ps of
        None \<Rightarrow> translate s1 v | Some (phys, flags) \<Rightarrow> visible phys flags)"
      "page_footprint s2 = page_footprint s1" by blast
  from mmu_destroy_spec [OF s2(2)] foot s2(4) obtain s3 where
    "mmu_destroy_address_space PtStorage s2 = Inr s3" "pmm_inv M s3" "avail_pages s3 = avail_pages s" by auto
  with s1(1) s2(1,3) show ?thesis unfolding translate_empty [OF s1(6)] by blast
qed

theorem mmu_create_install_destroy_witness:
  "\<exists>s1 s2 s3. mmu_create_address_space sample_boot = Inr (PtStorage, s1) \<and>
     install_pages (mmu_map_page PtStorage) [(0x1000, 0x1000, 3), (0x9000, 0x400000, 7)] s1 = Inr s2 \<and>
     mmu_destroy_address_space PtStorage s2 = Inr s3 \<and> avail_pages s3 = avail_pages sample_boot"
proof -
  have "card ((\<lambda>(phys, virt, flags). PD_INDEX virt) ` set [(0x1000 :: addr, 0x1000, 3 :: u32), (0x9000, 0x400000, 7)])
      \<le> card (set [(0x1000 :: addr, 0x1000 :: addr, 3 :: u32), (0x9000, 0x400000, 7)])"
    by (rule card_image_le) simp
  also have "\<dots> < card (free_set sample_boot)" by (simp add: sample_boot_free)
  finally show ?thesis
    using mmu_create_install_destroy [OF sample_boot_inv, of "[(0x1000, 0x1000, 3), (0x9000, 0x400000, 7)]"]
    by (auto simp: sample_boot_free page_aligned_def)
qed

text \<open>
  Enabling paging with five free frames: the directory and its four tables come from
  the free pages, and everything else stays free.
\<close>

lemma owned_budget:
  assumes "mmu_inv M s" and "table_slots s \<subseteq> {0, 1, 2, 3}"
  shows "card (page_footprint s) \<le> page_budget s + 5"
proof -
  have "card (table_page s ` table_slots s) \<le> card (table_slots s)" using finite_subset [OF assms(2)] by (intro card_image_le) simp
  also have "\<dots> \<le> card {0, 1, 2, 3 :: u32}" using assms(2) by (intro card_mono) simp_all
  finally have "card (table_page s ` table_slots s) \<le> 4" by simp
  then have "card (owned_pages s) \<le> 5"
    using card_insert_le_m1 [of 5 "table_page s ` table_slots s" "page_directory (pt_storage s)"] by (simp add: owned_pages_def)
  moreover have "card (page_footprint s) \<le> page_budget s + card (owned_pages s)" by (rule card_Un_le)
  ultimately show ?thesis by simp
qed

lemma mmu_init_spec:
  assumes "pmm_inv M s" and "5 \<le> card (free_set s)"
  shows "\<exists>s'. mmu_init s = Inr s' \<and> mmu_inv M s' \<and> kernel_address_space s' = PtStorage \<and>
    bit (cr0 s') 31 \<and> cr3 s' = page_directory (pt_storage s') \<and>
    (\<forall>v. translate s' v = (if 4096 \<le> v \<and> v < 16777216
       then Some (PAGE_ALIGN_DOWN v, PTE_PRESENT OR PTE_WRITABLE) else None)) \<and>
    page_footprint s' = avail_pages s \<and> page_budget s \<le> page_budget s' + 5"
proof -
  have budget: "page_budget s = card (free_set s)"
    unfolding avail_pages_def by (rule card_image) (auto simp: inj_on_def free_set_def frame_addr_inj)
  then have "avail_pages s \<noteq> {}" using assms(2) by auto
  from mmu_create_spec [OF assms(1) this] obtain p s1 where
    s1: "mmu_create_address_space s = Inr (PtStorage, s1)" "mmu_inv M s1" "p \<in> avail_pages s"
      "avail_pages s1 = avail_pages s - {p}" "pt_storage s1 = \<lparr>page_directory = p, pd_phys = p\<rparr>"
      "table_slots s1 = {}" by blast
  then have own1: "owned_pages s1 = {p}" by (simp add: owned_pages_def)
  define s2 where "s2 = s1\<lparr>kernel_address_space := PtStorage\<rparr>"
  have "mmu_inv M s2 \<and> table_slots s2 = {} \<and> kernel_address_space s2 = PtStorage"
    using s1(2,6) by (simp add: s2_def mmu_inv_def table_slots_def table_page_def [abs_def])
  moreover have "4 \<le> page_budget s2" using s1(3,4) assms(2) budget by (simp add: s2_def)
  ultimately obtain s3 where
    s3: "identity_map FRAME_SIZE s2 = Inr s3" "mmu_inv M s3"
      "\<forall>v. translate s3 v = (if 4096 \<le> v \<and> v < 16777216
         then Some (PAGE_ALIGN_DOWN v, PTE_PRESENT OR PTE_WRITABLE) else None)"
      "page_footprint s3 = page_footprint s2" "table_slots s3 \<subseteq> {0, 1, 2, 3}"
    using identity_map_spec by blast
  have "page_footprint s2 = avail_pages s"
    using s1(3,4) own1 by (auto simp: s2_def owned_pages_def table_slots_def table_page_def [abs_def])
  then have foot: "page_footprint s3 = avail_pages s" "page_budget s \<le> page_budget s3 + 5"
    using s3(4) owned_budget [OF s3(2,5)] by simp_all
  have k: "kernel_address_space s3 = PtStorage"
    using identity_map_kernel [OF s3(1)] by (simp add: s2_def)
  define s4 where "s4 = s3\<lparr>cr3 := pd_phys (pt_storage s3), cr0 := cr0 s3 OR push_bit 31 1\<rparr>"
  have "free_frames s2 \<noteq> 0"
    using free_frames_eq_0 [of M s2] \<open>4 \<le> page_budget s2\<close> \<open>mmu_inv M s2 \<and> _\<close>
    by (auto simp: mmu_inv_def avail_pages_def)
  moreover have "page_aligned p" using mmu_inv_pd [OF s1(2)] s1(5) by simp
  ultimately have "mmu_init s = Inr s4"
    using s1(1,5) s3(1) k by (simp add: mmu_init_def Let_def s4_def mmu_switch_address_space_def s2_def [symmetric])
  moreover have "mmu_inv M s4" "translate s4 = translate s3" "pd_phys (pt_storage s3) = page_directory (pt_storage s3)"
    "avail_pages s4 = avail_pages s3" "owned_pages s4 = owned_pages s3"
    using s3(2) by (simp_all add: s4_def mmu_inv_def table_slots_def table_page_def [abs_def] translate_def owned_pages_def fun_eq_iff Let_def)
  ultimately show ?thesis using s3(3) k foot by (intro exI [of _ s4]) (simp add: s4_def bit_or_iff)
qed

text \<open>
  C15: with five free frames (one directory and four tables) \<^verbatim>\<open>mmu_init\<close> enables paging
  on a directory that identity-maps, writable, exactly the addresses from
  4 KB to 16 MB: the null page and everything above stay unmapped.
\<close>

theorem mmu_init_identity:
  assumes "pmm_inv M s" and "5 \<le> card (free_set s)"
  shows "\<exists>s'. mmu_init s = Inr s' \<and> mmu_inv M s' \<and> kernel_address_space s' = PtStorage \<and>
    bit (cr0 s') 31 \<and> cr3 s' = page_directory (pt_storage s') \<and>
    (\<forall>v. translate s' v = (if 4096 \<le> v \<and> v < 16777216
       then Some (PAGE_ALIGN_DOWN v, PTE_PRESENT OR PTE_WRITABLE) else None))"
  using mmu_init_spec [OF assms] by blast

theorem mmu_init_identity_witness:
  "\<exists>s'. mmu_init sample_boot = Inr s' \<and> bit (cr0 s') 31 \<and> translate s' 0xB8000 = Some (0xB8000, 3) \<and>
     translate s' 0 = None"
proof -
  have "5 \<le> card (free_set sample_boot)" by (simp add: sample_boot_free)
  moreover have "PAGE_ALIGN_DOWN 0xB8000 = 0xB8000" by (simp add: PAGE_ALIGN_DOWN_def)
  ultimately show ?thesis
    using mmu_init_identity [OF sample_boot_inv] by fastforce
qed

text \<open>
  Address spaces are not independent: while one exists, creating another one
  returns the same pointer and empties the existing one, so nothing that was
  mapped through the old pointer translates any more.
\<close>

theorem mmu_create_overwrites_existing:
  assumes "mmu_inv M s" and "free_set s \<noteq> {}"
  shows "\<exists>s'. mmu_create_address_space s = Inr (PtStorage, s') \<and> (\<forall>v. translate s' v = None) \<and>
    page_directory (pt_storage s') \<noteq> page_directory (pt_storage s)"
proof -
  have "pmm_inv M s" "avail_pages s \<noteq> {}" using assms by (auto simp: mmu_inv_def avail_pages_def)
  from mmu_create_spec [OF this] assms(1) show ?thesis
    by (auto simp: mmu_inv_def translate_empty)
qed

theorem mmu_create_overwrites_existing_witness:
  "\<exists>s'. mmu_create_address_space sample_mmu = Inr (PtStorage, s') \<and>
     page_directory (pt_storage s') \<noteq> page_directory (pt_storage sample_mmu)"
  using mmu_create_overwrites_existing [OF sample_mmu_inv sample_mmu_avail(2)] by auto

end
