(* ===== verification/Gdt.thy ===== *)
theory Gdt
  imports Mmu
begin

text \<open>
  Segmentation, \<^verbatim>\<open>arch/x86/gdt.c\<close> with \<^verbatim>\<open>include/kernel/gdt.h\<close>: segment descriptors,
  the task state segment, loading of the tables and the update of the kernel
  stack pointer used when a ring 3 task enters the kernel. The CPU's register
  file is part of the state from here on.
\<close>

section \<open>Descriptors\<close>

record gdt_descriptor =
  limit_low :: u16
  base_low :: u16
  base_mid :: u8
  access :: u8
  granularity :: u8
  base_high :: u8

definition encode_gdt_descriptor :: "u32 \<Rightarrow> u32 \<Rightarrow> u8 \<Rightarrow> u8 \<Rightarrow> gdt_descriptor" where
  "encode_gdt_descriptor base limit acc gran =
     \<lparr>limit_low = ucast (limit AND 0xFFFF),
      base_low = ucast (base AND 0xFFFF),
      base_mid = ucast (drop_bit 16 base AND 0xFF),
      access = acc,
      granularity = (gran AND 0xF0) OR ucast (drop_bit 16 limit AND 0x0F),
      base_high = ucast (drop_bit 24 base AND 0xFF)\<rparr>"

abbreviation GDT_ACCESS_PRESENT :: u8 where "GDT_ACCESS_PRESENT \<equiv> 0x80"
abbreviation GDT_ACCESS_DPL_0 :: u8 where "GDT_ACCESS_DPL_0 \<equiv> 0"
abbreviation GDT_ACCESS_DPL_3 :: u8 where "GDT_ACCESS_DPL_3 \<equiv> 0x60"
abbreviation GDT_ACCESS_DESCRIPTOR :: u8 where "GDT_ACCESS_DESCRIPTOR \<equiv> 0x10"
abbreviation GDT_ACCESS_EXECUTABLE :: u8 where "GDT_ACCESS_EXECUTABLE \<equiv> 8"
abbreviation GDT_ACCESS_RW :: u8 where "GDT_ACCESS_RW \<equiv> 2"
abbreviation GDT_GRAN_4K :: u8 where "GDT_GRAN_4K \<equiv> 0x80"
abbreviation GDT_GRAN_32BIT :: u8 where "GDT_GRAN_32BIT \<equiv> 0x40"

text \<open>How the processor reads a descriptor: base, 20-bit limit, access byte, the four flag bits.\<close>

definition descriptor_base :: "gdt_descriptor \<Rightarrow> u32" where
  "descriptor_base d = ucast (base_low d) OR push_bit 16 (ucast (base_mid d)) OR push_bit 24 (ucast (base_high d))"

definition descriptor_limit :: "gdt_descriptor \<Rightarrow> u32" where
  "descriptor_limit d = ucast (limit_low d) OR push_bit 16 (ucast (granularity d AND 0x0F))"

definition descriptor_flags :: "gdt_descriptor \<Rightarrow> u8" where
  "descriptor_flags d = granularity d AND 0xF0"

definition decode_gdt_descriptor :: "gdt_descriptor \<Rightarrow> u32 \<times> u32 \<times> u8 \<times> u8" where
  "decode_gdt_descriptor d = (descriptor_base d, descriptor_limit d, access d, descriptor_flags d)"

definition descriptor_dpl :: "gdt_descriptor \<Rightarrow> u8" where
  "descriptor_dpl d = drop_bit 5 (access d) AND 3"

text \<open>The number of bytes of a segment: its limit counts pages when the 4 KB flag is set.\<close>

definition segment_bytes :: "gdt_descriptor \<Rightarrow> nat" where
  "segment_bytes d =
     (if granularity d AND GDT_GRAN_4K \<noteq> 0 then Suc (unat (descriptor_limit d)) * 4096
      else Suc (unat (descriptor_limit d)))"


section \<open>State\<close>

record tss_t =
  tss_prev :: u32
  tss_esp0 :: u32
  tss_ss0 :: u32
  tss_esp1 :: u32
  tss_ss1 :: u32
  tss_esp2 :: u32
  tss_ss2 :: u32
  tss_cr3 :: u32
  tss_eip :: u32
  tss_eflags :: u32
  tss_eax :: u32
  tss_ecx :: u32
  tss_edx :: u32
  tss_ebx :: u32
  tss_esp :: u32
  tss_ebp :: u32
  tss_esi :: u32
  tss_edi :: u32
  tss_es :: u32
  tss_cs :: u32
  tss_ss :: u32
  tss_ds :: u32
  tss_fs :: u32
  tss_gs :: u32
  tss_ldt :: u32
  tss_trap :: u16
  tss_iomap_base :: u16

text \<open>\<^verbatim>\<open>sizeof(tss)\<close>, 25 words and 2 half words without padding, and \<^verbatim>\<open>sizeof(gdt)\<close>.\<close>

abbreviation sizeof_tss :: nat where "sizeof_tss \<equiv> 104"
abbreviation GDT_ENTRIES :: nat where "GDT_ENTRIES \<equiv> 6"
abbreviation sizeof_gdt :: nat where "sizeof_gdt \<equiv> 48"

definition zero_tss :: tss_t where
  "zero_tss = \<lparr>tss_prev = 0, tss_esp0 = 0, tss_ss0 = 0, tss_esp1 = 0, tss_ss1 = 0, tss_esp2 = 0,
     tss_ss2 = 0, tss_cr3 = 0, tss_eip = 0, tss_eflags = 0, tss_eax = 0, tss_ecx = 0, tss_edx = 0,
     tss_ebx = 0, tss_esp = 0, tss_ebp = 0, tss_esi = 0, tss_edi = 0, tss_es = 0, tss_cs = 0,
     tss_ss = 0, tss_ds = 0, tss_fs = 0, tss_gs = 0, tss_ldt = 0, tss_trap = 0, tss_iomap_base = 0\<rparr>"

text \<open>
  \<^verbatim>\<open>cpu_context_t\<close> of \<^verbatim>\<open>include/kernel/task.h\<close>; the same record is the register file
  of the CPU.
\<close>

record cpu_context =
  ctx_edi :: u32
  ctx_esi :: u32
  ctx_ebx :: u32
  ctx_ebp :: u32
  ctx_esp :: u32
  ctx_eip :: u32
  ctx_cs :: u32
  ctx_ss :: u32
  ctx_ds :: u32
  ctx_es :: u32
  ctx_fs :: u32
  ctx_gs :: u32
  ctx_eflags :: u32

record gdt_ptr_t =
  gdt_limit :: u16
  gdt_base :: u32

text \<open>\<open>gdtr\<close> and \<open>task_reg\<close> are the registers that \<^verbatim>\<open>lgdt\<close> and \<^verbatim>\<open>ltr\<close> load.\<close>

record cpu_st = mmu_st +
  regs :: cpu_context
  gdt :: "nat \<Rightarrow> gdt_descriptor"
  gdt_ptr :: gdt_ptr_t
  tss :: tss_t
  gdtr :: gdt_ptr_t
  task_reg :: u16

abbreviation GDT_KERNEL_CODE_SEL :: u32 where "GDT_KERNEL_CODE_SEL \<equiv> 0x08"
abbreviation GDT_KERNEL_DATA_SEL :: u32 where "GDT_KERNEL_DATA_SEL \<equiv> 0x10"
abbreviation GDT_USER_CODE_SEL :: u32 where "GDT_USER_CODE_SEL \<equiv> 0x1B"
abbreviation GDT_USER_DATA_SEL :: u32 where "GDT_USER_DATA_SEL \<equiv> 0x23"
abbreviation GDT_TSS_SEL :: u16 where "GDT_TSS_SEL \<equiv> 0x28"


section \<open>Operations\<close>

text \<open>\<^verbatim>\<open>gdt_flush\<close> reloads all segment registers; the far jump reloads the code segment.\<close>

definition gdt_flush :: "'z cpu_st_scheme \<Rightarrow> 'z cpu_st_scheme" where
  "gdt_flush s = s\<lparr>gdtr := gdt_ptr s,
     regs := (regs s)\<lparr>ctx_ds := 0x10, ctx_es := 0x10, ctx_fs := 0x10, ctx_gs := 0x10, ctx_ss := 0x10,
       ctx_cs := 0x08\<rparr>\<rparr>"

definition tss_flush :: "'z cpu_st_scheme \<Rightarrow> 'z cpu_st_scheme" where
  "tss_flush s = s\<lparr>task_reg := 0x28\<rparr>"

definition set_gdt :: "nat \<Rightarrow> gdt_descriptor \<Rightarrow> 'z cpu_st_scheme \<Rightarrow> 'z cpu_st_scheme" where
  "set_gdt i d s = s\<lparr>gdt := (gdt s)(i := d)\<rparr>"

text \<open>The addresses of the static \<^verbatim>\<open>tss\<close> and \<^verbatim>\<open>gdt\<close> are chosen by the linker: parameters.\<close>

definition gdt_init :: "addr \<Rightarrow> addr \<Rightarrow> 'z cpu_st_scheme \<Rightarrow> 'z cpu_st_scheme" where
  "gdt_init tss_addr gdt_addr s =
     (let s = set_gdt 0 (encode_gdt_descriptor 0 0 0 0) s;
          kernel_code_access = GDT_ACCESS_PRESENT OR GDT_ACCESS_DPL_0 OR GDT_ACCESS_DESCRIPTOR
            OR GDT_ACCESS_EXECUTABLE OR GDT_ACCESS_RW;
          s = set_gdt 1 (encode_gdt_descriptor 0 0xFFFFF kernel_code_access (GDT_GRAN_4K OR GDT_GRAN_32BIT)) s;
          kernel_data_access = GDT_ACCESS_PRESENT OR GDT_ACCESS_DPL_0 OR GDT_ACCESS_DESCRIPTOR OR GDT_ACCESS_RW;
          s = set_gdt 2 (encode_gdt_descriptor 0 0xFFFFF kernel_data_access (GDT_GRAN_4K OR GDT_GRAN_32BIT)) s;
          user_code_access = GDT_ACCESS_PRESENT OR GDT_ACCESS_DPL_3 OR GDT_ACCESS_DESCRIPTOR
            OR GDT_ACCESS_EXECUTABLE OR GDT_ACCESS_RW;
          s = set_gdt 3 (encode_gdt_descriptor 0 0xFFFFF user_code_access (GDT_GRAN_4K OR GDT_GRAN_32BIT)) s;
          user_data_access = GDT_ACCESS_PRESENT OR GDT_ACCESS_DPL_3 OR GDT_ACCESS_DESCRIPTOR OR GDT_ACCESS_RW;
          s = set_gdt 4 (encode_gdt_descriptor 0 0xFFFFF user_data_access (GDT_GRAN_4K OR GDT_GRAN_32BIT)) s;
          s = s\<lparr>tss := zero_tss\<lparr>tss_ss0 := GDT_KERNEL_DATA_SEL, tss_esp0 := 0,
                   tss_iomap_base := of_nat sizeof_tss\<rparr>\<rparr>;
          tss_limit = of_nat sizeof_tss - 1;
          tss_access = GDT_ACCESS_PRESENT OR GDT_ACCESS_DPL_0 OR 0x09;
          s = set_gdt 5 (encode_gdt_descriptor tss_addr tss_limit tss_access 0) s;
          s = s\<lparr>gdt_ptr := \<lparr>gdt_limit = of_nat sizeof_gdt - 1, gdt_base = gdt_addr\<rparr>\<rparr>
      in tss_flush (gdt_flush s))"

text \<open>The verdict that \<^verbatim>\<open>gdt_verify\<close> prints.\<close>

definition gdt_verify :: "'z cpu_st_scheme \<Rightarrow> bool" where
  "gdt_verify s \<longleftrightarrow> (ucast (ctx_cs (regs s)) :: u16) = ucast GDT_KERNEL_CODE_SEL \<and>
     (ucast (ctx_ds (regs s)) :: u16) = ucast GDT_KERNEL_DATA_SEL \<and>
     (ucast (ctx_ss (regs s)) :: u16) = ucast GDT_KERNEL_DATA_SEL \<and> task_reg s = GDT_TSS_SEL"

definition gdt_set_kernel_stack :: "addr \<Rightarrow> 'z cpu_st_scheme \<Rightarrow> 'z cpu_st_scheme" where
  "gdt_set_kernel_stack esp0 s = s\<lparr>tss := (tss s)\<lparr>tss_esp0 := esp0\<rparr>\<rparr>"


section \<open>Encoding and decoding\<close>

lemma masks:
  "(0xFFFF :: u32) = mask 16" "(0xFF :: u32) = mask 8" "(0x0F :: u32) = mask 4" "(0x0F :: u8) = mask 4"
  "(0xFFFFF :: u32) = mask 20" "(0xF0 :: u8) = NOT (mask 4)"
  by (simp_all add: mask_eq_exp_minus_1)

lemma descriptor_base_encode: "descriptor_base (encode_gdt_descriptor b l a g) = b"
proof (rule bit_word_eqI)
  fix n
  assume "n < LENGTH(32)"
  moreover have "n < 16 \<or> 16 \<le> n \<and> n < 24 \<or> 24 \<le> n" by linarith
  ultimately show "bit (descriptor_base (encode_gdt_descriptor b l a g)) n = bit b n"
    unfolding descriptor_base_def encode_gdt_descriptor_def gdt_descriptor.simps masks
    by (elim disjE) (auto simp: bit_simps)
qed

lemma descriptor_limit_encode:
  assumes "l AND 0xFFFFF = l"
  shows "descriptor_limit (encode_gdt_descriptor b l a g) = l"
proof (rule bit_word_eqI)
  fix n
  assume "n < LENGTH(32)"
  have l: "bit l n \<Longrightarrow> n < 20"
    using arg_cong [OF assms, of "\<lambda>x. bit x n"] unfolding masks by (auto simp: bit_simps)
  have "n < 16 \<or> 16 \<le> n \<and> n < 20 \<or> 20 \<le> n" by linarith
  then show "bit (descriptor_limit (encode_gdt_descriptor b l a g)) n = bit l n"
    unfolding descriptor_limit_def encode_gdt_descriptor_def gdt_descriptor.simps masks
    using l \<open>n < LENGTH(32)\<close> by (elim disjE) (auto simp: bit_simps)
qed

lemma descriptor_flags_encode: "descriptor_flags (encode_gdt_descriptor b l a g) = g AND 0xF0"
  unfolding descriptor_flags_def encode_gdt_descriptor_def gdt_descriptor.simps masks
  by (rule bit_word_eqI) (auto simp: bit_simps)

lemma access_encode [simp]: "access (encode_gdt_descriptor b l a g) = a"
  by (simp add: encode_gdt_descriptor_def)

text \<open>Both descriptor tables are codecs: what the hardware decodes is what was encoded.\<close>

interpretation gdt_codec: codec
  "\<lambda>(b, l, a, g). encode_gdt_descriptor b l a g" decode_gdt_descriptor
  "\<lambda>(b, l, a, g). l AND 0xFFFFF = l \<and> g AND 0xF0 = g"
  by unfold_locales
    (auto simp: decode_gdt_descriptor_def descriptor_base_encode descriptor_limit_encode
      descriptor_flags_encode)


section \<open>Properties\<close>

text \<open>
  C19: a segment descriptor keeps all of its arguments: for limits of 20 bits and flag
  bytes with a clear low half, the processor decodes the base, limit, access byte and flags that were
  encoded, and no two such segments share an encoding.
\<close>

theorem gdt_descriptor_roundtrip:
  assumes "l AND 0xFFFFF = l" and "g AND 0xF0 = g" and "l' AND 0xFFFFF = l'" and "g' AND 0xF0 = g'"
  shows "decode_gdt_descriptor (encode_gdt_descriptor b l a g) = (b, l, a, g) \<and>
    (encode_gdt_descriptor b l a g = encode_gdt_descriptor b' l' a' g' \<longrightarrow> (b, l, a, g) = (b', l', a', g'))"
  using gdt_codec.decode_encode [of "(b, l, a, g)"] gdt_codec.encode_inj [of "(b, l, a, g)" "(b', l', a', g')"]
    assms by simp

theorem gdt_descriptor_roundtrip_witness:
  "decode_gdt_descriptor (encode_gdt_descriptor 0xC0FFEE00 103 0x89 0) = (0xC0FFEE00, 103, 0x89, 0)"
  using gdt_descriptor_roundtrip [of 103 0 103 0 "0xC0FFEE00" "0x89"] by simp

text \<open>
  after \<^verbatim>\<open>gdt_init\<close> the null descriptor is empty, entries 1 to 4 are flat 4 GB
  segments of ring 0 (1, 2) and ring 3 (3, 4), entry 5 is the task state
  segment of 104 bytes at its address, the selectors of the header name
  the entries of their ring, and the loaded registers pass \<^verbatim>\<open>gdt_verify\<close>.
\<close>

theorem gdt_init_correct:
  fixes s :: "'z cpu_st_scheme" and tss_addr gdt_addr :: addr
  defines "s' \<equiv> gdt_init tss_addr gdt_addr s"
  shows "decode_gdt_descriptor (gdt s' 0) = (0, 0, 0, 0) \<and>
    map (\<lambda>i. descriptor_base (gdt s' i)) [1, 2, 3, 4] = [0, 0, 0, 0] \<and>
    map (\<lambda>i. segment_bytes (gdt s' i)) [1, 2, 3, 4] = [2 ^ 32, 2 ^ 32, 2 ^ 32, 2 ^ 32] \<and>
    map (\<lambda>i. descriptor_dpl (gdt s' i)) [1, 2, 3, 4] = [0, 0, 3, 3] \<and>
    map (\<lambda>i. access (gdt s' i) AND GDT_ACCESS_EXECUTABLE \<noteq> 0) [1, 2, 3, 4] = [True, False, True, False] \<and>
    descriptor_base (gdt s' 5) = tss_addr \<and> segment_bytes (gdt s' 5) = 104 \<and>
    map (\<lambda>sel. (drop_bit 3 sel, sel AND 3)) [GDT_KERNEL_CODE_SEL, GDT_KERNEL_DATA_SEL, GDT_USER_CODE_SEL, GDT_USER_DATA_SEL]
      = [(1, 0), (2, 0), (3, 3), (4, 3)] \<and>
    gdt_verify s' \<and> gdtr s' = \<lparr>gdt_limit = 47, gdt_base = gdt_addr\<rparr> \<and>
    tss_ss0 (tss s') = GDT_KERNEL_DATA_SEL \<and> tss_esp0 (tss s') = 0"
proof -
  have gdt: "gdt s' 0 = encode_gdt_descriptor 0 0 0 0" "gdt s' 1 = encode_gdt_descriptor 0 0xFFFFF 0x9A 0xC0"
    "gdt s' 2 = encode_gdt_descriptor 0 0xFFFFF 0x92 0xC0" "gdt s' 3 = encode_gdt_descriptor 0 0xFFFFF 0xFA 0xC0"
    "gdt s' 4 = encode_gdt_descriptor 0 0xFFFFF 0xF2 0xC0" "gdt s' 5 = encode_gdt_descriptor tss_addr 103 0x89 0"
    by (simp_all add: s'_def gdt_init_def Let_def set_gdt_def tss_flush_def gdt_flush_def)
  have rest: "gdt_verify s'" "gdtr s' = \<lparr>gdt_limit = 47, gdt_base = gdt_addr\<rparr>"
    "tss_ss0 (tss s') = GDT_KERNEL_DATA_SEL" "tss_esp0 (tss s') = 0"
    by (simp_all add: s'_def gdt_init_def Let_def set_gdt_def tss_flush_def gdt_flush_def gdt_verify_def)
  have seg: "segment_bytes (encode_gdt_descriptor b 0xFFFFF a 0xC0) = 2 ^ 32"
    "segment_bytes (encode_gdt_descriptor b 103 a 0) = 104" for b a
    by (simp_all add: segment_bytes_def descriptor_limit_encode) (simp_all add: encode_gdt_descriptor_def)
  have dpl: "descriptor_dpl (encode_gdt_descriptor b l a g) = drop_bit 5 a AND 3" for b l a g
    by (simp add: descriptor_dpl_def)
  show ?thesis
    by (simp add: gdt gdt(2) [simplified] rest seg dpl descriptor_base_encode decode_gdt_descriptor_def descriptor_limit_encode
        descriptor_flags_encode)
qed

end
