(* ===== verification/Ready_Queue.thy ===== *)
theory Ready_Queue
  imports Kernel_Prelude
begin

text \<open>
  The contract of the scheduler's ready queues: one first-in first-out queue
  per priority, of which the head of the highest non-empty one is picked. What
  follows for clients that enqueue tasks and take them out again, the
  order in which tasks run, is proved once from the contract.
\<close>

text \<open>The order of dispatch: from priority 255 down to 0, each queue from its head.\<close>

definition dispatch_order :: "(u8 \<Rightarrow> 't list) \<Rightarrow> 't list" where
  "dispatch_order qs = concat (map (\<lambda>n. qs (of_nat n)) (rev [0..<256]))"

fun enqueue_all :: "('t \<Rightarrow> 's \<Rightarrow> fault + 's) \<Rightarrow> 't list \<Rightarrow> 's \<Rightarrow> fault + 's" where
  "enqueue_all enqueue [] s = Inr s"
| "enqueue_all enqueue (x # xs) s = andthen (enqueue x s) (enqueue_all enqueue xs)"

fun take_next :: "('s \<Rightarrow> 't) \<Rightarrow> ('t \<Rightarrow> 's \<Rightarrow> fault + 's) \<Rightarrow> nat \<Rightarrow> 's \<Rightarrow> fault + 't list \<times> 's" where
  "take_next pick dequeue 0 s = Inr ([], s)"
| "take_next pick dequeue (Suc n) s =
     (let x = pick s in
      andthen (dequeue x s) (\<lambda>s.
      andthen (take_next pick dequeue n s) (\<lambda>(xs, s). Inr (x # xs, s))))"

lemma u8_of_nat_unat [simp]: "of_nat (unat (p :: u8)) = p"
  by simp

lemma upt_split: "n < m \<Longrightarrow> rev [0..<m] = rev [Suc n..<m] @ n # rev [0..<n]"
  by (metis Suc_leI append.assoc append_Cons append_Nil le0 less_imp_le rev.simps(2) rev_append
      upt_add_eq_append upt_conv_Cons le_add_diff_inverse)

text \<open>The parts of the order before and after the queue of priority \<open>p\<close>.\<close>

definition above :: "(u8 \<Rightarrow> 't list) \<Rightarrow> u8 \<Rightarrow> 't list" where
  "above qs p = concat (map (\<lambda>n. qs (of_nat n)) (rev [Suc (unat p)..<256]))"

definition below :: "(u8 \<Rightarrow> 't list) \<Rightarrow> u8 \<Rightarrow> 't list" where
  "below qs p = concat (map (\<lambda>n. qs (of_nat n)) (rev [0..<unat p]))"

lemma dispatch_order_split: "dispatch_order qs = above qs p @ qs p @ below qs p"
proof -
  have "unat p < 256" using unsigned_less [of p] by simp
  then show ?thesis by (simp add: dispatch_order_def above_def below_def upt_split)
qed

lemma dispatch_order_Nil: "dispatch_order (\<lambda>_. []) = []"
  by (simp add: dispatch_order_def)

lemma of_nat_ne_u8:
  assumes "n \<noteq> unat p" and "n < 256"
  shows "of_nat n \<noteq> (p :: u8)"
proof -
  have "unat (of_nat n :: u8) = n" using assms(2) by (simp add: unsigned_of_nat take_bit_eq_mod)
  then show ?thesis using assms(1) by auto
qed

text \<open>Changing the queue of priority \<open>p\<close> changes only its part of the order.\<close>

lemma dispatch_order_upd: "dispatch_order (qs(p := xs)) = above qs p @ xs @ below qs p"
proof -
  have p: "unat p < 256" using unsigned_less [of p] by simp
  have "above (qs(p := xs)) p = above qs p"
    unfolding above_def by (intro arg_cong [of _ _ concat] map_cong) (simp_all add: of_nat_ne_u8)
  moreover have "below (qs(p := xs)) p = below qs p"
    unfolding below_def using p by (intro arg_cong [of _ _ concat] map_cong) (simp_all add: of_nat_ne_u8)
  ultimately show ?thesis using dispatch_order_split [of "qs(p := xs)" p] by simp
qed

lemma dispatch_order_tl:
  assumes high: "\<forall>r > p. qs r = []" and ne: "qs p \<noteq> []"
  shows "dispatch_order qs = hd (qs p) # dispatch_order (qs(p := tl (qs p)))"
proof -
  have "qs (of_nat n) = []" if "Suc (unat p) \<le> n" "n < 256" for n
  proof -
    have "p < of_nat n" using that by (simp add: word_less_nat_alt unsigned_of_nat take_bit_eq_mod)
    then show ?thesis using high by simp
  qed
  then have "above qs p = []" by (simp add: above_def)
  then show ?thesis
    unfolding dispatch_order_upd dispatch_order_split [of qs p] using ne by simp
qed

lemma highest_nonempty:
  assumes "qs (p :: u8) \<noteq> []"
  obtains m where "qs m \<noteq> []" and "\<forall>r > m. qs r = []"
proof -
  have "Max {p. qs p \<noteq> []} \<in> {p. qs p \<noteq> []}" using assms by (intro Max_in) auto
  moreover have "qs r = []" if "r > Max {p. qs p \<noteq> []}" for r
  proof (rule ccontr)
    assume "qs r \<noteq> []"
    then have "r \<le> Max {p. qs p \<noteq> []}" by (intro Max_ge) auto
    with that show False by simp
  qed
  ultimately show thesis using that by blast
qed

locale ready_queues =
  fixes represents :: "'s \<Rightarrow> (u8 \<Rightarrow> 't list) \<Rightarrow> bool"
    and prio :: "'s \<Rightarrow> 't \<Rightarrow> u8"
    and runnable :: "'s \<Rightarrow> 't \<Rightarrow> bool"
    and enqueue :: "'t \<Rightarrow> 's \<Rightarrow> fault + 's"
    and dequeue :: "'t \<Rightarrow> 's \<Rightarrow> fault + 's"
    and pick :: "'s \<Rightarrow> 't"
  assumes enqueue_ok: "represents s qs \<Longrightarrow> runnable s x \<Longrightarrow> x \<notin> set (qs (prio s x)) \<Longrightarrow>
      \<exists>s'. enqueue x s = Inr s' \<and> represents s' (qs(prio s x := qs (prio s x) @ [x])) \<and>
        prio s' = prio s \<and> runnable s' = runnable s"
    and dequeue_ok: "represents s qs \<Longrightarrow> x \<in> set (qs p) \<Longrightarrow>
      \<exists>s'. dequeue x s = Inr s' \<and> represents s' (qs(p := remove1 x (qs p))) \<and>
        prio s' = prio s \<and> runnable s' = runnable s"
    and pick_ok: "represents s qs \<Longrightarrow> qs p \<noteq> [] \<Longrightarrow> \<forall>r > p. qs r = [] \<Longrightarrow> pick s = hd (qs p)"
    and queued: "represents s qs \<Longrightarrow> x \<in> set (qs p) \<Longrightarrow> prio s x = p"
begin

text \<open>Taking tasks out one by one follows the dispatch order.\<close>

lemma take_next_order:
  assumes "represents s qs" and "n \<le> length (dispatch_order qs)"
  shows "\<exists>s' qs'. take_next pick dequeue n s = Inr (take n (dispatch_order qs), s') \<and>
    represents s' qs' \<and> dispatch_order qs' = drop n (dispatch_order qs)"
  using assms
proof (induction n arbitrary: s qs)
  case 0
  then show ?case by auto
next
  case (Suc n)
  then have "dispatch_order qs \<noteq> []" by auto
  then obtain p0 where "qs p0 \<noteq> []" by (auto simp: dispatch_order_def)
  then obtain p where p: "qs p \<noteq> []" "\<forall>r > p. qs r = []" by (rule highest_nonempty)
  note order = dispatch_order_tl [OF p(2,1)]
  have pick: "pick s = hd (qs p)" using pick_ok [OF Suc.prems(1) p] .
  have "remove1 (hd (qs p)) (qs p) = tl (qs p)" using p(1) by (cases "qs p") auto
  with dequeue_ok [OF Suc.prems(1), of "hd (qs p)" p] p(1) obtain s1 where
    s1: "dequeue (hd (qs p)) s = Inr s1" "represents s1 (qs(p := tl (qs p)))" by auto
  have "n \<le> length (dispatch_order (qs(p := tl (qs p))))" using Suc.prems(2) order by simp
  from Suc.IH [OF s1(2) this] s1(1) pick order show ?case by (auto simp del: fun_upd_apply)
qed

lemma enqueue_all_order:
  assumes "represents s qs" and "distinct xs" and "\<forall>x \<in> set xs. runnable s x \<and> (\<forall>p. x \<notin> set (qs p))"
  shows "\<exists>s'. enqueue_all enqueue xs s = Inr s' \<and>
    represents s' (\<lambda>p. qs p @ filter (\<lambda>x. prio s x = p) xs)"
  using assms
proof (induction xs arbitrary: s qs)
  case Nil
  then show ?case by simp
next
  case (Cons x xs)
  from enqueue_ok [OF Cons.prems(1), of x] Cons.prems(3) obtain s1 where
    s1: "enqueue x s = Inr s1" "represents s1 (qs(prio s x := qs (prio s x) @ [x]))"
      "prio s1 = prio s" "runnable s1 = runnable s" by auto
  have "\<exists>s'. enqueue_all enqueue xs s1 = Inr s' \<and>
    represents s' (\<lambda>p. (qs(prio s x := qs (prio s x) @ [x])) p @ filter (\<lambda>x. prio s1 x = p) xs)"
    using Cons.prems s1 by (intro Cons.IH s1(2)) auto
  moreover have "(\<lambda>p. (qs(prio s x := qs (prio s x) @ [x])) p @ filter (\<lambda>x. prio s1 x = p) xs) =
      (\<lambda>p. qs p @ filter (\<lambda>x. prio s x = p) (x # xs))"
    using s1(3) by auto
  ultimately show ?case using s1(1) by simp
qed

lemma filter_priorities_length:
  "length (dispatch_order (\<lambda>p. filter (\<lambda>x. prio s x = p) xs)) = length xs"
proof (induction xs)
  case Nil
  then show ?case by (simp add: dispatch_order_Nil)
next
  case (Cons x xs)
  define p where "p = prio s x"
  define qs where "qs = (\<lambda>p. filter (\<lambda>x. prio s x = p) xs)"
  have "(\<lambda>p. filter (\<lambda>x. prio s x = p) (x # xs)) = qs(p := x # qs p)"
    by (auto simp: p_def qs_def)
  moreover have "length (dispatch_order (qs(p := x # qs p))) = Suc (length (dispatch_order qs))"
    unfolding dispatch_order_upd dispatch_order_split [of qs p] by simp
  ultimately show ?case using Cons by (simp add: qs_def)
qed

text \<open>
  Tasks enqueued into empty queues come out by falling priority and, within a
  priority, in the order in which they were enqueued; nothing is lost.
\<close>

lemma priority_fifo:
  assumes "represents s (\<lambda>_. [])" and "distinct xs" and "\<forall>x \<in> set xs. runnable s x"
  shows "\<exists>s1 s2 qs. enqueue_all enqueue xs s = Inr s1 \<and>
    take_next pick dequeue (length xs) s1 =
      Inr (dispatch_order (\<lambda>p. filter (\<lambda>x. prio s x = p) xs), s2) \<and>
    represents s2 qs \<and> dispatch_order qs = []"
proof -
  from enqueue_all_order [OF assms(1,2)] assms(3) obtain s1 where
    s1: "enqueue_all enqueue xs s = Inr s1" "represents s1 (\<lambda>p. filter (\<lambda>x. prio s x = p) xs)" by auto
  have "length xs \<le> length (dispatch_order (\<lambda>p. filter (\<lambda>x. prio s x = p) xs))"
    by (simp add: filter_priorities_length)
  from take_next_order [OF s1(2) this] s1(1) filter_priorities_length [of s xs] show ?thesis by auto
qed

end

end
