(* ===== verification/Scheduler.thy ===== *)
theory Scheduler
  imports Gdt Ready_Queue
begin

text \<open>
  The priority scheduler, \<^verbatim>\<open>core/scheduler.c\<close> with \<^verbatim>\<open>include/kernel/scheduler.h\<close>, the
  task structure of \<^verbatim>\<open>include/kernel/task.h\<close>, the context switch of
  \<^verbatim>\<open>arch/x86/context.s\<close> and the interrupt flag operations of \<^verbatim>\<open>arch/x86/hal.c\<close>. Task
  structures live in a heap indexed by their address; the 256 ready queues are
  doubly linked lists through that heap.
\<close>

section \<open>State\<close>

datatype task_state = TASK_STATE_READY | TASK_STATE_RUNNING | TASK_STATE_BLOCKED | TASK_STATE_ZOMBIE

text \<open>\<open>t_name\<close> is the string in the array \<^verbatim>\<open>name[32]\<close>, without its terminator.\<close>

record task =
  t_id :: u32
  t_name :: string
  t_state :: task_state
  t_exit_code :: u32
  t_context :: cpu_context
  t_address_space :: pt_ptr
  t_kernel_stack :: addr
  t_kernel_stack_size :: u32
  t_priority :: u8
  t_cpu_time_ticks :: u64
  t_last_run_tick :: u64
  t_next :: addr
  t_prev :: addr

record task_queue =
  q_head :: addr
  q_tail :: addr
  q_count :: u32

record scheduler =
  ready :: "u8 \<Rightarrow> task_queue"
  priority_bitmap :: "nat \<Rightarrow> u32"
  current_task :: addr
  context_switches :: u64
  sched_ticks :: u64
  need_resched :: bool

text \<open>\<open>idle_task\<close> and \<open>next_task_id\<close> are the static variables of \<^verbatim>\<open>core/task.c\<close>.\<close>

record sched_st = cpu_st +
  tasks :: "addr \<Rightarrow> task"
  g_scheduler :: scheduler
  idle_task :: addr
  next_task_id :: u32

abbreviation SCHED_IDLE_PRIORITY :: u8 where "SCHED_IDLE_PRIORITY \<equiv> 0"

text \<open>Reading and writing through a task pointer; the null page is not mapped.\<close>

definition load_task :: "addr \<Rightarrow> 'z sched_st_scheme \<Rightarrow> fault + task" where
  "load_task p s = (if p = 0 then Inl NullDeref else Inr (tasks s p))"

definition store_task :: "addr \<Rightarrow> (task \<Rightarrow> task) \<Rightarrow> 'z sched_st_scheme \<Rightarrow> fault + 'z sched_st_scheme" where
  "store_task p f s = (if p = 0 then Inl NullDeref else Inr (s\<lparr>tasks := (tasks s)(p := f (tasks s p))\<rparr>))"

definition upd_sched :: "(scheduler \<Rightarrow> scheduler) \<Rightarrow> 'z sched_st_scheme \<Rightarrow> 'z sched_st_scheme" where
  "upd_sched f s = s\<lparr>g_scheduler := f (g_scheduler s)\<rparr>"

definition upd_queue :: "u8 \<Rightarrow> (task_queue \<Rightarrow> task_queue) \<Rightarrow> 'z sched_st_scheme \<Rightarrow> 'z sched_st_scheme" where
  "upd_queue p f = upd_sched (\<lambda>g. g\<lparr>ready := (ready g)(p := f (ready g p))\<rparr>)"


section \<open>Interrupt flag\<close>

abbreviation IF_FLAG :: u32 where "IF_FLAG \<equiv> 0x200"

definition irq_enable :: "'z cpu_st_scheme \<Rightarrow> 'z cpu_st_scheme" where
  "irq_enable s = s\<lparr>regs := (regs s)\<lparr>ctx_eflags := ctx_eflags (regs s) OR IF_FLAG\<rparr>\<rparr>"

definition irq_disable :: "'z cpu_st_scheme \<Rightarrow> u32 \<times> 'z cpu_st_scheme" where
  "irq_disable s = (ctx_eflags (regs s),
     s\<lparr>regs := (regs s)\<lparr>ctx_eflags := ctx_eflags (regs s) AND NOT IF_FLAG\<rparr>\<rparr>)"

definition irq_restore :: "u32 \<Rightarrow> 'z cpu_st_scheme \<Rightarrow> 'z cpu_st_scheme" where
  "irq_restore state s = s\<lparr>regs := (regs s)\<lparr>ctx_eflags := state\<rparr>\<rparr>"


section \<open>Priority bitmap\<close>

definition set_priority_bit :: "u8 \<Rightarrow> (nat \<Rightarrow> u32) \<Rightarrow> (nat \<Rightarrow> u32)" where
  "set_priority_bit priority bm =
     (let word_idx = unat (priority div 32); bit_idx = unat (priority mod 32)
      in bm(word_idx := bm word_idx OR push_bit bit_idx 1))"

definition clear_priority_bit :: "u8 \<Rightarrow> (nat \<Rightarrow> u32) \<Rightarrow> (nat \<Rightarrow> u32)" where
  "clear_priority_bit priority bm =
     (let word_idx = unat (priority div 32); bit_idx = unat (priority mod 32)
      in bm(word_idx := bm word_idx AND NOT (push_bit bit_idx 1)))"

text \<open>\<^verbatim>\<open>__builtin_clz\<close>: the number of leading zero bits of a non-zero word.\<close>

definition builtin_clz :: "u32 \<Rightarrow> nat" where
  "builtin_clz w = length (takeWhile (\<lambda>n. \<not> bit w n) (rev [0..<32]))"

text \<open>The loop of \<^verbatim>\<open>find_highest_priority\<close> over the words below \<open>i\<close>, from the highest.\<close>

fun scan_priority_words :: "(nat \<Rightarrow> u32) \<Rightarrow> nat \<Rightarrow> u8" where
  "scan_priority_words bm 0 = SCHED_IDLE_PRIORITY"
| "scan_priority_words bm (Suc i) =
     (if bm i \<noteq> 0 then of_nat (i * 32 + (31 - builtin_clz (bm i))) else scan_priority_words bm i)"

definition find_highest_priority :: "'z sched_st_scheme \<Rightarrow> u8" where
  "find_highest_priority s = scan_priority_words (priority_bitmap (g_scheduler s)) 8"


section \<open>Ready queues\<close>

definition scheduler_enqueue :: "addr \<Rightarrow> 'z sched_st_scheme \<Rightarrow> fault + 'z sched_st_scheme" where
  "scheduler_enqueue task s =
     (if task = 0 \<or> t_state (tasks s task) \<noteq> TASK_STATE_READY then Inr s
      else
        let priority = t_priority (tasks s task);
            queue = ready (g_scheduler s) priority in
        andthen
          (if q_head queue = 0 then
             store_task task (\<lambda>t. t\<lparr>t_next := 0, t_prev := 0\<rparr>)
               (upd_queue priority (\<lambda>q. q\<lparr>q_head := task, q_tail := task\<rparr>) s)
           else
             andthen (store_task task (\<lambda>t. t\<lparr>t_prev := q_tail queue, t_next := 0\<rparr>) s) (\<lambda>s.
             andthen (store_task (q_tail queue) (\<lambda>t. t\<lparr>t_next := task\<rparr>) s) (\<lambda>s.
             Inr (upd_queue priority (\<lambda>q. q\<lparr>q_tail := task\<rparr>) s))))
          (\<lambda>s.
        let s = upd_queue priority (\<lambda>q. q\<lparr>q_count := q_count q + 1\<rparr>) s
        in Inr (upd_sched (\<lambda>g. g\<lparr>priority_bitmap := set_priority_bit priority (priority_bitmap g)\<rparr>) s)))"

definition scheduler_dequeue :: "addr \<Rightarrow> 'z sched_st_scheme \<Rightarrow> fault + 'z sched_st_scheme" where
  "scheduler_dequeue task s =
     (if task = 0 then Inr s
      else
        let priority = t_priority (tasks s task);
            queue = ready (g_scheduler s) priority in
        if q_count queue = 0 then Inr s
        else if q_head queue \<noteq> task \<and> q_tail queue \<noteq> task \<and>
          t_prev (tasks s task) = 0 \<and> t_next (tasks s task) = 0 then Inr s
        else
          andthen
            (if t_prev (tasks s task) \<noteq> 0 then
               store_task (t_prev (tasks s task)) (\<lambda>t. t\<lparr>t_next := t_next (tasks s task)\<rparr>) s
             else Inr (upd_queue priority (\<lambda>q. q\<lparr>q_head := t_next (tasks s task)\<rparr>) s)) (\<lambda>s.
          andthen
            (if t_next (tasks s task) \<noteq> 0 then
               store_task (t_next (tasks s task)) (\<lambda>t. t\<lparr>t_prev := t_prev (tasks s task)\<rparr>) s
             else Inr (upd_queue priority (\<lambda>q. q\<lparr>q_tail := t_prev (tasks s task)\<rparr>) s)) (\<lambda>s.
          andthen (store_task task (\<lambda>t. t\<lparr>t_next := 0, t_prev := 0\<rparr>) s) (\<lambda>s.
          let s = upd_queue priority (\<lambda>q. q\<lparr>q_count := q_count q - 1\<rparr>) s in
          Inr (if q_count (ready (g_scheduler s) priority) = 0
               then upd_sched (\<lambda>g. g\<lparr>priority_bitmap := clear_priority_bit priority (priority_bitmap g)\<rparr>) s
               else s)))))"

definition task_get_idle :: "'z sched_st_scheme \<Rightarrow> addr" where
  "task_get_idle s = idle_task s"

definition scheduler_pick_next :: "'z sched_st_scheme \<Rightarrow> addr" where
  "scheduler_pick_next s =
     (let priority = find_highest_priority s;
          nxt = q_head (ready (g_scheduler s) priority)
      in if nxt = 0 then task_get_idle s else nxt)"


section \<open>Context switch and scheduling\<close>

text \<open>
  \<open>regs\<close> stands for the values with which the caller of \<^verbatim>\<open>context_switch\<close> resumes
  (return address, stack pointer after the return). The code segment and stack
  segment are saved through the low half of a register that still holds the
  return address. The kernel path (requested privilege level 0) does not load
  the code segment; the user path loads it with \<^verbatim>\<open>iret\<close>.
\<close>

definition save_context :: "cpu_context \<Rightarrow> cpu_context" where
  "save_context r =
     (let high = ctx_eip r AND NOT 0xFFFF
      in r\<lparr>ctx_cs := high OR (ctx_cs r AND 0xFFFF), ctx_ss := high OR (ctx_ss r AND 0xFFFF)\<rparr>)"

definition load_context :: "cpu_context \<Rightarrow> cpu_context \<Rightarrow> cpu_context" where
  "load_context n r =
     n\<lparr>ctx_cs := if ctx_cs n AND 3 = 0 then ctx_cs r else ctx_cs n AND 0xFFFF,
       ctx_ss := ctx_ss n AND 0xFFFF, ctx_ds := ctx_ds n AND 0xFFFF, ctx_es := ctx_es n AND 0xFFFF,
       ctx_fs := ctx_fs n AND 0xFFFF, ctx_gs := ctx_gs n AND 0xFFFF\<rparr>"

definition context_switch :: "addr \<Rightarrow> addr \<Rightarrow> 'z sched_st_scheme \<Rightarrow> fault + 'z sched_st_scheme" where
  "context_switch old new s =
     andthen (store_task old (\<lambda>t. t\<lparr>t_context := save_context (regs s)\<rparr>) s) (\<lambda>s.
     andthen (load_task new s) (\<lambda>t.
     Inr (s\<lparr>regs := load_context (t_context t) (regs s)\<rparr>)))"

text \<open>\<^verbatim>\<open>schedule\<close> either returns to its caller or leaves the CPU in the context of another task.\<close>

datatype switch = Stay | SwitchTo addr

text \<open>The middle of \<^verbatim>\<open>schedule\<close>: set the current task aside, take the next one, requeue the current one.\<close>

definition exchange_tasks :: "addr \<Rightarrow> addr \<Rightarrow> 'z sched_st_scheme \<Rightarrow> fault + 'z sched_st_scheme" where
  "exchange_tasks current nxt s =
     andthen (load_task current s) (\<lambda>cur.
     andthen
       (if t_state cur = TASK_STATE_RUNNING then
          store_task current (\<lambda>t. t\<lparr>t_state := TASK_STATE_READY\<rparr>) s
        else if t_state cur = TASK_STATE_ZOMBIE then scheduler_dequeue current s
        else Inr s) (\<lambda>s.
     andthen (scheduler_dequeue nxt s) (\<lambda>s.
     andthen (store_task nxt (\<lambda>t. t\<lparr>t_state := TASK_STATE_RUNNING\<rparr>) s) (\<lambda>s.
     if t_state (tasks s current) = TASK_STATE_READY then scheduler_enqueue current s else Inr s))))"

definition schedule :: "'z sched_st_scheme \<Rightarrow> fault + switch \<times> 'z sched_st_scheme" where
  "schedule s =
     (let (flags, s) = irq_disable s;
          current = current_task (g_scheduler s);
          nxt = scheduler_pick_next s in
      if current = nxt then
        Inr (Stay, irq_restore flags (upd_sched (\<lambda>g. g\<lparr>need_resched := False\<rparr>) s))
      else
        andthen (exchange_tasks current nxt s) (\<lambda>s.
        let s = upd_sched (\<lambda>g. g\<lparr>current_task := nxt, context_switches := context_switches g + 1,
                  need_resched := False\<rparr>) s;
            s = (if t_kernel_stack (tasks s nxt) \<noteq> 0 \<and> t_kernel_stack_size (tasks s nxt) > 0
                 then gdt_set_kernel_stack (t_kernel_stack (tasks s nxt) + t_kernel_stack_size (tasks s nxt)) s
                 else s) in
        andthen (context_switch current nxt s) (\<lambda>s. Inr (SwitchTo nxt, s))))"

definition scheduler_tick :: "'z sched_st_scheme \<Rightarrow> fault + bool \<times> 'z sched_st_scheme" where
  "scheduler_tick s =
     (let s = upd_sched (\<lambda>g. g\<lparr>sched_ticks := sched_ticks g + 1\<rparr>) s;
          current = current_task (g_scheduler s) in
      andthen
        (if current \<noteq> 0 then store_task current (\<lambda>t. t\<lparr>t_cpu_time_ticks := t_cpu_time_ticks t + 1\<rparr>) s
         else Inr s) (\<lambda>s.
      andthen (load_task current s) (\<lambda>cur.
      let priority = t_priority cur;
          highest_ready = find_highest_priority s in
      if highest_ready > priority \<or> q_count (ready (g_scheduler s) priority) > 0
      then Inr (True, upd_sched (\<lambda>g. g\<lparr>need_resched := True\<rparr>) s)
      else Inr (False, s))))"

definition scheduler_need_resched :: "'z sched_st_scheme \<Rightarrow> bool" where
  "scheduler_need_resched s = need_resched (g_scheduler s)"

definition scheduler_current :: "'z sched_st_scheme \<Rightarrow> addr" where
  "scheduler_current s = current_task (g_scheduler s)"

definition scheduler_set_need_resched :: "'z sched_st_scheme \<Rightarrow> 'z sched_st_scheme" where
  "scheduler_set_need_resched s = upd_sched (\<lambda>g. g\<lparr>need_resched := True\<rparr>) s"

definition zero_context :: cpu_context where
  "zero_context = \<lparr>ctx_edi = 0, ctx_esi = 0, ctx_ebx = 0, ctx_ebp = 0, ctx_esp = 0, ctx_eip = 0, ctx_cs = 0,
     ctx_ss = 0, ctx_ds = 0, ctx_es = 0, ctx_fs = 0, ctx_gs = 0, ctx_eflags = 0\<rparr>"

definition zero_task :: task where
  "zero_task = \<lparr>t_id = 0, t_name = '''', t_state = TASK_STATE_READY, t_exit_code = 0, t_context = zero_context,
     t_address_space = NullPt, t_kernel_stack = 0, t_kernel_stack_size = 0, t_priority = 0,
     t_cpu_time_ticks = 0, t_last_run_tick = 0, t_next = 0, t_prev = 0\<rparr>"

definition zero_scheduler :: scheduler where
  "zero_scheduler = \<lparr>ready = (\<lambda>_. \<lparr>q_head = 0, q_tail = 0, q_count = 0\<rparr>), priority_bitmap = (\<lambda>_. 0),
     current_task = 0, context_switches = 0, sched_ticks = 0, need_resched = False\<rparr>"

text \<open>The address of the static \<^verbatim>\<open>bootstrap_task\<close> is chosen by the linker: a parameter.\<close>

definition scheduler_init :: "addr \<Rightarrow> 'z sched_st_scheme \<Rightarrow> fault + 'z sched_st_scheme" where
  "scheduler_init bootstrap s =
     (let s = s\<lparr>g_scheduler := zero_scheduler,
               tasks := (tasks s)(bootstrap := zero_task\<lparr>t_name := ''bootstrap'', t_id := 0xFFFFFFFF,
                 t_state := TASK_STATE_ZOMBIE, t_priority := SCHED_IDLE_PRIORITY,
                 t_address_space := mmu_get_kernel_address_space s\<rparr>)\<rparr>;
          s = upd_sched (\<lambda>g. g\<lparr>current_task := bootstrap\<rparr>) s;
          idle = task_get_idle s in
      if idle = 0 then Inr s
      else
        andthen (store_task idle (\<lambda>t. t\<lparr>t_state := TASK_STATE_READY\<rparr>) s) (\<lambda>s.
        scheduler_enqueue idle s))"


section \<open>The bitmap and its search\<close>

definition prio_test :: "(nat \<Rightarrow> u32) \<Rightarrow> u8 \<Rightarrow> bool" where
  "prio_test bm p = bit (bm (unat p div 32)) (unat p mod 32)"

lemma u8_eq_div_mod_32:
  fixes p q :: u8
  shows "p = q \<longleftrightarrow> unat p div 32 = unat q div 32 \<and> unat p mod 32 = unat q mod 32"
  by (metis div_mod_decomp word_unat_eq_iff)

interpretation priority_bits: bit_array "\<lambda>p :: u8. True" prio_test set_priority_bit clear_priority_bit
  by unfold_locales
    (auto simp: prio_test_def set_priority_bit_def clear_priority_bit_def Let_def unat_div unat_mod
      u8_eq_div_mod_32)

lemma builtin_clz_spec:
  assumes "w \<noteq> 0"
  shows "builtin_clz w < 32" and "bit w (31 - builtin_clz w)"
    and "31 - builtin_clz w < n \<Longrightarrow> \<not> bit w n"
proof -
  let ?P = "\<lambda>n. \<not> bit w n" and ?l = "rev [0..<32]"
  obtain m where m: "m < 32" "bit w m"
    using assms word_eq_0_iff_bits [of w] by auto
  have "length (takeWhile ?P ?l) < length ?l"
  proof -
    have "m \<in> set ?l" using m by simp
    then have "takeWhile ?P ?l \<noteq> ?l" using m(2) by (metis set_takeWhileD)
    then show ?thesis by (metis length_takeWhile_le le_neq_implies_less takeWhile_eq_take take_all_iff)
  qed
  then show lt: "builtin_clz w < 32" by (simp add: builtin_clz_def)
  have nth: "?l ! k = 31 - k" if "k < 32" for k
    using that by (simp add: rev_nth)
  have "\<not> ?P (?l ! length (takeWhile ?P ?l))"
    by (rule nth_length_takeWhile) (use lt in \<open>simp add: builtin_clz_def\<close>)
  then show "bit w (31 - builtin_clz w)" using lt nth by (simp add: builtin_clz_def)
  show "\<not> bit w n" if "31 - builtin_clz w < n"
  proof (cases "n < 32")
    case False
    then show ?thesis using bit_imp_le_length [of w n] by auto
  next
    case True
    then have "31 - n < length (takeWhile ?P ?l)" using that lt by (simp add: builtin_clz_def)
    then have "takeWhile ?P ?l ! (31 - n) = n" "31 - n < length (takeWhile ?P ?l)"
      using True nth [of "31 - n"] by (simp_all add: takeWhile_nth)
    then show ?thesis using set_takeWhileD nth_mem by metis
  qed
qed

lemma scan_priority_words_spec:
  assumes "i \<le> 8"
  shows "if \<exists>p. prio_test bm p \<and> unat p < 32 * i
    then prio_test bm (scan_priority_words bm i) \<and> unat (scan_priority_words bm i) < 32 * i \<and>
      (\<forall>p. prio_test bm p \<and> unat p < 32 * i \<longrightarrow> p \<le> scan_priority_words bm i)
    else scan_priority_words bm i = SCHED_IDLE_PRIORITY"
  using assms
proof (induction i)
  case 0
  then show ?case by simp
next
  case (Suc i)
  have split: "unat p < 32 * Suc i \<longleftrightarrow> unat p < 32 * i \<or> unat p div 32 = i" for p :: u8
    by (auto simp: div_less_iff_less_mult)
  show ?case
  proof (cases "bm i = 0")
    case True
    then have same: "prio_test bm p \<and> unat p < 32 * Suc i \<longleftrightarrow> prio_test bm p \<and> unat p < 32 * i" for p
      unfolding split by (auto simp: prio_test_def)
    show ?thesis unfolding same
      using Suc True by (cases "\<exists>p. prio_test bm p \<and> unat p < 32 * i") auto
  next
    case False
    define h where "h = 31 - builtin_clz (bm i)"
    note c = builtin_clz_spec [OF False, folded h_def]
    have h: "h < 32" by (simp add: h_def)
    have u: "unat (of_nat (i * 32 + h) :: u8) = i * 32 + h"
      using Suc.prems h by (simp add: unsigned_of_nat take_bit_eq_mod del: of_nat_add of_nat_mult)
    have scan: "scan_priority_words bm (Suc i) = of_nat (i * 32 + h)"
      using False by (simp add: h_def)
    have t: "prio_test bm (of_nat (i * 32 + h))"
      using c(2) h unfolding prio_test_def u by simp
    have max: "p \<le> of_nat (i * 32 + h)" if "prio_test bm p" "unat p < 32 * Suc i" for p
    proof (cases "unat p div 32 = i")
      case True
      with that(1) have "bit (bm i) (unat p mod 32)" by (simp add: prio_test_def)
      with c(3) have "unat p mod 32 \<le> h" by (metis not_le)
      moreover have "unat p = 32 * i + unat p mod 32" using True mult_div_mod_eq [of 32 "unat p"] by simp
      ultimately show ?thesis unfolding word_le_nat_alt u by linarith
    next
      case False
      with that(2) have "unat p < 32 * i" unfolding split by simp
      then show ?thesis unfolding word_le_nat_alt u by linarith
    qed
    have "\<exists>p. prio_test bm p \<and> unat p < 32 * Suc i"
      using t u h by (intro exI [of _ "of_nat (i * 32 + h)"]) simp
    then show ?thesis unfolding scan using t max u h by simp
  qed
qed

lemma find_highest_priority_Max:
  "find_highest_priority s =
     (if \<exists>p. prio_test (priority_bitmap (g_scheduler s)) p
      then Max {p. prio_test (priority_bitmap (g_scheduler s)) p} else SCHED_IDLE_PRIORITY)"
proof -
  define bm h where "bm = priority_bitmap (g_scheduler s)" and "h = scan_priority_words bm 8"
  have b: "unat p < 32 * 8" for p :: u8 using unsigned_less [of p] by simp
  show ?thesis
  proof (cases "\<exists>p. prio_test bm p")
    case True
    then have "prio_test bm h" "\<And>p. prio_test bm p \<Longrightarrow> p \<le> h"
      using scan_priority_words_spec [of 8 bm] b by (auto simp: h_def)
    then have "Max {p. prio_test bm p} = h" by (intro Max_eqI) auto
    with True show ?thesis by (simp add: find_highest_priority_def bm_def h_def)
  next
    case False
    then have "h = SCHED_IDLE_PRIORITY"
      using scan_priority_words_spec [of 8 bm] by (simp add: h_def)
    with False show ?thesis by (simp add: find_highest_priority_def bm_def h_def)
  qed
qed


section \<open>Linked lists\<close>

text \<open>
  \<open>dseg t pv xs nx\<close>: the tasks \<open>xs\<close> form a doubly linked segment of the heap \<open>t\<close>
  between the neighbours \<open>pv\<close> and \<open>nx\<close>.
\<close>

fun dseg :: "(addr \<Rightarrow> task) \<Rightarrow> addr \<Rightarrow> addr list \<Rightarrow> addr \<Rightarrow> bool" where
  "dseg t pv [] nx = True"
| "dseg t pv (x # xs) nx = (t_prev (t x) = pv \<and> t_next (t x) = hd (xs @ [nx]) \<and> dseg t x xs nx)"

lemma dseg_append:
  "dseg t pv (xs @ ys) nx \<longleftrightarrow> dseg t pv xs (hd (ys @ [nx])) \<and> dseg t (last (pv # xs)) ys nx"
  by (induction xs arbitrary: pv) (auto simp: hd_append)

lemma dseg_cong:
  "(\<And>x. x \<in> set xs \<Longrightarrow> t_prev (t' x) = t_prev (t x) \<and> t_next (t' x) = t_next (t x)) \<Longrightarrow>
    dseg t' pv xs nx = dseg t pv xs nx"
  by (induction xs arbitrary: pv) auto

lemma dseg_snoc:
  "dseg t pv (xs @ [x]) nx \<longleftrightarrow> dseg t pv xs x \<and> t_prev (t x) = last (pv # xs) \<and> t_next (t x) = nx"
  by (simp add: dseg_append)


section \<open>The queues a state represents\<close>

text \<open>One queue structure, its heap segment and its bit in the bitmap represent a list of tasks.\<close>

definition queue_ok :: "(addr \<Rightarrow> task) \<Rightarrow> task_queue \<Rightarrow> u8 \<Rightarrow> addr list \<Rightarrow> bool" where
  "queue_ok t q p xs \<longleftrightarrow> dseg t 0 xs 0 \<and> q_head q = hd (xs @ [0]) \<and> q_tail q = last (0 # xs) \<and>
     q_count q = of_nat (length xs) \<and> distinct xs \<and> 0 \<notin> set xs \<and>
     (\<forall>x \<in> set xs. t_priority (t x) = p \<and> t_state (t x) = TASK_STATE_READY)"

definition represents :: "'z sched_st_scheme \<Rightarrow> (u8 \<Rightarrow> addr list) \<Rightarrow> bool" where
  "represents s qs \<longleftrightarrow> (\<forall>p. queue_ok (tasks s) (ready (g_scheduler s) p) p (qs p) \<and>
     (prio_test (priority_bitmap (g_scheduler s)) p \<longleftrightarrow> qs p \<noteq> []))"

text \<open>What queue operations may change: links, queue structures and bitmap.\<close>

definition strip_links :: "task \<Rightarrow> task" where
  "strip_links t = t\<lparr>t_next := 0, t_prev := 0\<rparr>"

definition only_queues :: "'z sched_st_scheme \<Rightarrow> 'z sched_st_scheme \<Rightarrow> bool" where
  "only_queues s s' \<longleftrightarrow> (\<forall>y. strip_links (tasks s' y) = strip_links (tasks s y)) \<and>
     s'\<lparr>tasks := undefined, g_scheduler := undefined\<rparr> = s\<lparr>tasks := undefined, g_scheduler := undefined\<rparr> \<and>
     (g_scheduler s')\<lparr>ready := undefined, priority_bitmap := undefined\<rparr> =
       (g_scheduler s)\<lparr>ready := undefined, priority_bitmap := undefined\<rparr>"

lemma strip_linksD:
  assumes "strip_links t = strip_links u"
  shows "t_id t = t_id u" "t_name t = t_name u" "t_state t = t_state u" "t_exit_code t = t_exit_code u"
    "t_context t = t_context u" "t_address_space t = t_address_space u" "t_kernel_stack t = t_kernel_stack u"
    "t_kernel_stack_size t = t_kernel_stack_size u" "t_priority t = t_priority u"
    "t_cpu_time_ticks t = t_cpu_time_ticks u"
  using assms by (cases t, cases u, simp add: strip_links_def)+

lemma strip_links_upd_context:
  "strip_links (t\<lparr>t_context := x\<rparr>) = (strip_links t)\<lparr>t_context := x\<rparr>"
  by (simp add: strip_links_def)

lemma strip_links_same_context:
  "t_context t = x \<Longrightarrow> (strip_links t)\<lparr>t_context := x\<rparr> = strip_links t"
  by (auto simp: strip_links_def)

lemma only_queues_refl [simp]: "only_queues s s"
  by (simp add: only_queues_def)

lemma only_queues_trans: "only_queues s t \<Longrightarrow> only_queues t u \<Longrightarrow> only_queues s u"
  by (simp add: only_queues_def)

lemma only_queuesD:
  fixes s s' :: "'z sched_st_scheme"
  assumes "only_queues s s'"
  shows "strip_links (tasks s' y) = strip_links (tasks s y)"
    "current_task (g_scheduler s') = current_task (g_scheduler s)"
    "context_switches (g_scheduler s') = context_switches (g_scheduler s)"
    "sched_ticks (g_scheduler s') = sched_ticks (g_scheduler s)"
    "need_resched (g_scheduler s') = need_resched (g_scheduler s)"
    "idle_task s' = idle_task s" "regs s' = regs s" "tss s' = tss s" "next_task_id s' = next_task_id s"
proof -
  show "strip_links (tasks s' y) = strip_links (tasks s y)" using assms by (simp add: only_queues_def)
  have g: "(g_scheduler s')\<lparr>ready := undefined, priority_bitmap := undefined\<rparr> =
       (g_scheduler s)\<lparr>ready := undefined, priority_bitmap := undefined\<rparr>"
    and o: "s'\<lparr>tasks := undefined, g_scheduler := undefined\<rparr> = s\<lparr>tasks := undefined, g_scheduler := undefined\<rparr>"
    using assms by (simp_all add: only_queues_def)
  show "current_task (g_scheduler s') = current_task (g_scheduler s)"
    "context_switches (g_scheduler s') = context_switches (g_scheduler s)"
    "sched_ticks (g_scheduler s') = sched_ticks (g_scheduler s)"
    "need_resched (g_scheduler s') = need_resched (g_scheduler s)"
    using arg_cong [OF g, of current_task] arg_cong [OF g, of context_switches]
      arg_cong [OF g, of sched_ticks] arg_cong [OF g, of need_resched] by simp_all
  show "idle_task s' = idle_task s" "regs s' = regs s" "tss s' = tss s" "next_task_id s' = next_task_id s"
    using arg_cong [OF o, of idle_task] arg_cong [OF o, of regs] arg_cong [OF o, of tss]
      arg_cong [OF o, of next_task_id] by simp_all
qed

lemma length_distinct_u32:
  fixes xs :: "addr list"
  assumes "distinct xs" and "0 \<notin> set xs"
  shows "length xs < 4294967296"
proof -
  have "length xs = card (set xs)" using assms(1) by (simp add: distinct_card)
  also have "\<dots> < card (UNIV :: addr set)" using assms(2) by (intro psubset_card_mono) auto
  finally show ?thesis by (simp add: card_word)
qed

lemma queue_count_0:
  assumes "queue_ok t q p xs"
  shows "q_count q = 0 \<longleftrightarrow> xs = []"
proof -
  have "unat (q_count q) = length xs"
    using assms length_distinct_u32 [of xs] by (simp add: queue_ok_def unsigned_of_nat take_bit_eq_mod)
  then show ?thesis by (auto simp flip: unat_eq_zero)
qed

lemma queue_ok_cong:
  assumes "\<And>x. x \<in> set xs \<Longrightarrow> t' x = t x"
  shows "queue_ok t' q p xs = queue_ok t q p xs"
  using assms dseg_cong [of xs t' t 0 0] by (simp add: queue_ok_def)

lemma represents_priority:
  assumes "represents s qs" and "x \<in> set (qs p)"
  shows "t_priority (tasks s x) = p" "t_state (tasks s x) = TASK_STATE_READY" "x \<noteq> 0"
  using assms by (auto simp: represents_def queue_ok_def)

lemma queues_disjoint:
  assumes "represents s qs" and "x \<in> set (qs p)" and "x \<in> set (qs q)"
  shows "p = q"
  using represents_priority(1) [OF assms(1)] assms(2,3) by blast

text \<open>Replacing one queue keeps the others, whose tasks are not touched.\<close>

lemma represents_update:
  assumes rep: "represents s qs" and q: "queue_ok t' q p xs"
    and other: "\<And>y. y \<notin> insert x (set (qs p)) \<Longrightarrow> t' y = tasks s y"
    and x: "\<And>r. r \<noteq> p \<Longrightarrow> x \<notin> set (qs r)"
    and bm: "\<And>r. prio_test bm r \<longleftrightarrow> (if r = p then xs \<noteq> [] else prio_test (priority_bitmap (g_scheduler s)) r)"
    and s': "tasks s' = t'" "ready (g_scheduler s') = (ready (g_scheduler s))(p := q)"
      "priority_bitmap (g_scheduler s') = bm"
  shows "represents s' (qs(p := xs))"
  unfolding represents_def s' bm
proof
  fix r
  show "queue_ok t' (((ready (g_scheduler s))(p := q)) r) r ((qs(p := xs)) r) \<and>
    ((if r = p then xs \<noteq> [] else prio_test (priority_bitmap (g_scheduler s)) r) = ((qs(p := xs)) r \<noteq> []))"
  proof (cases "r = p")
    case False
    have "y \<notin> insert x (set (qs p))" if "y \<in> set (qs r)" for y
      using that False queues_disjoint [OF rep] x [OF False] by auto
    then have "queue_ok t' (ready (g_scheduler s) r) r (qs r)"
      using rep other by (subst queue_ok_cong [of _ _ "tasks s"]) (auto simp: represents_def)
    with False rep show ?thesis by (simp add: represents_def)
  qed (use q in simp)
qed

lemma enqueue_result:
  assumes q: "queue_ok (tasks s) (ready (g_scheduler s) p) p xs" and p: "t_priority (tasks s x) = p"
    and x: "x \<noteq> 0" "t_state (tasks s x) = TASK_STATE_READY" "x \<notin> set xs"
  shows "\<exists>t'. scheduler_enqueue x s = Inr (s\<lparr>tasks := t', g_scheduler := (g_scheduler s)\<lparr>
      ready := (ready (g_scheduler s))(p :=
        \<lparr>q_head = hd (xs @ [x]), q_tail = x, q_count = of_nat (length xs) + 1\<rparr>),
      priority_bitmap := set_priority_bit p (priority_bitmap (g_scheduler s))\<rparr>\<rparr>) \<and>
    dseg t' 0 (xs @ [x]) 0 \<and> (\<forall>y. strip_links (t' y) = strip_links (tasks s y)) \<and>
    (\<forall>y. y \<notin> insert x (set xs) \<longrightarrow> t' y = tasks s y)"
proof (cases xs rule: rev_cases)
  case Nil
  then have q0: "ready (g_scheduler s) p = \<lparr>q_head = 0, q_tail = 0, q_count = 0\<rparr>"
    using q by (simp add: queue_ok_def)
  let ?t = "(tasks s)(x := (tasks s x)\<lparr>t_next := 0, t_prev := 0\<rparr>)"
  show ?thesis
    by (rule exI [of _ ?t])
      (use x p q0 Nil in \<open>simp add: scheduler_enqueue_def Let_def store_task_def upd_queue_def upd_sched_def
        strip_links_def\<close>)
next
  case (snoc ys l)
  have l: "l \<noteq> 0" "l \<noteq> x" "hd (xs @ [0]) \<noteq> 0"
    using q x snoc hd_in_set [of xs] by (auto simp: queue_ok_def hd_append simp del: hd_in_set)
  have d: "dseg (tasks s) 0 ys l" "t_prev (tasks s l) = last (0 # ys)" "l \<notin> set ys" "x \<notin> set ys"
    using q x snoc by (auto simp: queue_ok_def dseg_snoc)
  have q_eq: "ready (g_scheduler s) p = \<lparr>q_head = hd (xs @ [x]), q_tail = l, q_count = of_nat (length xs)\<rparr>"
    using q snoc by (intro task_queue.equality) (simp_all add: queue_ok_def hd_append)
  have hd: "hd (xs @ [x]) \<noteq> 0" using l(3) snoc by (simp add: hd_append split: if_splits)
  let ?t = "(tasks s)(x := (tasks s x)\<lparr>t_prev := l, t_next := 0\<rparr>, l := (tasks s l)\<lparr>t_next := x\<rparr>)"
  have "dseg ?t 0 ys l" using d by (subst dseg_cong [of _ _ "tasks s"]) auto
  then have "dseg ?t 0 (xs @ [x]) 0" using d l snoc by (simp add: dseg_append)
  moreover have "scheduler_enqueue x s = Inr (s\<lparr>tasks := ?t, g_scheduler := (g_scheduler s)\<lparr>
      ready := (ready (g_scheduler s))(p :=
        \<lparr>q_head = hd (xs @ [x]), q_tail = x, q_count = of_nat (length xs) + 1\<rparr>),
      priority_bitmap := set_priority_bit p (priority_bitmap (g_scheduler s))\<rparr>\<rparr>)"
    using x p l hd by (simp add: scheduler_enqueue_def Let_def store_task_def upd_queue_def upd_sched_def q_eq)
  ultimately show ?thesis using snoc l
    by (intro exI [of _ ?t]) (simp add: strip_links_def)
qed

text \<open>The heap after a task is taken out of its list.\<close>

definition unlink :: "addr \<Rightarrow> (addr \<Rightarrow> task) \<Rightarrow> addr \<Rightarrow> task" where
  "unlink x t =
     (let pv = t_prev (t x); nx = t_next (t x);
          t = (if pv = 0 then t else t(pv := (t pv)\<lparr>t_next := nx\<rparr>));
          t = (if nx = 0 then t else t(nx := (t nx)\<lparr>t_prev := pv\<rparr>))
      in t(x := (t x)\<lparr>t_next := 0, t_prev := 0\<rparr>))"

lemma unlink_strip: "strip_links (unlink x t y) = strip_links (t y)"
  by (simp add: unlink_def Let_def strip_links_def)

lemma unlink_self: "t_next (unlink x t x) = 0" "t_prev (unlink x t x) = 0"
  by (simp_all add: unlink_def Let_def)

lemma hd_tail_0:
  assumes "0 \<notin> set zs"
  shows "hd (zs @ [0]) = 0 \<longleftrightarrow> zs = []" and "zs \<noteq> [] \<Longrightarrow> hd (zs @ [0]) \<in> set zs"
    and "last (0 # zs) = 0 \<longleftrightarrow> zs = []" and "zs \<noteq> [] \<Longrightarrow> last (0 # zs) \<in> set zs"
proof -
  show "hd (zs @ [0]) = 0 \<longleftrightarrow> zs = []" "zs \<noteq> [] \<Longrightarrow> hd (zs @ [0]) \<in> set zs"
    using assms by (cases zs; simp)+
  show "last (0 # zs) \<in> set zs" if "zs \<noteq> []" using that by simp
  then show "last (0 # zs) = 0 \<longleftrightarrow> zs = []" using assms by (metis last.simps)
qed

lemma dseg_unlink:
  assumes d: "dseg t 0 (ys @ x # zs) 0" and dist: "distinct (ys @ x # zs)" and nz: "0 \<notin> set (ys @ x # zs)"
  shows "dseg (unlink x t) 0 (ys @ zs) 0" and "y \<notin> set (ys @ x # zs) \<Longrightarrow> unlink x t y = t y"
proof -
  define pv nx where "pv = last (0 # ys)" and "nx = hd (zs @ [0])"
  have links: "dseg t 0 ys x" "t_prev (t x) = pv" "t_next (t x) = nx" "dseg t x zs 0"
    using d by (simp_all add: dseg_append pv_def nx_def)
  have ends: "pv = 0 \<longleftrightarrow> ys = []" "ys \<noteq> [] \<Longrightarrow> pv \<in> set ys" "nx = 0 \<longleftrightarrow> zs = []" "zs \<noteq> [] \<Longrightarrow> nx \<in> set zs"
    using hd_tail_0 [of ys] hd_tail_0 [of zs] nz by (simp_all add: pv_def nx_def)
  have same: "unlink x t y = t y" if "ys = [] \<or> y \<noteq> pv" "zs = [] \<or> y \<noteq> nx" "y \<noteq> x" for y
    using that ends(1,3) by (auto simp: unlink_def Let_def links(2,3))
  show "unlink x t y = t y" if "y \<notin> set (ys @ x # zs)" for y
    using that ends(2,4) by (intro same) auto
  show "dseg (unlink x t) 0 (ys @ zs) 0"
    unfolding dseg_append pv_def [symmetric] nx_def [symmetric]
  proof
    show "dseg (unlink x t) 0 ys nx"
    proof (cases ys rule: rev_cases)
      case (snoc us l)
      then have l: "l = pv" by (simp add: pv_def)
      have "unlink x t y = t y" if "y \<in> set us" for y
        using that snoc l dist ends(4) by (intro same) auto
      then have "dseg (unlink x t) 0 us pv = dseg t 0 us pv" by (intro dseg_cong) simp
      moreover have "t_next (unlink x t pv) = nx \<and> t_prev (unlink x t pv) = t_prev (t pv)"
        using snoc l dist nz ends(3,4) by (auto simp: unlink_def Let_def links(2,3))
      ultimately show ?thesis using links(1) snoc l by (simp add: dseg_snoc)
    qed simp
    show "dseg (unlink x t) pv zs 0"
    proof (cases zs)
      case (Cons z ws)
      then have z: "z = nx" by (simp add: nx_def)
      have "unlink x t y = t y" if "y \<in> set ws" for y
        using that Cons z dist ends(2) by (intro same) auto
      then have "dseg (unlink x t) nx ws 0 = dseg t nx ws 0" by (intro dseg_cong) simp
      moreover have "t_prev (unlink x t nx) = pv \<and> t_next (unlink x t nx) = t_next (t nx)"
        using Cons z dist nz ends(1,2) by (auto simp: unlink_def Let_def links(2,3))
      ultimately show ?thesis using links(4) Cons z by simp
    qed simp
  qed
qed

lemma dequeue_result:
  assumes q: "queue_ok (tasks s) (ready (g_scheduler s) p) p xs" and p: "t_priority (tasks s x) = p"
    and xs: "xs = ys @ x # zs"
  shows "scheduler_dequeue x s = Inr (s\<lparr>tasks := unlink x (tasks s), g_scheduler := (g_scheduler s)\<lparr>
      ready := (ready (g_scheduler s))(p :=
        \<lparr>q_head = hd (ys @ zs @ [0]), q_tail = last (0 # ys @ zs), q_count = of_nat (length (ys @ zs))\<rparr>),
      priority_bitmap := (if ys @ zs = [] then clear_priority_bit p (priority_bitmap (g_scheduler s))
        else priority_bitmap (g_scheduler s))\<rparr>\<rparr>)"
proof -
  let ?q = "ready (g_scheduler s) p"
  define pv nx where "pv = last (0 # ys)" and "nx = hd (zs @ [0])"
  have links: "t_prev (tasks s x) = pv" "t_next (tasks s x) = nx"
    using q xs by (simp_all add: queue_ok_def dseg_append pv_def nx_def)
  have dist: "distinct xs" "0 \<notin> set xs" using q by (auto simp: queue_ok_def)
  have ends: "pv = 0 \<longleftrightarrow> ys = []" "ys \<noteq> [] \<Longrightarrow> pv \<in> set ys" "nx = 0 \<longleftrightarrow> zs = []" "zs \<noteq> [] \<Longrightarrow> nx \<in> set zs"
    using hd_tail_0 [of ys] hd_tail_0 [of zs] dist xs by (simp_all add: pv_def nx_def)
  have ne: "pv \<noteq> x" "nx \<noteq> x" "x \<noteq> 0" using dist xs ends by auto
  have qf: "q_head ?q = hd (xs @ [0])" "q_tail ?q = last (0 # xs)" "q_count ?q = of_nat (length xs)"
    using q by (simp_all add: queue_ok_def)
  have cnt: "q_count ?q \<noteq> 0" using queue_count_0 [OF q] xs by simp
  have ht: "pv = 0 \<Longrightarrow> q_head ?q = x" "nx = 0 \<Longrightarrow> q_tail ?q = x" using qf xs ends by simp_all
  have len: "q_count ?q - 1 = of_nat (length (ys @ zs))" using qf(3) xs by simp
  have "length (ys @ zs) < 4294967296" using length_distinct_u32 [of "ys @ zs"] dist xs by auto
  then have "unat (of_nat (length (ys @ zs)) :: u32) = length (ys @ zs)"
    by (simp add: unsigned_of_nat take_bit_eq_mod del: of_nat_add length_append)
  then have len0: "(of_nat (length (ys @ zs)) :: u32) = 0 \<longleftrightarrow> ys @ zs = []"
    by (metis length_0_conv unat_0 unat_eq_zero)
  have qh: "(if pv = 0 then nx else q_head ?q) = hd (ys @ zs @ [0])"
    using qf xs ends by (cases ys) (auto simp: nx_def)
  have qt: "(if nx = 0 then pv else q_tail ?q) = last (0 # ys @ zs)"
    using qf xs ends by (cases zs rule: rev_cases) (auto simp: pv_def)
  have q_eq: "?q\<lparr>q_head := if pv = 0 then nx else q_head ?q, q_tail := if nx = 0 then pv else q_tail ?q,
      q_count := q_count ?q - 1\<rparr> =
    \<lparr>q_head = hd (ys @ zs @ [0]), q_tail = last (0 # ys @ zs), q_count = of_nat (length (ys @ zs))\<rparr>"
    unfolding qh qt len by simp
  have "scheduler_dequeue x s = Inr (s\<lparr>tasks := unlink x (tasks s), g_scheduler := (g_scheduler s)\<lparr>
      ready := (ready (g_scheduler s))(p := ?q\<lparr>q_head := if pv = 0 then nx else q_head ?q,
        q_tail := if nx = 0 then pv else q_tail ?q, q_count := q_count ?q - 1\<rparr>),
      priority_bitmap := (if q_count ?q - 1 = 0 then clear_priority_bit p (priority_bitmap (g_scheduler s))
        else priority_bitmap (g_scheduler s))\<rparr>\<rparr>)"
    using cnt p links ne ht
    by (cases "pv = 0"; cases "nx = 0")
      (simp_all add: scheduler_dequeue_def Let_def store_task_def upd_queue_def upd_sched_def unlink_def)
  then show ?thesis unfolding q_eq unfolding len len0 .
qed

text \<open>The three queue operations on the represented queues.\<close>

lemma scheduler_enqueue_spec:
  assumes rep: "represents s qs" and x: "x \<noteq> 0" "t_state (tasks s x) = TASK_STATE_READY"
    and new: "x \<notin> set (qs (t_priority (tasks s x)))"
  shows "\<exists>s'. scheduler_enqueue x s = Inr s' \<and> only_queues s s' \<and>
    represents s' (qs(t_priority (tasks s x) := qs (t_priority (tasks s x)) @ [x])) \<and>
    (\<forall>y. y \<noteq> x \<and> (\<forall>r. y \<notin> set (qs r)) \<longrightarrow> tasks s' y = tasks s y)"
proof -
  define p where "p = t_priority (tasks s x)"
  have q: "queue_ok (tasks s) (ready (g_scheduler s) p) p (qs p)" using rep by (simp add: represents_def)
  have new: "x \<notin> set (qs p)" using new by (simp add: p_def)
  from enqueue_result [OF q p_def [symmetric] x new] obtain t' where
    t': "scheduler_enqueue x s = Inr (s\<lparr>tasks := t', g_scheduler := (g_scheduler s)\<lparr>
        ready := (ready (g_scheduler s))(p :=
          \<lparr>q_head = hd (qs p @ [x]), q_tail = x, q_count = of_nat (length (qs p)) + 1\<rparr>),
        priority_bitmap := set_priority_bit p (priority_bitmap (g_scheduler s))\<rparr>\<rparr>)" (is "_ = Inr ?s'")
      "dseg t' 0 (qs p @ [x]) 0" "\<And>y. strip_links (t' y) = strip_links (tasks s y)"
      "\<And>y. y \<notin> insert x (set (qs p)) \<Longrightarrow> t' y = tasks s y" by blast
  have "queue_ok t' \<lparr>q_head = hd (qs p @ [x]), q_tail = x, q_count = of_nat (length (qs p)) + 1\<rparr> p (qs p @ [x])"
    using q t'(2) x new strip_linksD(3,9) [OF t'(3)]
    by (auto simp: queue_ok_def p_def hd_append)
  moreover have "x \<notin> set (qs r)" if "r \<noteq> p" for r
    using that represents_priority(1) [OF rep] by (auto simp: p_def)
  ultimately have "represents ?s' (qs(p := qs p @ [x]))"
    using t'(4) by (intro represents_update [OF rep]) (auto simp: priority_bits.test_set_at)
  moreover have "only_queues s ?s'" using t'(3) by (simp add: only_queues_def)
  moreover have "\<forall>y. y \<noteq> x \<and> (\<forall>r. y \<notin> set (qs r)) \<longrightarrow> tasks ?s' y = tasks s y" using t'(4) by simp
  ultimately show ?thesis using t'(1) unfolding p_def [symmetric] by blast
qed

lemma scheduler_dequeue_spec:
  assumes rep: "represents s qs" and x: "x \<in> set (qs p)"
  shows "\<exists>s'. scheduler_dequeue x s = Inr s' \<and> only_queues s s' \<and>
    represents s' (qs(p := remove1 x (qs p))) \<and> t_next (tasks s' x) = 0 \<and> t_prev (tasks s' x) = 0 \<and>
    (\<forall>y. (\<forall>r. y \<notin> set (qs r)) \<longrightarrow> tasks s' y = tasks s y)"
proof -
  have q: "queue_ok (tasks s) (ready (g_scheduler s) p) p (qs p)" using rep by (simp add: represents_def)
  have p: "t_priority (tasks s x) = p" using represents_priority(1) [OF rep x] .
  from x obtain ys zs where xs: "qs p = ys @ x # zs" "x \<notin> set ys" by (metis split_list_first)
  have rm: "remove1 x (qs p) = ys @ zs" using xs by (simp add: remove1_append)
  have d: "dseg (tasks s) 0 (ys @ x # zs) 0" "distinct (ys @ x # zs)" "0 \<notin> set (ys @ x # zs)"
    using q xs by (auto simp: queue_ok_def)
  note u = dseg_unlink [OF d]
  let ?q = "\<lparr>q_head = hd (ys @ zs @ [0]), q_tail = last (0 # ys @ zs), q_count = of_nat (length (ys @ zs))\<rparr>"
  let ?s' = "s\<lparr>tasks := unlink x (tasks s), g_scheduler := (g_scheduler s)\<lparr>
      ready := (ready (g_scheduler s))(p := ?q),
      priority_bitmap := (if ys @ zs = [] then clear_priority_bit p (priority_bitmap (g_scheduler s))
        else priority_bitmap (g_scheduler s))\<rparr>\<rparr>"
  have "queue_ok (unlink x (tasks s)) ?q p (ys @ zs)"
    using q u(1) xs strip_linksD(3,9) [OF unlink_strip [of x "tasks s"]]
    by (auto simp: queue_ok_def)
  moreover have "x \<notin> set (qs r)" if "r \<noteq> p" for r
    using that represents_priority(1) [OF rep] p by blast
  moreover have "prio_test (priority_bitmap (g_scheduler s)) p"
    using rep [unfolded represents_def, rule_format, of p] xs by simp
  ultimately have "represents ?s' (qs(p := ys @ zs))"
    using u(2) xs by (intro represents_update [OF rep]) (auto simp: priority_bits.test_clear_at)
  moreover have "only_queues s ?s'" using unlink_strip by (simp add: only_queues_def)
  moreover have "tasks ?s' y = tasks s y" if "\<forall>r. y \<notin> set (qs r)" for y
    using u(2) [of y] that [rule_format, of p] xs(1) by simp
  ultimately show ?thesis
    using dequeue_result [OF q p xs(1)] rm unlink_self [of x "tasks s"]
    by (intro exI [of _ ?s'] conjI allI impI) simp_all
qed

lemma scheduler_pick_next_spec:
  assumes rep: "represents s qs"
  shows "qs p \<noteq> [] \<Longrightarrow> \<forall>r > p. qs r = [] \<Longrightarrow> scheduler_pick_next s = hd (qs p)"
    and "\<forall>p. qs p = [] \<Longrightarrow> scheduler_pick_next s = idle_task s"
    and "find_highest_priority s = (if \<forall>p. qs p = [] then 0 else Max {p. qs p \<noteq> []})"
proof -
  have bm: "prio_test (priority_bitmap (g_scheduler s)) p \<longleftrightarrow> qs p \<noteq> []" for p
    using rep by (simp add: represents_def)
  show f: "find_highest_priority s = (if \<forall>p. qs p = [] then 0 else Max {p. qs p \<noteq> []})"
    unfolding find_highest_priority_Max bm by simp
  have q: "q_head (ready (g_scheduler s) p) = hd (qs p @ [0])" "0 \<notin> set (qs p)" for p
    using rep by (auto simp: represents_def queue_ok_def)
  show "scheduler_pick_next s = hd (qs p)" if "qs p \<noteq> []" "\<forall>r > p. qs r = []"
  proof -
    have "Max {p. qs p \<noteq> []} = p"
      using that by (intro Max_eqI) (auto simp: not_less [symmetric])
    then have "find_highest_priority s = p" using f that(1) by auto
    moreover have "hd (qs p) \<noteq> 0" using q(2) [of p] that(1) by (metis hd_in_set)
    ultimately show ?thesis
      using q(1) [of p] that(1) by (simp add: scheduler_pick_next_def)
  qed
  show "scheduler_pick_next s = idle_task s" if "\<forall>p. qs p = []"
    using f q that by (simp add: scheduler_pick_next_def task_get_idle_def)
qed

text \<open>The contract of the ready queues, discharged for the linked lists and the bitmap.\<close>

abbreviation task_prio :: "'z sched_st_scheme \<Rightarrow> addr \<Rightarrow> u8" where
  "task_prio s x \<equiv> t_priority (tasks s x)"

abbreviation task_runnable :: "'z sched_st_scheme \<Rightarrow> addr \<Rightarrow> bool" where
  "task_runnable s x \<equiv> x \<noteq> 0 \<and> t_state (tasks s x) = TASK_STATE_READY"

lemma only_queues_prio:
  assumes "only_queues s s'"
  shows "task_prio s' = task_prio s" "task_runnable s' = task_runnable s"
  using strip_linksD(3,9) [OF only_queuesD(1) [OF assms]] by (auto simp: fun_eq_iff)

interpretation rq: ready_queues
  represents task_prio task_runnable scheduler_enqueue scheduler_dequeue scheduler_pick_next
proof (unfold_locales, goal_cases)
  case (1 s qs x)
  then show ?case using scheduler_enqueue_spec [OF 1(1), of x] only_queues_prio by blast
next
  case (2 s qs x p)
  then show ?case using scheduler_dequeue_spec [OF 2] only_queues_prio by blast
next
  case (3 s qs p)
  then show ?case by (rule scheduler_pick_next_spec(1))
next
  case (4 s qs x p)
  then show ?case by (rule represents_priority(1))
qed


section \<open>Scheduling\<close>

text \<open>Only links, priorities and states of queued tasks, the queues and the bitmap matter.\<close>

lemma represents_cong:
  assumes "represents s qs"
    and "\<And>x p. x \<in> set (qs p) \<Longrightarrow> t_next (tasks s' x) = t_next (tasks s x) \<and> t_prev (tasks s' x) = t_prev (tasks s x) \<and>
      t_priority (tasks s' x) = t_priority (tasks s x) \<and> t_state (tasks s' x) = t_state (tasks s x)"
    and "ready (g_scheduler s') = ready (g_scheduler s)"
    and "priority_bitmap (g_scheduler s') = priority_bitmap (g_scheduler s)"
  shows "represents s' qs"
proof -
  have "dseg (tasks s') 0 (qs p) 0 = dseg (tasks s) 0 (qs p) 0" for p
    using assms(2) by (intro dseg_cong) auto
  then show ?thesis using assms by (simp add: represents_def queue_ok_def)
qed

lemma dequeue_unlinked:
  assumes "represents s qs" and "\<forall>p. x \<notin> set (qs p)" and "t_next (tasks s x) = 0" "t_prev (tasks s x) = 0"
  shows "scheduler_dequeue x s = Inr s"
proof (cases "x = 0")
  case False
  let ?p = "t_priority (tasks s x)"
  have q: "queue_ok (tasks s) (ready (g_scheduler s) ?p) ?p (qs ?p)" using assms(1) by (simp add: represents_def)
  have "q_head (ready (g_scheduler s) ?p) \<noteq> x \<and> q_tail (ready (g_scheduler s) ?p) \<noteq> x"
    if "qs ?p \<noteq> []"
  proof -
    have "hd (qs ?p) \<noteq> x" "last (qs ?p) \<noteq> x" using that assms(2) by (metis hd_in_set, metis last_in_set)
    then show ?thesis using q that by (simp add: queue_ok_def)
  qed
  then show ?thesis
    using queue_count_0 [OF q] assms(3,4) by (auto simp: scheduler_dequeue_def Let_def)
qed (simp add: scheduler_dequeue_def)

text \<open>
  The running task is in no queue; the idle task, of priority 0, is running or
  queued, so there is always a task to switch to.
\<close>

definition sched_inv :: "'z sched_st_scheme \<Rightarrow> (u8 \<Rightarrow> addr list) \<Rightarrow> bool" where
  "sched_inv s qs \<longleftrightarrow> represents s qs \<and>
     (let c = current_task (g_scheduler s); i = idle_task s in
      c \<noteq> 0 \<and> (\<forall>p. c \<notin> set (qs p)) \<and> t_next (tasks s c) = 0 \<and> t_prev (tasks s c) = 0 \<and>
      i \<noteq> 0 \<and> t_priority (tasks s i) = SCHED_IDLE_PRIORITY \<and> (i \<in> set (qs 0) \<or> c = i) \<and>
      (c = i \<longrightarrow> t_state (tasks s i) = TASK_STATE_RUNNING))"

text \<open>The queues after a switch to the head of queue \<open>m\<close>; \<open>keep\<close>: the current task goes back.\<close>

definition switch_queues :: "(u8 \<Rightarrow> addr list) \<Rightarrow> u8 \<Rightarrow> bool \<Rightarrow> u8 \<Rightarrow> addr \<Rightarrow> u8 \<Rightarrow> addr list" where
  "switch_queues qs m keep p c =
     (let qs1 = qs(m := tl (qs m)) in if keep then qs1(p := qs1 p @ [c]) else qs1)"

definition parked :: "task_state \<Rightarrow> task_state" where
  "parked st = (if st = TASK_STATE_RUNNING then TASK_STATE_READY else st)"

text \<open>The steps of a switch, from the point where the current task is set aside.\<close>

lemma park_current:
  assumes "sched_inv s qs"
  defines "c \<equiv> current_task (g_scheduler s)"
  shows "(if t_state (tasks s c) = TASK_STATE_RUNNING then
      store_task c (\<lambda>t. t\<lparr>t_state := TASK_STATE_READY\<rparr>) s
    else if t_state (tasks s c) = TASK_STATE_ZOMBIE then scheduler_dequeue c s else Inr s) =
    Inr (s\<lparr>tasks := (tasks s)(c := (tasks s c)\<lparr>t_state := parked (t_state (tasks s c))\<rparr>)\<rparr>)"
proof -
  have c: "c \<noteq> 0" "\<forall>p. c \<notin> set (qs p)" "t_next (tasks s c) = 0" "t_prev (tasks s c) = 0" "represents s qs"
    using assms(1) by (auto simp: sched_inv_def Let_def c_def)
  have "(tasks s c)\<lparr>t_state := t_state (tasks s c)\<rparr> = tasks s c" by simp
  with c dequeue_unlinked [OF c(5,2-4)] show ?thesis
    by (simp add: store_task_def parked_def fun_upd_idem)
qed

lemma unlinked_upd:
  assumes "represents s qs" and "\<forall>p. c \<notin> set (qs p)"
  shows "represents (s\<lparr>tasks := (tasks s)(c := t)\<rparr>) qs"
  using assms by (intro represents_cong [OF assms(1)]) auto

text \<open>Taking the head of the highest queue and marking it as running.\<close>

lemma start_next:
  assumes rep: "represents s qs" and m: "qs m \<noteq> []"
  defines "n \<equiv> hd (qs m)"
  shows "\<exists>s'. andthen (scheduler_dequeue n s) (store_task n (\<lambda>t. t\<lparr>t_state := TASK_STATE_RUNNING\<rparr>)) = Inr s' \<and>
    represents s' (qs(m := tl (qs m))) \<and> only_queues (s\<lparr>tasks := (tasks s)(n := (tasks s n)\<lparr>t_state := TASK_STATE_RUNNING\<rparr>)\<rparr>) s' \<and>
    t_next (tasks s' n) = 0 \<and> t_prev (tasks s' n) = 0 \<and> n \<noteq> 0 \<and> (\<forall>p. n \<notin> set ((qs(m := tl (qs m))) p)) \<and>
    (\<forall>y. (\<forall>r. y \<notin> set (qs r)) \<longrightarrow> tasks s' y = tasks s y)"
proof -
  have n: "n \<in> set (qs m)" using m by (simp add: n_def)
  have rm: "remove1 n (qs m) = tl (qs m)" using m by (cases "qs m") (auto simp: n_def)
  from scheduler_dequeue_spec [OF rep n] rm obtain s1 where
    s1: "scheduler_dequeue n s = Inr s1" "only_queues s s1" "represents s1 (qs(m := tl (qs m)))"
      "t_next (tasks s1 n) = 0" "t_prev (tasks s1 n) = 0" "\<And>y. \<forall>r. y \<notin> set (qs r) \<Longrightarrow> tasks s1 y = tasks s y" by auto
  have n0: "n \<noteq> 0" using represents_priority(3) [OF rep n] .
  have "distinct (qs m)" using rep by (simp add: represents_def queue_ok_def)
  then have "n \<notin> set (tl (qs m))" using m by (cases "qs m") (auto simp: n_def)
  moreover have "n \<notin> set (qs p)" if "p \<noteq> m" for p using that queues_disjoint [OF rep n] by blast
  ultimately have out: "\<forall>p. n \<notin> set ((qs(m := tl (qs m))) p)" by simp
  let ?s' = "s1\<lparr>tasks := (tasks s1)(n := (tasks s1 n)\<lparr>t_state := TASK_STATE_RUNNING\<rparr>)\<rparr>"
  have "only_queues (s\<lparr>tasks := (tasks s)(n := (tasks s n)\<lparr>t_state := TASK_STATE_RUNNING\<rparr>)\<rparr>) ?s'"
  proof -
    have "strip_links ((tasks s1 n)\<lparr>t_state := TASK_STATE_RUNNING\<rparr>) = (strip_links (tasks s1 n))\<lparr>t_state := TASK_STATE_RUNNING\<rparr>"
      "strip_links ((tasks s n)\<lparr>t_state := TASK_STATE_RUNNING\<rparr>) = (strip_links (tasks s n))\<lparr>t_state := TASK_STATE_RUNNING\<rparr>"
      by (simp_all add: strip_links_def)
    then show ?thesis using s1(2) by (simp add: only_queues_def)
  qed
  moreover have "represents ?s' (qs(m := tl (qs m)))" using unlinked_upd [OF s1(3) out] .
  moreover have "tasks ?s' y = tasks s y" if "\<forall>r. y \<notin> set (qs r)" for y
    using s1(6) [OF that] that n by auto
  ultimately show ?thesis
    using s1 n0 out by (intro exI [of _ ?s']) (simp add: store_task_def)
qed

lemma requeue_current:
  assumes "represents s qs" and "c \<noteq> 0" and "\<forall>p. c \<notin> set (qs p)"
  shows "\<exists>s'. (if t_state (tasks s c) = TASK_STATE_READY then scheduler_enqueue c s else Inr s) = Inr s' \<and>
    only_queues s s' \<and>
    represents s' (if t_state (tasks s c) = TASK_STATE_READY
      then qs(task_prio s c := qs (task_prio s c) @ [c]) else qs) \<and>
    (\<forall>y. y \<noteq> c \<and> (\<forall>r. y \<notin> set (qs r)) \<longrightarrow> tasks s' y = tasks s y)"
  using scheduler_enqueue_spec [OF assms(1,2)] assms by auto

text \<open>What a task holds after the exchange, apart from its links.\<close>

definition exchanged :: "addr \<Rightarrow> addr \<Rightarrow> addr \<Rightarrow> task \<Rightarrow> task" where
  "exchanged c n y t =
     (if y = n then t\<lparr>t_state := TASK_STATE_RUNNING\<rparr>
      else if y = c then t\<lparr>t_state := parked (t_state t)\<rparr> else t)"

lemma exchange_tasks_spec:
  assumes inv: "sched_inv s qs" and m: "qs m \<noteq> []"
  defines "c \<equiv> current_task (g_scheduler s)" and "n \<equiv> hd (qs m)"
  defines "qs' \<equiv> switch_queues qs m (parked (t_state (tasks s c)) = TASK_STATE_READY) (task_prio s c) c"
  shows "\<exists>s'. exchange_tasks c n s = Inr s' \<and> n \<noteq> c \<and> n \<noteq> 0 \<and> represents s' qs' \<and> (\<forall>p. n \<notin> set (qs' p)) \<and>
    t_next (tasks s' n) = 0 \<and> t_prev (tasks s' n) = 0 \<and>
    only_queues (s\<lparr>tasks := \<lambda>y. exchanged c n y (tasks s y)\<rparr>) s'"
proof -
  define tc where "tc = (tasks s c)\<lparr>t_state := parked (t_state (tasks s c))\<rparr>"
  have tc: "t_priority tc = task_prio s c" "t_state tc = parked (t_state (tasks s c))" by (simp_all add: tc_def)
  define s1 where "s1 = s\<lparr>tasks := (tasks s)(c := tc)\<rparr>"
  have c: "c \<noteq> 0" "\<forall>p. c \<notin> set (qs p)" "represents s qs"
    using inv by (auto simp: sched_inv_def Let_def c_def)
  have "n \<in> set (qs m)" using m by (simp add: n_def)
  then have nc: "n \<noteq> c" using c(2) by blast
  have rep1: "represents s1 qs" using unlinked_upd [OF c(3,2)] by (simp add: s1_def)
  from start_next [OF rep1 m(1), folded n_def] obtain sd s2 where
    s2: "scheduler_dequeue n s1 = Inr sd" "store_task n (\<lambda>t. t\<lparr>t_state := TASK_STATE_RUNNING\<rparr>) sd = Inr s2"
      "represents s2 (qs(m := tl (qs m)))"
      "only_queues (s1\<lparr>tasks := (tasks s1)(n := (tasks s1 n)\<lparr>t_state := TASK_STATE_RUNNING\<rparr>)\<rparr>) s2"
      "t_next (tasks s2 n) = 0" "t_prev (tasks s2 n) = 0" "n \<noteq> 0" "\<forall>p. n \<notin> set ((qs(m := tl (qs m))) p)"
      "\<And>y. \<forall>r. y \<notin> set (qs r) \<Longrightarrow> tasks s2 y = tasks s1 y"
    by (auto simp: andthen_eq_Inr)
  have c2: "tasks s2 c = tc" using s2(9) c(2) by (simp add: s1_def)
  have "set (tl (qs m)) \<subseteq> set (qs m)" by (cases "qs m") auto
  then have cout: "\<forall>p. c \<notin> set ((qs(m := tl (qs m))) p)" using c(2) by auto
  from requeue_current [OF s2(3) c(1) cout] obtain s3 where
    s3: "(if t_state (tasks s2 c) = TASK_STATE_READY then scheduler_enqueue c s2 else Inr s2) = Inr s3"
      "only_queues s2 s3" "represents s3 qs'"
      "\<And>y. y \<noteq> c \<Longrightarrow> \<forall>r. y \<notin> set ((qs(m := tl (qs m))) r) \<Longrightarrow> tasks s3 y = tasks s2 y"
    unfolding switch_queues_def Let_def c2 qs'_def tc(1) tc(2) [symmetric] by blast
  have "s1\<lparr>tasks := (tasks s1)(n := (tasks s1 n)\<lparr>t_state := TASK_STATE_RUNNING\<rparr>)\<rparr> =
      s\<lparr>tasks := \<lambda>y. exchanged c n y (tasks s y)\<rparr>"
    using nc by (auto simp: s1_def exchanged_def tc_def fun_eq_iff)
  then have "only_queues (s\<lparr>tasks := \<lambda>y. exchanged c n y (tasks s y)\<rparr>) s3"
    using only_queues_trans [OF s2(4) s3(2)] by simp
  moreover have "tasks s3 n = tasks s2 n" using s3(4) nc s2(8) by simp
  moreover have "n \<notin> set (qs' p)" for p
    using s2(8) [rule_format, of p] nc by (auto simp: qs'_def switch_queues_def Let_def split: if_splits)
  moreover have "exchange_tasks c n s = Inr s3"
    unfolding exchange_tasks_def load_task_def if_not_P [OF c(1)] andthen_Inr
      park_current [OF inv, folded c_def] tc_def [symmetric]
    unfolding s1_def [symmetric] s2(1) andthen_Inr s2(2) s3(1) ..
  ultimately show ?thesis using s2(5-7) s3(3) nc by auto
qed

text \<open>The whole of \<^verbatim>\<open>schedule\<close> when some queue is not empty.\<close>

lemma schedule_switch:
  fixes s :: "'z sched_st_scheme"
  assumes inv: "sched_inv s qs" and m: "qs m \<noteq> []" "\<forall>r > m. qs r = []"
  defines "c \<equiv> current_task (g_scheduler s)" and "n \<equiv> hd (qs m)"
    and "r0 \<equiv> (regs s)\<lparr>ctx_eflags := ctx_eflags (regs s) AND NOT IF_FLAG\<rparr>"
  defines "qs' \<equiv> switch_queues qs m (parked (t_state (tasks s c)) = TASK_STATE_READY) (task_prio s c) c"
  shows "\<exists>s'. schedule s = Inr (SwitchTo n, s') \<and> n \<noteq> c \<and> n \<noteq> 0 \<and> represents s' qs' \<and> (\<forall>p. n \<notin> set (qs' p)) \<and>
    t_next (tasks s' n) = 0 \<and> t_prev (tasks s' n) = 0 \<and>
    (\<forall>y. strip_links (tasks s' y) = strip_links ((exchanged c n y (tasks s y))
       \<lparr>t_context := if y = c then save_context r0 else t_context (tasks s y)\<rparr>)) \<and>
    current_task (g_scheduler s') = n \<and> \<not> need_resched (g_scheduler s') \<and>
    context_switches (g_scheduler s') = context_switches (g_scheduler s) + 1 \<and>
    idle_task s' = idle_task s \<and> regs s' = load_context (t_context (tasks s n)) r0 \<and>
    tss s' = (if t_kernel_stack (tasks s n) \<noteq> 0 \<and> t_kernel_stack_size (tasks s n) > 0
      then (tss s)\<lparr>tss_esp0 := t_kernel_stack (tasks s n) + t_kernel_stack_size (tasks s n)\<rparr> else tss s)"
proof -
  define s0 where "s0 = s\<lparr>regs := r0\<rparr>"
  have inv0: "sched_inv s0 qs"
    using inv by (auto simp: sched_inv_def Let_def s0_def intro: represents_cong)
  have c0: "current_task (g_scheduler s0) = c" "tasks s0 = tasks s" "c \<noteq> 0"
    using inv by (auto simp: s0_def c_def sched_inv_def Let_def)
  have pick: "scheduler_pick_next s0 = n"
    using scheduler_pick_next_spec(1) [OF _ m, of s0] inv0 by (simp add: n_def sched_inv_def)
  from exchange_tasks_spec [OF inv0 m(1)] obtain s3 where
    s3: "exchange_tasks c n s0 = Inr s3" "n \<noteq> c" "n \<noteq> 0" "represents s3 qs'" "\<forall>p. n \<notin> set (qs' p)"
      "t_next (tasks s3 n) = 0" "t_prev (tasks s3 n) = 0"
      "only_queues (s0\<lparr>tasks := \<lambda>y. exchanged c n y (tasks s y)\<rparr>) s3"
    unfolding c0 n_def [symmetric] qs'_def [symmetric] by auto
  note same = only_queuesD [OF s3(8), simplified]
  have tn: "t_kernel_stack (tasks s3 n) = t_kernel_stack (tasks s n)"
    "t_kernel_stack_size (tasks s3 n) = t_kernel_stack_size (tasks s n)"
    "t_context (tasks s3 n) = t_context (tasks s n)"
    using strip_linksD [OF same(1) [of n]] by (simp_all add: exchanged_def)
  define s5 where "s5 = (let s4 = upd_sched (\<lambda>g. g\<lparr>current_task := n, context_switches := context_switches g + 1,
        need_resched := False\<rparr>) s3 in
      if t_kernel_stack (tasks s n) \<noteq> 0 \<and> t_kernel_stack_size (tasks s n) > 0
      then gdt_set_kernel_stack (t_kernel_stack (tasks s n) + t_kernel_stack_size (tasks s n)) s4 else s4)"
  define s' where "s' = s5\<lparr>tasks := (tasks s3)(c := (tasks s3 c)\<lparr>t_context := save_context r0\<rparr>),
      regs := load_context (t_context (tasks s n)) r0\<rparr>"
  have s5: "tasks s5 = tasks s3" "regs s5 = r0" "idle_task s5 = idle_task s"
    "g_scheduler s5 = (g_scheduler s3)\<lparr>current_task := n, context_switches := context_switches (g_scheduler s) + 1,
      need_resched := False\<rparr>"
    "tss s5 = (if t_kernel_stack (tasks s n) \<noteq> 0 \<and> t_kernel_stack_size (tasks s n) > 0
      then (tss s)\<lparr>tss_esp0 := t_kernel_stack (tasks s n) + t_kernel_stack_size (tasks s n)\<rparr> else tss s)"
    using same(3,6-8) by (simp_all add: s5_def Let_def upd_sched_def gdt_set_kernel_stack_def s0_def)
  have sw: "context_switch c n s5 = Inr s'"
    using c0(3) s3(2,3) tn(3) s5 by (simp add: context_switch_def store_task_def load_task_def s'_def)
  have "irq_disable s = (ctx_eflags (regs s), s0)" by (simp add: irq_disable_def s0_def r0_def)
  then have sched: "schedule s = Inr (SwitchTo n, s')"
    using c0(1) pick s3(1,2) sw tn by (auto simp: schedule_def Let_def s5_def upd_sched_def split: if_splits)
  have rep: "represents s' qs'"
    by (rule represents_cong [OF s3(4)]) (simp_all add: s'_def s5)
  have strip: "strip_links (tasks s' y) = strip_links ((exchanged c n y (tasks s y))
      \<lparr>t_context := if y = c then save_context r0 else t_context (tasks s y)\<rparr>)" for y
    using same(1) [of y] by (auto simp: s'_def strip_links_upd_context strip_links_same_context exchanged_def)
  show ?thesis
    using sched rep s3(2,3,5-7) strip s5 by (intro exI [of _ s']) (simp add: s'_def)
qed

lemma switch_queues_keeps:
  assumes "x \<in> set (qs p)" and "x \<noteq> hd (qs m)"
  shows "x \<in> set (switch_queues qs m keep r c p)"
proof -
  have "x \<in> set (tl (qs m))" if "p = m" using assms that by (cases "qs m") auto
  then show ?thesis using assms(1) by (auto simp: switch_queues_def Let_def)
qed

lemma schedule_switch_inv:
  fixes s :: "'z sched_st_scheme"
  assumes inv: "sched_inv s qs" and m: "qs m \<noteq> []" "\<forall>r > m. qs r = []"
  defines "c \<equiv> current_task (g_scheduler s)"
  defines "qs' \<equiv> switch_queues qs m (parked (t_state (tasks s c)) = TASK_STATE_READY) (task_prio s c) c"
  shows "schedule s = Inr (w, s') \<Longrightarrow> sched_inv s' qs'"
proof -
  assume sch: "schedule s = Inr (w, s')"
  define n where "n = hd (qs m)"
  from schedule_switch [OF inv m] sch have
    s': "n \<noteq> c" "n \<noteq> 0" "represents s' qs'" "\<forall>p. n \<notin> set (qs' p)" "t_next (tasks s' n) = 0" "t_prev (tasks s' n) = 0"
      "current_task (g_scheduler s') = n" "idle_task s' = idle_task s"
    and strip: "\<And>y. strip_links (tasks s' y) = strip_links ((exchanged c n y (tasks s y))
       \<lparr>t_context := if y = c then save_context ((regs s)\<lparr>ctx_eflags := ctx_eflags (regs s) AND NOT IF_FLAG\<rparr>)
          else t_context (tasks s y)\<rparr>)"
    by (auto simp: c_def n_def qs'_def)
  define i where "i = idle_task s"
  have i: "i \<noteq> 0" "t_priority (tasks s i) = 0" "i \<in> set (qs 0) \<or> c = i" "c = i \<Longrightarrow> t_state (tasks s i) = TASK_STATE_RUNNING"
    using inv by (auto simp: sched_inv_def Let_def c_def i_def)
  have "t_priority (tasks s' i) = 0" using strip_linksD(9) [OF strip [of i]] i(2) by (auto simp: exchanged_def split: if_splits)
  moreover have "i \<in> set (qs' 0) \<or> n = i"
  proof (cases "c = i")
    case True
    then have "qs' = switch_queues qs m True 0 i" using i by (simp add: qs'_def parked_def)
    then show ?thesis by (simp add: switch_queues_def Let_def)
  next
    case False
    then show ?thesis using i(3) switch_queues_keeps [of i qs 0 m] by (auto simp: qs'_def n_def)
  qed
  moreover have "t_state (tasks s' n) = TASK_STATE_RUNNING"
    using strip_linksD(3) [OF strip [of n]] by (simp add: exchanged_def)
  ultimately show ?thesis
    using s' i by (auto simp: sched_inv_def Let_def i_def)
qed

lemma schedule_stay:
  assumes "sched_inv s qs" and "\<forall>p. qs p = []"
  shows "schedule s = Inr (Stay, upd_sched (\<lambda>g. g\<lparr>need_resched := False\<rparr>) s)"
proof -
  define s0 where "s0 = s\<lparr>regs := (regs s)\<lparr>ctx_eflags := ctx_eflags (regs s) AND NOT IF_FLAG\<rparr>\<rparr>"
  have "represents s0 qs" using assms(1) by (auto simp: sched_inv_def s0_def intro: represents_cong)
  from scheduler_pick_next_spec(2) [OF this assms(2)] have "scheduler_pick_next s0 = idle_task s"
    by (simp add: s0_def)
  moreover have "current_task (g_scheduler s) = idle_task s" using assms by (auto simp: sched_inv_def Let_def)
  ultimately show ?thesis
    by (simp add: schedule_def irq_disable_def s0_def [symmetric] Let_def)
      (simp add: s0_def irq_restore_def upd_sched_def)
qed

lemma sched_inv_upd_flag [simp]: "sched_inv (upd_sched (\<lambda>g. g\<lparr>need_resched := b\<rparr>) s) qs = sched_inv s qs"
proof -
  have "represents (upd_sched (\<lambda>g. g\<lparr>need_resched := b\<rparr>) s) qs = represents s qs"
    by (simp add: represents_def upd_sched_def)
  then show ?thesis by (simp add: sched_inv_def upd_sched_def)
qed

text \<open>\<^verbatim>\<open>schedule\<close> never faults and keeps the invariant.\<close>

lemma schedule_total:
  assumes "sched_inv s qs"
  obtains w s' qs' where "schedule s = Inr (w, s')" "sched_inv s' qs'"
proof (cases "\<forall>p. qs p = []")
  case True
  with schedule_stay [OF assms] assms that show thesis by force
next
  case False
  then obtain m where "qs m \<noteq> []" "\<forall>r > m. qs r = []" using highest_nonempty by metis
  with schedule_switch [OF assms this] schedule_switch_inv [OF assms this] that show thesis by metis
qed

lemma scheduler_tick_spec:
  assumes "sched_inv s qs"
  defines "c \<equiv> current_task (g_scheduler s)"
  shows "\<exists>s'. scheduler_tick s = Inr (\<exists>p \<ge> task_prio s c. qs p \<noteq> [], s') \<and> sched_inv s' qs \<and>
    sched_ticks (g_scheduler s') = sched_ticks (g_scheduler s) + 1 \<and>
    tasks s' = (tasks s)(c := (tasks s c)\<lparr>t_cpu_time_ticks := t_cpu_time_ticks (tasks s c) + 1\<rparr>) \<and>
    need_resched (g_scheduler s') = (need_resched (g_scheduler s) \<or> (\<exists>p \<ge> task_prio s c. qs p \<noteq> [])) \<and>
    current_task (g_scheduler s') = c \<and> idle_task s' = idle_task s"
proof -
  have c: "c \<noteq> 0" "represents s qs" using assms by (auto simp: sched_inv_def Let_def)
  define s1 where "s1 = s\<lparr>g_scheduler := (g_scheduler s)\<lparr>sched_ticks := sched_ticks (g_scheduler s) + 1\<rparr>,
    tasks := (tasks s)(c := (tasks s c)\<lparr>t_cpu_time_ticks := t_cpu_time_ticks (tasks s c) + 1\<rparr>)\<rparr>"
  have rep1: "represents s1 qs" by (rule represents_cong [OF c(2)]) (simp_all add: s1_def)
  have inv1: "sched_inv s1 qs" using assms(1) rep1 by (auto simp: sched_inv_def Let_def s1_def)
  define p where "p = task_prio s c"
  have "queue_ok (tasks s1) (ready (g_scheduler s1) p) p (qs p)" using rep1 by (simp add: represents_def)
  from queue_count_0 [OF this] have cnt: "q_count (ready (g_scheduler s1) p) > 0 \<longleftrightarrow> qs p \<noteq> []"
    by (simp add: word_neq_0_conv [symmetric])
  have fh: "find_highest_priority s1 > p \<longleftrightarrow> (\<exists>r > p. qs r \<noteq> [])"
    unfolding scheduler_pick_next_spec(3) [OF rep1] by (auto simp: Max_gr_iff)
  have eq: "(find_highest_priority s1 > p \<or> q_count (ready (g_scheduler s1) p) > 0) = (\<exists>r \<ge> p. qs r \<noteq> [])"
    unfolding cnt fh by (metis order.order_iff_strict)
  have "scheduler_tick s = (if find_highest_priority s1 > p \<or> q_count (ready (g_scheduler s1) p) > 0
      then Inr (True, upd_sched (\<lambda>g. g\<lparr>need_resched := True\<rparr>) s1) else Inr (False, s1))"
    using c(1) by (simp add: scheduler_tick_def Let_def upd_sched_def store_task_def load_task_def c_def [symmetric]
        s1_def [symmetric] p_def) (simp add: s1_def)
  moreover define s2 where "s2 = (if \<exists>r \<ge> p. qs r \<noteq> [] then upd_sched (\<lambda>g. g\<lparr>need_resched := True\<rparr>) s1 else s1)"
  ultimately have "scheduler_tick s = Inr (\<exists>r \<ge> p. qs r \<noteq> [], s2)"
    unfolding eq by (cases "\<exists>r \<ge> p. qs r \<noteq> []") (simp_all only: if_True if_False)
  moreover have "sched_inv s2 qs" using inv1 by (simp add: s2_def)
  moreover have "sched_ticks (g_scheduler s2) = sched_ticks (g_scheduler s) + 1" "tasks s2 = tasks s1"
    "need_resched (g_scheduler s2) = (need_resched (g_scheduler s) \<or> (\<exists>r \<ge> p. qs r \<noteq> []))"
    "current_task (g_scheduler s2) = c" "idle_task s2 = idle_task s"
    by (auto simp: s2_def upd_sched_def s1_def c_def)
  ultimately show ?thesis unfolding p_def [symmetric] by (auto simp: s1_def)
qed


section \<open>Properties\<close>

text \<open>
  A sample state: the idle task at 0x1000 is running, the task at 0x2000 waits
  with priority 7; and the same state with empty queues.
\<close>

definition sample_tasks :: "addr \<Rightarrow> task" where
  "sample_tasks = (\<lambda>_. zero_task)(0x1000 := zero_task\<lparr>t_name := ''idle'', t_state := TASK_STATE_RUNNING\<rparr>,
     0x2000 := zero_task\<lparr>t_id := 1, t_priority := 7, t_kernel_stack := 0x3000, t_kernel_stack_size := 4096\<rparr>)"

definition sample_cpu :: cpu_st where
  "sample_cpu = mmu_st.extend sample_mmu (cpu_st.fields zero_context (\<lambda>_. encode_gdt_descriptor 0 0 0 0)
     \<lparr>gdt_limit = 0, gdt_base = 0\<rparr> zero_tss \<lparr>gdt_limit = 0, gdt_base = 0\<rparr> 0)"

definition sample_sched0 :: sched_st where
  "sample_sched0 = cpu_st.extend sample_cpu
     (sched_st.fields sample_tasks (zero_scheduler\<lparr>current_task := 0x1000\<rparr>) 0x1000 2)"

definition sample_sched :: sched_st where
  "sample_sched = sample_sched0\<lparr>g_scheduler := zero_scheduler\<lparr>current_task := 0x1000,
     ready := (ready zero_scheduler)(7 := \<lparr>q_head = 0x2000, q_tail = 0x2000, q_count = 1\<rparr>),
     priority_bitmap := set_priority_bit 7 (\<lambda>_. 0)\<rparr>\<rparr>"

lemma sample_sched_fields:
  "tasks sample_sched0 = sample_tasks" "idle_task sample_sched0 = 0x1000"
  "g_scheduler sample_sched0 = zero_scheduler\<lparr>current_task := 0x1000\<rparr>"
  "tasks sample_sched = sample_tasks" "idle_task sample_sched = 0x1000"
  by (simp_all add: sample_sched_def sample_sched0_def cpu_st.defs sched_st.defs)

lemma sample_sched0_represents: "represents sample_sched0 (\<lambda>_. [])"
  by (simp add: represents_def queue_ok_def sample_sched_fields zero_scheduler_def prio_test_def)

lemma sample_sched_inv: "sched_inv sample_sched ((\<lambda>_. [])(7 := [0x2000]))"
proof -
  have "represents sample_sched ((\<lambda>_. [])(7 := [0x2000]))"
    by (simp add: represents_def queue_ok_def sample_sched_fields priority_bits.test_set_at)
      (simp add: sample_sched_def zero_scheduler_def sample_tasks_def zero_task_def priority_bits.test_set_at
        prio_test_def [of "\<lambda>_. 0"])
  then show ?thesis
    by (simp add: sched_inv_def Let_def sample_sched_fields)
      (simp add: sample_sched_def sample_tasks_def zero_task_def)
qed

text \<open>
  C16: the word scan with leading-zero counts finds the highest priority whose bit
  is set, for every bitmap, and priority 0 if no bit is set.
\<close>

theorem find_highest_priority_correct:
  "find_highest_priority s =
     (let B = {p. prio_test (priority_bitmap (g_scheduler s)) p} in if B = {} then 0 else Max B)"
  by (simp add: find_highest_priority_Max Let_def)

text \<open>
  C6: ready tasks enqueued into empty queues are handed out, by picking and dequeuing
  as often, in order of falling priority and first-in first-out within a
  priority; no task is lost or handed out twice, and no pointer that is
  followed is null.
\<close>

theorem scheduler_priority_fifo:
  assumes "represents s (\<lambda>_. [])" and "distinct xs"
    and "\<forall>x \<in> set xs. x \<noteq> 0 \<and> t_state (tasks s x) = TASK_STATE_READY"
  shows "\<exists>s1 s2. enqueue_all scheduler_enqueue xs s = Inr s1 \<and>
    take_next scheduler_pick_next scheduler_dequeue (length xs) s1 =
      Inr (concat (map (\<lambda>p. filter (\<lambda>x. t_priority (tasks s x) = of_nat p) xs) (rev [0..<256])), s2)"
  using rq.priority_fifo [OF assms] unfolding dispatch_order_def by blast

theorem scheduler_priority_fifo_witness:
  "\<exists>s1 s2 order. enqueue_all scheduler_enqueue [0x2000, 0x4000] sample_sched0 = Inr s1 \<and>
     take_next scheduler_pick_next scheduler_dequeue 2 s1 = Inr (order, s2)"
proof -
  have "\<forall>x \<in> set [0x2000, 0x4000]. x \<noteq> 0 \<and> t_state (tasks sample_sched0 x) = TASK_STATE_READY"
    by (simp add: sample_sched_fields sample_tasks_def zero_task_def)
  moreover have "distinct [0x2000, 0x4000 :: addr]" "length [0x2000, 0x4000 :: addr] = 2" by simp_all
  ultimately show ?thesis using scheduler_priority_fifo [OF sample_sched0_represents] by metis
qed



text \<open>
  a timer tick never faults, charges exactly the running task and asks for
  rescheduling exactly when a task of the same or a higher priority is ready;
  it leaves queues and invariant as they are.
\<close>

theorem scheduler_tick_correct:
  assumes "sched_inv s qs" and "c = current_task (g_scheduler s)"
  shows "\<exists>s'. scheduler_tick s = Inr (\<exists>p \<ge> t_priority (tasks s c). qs p \<noteq> [], s') \<and> sched_inv s' qs \<and>
    sched_ticks (g_scheduler s') = sched_ticks (g_scheduler s) + 1 \<and>
    tasks s' = (tasks s)(c := (tasks s c)\<lparr>t_cpu_time_ticks := t_cpu_time_ticks (tasks s c) + 1\<rparr>) \<and>
    need_resched (g_scheduler s') = (need_resched (g_scheduler s) \<or> (\<exists>p \<ge> t_priority (tasks s c). qs p \<noteq> []))"
  using scheduler_tick_spec [OF assms(1), folded assms(2)] by blast

theorem scheduler_tick_correct_witness:
  "\<exists>s'. scheduler_tick sample_sched = Inr (True, s') \<and> need_resched (g_scheduler s')"
proof -
  have "current_task (g_scheduler sample_sched) = 0x1000" by (simp add: sample_sched_def)
  moreover have "\<exists>p \<ge> t_priority (tasks sample_sched 0x1000). ((\<lambda>_. [])(7 := [0x2000 :: addr])) p \<noteq> []"
    by (rule exI [of _ 7]) (simp add: sample_sched_fields sample_tasks_def zero_task_def)
  ultimately show ?thesis
    using scheduler_tick_correct [OF sample_sched_inv, of "0x1000"] by (simp only: refl) fastforce
qed

text \<open>
  A running task that calls \<^verbatim>\<open>schedule\<close> gives way even to tasks of lower
  priority: whenever any queue is not empty, the task switched to is the best
  queued one, although the current task outranks it and is still runnable.
\<close>

theorem schedule_yields_to_lower_priority:
  assumes "sched_inv s qs" and "c = current_task (g_scheduler s)"
    and "t_state (tasks s c) = TASK_STATE_RUNNING"
    and "qs m \<noteq> []" and "\<forall>r. qs r \<noteq> [] \<longrightarrow> r < t_priority (tasks s c)"
  shows "\<exists>n s'. schedule s = Inr (SwitchTo n, s') \<and> t_priority (tasks s n) < t_priority (tasks s c) \<and>
    t_state (tasks s' c) = TASK_STATE_READY"
proof -
  obtain k where k: "qs k \<noteq> []" "\<forall>r > k. qs r = []" using assms(4) by (rule highest_nonempty)
  have "t_priority (tasks s (hd (qs k))) = k"
    using represents_priority(1) [of s qs "hd (qs k)" k] assms(1) k(1) by (simp add: sched_inv_def)
  moreover from schedule_switch [OF assms(1) k, folded assms(2)] obtain s' where
    "schedule s = Inr (SwitchTo (hd (qs k)), s')" "hd (qs k) \<noteq> c"
    and strip: "\<And>y. strip_links (tasks s' y) = strip_links ((exchanged c (hd (qs k)) y (tasks s y))
       \<lparr>t_context := if y = c then save_context ((regs s)\<lparr>ctx_eflags := ctx_eflags (regs s) AND NOT IF_FLAG\<rparr>)
          else t_context (tasks s y)\<rparr>)" by blast
  ultimately show ?thesis
    using strip_linksD(3) [OF strip [of c]] assms(3,5) k(1) by (auto simp: exchanged_def parked_def)
qed

text \<open>The sample state with the two tasks exchanged: priority 7 runs, the idle task waits.\<close>

definition sample_busy :: sched_st where
  "sample_busy = sample_sched0\<lparr>
     tasks := sample_tasks(0x1000 := (sample_tasks 0x1000)\<lparr>t_state := TASK_STATE_READY\<rparr>,
       0x2000 := (sample_tasks 0x2000)\<lparr>t_state := TASK_STATE_RUNNING\<rparr>),
     g_scheduler := zero_scheduler\<lparr>current_task := 0x2000,
       ready := (ready zero_scheduler)(0 := \<lparr>q_head = 0x1000, q_tail = 0x1000, q_count = 1\<rparr>),
       priority_bitmap := set_priority_bit 0 (\<lambda>_. 0)\<rparr>\<rparr>"

lemma sample_busy_inv: "sched_inv sample_busy ((\<lambda>_. [])(0 := [0x1000]))"
proof -
  have "represents sample_busy ((\<lambda>_. [])(0 := [0x1000]))"
    by (simp add: represents_def queue_ok_def sample_busy_def zero_scheduler_def sample_tasks_def zero_task_def
        priority_bits.test_set_at prio_test_def [of "\<lambda>_. 0"])
  then show ?thesis
    by (simp add: sched_inv_def Let_def sample_busy_def sample_sched_fields sample_tasks_def zero_task_def)
qed

theorem schedule_yields_to_lower_priority_witness:
  "\<exists>n s'. schedule sample_busy = Inr (SwitchTo n, s') \<and>
     t_priority (tasks sample_busy n) < t_priority (tasks sample_busy 0x2000)"
proof -
  have "t_state (tasks sample_busy 0x2000) = TASK_STATE_RUNNING" "t_priority (tasks sample_busy 0x2000) = 7"
    "current_task (g_scheduler sample_busy) = 0x2000"
    by (simp_all add: sample_busy_def sample_tasks_def)
  moreover have "\<forall>r. ((\<lambda>_. [])(0 := [0x1000 :: addr])) r \<noteq> [] \<longrightarrow> r < (7 :: u8)" by simp
  ultimately show ?thesis
    using schedule_yields_to_lower_priority [OF sample_busy_inv, of "0x2000" 0] by auto
qed

end
