(* ===== verification/Task.thy ===== *)
theory Task
  imports Scheduler
begin

text \<open>
  The task subsystem, \<^verbatim>\<open>core/task.c\<close>: allocation of task structures and kernel
  stacks from the physical memory manager, the initial stack and register
  contents of a thread, destruction, exit and yield. A step relation puts the
  operations together with timer ticks; its invariant shows that the kernel's
  tasks, queues and pages stay consistent however the steps are ordered.
\<close>

section \<open>Operations\<close>

text \<open>\<^verbatim>\<open>strlcpy\<close> into \<^verbatim>\<open>name[32]\<close> keeps 31 characters.\<close>

definition set_name :: "string \<Rightarrow> task \<Rightarrow> task" where
  "set_name nm t = t\<lparr>t_name := take 31 nm\<rparr>"

definition store_word :: "addr \<Rightarrow> u32 \<Rightarrow> 'z mmu_st_scheme \<Rightarrow> 'z mmu_st_scheme" where
  "store_word a v s = s\<lparr>memory := write32 a v (memory s)\<rparr>"

definition kernel_context :: "u32 \<Rightarrow> addr \<Rightarrow> cpu_context" where
  "kernel_context sp entry = zero_context\<lparr>ctx_esp := sp, ctx_ebp := sp, ctx_eip := entry, ctx_cs := 0x08,
     ctx_ss := 0x10, ctx_ds := 0x10, ctx_es := 0x10, ctx_fs := 0x10, ctx_gs := 0x10, ctx_eflags := 0x202\<rparr>"

text \<open>\<^verbatim>\<open>memset\<close> of the structure and the post-increment of \<^verbatim>\<open>next_task_id\<close>, which wraps.\<close>

definition fresh_task :: "addr \<Rightarrow> 'z sched_st_scheme \<Rightarrow> 'z sched_st_scheme" where
  "fresh_task p s = s\<lparr>tasks := (tasks s)(p := zero_task\<lparr>t_id := next_task_id s\<rparr>),
     next_task_id := next_task_id s + 1\<rparr>"

definition task_alloc :: "'z sched_st_scheme \<Rightarrow> fault + addr \<times> 'z sched_st_scheme" where
  "task_alloc s =
     andthen (pmm_alloc_page s) (\<lambda>(task, s).
     if task = 0 then Inr (0, s) else Inr (task, fresh_task task s))"

text \<open>The address of \<^verbatim>\<open>idle_thread_entry\<close> is chosen by the linker: a parameter.\<close>

definition task_init :: "addr \<Rightarrow> 'z sched_st_scheme \<Rightarrow> fault + 'z sched_st_scheme" where
  "task_init idle_thread_entry s =
     andthen (pmm_alloc_page s) (\<lambda>(idle, s).
     let s = s\<lparr>idle_task := idle\<rparr> in
     if idle = 0 then Inr s
     else
       let t = (set_name ''idle'' (zero_task\<lparr>t_id := 0\<rparr>))\<lparr>t_state := TASK_STATE_READY, t_priority := SCHED_IDLE_PRIORITY,
                 t_address_space := mmu_get_kernel_address_space s, t_kernel_stack_size := 4096\<rparr>;
           s = s\<lparr>tasks := (tasks s)(idle := t)\<rparr> in
       andthen (pmm_alloc_page s) (\<lambda>(stack, s).
       let s = s\<lparr>tasks := (tasks s)(idle := (tasks s idle)\<lparr>t_kernel_stack := stack\<rparr>)\<rparr> in
       if stack = 0 then Inr s
       else
         let sp = stack + 4096;
             sp = sp - 4;
             s = store_word sp 0 s;
             sp = sp - 4;
             s = store_word sp 0 s
         in Inr (s\<lparr>tasks := (tasks s)(idle := (tasks s idle)\<lparr>t_context := kernel_context sp idle_thread_entry\<rparr>)\<rparr>)))"

definition task_current :: "'z sched_st_scheme \<Rightarrow> addr" where
  "task_current s = scheduler_current s"

text \<open>
  One turn of the loop of \<^verbatim>\<open>idle_thread_entry\<close>, up to the halt; the address of
  \<^verbatim>\<open>task_wrapper\<close> is a parameter of thread creation.
\<close>

definition idle_thread_turn :: "'z sched_st_scheme \<Rightarrow> 'z sched_st_scheme" where
  "idle_thread_turn s = irq_enable s"

definition task_create_kernel_thread ::
  "addr \<Rightarrow> string \<Rightarrow> addr \<Rightarrow> u32 \<Rightarrow> u8 \<Rightarrow> u32 \<Rightarrow> 'z sched_st_scheme \<Rightarrow> fault + addr \<times> 'z sched_st_scheme" where
  "task_create_kernel_thread task_wrapper nm entry_point arg priority stack_size s =
     (if entry_point = 0 then Inr (0, s)
      else if stack_size \<noteq> 4096 then Inr (0, s)
      else
        andthen (pmm_alloc_page s) (\<lambda>(task, s).
        if task = 0 then Inr (0, s)
        else
          let s = fresh_task task s;
              t = (set_name nm (tasks s task))\<lparr>t_state := TASK_STATE_READY, t_priority := priority,
                    t_address_space := mmu_get_kernel_address_space s, t_kernel_stack_size := stack_size\<rparr>;
              s = s\<lparr>tasks := (tasks s)(task := t)\<rparr> in
          andthen (pmm_alloc_page s) (\<lambda>(stack, s).
          let s = s\<lparr>tasks := (tasks s)(task := (tasks s task)\<lparr>t_kernel_stack := stack\<rparr>)\<rparr> in
          if stack = 0 then andthen (pmm_free_page task s) (\<lambda>s. Inr (0, s))
          else
            let sp = stack + stack_size;
                sp = sp - 8;
                wrapper_args = sp;
                s = store_word wrapper_args entry_point s;
                s = store_word (wrapper_args + 4) arg s;
                sp = sp - 4;
                s = store_word sp wrapper_args s;
                sp = sp - 4;
                s = store_word sp 0 s
            in Inr (task, s\<lparr>tasks := (tasks s)(task := (tasks s task)\<lparr>t_context := kernel_context sp task_wrapper\<rparr>)\<rparr>))))"

definition task_destroy :: "addr \<Rightarrow> 'z sched_st_scheme \<Rightarrow> fault + 'z sched_st_scheme" where
  "task_destroy task s =
     (if task = 0 then Inr s
      else
        andthen
          (if t_kernel_stack (tasks s task) \<noteq> 0 then pmm_free_page (t_kernel_stack (tasks s task)) s else Inr s)
          (pmm_free_page task))"

definition task_exit :: "u32 \<Rightarrow> 'z sched_st_scheme \<Rightarrow> fault + switch \<times> 'z sched_st_scheme" where
  "task_exit exit_code s =
     andthen (store_task (task_current s) (\<lambda>t. t\<lparr>t_state := TASK_STATE_ZOMBIE, t_exit_code := exit_code\<rparr>) s) schedule"

definition task_yield :: "'z sched_st_scheme \<Rightarrow> fault + switch \<times> 'z sched_st_scheme" where
  "task_yield s = schedule s"


section \<open>Thread creation\<close>

lemma pmm_fields_sched_upd [simp, frame_simps]:
  "free_set (s\<lparr>tasks := t\<rparr>) = free_set s" "avail_pages (s\<lparr>tasks := t\<rparr>) = avail_pages s"
  "pmm_inv M (s\<lparr>tasks := t\<rparr>) = pmm_inv M s"
  "free_set (s\<lparr>g_scheduler := g\<rparr>) = free_set s" "avail_pages (s\<lparr>g_scheduler := g\<rparr>) = avail_pages s"
  "pmm_inv M (s\<lparr>g_scheduler := g\<rparr>) = pmm_inv M s"
  "free_set (s\<lparr>next_task_id := k\<rparr>) = free_set s" "avail_pages (s\<lparr>next_task_id := k\<rparr>) = avail_pages s"
  "pmm_inv M (s\<lparr>next_task_id := k\<rparr>) = pmm_inv M s"
  "free_set (s\<lparr>idle_task := i\<rparr>) = free_set s" "avail_pages (s\<lparr>idle_task := i\<rparr>) = avail_pages s"
  "pmm_inv M (s\<lparr>idle_task := i\<rparr>) = pmm_inv M s"
  by (simp_all add: free_set_def bitmap_test_def avail_pages_def pmm_inv_def)

lemma store_word_frame [simp, frame_simps]:
  "free_set (store_word a v s) = free_set s" "avail_pages (store_word a v s) = avail_pages s"
  "pmm_inv M (store_word a v s) = pmm_inv M s"
  "memory (store_word a v s) = write32 a v (memory s)"
  by (simp_all add: store_word_def)

lemma store_word_sched [simp, frame_simps]:
  fixes s :: "'z sched_st_scheme"
  shows "tasks (store_word a v s) = tasks s" "g_scheduler (store_word a v s) = g_scheduler s"
    "idle_task (store_word a v s) = idle_task s" "next_task_id (store_word a v s) = next_task_id s"
  by (simp_all add: store_word_def)

lemma fresh_task_frame [simp, frame_simps]:
  "free_set (fresh_task p s) = free_set s" "avail_pages (fresh_task p s) = avail_pages s"
  "pmm_inv M (fresh_task p s) = pmm_inv M s" "memory (fresh_task p s) = memory s"
  by (simp_all add: fresh_task_def)

lemma more_eq_sched_fields:
  fixes s t :: "'z sched_st_scheme"
  assumes "pmm_st.more s = pmm_st.more t"
  shows "tasks s = tasks t" "g_scheduler s = g_scheduler t" "idle_task s = idle_task t"
    "next_task_id s = next_task_id t" "regs s = regs t"
  using assms by (cases s, cases t, simp)+

lemmas pmm_alloc_page_sched [frame_simps] = more_eq_sched_fields [OF pmm_alloc_page_more]
lemmas pmm_free_page_sched [frame_simps] = more_eq_sched_fields [OF pmm_free_page_more]

text \<open>The four words at the top of a new stack.\<close>

definition push_frame :: "addr \<Rightarrow> u32 \<Rightarrow> u32 \<Rightarrow> mem \<Rightarrow> mem" where
  "push_frame stack entry arg m =
     write32 (stack + 4080) 0 (write32 (stack + 4084) (stack + 4088)
       (write32 (stack + 4092) arg (write32 (stack + 4088) entry m)))"

lemma read_push_frame:
  assumes "page_aligned stack"
  shows "read32 (push_frame stack entry arg m) (stack + 4080) = 0"
    "read32 (push_frame stack entry arg m) (stack + 4084) = stack + 4088"
    "read32 (push_frame stack entry arg m) (stack + 4088) = entry"
    "read32 (push_frame stack entry arg m) (stack + 4092) = arg"
proof -
  have e: "stack + 4080 = entry_addr stack 1020" "stack + 4084 = entry_addr stack 1021"
    "stack + 4088 = entry_addr stack 1022" "stack + 4092 = entry_addr stack 1023"
    by (simp_all add: entry_addr_def)
  show "read32 (push_frame stack entry arg m) (stack + 4080) = 0"
    "read32 (push_frame stack entry arg m) (stack + 4084) = stack + 4088"
    "read32 (push_frame stack entry arg m) (stack + 4088) = entry"
    "read32 (push_frame stack entry arg m) (stack + 4092) = arg"
    unfolding push_frame_def e using assms by (simp_all add: read32_entry)
qed

lemma task_create_no_page:
  assumes "pmm_inv M s" and "entry \<noteq> 0" and "avail_pages s = {}"
  shows "task_create_kernel_thread w nm entry arg pr 4096 s = Inr (0, s)"
  using pmm.alloc_none [OF assms(1,3)] assms(2) by (simp add: task_create_kernel_thread_def)

text \<open>The state in which the second allocation, of the stack, happens.\<close>

definition with_task :: "addr \<Rightarrow> string \<Rightarrow> u8 \<Rightarrow> 'z sched_st_scheme \<Rightarrow> 'z sched_st_scheme" where
  "with_task p nm pr s =
     (let s = fresh_task p s in s\<lparr>tasks := (tasks s)(p := (set_name nm (tasks s p))\<lparr>t_state := TASK_STATE_READY,
        t_priority := pr, t_address_space := mmu_get_kernel_address_space s, t_kernel_stack_size := 4096\<rparr>)\<rparr>)"

lemma with_task_frame [simp, frame_simps]:
  "avail_pages (with_task p nm pr s) = avail_pages s" "pmm_inv M (with_task p nm pr s) = pmm_inv M s"
  "g_scheduler (with_task p nm pr s) = g_scheduler s" "idle_task (with_task p nm pr s) = idle_task s"
  "memory (with_task p nm pr s) = memory s" "y \<noteq> p \<Longrightarrow> tasks (with_task p nm pr s) y = tasks s y"
  by (simp_all add: with_task_def Let_def fresh_task_def)

lemma task_create_unfold:
  assumes "entry \<noteq> 0" and "pmm_alloc_page s = Inr (p, s1)" and "p \<noteq> 0"
    and "pmm_alloc_page (with_task p nm pr s1) = Inr (k, s2)"
  shows "task_create_kernel_thread w nm entry arg pr 4096 s =
    (let s3 = s2\<lparr>tasks := (tasks s2)(p := (tasks s2 p)\<lparr>t_kernel_stack := k\<rparr>)\<rparr> in
     if k = 0 then andthen (pmm_free_page p s3) (\<lambda>s. Inr (0, s))
     else Inr (p, s3\<lparr>memory := push_frame k entry arg (memory s3),
       tasks := (tasks s3)(p := (tasks s3 p)\<lparr>t_context := kernel_context (k + 4080) w\<rparr>)\<rparr>))"
  using assms by (simp add: task_create_kernel_thread_def with_task_def Let_def push_frame_def store_word_def add.commute)

lemma task_create_no_stack:
  assumes inv: "pmm_inv M s" and "entry \<noteq> 0" and av: "avail_pages s = {p}"
  shows "\<exists>s'. task_create_kernel_thread w nm entry arg pr 4096 s = Inr (0, s') \<and> pmm_inv M s' \<and>
    avail_pages s' = avail_pages s \<and> g_scheduler s' = g_scheduler s \<and> idle_task s' = idle_task s \<and>
    (\<forall>y. y \<noteq> p \<longrightarrow> tasks s' y = tasks s y)"
proof -
  from pmm.alloc_total [OF inv] obtain q s1 where a: "pmm_alloc_page s = Inr (q, s1)" by blast
  note al = pmm.alloc_page [OF inv a]
  have q: "q = p" "q \<noteq> 0" using al av by auto
  have inv2: "pmm_inv M (with_task p nm pr s1)" "avail_pages (with_task p nm pr s1) = {}"
    using al(1,5) av q by simp_all
  from pmm.alloc_none [OF this] have k: "pmm_alloc_page (with_task p nm pr s1) = Inr (0, with_task p nm pr s1)" .
  define s3 where "s3 = (with_task p nm pr s1)\<lparr>tasks := (tasks (with_task p nm pr s1))(p := (tasks (with_task p nm pr s1) p)\<lparr>t_kernel_stack := 0\<rparr>)\<rparr>"
  have "pmm_inv M s3" "p \<in> managed_pages M" "p \<notin> avail_pages s3"
    using inv2 al av q by (auto simp: s3_def)
  from pmm.release_ok [OF this] obtain s4 where
    s4: "pmm_free_page p s3 = Inr s4" "avail_pages s4 = insert p (avail_pages s3)" "pmm_inv M s4" by blast
  note f = pmm_free_page_sched [OF s4(1)] and g = pmm_alloc_page_sched [OF a]
  have "task_create_kernel_thread w nm entry arg pr 4096 s = Inr (0, s4)"
    using task_create_unfold [OF assms(2) a q(2), of nm pr 0 "with_task p nm pr s1"] k s4(1) q(1)
    by (simp add: s3_def Let_def)
  with s4 f g inv2 av show ?thesis by (intro exI [of _ s4]) (simp add: s3_def)
qed

lemma task_create_ok:
  assumes inv: "pmm_inv M s" and entry: "entry \<noteq> 0" and av: "2 \<le> card (avail_pages s)"
  shows "\<exists>p k s'. task_create_kernel_thread w nm entry arg pr 4096 s = Inr (p, s') \<and> pmm_inv M s' \<and>
    p \<in> avail_pages s \<and> k \<in> avail_pages s \<and> p \<noteq> k \<and> avail_pages s' = avail_pages s - {p, k} \<and>
    g_scheduler s' = g_scheduler s \<and> idle_task s' = idle_task s \<and> (\<forall>y. y \<noteq> p \<longrightarrow> tasks s' y = tasks s y) \<and>
    tasks s' p = (set_name nm zero_task)\<lparr>t_id := next_task_id s, t_state := TASK_STATE_READY, t_priority := pr,
      t_address_space := kernel_address_space s, t_kernel_stack := k, t_kernel_stack_size := 4096,
      t_context := kernel_context (k + 4080) w\<rparr> \<and>
    memory s' = push_frame k entry arg (memory s)"
proof -
  from pmm.alloc_total [OF inv] obtain p s1 where a: "pmm_alloc_page s = Inr (p, s1)" by blast
  note al = pmm.alloc_page [OF inv a]
  have "avail_pages s \<noteq> {}" using av by auto
  then have p: "p \<noteq> 0" "p \<in> avail_pages s" using al by auto
  have inv2: "pmm_inv M (with_task p nm pr s1)" using al(1) by simp
  from pmm.alloc_total [OF this] obtain k s2 where b: "pmm_alloc_page (with_task p nm pr s1) = Inr (k, s2)" by blast
  note bl = pmm.alloc_page [OF inv2 b]
  have "avail_pages s \<noteq> {p}" using av by auto
  then have "avail_pages (with_task p nm pr s1) \<noteq> {}" using al(5) p(2) by auto
  then have k: "k \<noteq> 0" "k \<in> avail_pages s" "k \<noteq> p" using bl al(5) by auto
  note f = pmm_alloc_page_sched [OF b] pmm_alloc_page_mmu [OF b] and g = pmm_alloc_page_sched [OF a] pmm_alloc_page_mmu [OF a]
  define s3 where "s3 = s2\<lparr>tasks := (tasks s2)(p := (tasks s2 p)\<lparr>t_kernel_stack := k\<rparr>)\<rparr>"
  define s' where "s' = s3\<lparr>memory := push_frame k entry arg (memory s3),
       tasks := (tasks s3)(p := (tasks s3 p)\<lparr>t_context := kernel_context (k + 4080) w\<rparr>)\<rparr>"
  have "task_create_kernel_thread w nm entry arg pr 4096 s = Inr (p, s')"
    using task_create_unfold [OF entry a p(1) b] k(1) by (simp add: s'_def s3_def Let_def)
  moreover have "tasks s' p = (set_name nm zero_task)\<lparr>t_id := next_task_id s, t_state := TASK_STATE_READY, t_priority := pr,
      t_address_space := kernel_address_space s, t_kernel_stack := k, t_kernel_stack_size := 4096,
      t_context := kernel_context (k + 4080) w\<rparr>"
    using f g by (simp add: s'_def s3_def with_task_def fresh_task_def Let_def set_name_def mmu_get_kernel_address_space_def)
  moreover have "pmm_inv M s'" using bl(1) by (simp add: s'_def s3_def)
  moreover have "avail_pages s' = avail_pages s - {p, k}"
    using al(5) bl(5) by (simp add: s'_def s3_def insert_commute Diff_insert [symmetric])
  moreover have "g_scheduler s' = g_scheduler s" "idle_task s' = idle_task s"
    "memory s' = push_frame k entry arg (memory s)"
    using f(2,3,6) g(2,3,6) by (simp_all add: s'_def s3_def)
  moreover have "\<forall>y. y \<noteq> p \<longrightarrow> tasks s' y = tasks s y"
    using f(1) g(1) by (simp add: s'_def s3_def)
  ultimately show ?thesis using p(2) k(2,3) by blast
qed


section \<open>The kernel as a transition system\<close>

text \<open>
  Scheduling touches neither the memory managers nor the state of the components
  built on top of it.
\<close>

lemma mmu_truncate_upd [simp]:
  fixes s :: "'z cpu_st_scheme" and t :: "'z sched_st_scheme"
  shows "mmu_st.truncate (s\<lparr>regs := r\<rparr>) = mmu_st.truncate s" "mmu_st.truncate (s\<lparr>tss := x\<rparr>) = mmu_st.truncate s"
    "mmu_st.truncate (t\<lparr>tasks := f\<rparr>) = mmu_st.truncate t" "mmu_st.truncate (t\<lparr>g_scheduler := g\<rparr>) = mmu_st.truncate t"
  by (simp_all add: mmu_st.truncate_def)

definition same_pages :: "'z sched_st_scheme \<Rightarrow> 'z sched_st_scheme \<Rightarrow> bool" where
  "same_pages s s' \<longleftrightarrow> avail_pages s' = avail_pages s \<and> (\<forall>M. pmm_inv M s' = pmm_inv M s)
     \<and> mmu_st.truncate s' = mmu_st.truncate s \<and> sched_st.more s' = sched_st.more s"

lemma same_pages_refl [simp]: "same_pages s s"
  by (simp add: same_pages_def)

lemma same_pages_trans: "same_pages s t \<Longrightarrow> same_pages t u \<Longrightarrow> same_pages s u"
  by (simp add: same_pages_def)

lemma pmm_fields_cpu_upd [simp, frame_simps]:
  "avail_pages (s\<lparr>regs := r\<rparr>) = avail_pages s" "pmm_inv M (s\<lparr>regs := r\<rparr>) = pmm_inv M s"
  "avail_pages (s\<lparr>tss := x\<rparr>) = avail_pages s" "pmm_inv M (s\<lparr>tss := x\<rparr>) = pmm_inv M s"
  by (simp_all add: avail_pages_def free_set_def bitmap_test_def pmm_inv_def)

lemma store_task_pages: "store_task p f s = Inr s' \<Longrightarrow> same_pages s s'"
  by (auto simp: store_task_def same_pages_def split: if_splits)

lemma upd_pages [simp]: "same_pages s (upd_sched f s)" "same_pages s (upd_queue p h s)"
  "same_pages s (irq_restore x s)" "same_pages s (snd (irq_disable s))" "same_pages s (gdt_set_kernel_stack a s)"
  "same_pages s (gdt_set_kernel_stack a (upd_sched f s))"
  by (simp_all add: same_pages_def upd_queue_def upd_sched_def irq_restore_def irq_disable_def gdt_set_kernel_stack_def)

lemma only_queues_pages:
  fixes s s' :: "'z sched_st_scheme"
  assumes "only_queues s s'"
  shows "same_pages s s'"
proof -
  have "s'\<lparr>tasks := undefined, g_scheduler := undefined\<rparr> = s\<lparr>tasks := undefined, g_scheduler := undefined\<rparr>"
    using assms by (simp add: only_queues_def)
  from arg_cong [OF this, of avail_pages] arg_cong [OF this, of "pmm_inv M" for M] arg_cong [OF this, of sched_st.more]
    arg_cong [OF this, of mmu_st.truncate]
  show ?thesis by (simp add: same_pages_def)
qed

lemma scheduler_enqueue_pages: "scheduler_enqueue x s = Inr s' \<Longrightarrow> same_pages s s'"
  by (auto simp: scheduler_enqueue_def Let_def andthen_eq_Inr same_pages_def store_task_def upd_queue_def
      upd_sched_def split: if_splits)

lemma scheduler_dequeue_pages: "scheduler_dequeue x s = Inr s' \<Longrightarrow> same_pages s s'"
  by (auto simp: scheduler_dequeue_def Let_def andthen_eq_Inr same_pages_def store_task_def upd_queue_def
      upd_sched_def split: if_splits)

lemma exchange_tasks_pages:
  assumes "exchange_tasks c n s = Inr s'"
  shows "same_pages s s'"
proof -
  from assms obtain s1 s2 s3 where
    "same_pages s s1" "same_pages s1 s2" "same_pages s2 s3" "same_pages s3 s'"
    by (auto simp: exchange_tasks_def andthen_eq_Inr load_task_def split: if_splits
        dest: store_task_pages scheduler_dequeue_pages scheduler_enqueue_pages)
      (metis same_pages_refl store_task_pages scheduler_dequeue_pages scheduler_enqueue_pages)+
  then show ?thesis by (blast intro: same_pages_trans)
qed

lemma context_switch_pages: "context_switch c n s = Inr s' \<Longrightarrow> same_pages s s'"
  by (auto simp: context_switch_def andthen_eq_Inr load_task_def store_task_def same_pages_def split: if_splits)

lemma schedule_pages:
  assumes "schedule s = Inr (w, s')"
  shows "same_pages s s'"
proof -
  obtain fl s0 where s0: "irq_disable s = (fl, s0)" "same_pages s s0"
    using upd_pages(4) [of s] by (cases "irq_disable s") simp
  show ?thesis
  proof (cases "current_task (g_scheduler s0) = scheduler_pick_next s0")
    case True
    with assms s0 have "s' = irq_restore fl (upd_sched (\<lambda>g. g\<lparr>need_resched := False\<rparr>) s0)"
      by (auto simp: schedule_def Let_def)
    then show ?thesis using s0(2) by (metis same_pages_trans upd_pages(1,3))
  next
    case False
    with assms s0 obtain s1 s2 where "exchange_tasks (current_task (g_scheduler s0)) (scheduler_pick_next s0) s0 = Inr s1"
      "same_pages s1 s2" "context_switch (current_task (g_scheduler s0)) (scheduler_pick_next s0) s2 = Inr s'"
      by (auto simp: schedule_def Let_def andthen_eq_Inr split: if_splits) (use upd_pages(1,6) in blast)+
    then show ?thesis
      using s0(2) exchange_tasks_pages context_switch_pages same_pages_trans by metis
  qed
qed

lemma scheduler_tick_pages: "scheduler_tick s = Inr (b, s') \<Longrightarrow> same_pages s s'"
  by (auto simp: scheduler_tick_def Let_def andthen_eq_Inr store_task_def load_task_def upd_sched_def same_pages_def
      split: if_splits)

text \<open>The tasks the scheduler knows; none of them lies in a free page.\<close>

definition live_tasks :: "'z sched_st_scheme \<Rightarrow> (u8 \<Rightarrow> addr list) \<Rightarrow> addr set" where
  "live_tasks s qs = {current_task (g_scheduler s), idle_task s} \<union> (\<Union>p. set (qs p))"

definition kernel_inv :: "u32 set \<Rightarrow> 'z sched_st_scheme \<Rightarrow> (u8 \<Rightarrow> addr list) \<Rightarrow> bool" where
  "kernel_inv M s qs \<longleftrightarrow> pmm_inv M s \<and> sched_inv s qs \<and> live_tasks s qs \<inter> avail_pages s = {}"

text \<open>
  The steps of the running kernel: a timer tick, with a switch if it asks for
  one, a voluntary yield, the exit of a task other than the idle task, and the
  creation of a thread that is made ready at once.
\<close>

inductive kernel_step :: "addr \<Rightarrow> 'z sched_st_scheme \<Rightarrow> 'z sched_st_scheme \<Rightarrow> bool" for w where
  tick: "scheduler_tick s = Inr (False, s') \<Longrightarrow> kernel_step w s s'"
| preempt: "scheduler_tick s = Inr (True, s1) \<Longrightarrow> schedule s1 = Inr (d, s') \<Longrightarrow> kernel_step w s s'"
| yields: "task_yield s = Inr (d, s') \<Longrightarrow> kernel_step w s s'"
| exits: "task_current s \<noteq> task_get_idle s \<Longrightarrow> task_exit code s = Inr (d, s') \<Longrightarrow> kernel_step w s s'"
| spawn_fails: "task_create_kernel_thread w nm e arg pr sz s = Inr (0, s') \<Longrightarrow> kernel_step w s s'"
| spawn: "task_create_kernel_thread w nm e arg pr sz s = Inr (p, s1) \<Longrightarrow> p \<noteq> 0 \<Longrightarrow>
    scheduler_enqueue p s1 = Inr s' \<Longrightarrow> kernel_step w s s'"

inductive_cases kernel_stepE: "kernel_step w s s'"

lemma switch_queues_live:
  "n \<in> set (qs m) \<Longrightarrow> insert n (insert i (\<Union>p. set (switch_queues qs m keep r c p))) \<subseteq> {c, i} \<union> (\<Union>p. set (qs p))"
proof -
  assume n: "n \<in> set (qs m)"
  have "set (tl (qs m)) \<subseteq> set (qs m)" by (cases "qs m") auto
  then show ?thesis using n by (auto simp: switch_queues_def Let_def split: if_splits)
qed

lemma schedule_kernel_inv:
  assumes inv: "kernel_inv M s qs"
  shows "\<exists>d s' qs'. schedule s = Inr (d, s') \<and> kernel_inv M s' qs' \<and>
    (t_state (tasks s (current_task (g_scheduler s))) = TASK_STATE_ZOMBIE \<longrightarrow>
      live_tasks s' qs' \<subseteq> live_tasks s qs - {current_task (g_scheduler s)})"
proof -
  have si: "sched_inv s qs" using inv by (simp add: kernel_inv_def)
  define c where "c = current_task (g_scheduler s)"
  show ?thesis
  proof (cases "\<forall>p. qs p = []")
    case True
    note st = schedule_stay [OF si True]
    have "t_state (tasks s c) = TASK_STATE_RUNNING"
      using si True by (auto simp: sched_inv_def Let_def c_def)
    moreover have "kernel_inv M (upd_sched (\<lambda>g. g\<lparr>need_resched := False\<rparr>) s) qs"
      using inv upd_pages(1) [of s "\<lambda>g. g\<lparr>need_resched := False\<rparr>"]
      by (simp add: kernel_inv_def same_pages_def live_tasks_def) (simp add: upd_sched_def)
    ultimately show ?thesis using st by (auto simp: c_def)
  next
    case False
    then obtain m where m: "qs m \<noteq> []" "\<forall>r > m. qs r = []" using highest_nonempty by metis
    define n qs' where "n = hd (qs m)"
      and "qs' = switch_queues qs m (parked (t_state (tasks s c)) = TASK_STATE_READY) (task_prio s c) c"
    from schedule_switch [OF si m] obtain s' where
      s': "schedule s = Inr (SwitchTo n, s')" "current_task (g_scheduler s') = n" "idle_task s' = idle_task s" "n \<noteq> c"
      by (auto simp: c_def n_def)
    have i': "sched_inv s' qs'" using schedule_switch_inv [OF si m s'(1)] by (simp add: qs'_def c_def)
    have n: "n \<in> set (qs m)" using m(1) by (simp add: n_def)
    have live: "live_tasks s' qs' \<subseteq> live_tasks s qs"
      using switch_queues_live [where qs = qs and m = m, OF n] s'(2,3) by (simp add: live_tasks_def qs'_def c_def)
    have "kernel_inv M s' qs'"
      using inv i' live schedule_pages [OF s'(1)] by (auto simp: kernel_inv_def same_pages_def)
    moreover have "c \<notin> live_tasks s' qs'" if "t_state (tasks s c) = TASK_STATE_ZOMBIE"
    proof -
      have out: "\<forall>p. c \<notin> set (qs p)" "c \<noteq> idle_task s" using si that by (auto simp: sched_inv_def Let_def c_def)
      have "set (tl (qs m)) \<subseteq> set (qs m)" by (cases "qs m") auto
      then have "c \<notin> set (qs' p)" for p
        using out that by (auto simp: qs'_def parked_def switch_queues_def Let_def split: if_splits)
      then show ?thesis using s' out by (simp add: live_tasks_def)
    qed
    ultimately show ?thesis using s'(1) live unfolding c_def [symmetric] by blast
  qed
qed

lemma tick_kernel_inv:
  assumes "kernel_inv M s qs"
  shows "\<exists>b s'. scheduler_tick s = Inr (b, s') \<and> kernel_inv M s' qs"
proof -
  have "sched_inv s qs" using assms by (simp add: kernel_inv_def)
  from scheduler_tick_spec [OF this] obtain b s' where
    s': "scheduler_tick s = Inr (b, s')" "sched_inv s' qs"
      "current_task (g_scheduler s') = current_task (g_scheduler s)" "idle_task s' = idle_task s" by blast
  with assms scheduler_tick_pages [OF s'(1)] show ?thesis
    by (auto simp: kernel_inv_def live_tasks_def same_pages_def)
qed

lemma exit_kernel_inv:
  assumes "kernel_inv M s qs" and "task_current s \<noteq> task_get_idle s"
  shows "\<exists>d s' qs'. task_exit code s = Inr (d, s') \<and> kernel_inv M s' qs' \<and>
    live_tasks s' qs' \<subseteq> live_tasks s qs - {task_current s}"
proof -
  define c where "c = current_task (g_scheduler s)"
  define s1 where "s1 = s\<lparr>tasks := (tasks s)(c := (tasks s c)\<lparr>t_state := TASK_STATE_ZOMBIE, t_exit_code := code\<rparr>)\<rparr>"
  have c: "c \<noteq> 0" "\<forall>p. c \<notin> set (qs p)" "c \<noteq> idle_task s" "represents s qs"
    using assms by (auto simp: kernel_inv_def sched_inv_def Let_def c_def task_current_def scheduler_current_def task_get_idle_def)
  have "represents s1 qs" using unlinked_upd [OF c(4,2)] by (simp add: s1_def)
  then have "kernel_inv M s1 qs"
    using assms(1) c by (auto simp: kernel_inv_def sched_inv_def Let_def s1_def live_tasks_def c_def [symmetric])
  moreover have "current_task (g_scheduler s1) = c" "t_state (tasks s1 c) = TASK_STATE_ZOMBIE" "live_tasks s1 qs = live_tasks s qs"
    by (simp_all add: s1_def c_def live_tasks_def)
  ultimately obtain d s' qs' where "schedule s1 = Inr (d, s')" "kernel_inv M s' qs'" "live_tasks s' qs' \<subseteq> live_tasks s qs - {c}"
    using schedule_kernel_inv [of M s1 qs] by auto
  moreover have "task_exit code s = schedule s1"
    using c(1) by (simp add: task_exit_def store_task_def task_current_def scheduler_current_def c_def [symmetric] s1_def)
  ultimately show ?thesis by (auto simp: task_current_def scheduler_current_def c_def [symmetric])
qed

text \<open>A state that agrees on the live tasks and on the scheduler keeps the invariant.\<close>

lemma kernel_inv_cong:
  assumes "kernel_inv M s qs" and "pmm_inv M s'" and "avail_pages s' \<subseteq> avail_pages s"
    and "g_scheduler s' = g_scheduler s" and "idle_task s' = idle_task s"
    and "\<And>y. y \<notin> avail_pages s \<Longrightarrow> tasks s' y = tasks s y"
  shows "kernel_inv M s' qs"
proof -
  have t: "tasks s' y = tasks s y" if "y \<in> live_tasks s qs" for y
    using assms(1,6) that by (auto simp: kernel_inv_def)
  have rep: "represents s qs" using assms(1) by (simp add: kernel_inv_def sched_inv_def)
  have "tasks s' x = tasks s x" if "x \<in> set (qs p)" for x p
    using that by (intro t) (auto simp: live_tasks_def)
  then have "represents s' qs" by (intro represents_cong [OF rep]) (simp_all add: assms(4))
  moreover have "tasks s' (current_task (g_scheduler s)) = tasks s (current_task (g_scheduler s))"
    "tasks s' (idle_task s) = tasks s (idle_task s)"
    by (rule t, simp add: live_tasks_def)+
  ultimately show ?thesis
    using assms(1-5) by (auto simp: kernel_inv_def sched_inv_def Let_def live_tasks_def)
qed

lemma enqueue_kernel_inv:
  assumes inv: "kernel_inv M s qs" and p: "p \<noteq> 0" "t_state (tasks s p) = TASK_STATE_READY" "p \<notin> live_tasks s qs" "p \<notin> avail_pages s"
  shows "\<exists>s'. scheduler_enqueue p s = Inr s' \<and> kernel_inv M s' (qs(task_prio s p := qs (task_prio s p) @ [p]))"
proof -
  have si: "sched_inv s qs" "represents s qs" using inv by (auto simp: kernel_inv_def sched_inv_def)
  have new: "\<forall>r. p \<notin> set (qs r)" using p(3) by (simp add: live_tasks_def)
  define qs' where "qs' = qs(task_prio s p := qs (task_prio s p) @ [p])"
  from scheduler_enqueue_spec [OF si(2) p(1,2)] new obtain s' where
    s': "scheduler_enqueue p s = Inr s'" "only_queues s s'" "represents s' qs'"
      "\<And>y. y \<noteq> p \<Longrightarrow> \<forall>r. y \<notin> set (qs r) \<Longrightarrow> tasks s' y = tasks s y" by (auto simp: qs'_def)
  note o = only_queuesD [OF s'(2)]
  define c where "c = current_task (g_scheduler s)"
  have "tasks s' c = tasks s c" "\<forall>r. c \<notin> set (qs' r)"
    using s'(4) si p(3) by (auto simp: sched_inv_def Let_def live_tasks_def c_def qs'_def)
  moreover have "t_priority (tasks s' (idle_task s)) = t_priority (tasks s (idle_task s))"
    using strip_linksD(9) [OF o(1)] .
  moreover have "idle_task s \<in> set (qs 0) \<Longrightarrow> idle_task s \<in> set (qs' 0)" by (simp add: qs'_def)
  ultimately have "sched_inv s' qs'"
    using si s'(3) o(2,6) by (auto simp: sched_inv_def Let_def c_def)
  moreover have "live_tasks s' qs' = insert p (live_tasks s qs)"
    using o(2,6) by (auto simp: live_tasks_def qs'_def split: if_splits)
  ultimately show ?thesis
    using inv s'(1) only_queues_pages [OF s'(2)] p(4) by (auto simp: kernel_inv_def same_pages_def qs'_def)
qed

lemma create_kernel_inv:
  assumes inv: "kernel_inv M s qs"
  shows "\<exists>p s1. task_create_kernel_thread w nm e arg pr sz s = Inr (p, s1) \<and> kernel_inv M s1 qs \<and>
    (p \<noteq> 0 \<longrightarrow> t_state (tasks s1 p) = TASK_STATE_READY \<and> p \<notin> live_tasks s1 qs \<and> p \<notin> avail_pages s1)"
proof (cases "e = 0 \<or> sz \<noteq> 4096")
  case True
  then show ?thesis using inv by (auto simp: task_create_kernel_thread_def)
next
  case False
  then have e: "e \<noteq> 0" "sz = 4096" by auto
  have pinv: "pmm_inv M s" using inv by (simp add: kernel_inv_def)
  consider "avail_pages s = {}" | p where "avail_pages s = {p}" | "2 \<le> card (avail_pages s)"
  proof -
    have "card (avail_pages s) = 0 \<or> card (avail_pages s) = 1 \<or> 2 \<le> card (avail_pages s)" by linarith
    then show ?thesis using that by (auto simp: card_1_singleton_iff)
  qed
  then show ?thesis
  proof cases
    case 1
    with task_create_no_page [OF pinv e(1)] inv e(2) show ?thesis by auto
  next
    case (2 p)
    from task_create_no_stack [OF pinv e(1) 2] obtain s1 where
      s1: "task_create_kernel_thread w nm e arg pr sz s = Inr (0, s1)" "pmm_inv M s1" "avail_pages s1 = avail_pages s"
        "g_scheduler s1 = g_scheduler s" "idle_task s1 = idle_task s" "\<And>y. y \<noteq> p \<Longrightarrow> tasks s1 y = tasks s y"
      using e(2) by blast
    with 2 have "kernel_inv M s1 qs" by (intro kernel_inv_cong [OF inv]) auto
    with s1(1) show ?thesis by auto
  next
    case 3
    from task_create_ok [OF pinv e(1) 3, where w = w and nm = nm and arg = arg and pr = pr] obtain p k s1 where
      s1: "task_create_kernel_thread w nm e arg pr sz s = Inr (p, s1)" "pmm_inv M s1" "p \<in> avail_pages s"
        "avail_pages s1 = avail_pages s - {p, k}" "g_scheduler s1 = g_scheduler s" "idle_task s1 = idle_task s"
        "\<And>y. y \<noteq> p \<Longrightarrow> tasks s1 y = tasks s y" "t_state (tasks s1 p) = TASK_STATE_READY"
      unfolding e(2) by auto
    then have "kernel_inv M s1 qs"
      by (intro kernel_inv_cong [OF inv]) (use s1(3) in \<open>auto intro!: s1(7)\<close>)
    moreover have "p \<notin> live_tasks s1 qs" using inv s1(3,5,6) by (auto simp: kernel_inv_def live_tasks_def)
    ultimately show ?thesis using s1 by auto
  qed
qed

lemma kernel_step_inv:
  assumes "kernel_step w s s'" and "kernel_inv M s qs"
  shows "\<exists>qs'. kernel_inv M s' qs'"
  using assms(1)
proof (cases rule: kernel_step.cases)
  case tick
  with tick_kernel_inv [OF assms(2)] show ?thesis by auto
next
  case (preempt s1 d)
  with tick_kernel_inv [OF assms(2)] have "kernel_inv M s1 qs" by auto
  from schedule_kernel_inv [OF this] preempt show ?thesis by auto
next
  case (yields d)
  with schedule_kernel_inv [OF assms(2)] show ?thesis by (auto simp: task_yield_def)
next
  case (exits code d)
  with exit_kernel_inv [OF assms(2), of code] show ?thesis by auto
next
  case (spawn_fails nm e arg pr sz)
  with create_kernel_inv [OF assms(2), of w nm e arg pr sz] show ?thesis by auto
next
  case (spawn nm e arg pr sz p s1)
  with create_kernel_inv [OF assms(2), of w nm e arg pr sz]
  have "kernel_inv M s1 qs" "t_state (tasks s1 p) = TASK_STATE_READY" "p \<notin> live_tasks s1 qs" "p \<notin> avail_pages s1" by auto
  from enqueue_kernel_inv [OF this(1) spawn(2) this(2-4)] spawn(3) show ?thesis by auto
qed

lemma kernel_steps_inv:
  assumes "(kernel_step w)\<^sup>*\<^sup>* s t" and "kernel_inv M s qs"
  shows "\<exists>qs'. kernel_inv M t qs'"
  using assms by (induction rule: rtranclp_induct) (auto dest: kernel_step_inv)

text \<open>Boot: the idle task and the empty scheduler establish the invariant.\<close>

lemma task_init_spec:
  assumes inv: "pmm_inv M s" and av: "2 \<le> card (avail_pages s)"
  shows "\<exists>i s'. task_init e s = Inr s' \<and> pmm_inv M s' \<and> i \<in> avail_pages s \<and> i \<noteq> 0 \<and> i \<notin> avail_pages s' \<and>
    avail_pages s' \<subseteq> avail_pages s \<and> idle_task s' = i \<and> t_priority (tasks s' i) = SCHED_IDLE_PRIORITY \<and>
    t_state (tasks s' i) = TASK_STATE_READY \<and> ctx_eip (t_context (tasks s' i)) = e"
proof -
  from pmm.alloc_total [OF inv] obtain i s1 where a: "pmm_alloc_page s = Inr (i, s1)" by blast
  note al = pmm.alloc_page [OF inv a]
  have "avail_pages s \<noteq> {}" using av by auto
  then have i: "i \<noteq> 0" "i \<in> avail_pages s" using al by auto
  define s2 where "s2 = s1\<lparr>idle_task := i, tasks := (tasks s1)(i := (set_name ''idle'' (zero_task\<lparr>t_id := 0\<rparr>))\<lparr>
    t_state := TASK_STATE_READY, t_priority := SCHED_IDLE_PRIORITY,
    t_address_space := mmu_get_kernel_address_space (s1\<lparr>idle_task := i\<rparr>), t_kernel_stack_size := 4096\<rparr>)\<rparr>"
  have inv2: "pmm_inv M s2" "avail_pages s2 = avail_pages s1" using al(1) by (simp_all add: s2_def)
  from pmm.alloc_total [OF inv2(1)] obtain k s3 where b: "pmm_alloc_page s2 = Inr (k, s3)" by blast
  note bl = pmm.alloc_page [OF inv2(1) b]
  have "avail_pages s \<noteq> {i}" using av by auto
  then have k: "k \<noteq> 0" using bl(2) inv2(2) al(5) i(2) by auto
  note f = pmm_alloc_page_sched [OF b]
  let ?s' = "case task_init e s of Inr t \<Rightarrow> t"
  have "task_init e s = Inr ?s' \<and> pmm_inv M ?s' \<and> avail_pages ?s' = avail_pages s3 \<and> idle_task ?s' = i \<and>
      t_priority (tasks ?s' i) = 0 \<and> t_state (tasks ?s' i) = TASK_STATE_READY \<and> ctx_eip (t_context (tasks ?s' i)) = e"
    using a i(1) b k bl(1) f(1,3)
    by (simp add: task_init_def Let_def s2_def [symmetric] kernel_context_def) (simp add: s2_def)
  moreover have "i \<notin> avail_pages s3" "avail_pages s3 \<subseteq> avail_pages s" using bl(5) inv2(2) al(5) by auto
  ultimately show ?thesis using i by metis
qed

lemma scheduler_init_spec:
  assumes inv: "pmm_inv M s" and i: "idle_task s \<noteq> 0" "idle_task s \<notin> avail_pages s" "t_priority (tasks s (idle_task s)) = 0"
    and b: "b \<noteq> 0" "b \<noteq> idle_task s" "b \<notin> avail_pages s"
  shows "\<exists>s'. scheduler_init b s = Inr s' \<and> kernel_inv M s' ((\<lambda>_. [])(0 := [idle_task s])) \<and>
    current_task (g_scheduler s') = b \<and> t_state (tasks s' b) = TASK_STATE_ZOMBIE \<and> idle_task s' = idle_task s"
proof -
  define bt where "bt = zero_task\<lparr>t_name := ''bootstrap'', t_id := 0xFFFFFFFF,
    t_state := TASK_STATE_ZOMBIE, t_priority := SCHED_IDLE_PRIORITY, t_address_space := mmu_get_kernel_address_space s\<rparr>"
  define s1 where "s1 = s\<lparr>g_scheduler := zero_scheduler\<lparr>current_task := b\<rparr>,
    tasks := (tasks s)(b := bt, idle_task s := (tasks s (idle_task s))\<lparr>t_state := TASK_STATE_READY\<rparr>)\<rparr>"
  have init: "scheduler_init b s = scheduler_enqueue (idle_task s) s1"
    using i(1) b(2) by (simp add: scheduler_init_def Let_def upd_sched_def store_task_def s1_def bt_def task_get_idle_def)
  have "represents s1 (\<lambda>_. [])"
    by (simp add: represents_def queue_ok_def s1_def zero_scheduler_def prio_test_def)
  from scheduler_enqueue_spec [OF this, of "idle_task s"] i obtain s' where
    s': "scheduler_enqueue (idle_task s) s1 = Inr s'" "only_queues s1 s'"
      "represents s' ((\<lambda>_. [])(0 := [idle_task s]))" "\<And>y. y \<noteq> idle_task s \<Longrightarrow> tasks s' y = tasks s1 y"
    by (auto simp: s1_def)
  note o = only_queuesD [OF s'(2)]
  have bs: "tasks s' b = bt" "current_task (g_scheduler s') = b" "idle_task s' = idle_task s"
    using s'(4) b(2) o(2,6) by (simp_all add: s1_def)
  have "t_priority (tasks s' (idle_task s)) = 0"
    using strip_linksD(9) [OF o(1) [of "idle_task s"]] i(3) by (simp add: s1_def)
  then have "sched_inv s' ((\<lambda>_. [])(0 := [idle_task s]))"
    using s'(3) bs i(1) b by (simp add: sched_inv_def Let_def bt_def zero_task_def)
  moreover have "same_pages s s'" using only_queues_pages [OF s'(2)] by (simp add: same_pages_def s1_def)
  ultimately show ?thesis
    using s'(1) init inv i(2) b(3) bs by (auto simp: kernel_inv_def same_pages_def live_tasks_def bt_def)
qed


section \<open>Properties\<close>

lemma sample_sched_free: "free_set sample_sched = {9, 10, 11, 12, 13, 14, 15}"
proof -
  have "frame_bitmap sample_sched = frame_bitmap sample_mmu"
    by (simp add: sample_sched_def sample_sched0_def sample_cpu_def mmu_st.defs cpu_st.defs)
  then have "free_set sample_sched = free_set sample_mmu" by (simp add: free_set_def bitmap_test_def)
  also have "\<dots> = sample_frames - {8}" by (simp add: sample_mmu_def sample_boot_free)
  finally show ?thesis by simp
qed

lemma sample_sched_avail: "avail_pages sample_sched = (\<lambda>f. f * FRAME_SIZE) ` {9, 10, 11, 12, 13, 14, 15}"
  by (simp add: avail_pages_def sample_sched_free)

lemma sample_sched_pmm: "pmm_inv sample_frames sample_sched"
proof -
  have "pmm_inv sample_frames sample_mmu" using sample_mmu_inv by (simp add: mmu_inv_def)
  then show ?thesis
    by (simp add: pmm_inv_def free_set_def bitmap_test_def sample_sched_def sample_sched0_def sample_cpu_def
        mmu_st.defs cpu_st.defs)
qed

lemma sample_sched_kernel: "kernel_inv sample_frames sample_sched ((\<lambda>_. [])(7 := [0x2000]))"
proof -
  have "live_tasks sample_sched ((\<lambda>_. [])(7 := [0x2000])) = {0x1000, 0x2000}"
    by (auto simp: live_tasks_def sample_sched_fields) (simp_all add: sample_sched_def split: if_splits)
  then show ?thesis
    using sample_sched_pmm sample_sched_inv by (simp add: kernel_inv_def sample_sched_avail)
qed



text \<open>
  C17: creating a kernel thread with an entry point and a stack of one page never
  faults. With fewer than two free pages it returns null and gives back what it
  took; otherwise it takes one page for the structure and one for the stack, the new task
  is ready with the given priority, and its first activation
  enters the wrapper with a stack on which the argument block (entry point and
  argument) is found through the first argument slot. No other task changes.
\<close>

theorem task_create_kernel_thread_correct:
  assumes "pmm_inv M s" and "entry \<noteq> 0"
  shows "\<exists>p s'. task_create_kernel_thread w nm entry arg pr 4096 s = Inr (p, s') \<and> pmm_inv M s' \<and>
    (if card (avail_pages s) < 2 then p = 0 \<and> avail_pages s' = avail_pages s
     else \<exists>k. {p, k} \<subseteq> avail_pages s \<and> p \<noteq> k \<and> avail_pages s' = avail_pages s - {p, k} \<and>
       (\<forall>y. y \<noteq> p \<longrightarrow> tasks s' y = tasks s y) \<and>
       t_state (tasks s' p) = TASK_STATE_READY \<and> t_priority (tasks s' p) = pr \<and> t_kernel_stack (tasks s' p) = k \<and>
       (let sp = ctx_esp (t_context (tasks s' p)); args = read32 (memory s') (sp + 4) in
        ctx_eip (t_context (tasks s' p)) = w \<and> sp = k + 4080 \<and> read32 (memory s') sp = 0 \<and>
        args = k + 4088 \<and> read32 (memory s') args = entry \<and> read32 (memory s') (args + 4) = arg))"
proof (cases "card (avail_pages s) < 2")
  case True
  then consider "avail_pages s = {}" | p where "avail_pages s = {p}"
    by (cases "card (avail_pages s) = 0") (auto simp: less_2_cases_iff card_1_singleton_iff)
  then show ?thesis
  proof cases
    case 1
    with task_create_no_page [OF assms] assms(1) show ?thesis by auto
  next
    case (2 q)
    from task_create_no_stack [OF assms 2, where w = w and nm = nm and arg = arg and pr = pr]
    obtain s' where "task_create_kernel_thread w nm entry arg pr 4096 s = Inr (0, s')" "pmm_inv M s'"
      "avail_pages s' = avail_pages s" by blast
    with True show ?thesis by (intro exI [of _ 0] exI [of _ s']) simp
  qed
next
  case False
  then have "2 \<le> card (avail_pages s)" by simp
  from task_create_ok [OF assms this, where w = w and nm = nm and arg = arg and pr = pr] obtain p k s' where
    s': "task_create_kernel_thread w nm entry arg pr 4096 s = Inr (p, s')" "pmm_inv M s'" "p \<in> avail_pages s"
      "k \<in> avail_pages s" "p \<noteq> k" "avail_pages s' = avail_pages s - {p, k}" "\<And>y. y \<noteq> p \<Longrightarrow> tasks s' y = tasks s y"
      "memory s' = push_frame k entry arg (memory s)"
      and t: "tasks s' p = (set_name nm zero_task)\<lparr>t_id := next_task_id s, t_state := TASK_STATE_READY, t_priority := pr,
      t_address_space := kernel_address_space s, t_kernel_stack := k, t_kernel_stack_size := 4096,
      t_context := kernel_context (k + 4080) w\<rparr>" by blast
  have "k \<in> managed_pages M" using pmm.avail_managed [OF assms(1)] s'(4) by blast
  then have "page_aligned k" using pmm.managed_page by blast
  note r = read_push_frame [OF this, of entry arg "memory s"]
  have "\<exists>k. {p, k} \<subseteq> avail_pages s \<and> p \<noteq> k \<and> avail_pages s' = avail_pages s - {p, k} \<and>
       (\<forall>y. y \<noteq> p \<longrightarrow> tasks s' y = tasks s y) \<and>
       t_state (tasks s' p) = TASK_STATE_READY \<and> t_priority (tasks s' p) = pr \<and> t_kernel_stack (tasks s' p) = k \<and>
       (let sp = ctx_esp (t_context (tasks s' p)); args = read32 (memory s') (sp + 4) in
        ctx_eip (t_context (tasks s' p)) = w \<and> sp = k + 4080 \<and> read32 (memory s') sp = 0 \<and>
        args = k + 4088 \<and> read32 (memory s') args = entry \<and> read32 (memory s') (args + 4) = arg)"
    using s' r by (intro exI [of _ k]) (simp add: t kernel_context_def add.assoc Let_def)
  with False s'(1,2) show ?thesis by auto
qed

theorem task_create_kernel_thread_correct_witness:
  "\<exists>p s'. task_create_kernel_thread 0x100500 ''worker'' 0x100400 42 5 4096 sample_sched = Inr (p, s') \<and>
     p \<in> avail_pages sample_sched \<and> t_priority (tasks s' p) = 5"
proof -
  have "\<not> card (avail_pages sample_sched) < 2" by (simp add: sample_sched_avail)
  then show ?thesis
    using task_create_kernel_thread_correct [OF sample_sched_pmm, of "0x100400" "0x100500" "''worker''" 42 5]
    by auto
qed


lemma sample_busy_kernel: "kernel_inv sample_frames sample_busy ((\<lambda>_. [])(0 := [0x1000]))"
proof -
  have "frame_bitmap sample_busy = frame_bitmap sample_sched" "same_pages sample_sched sample_busy"
    by (simp_all add: sample_busy_def sample_sched_def same_pages_def)
  moreover have "live_tasks sample_busy ((\<lambda>_. [])(0 := [0x1000])) = {0x1000, 0x2000}"
    by (auto simp: live_tasks_def sample_busy_def sample_sched_fields split: if_splits)
  ultimately show ?thesis
    using sample_sched_pmm sample_busy_inv sample_sched_avail by (simp add: kernel_inv_def same_pages_def)
qed


text \<open>
  \<^verbatim>\<open>task_destroy\<close> frees the pages of a task but does not take it out of the
  scheduler: a queued task is still queued afterwards, although its structure
  now lies in a free page.
\<close>

theorem task_destroy_leaves_queued:
  assumes "kernel_inv M s qs" and "x \<in> set (qs p)"
    and "{x, t_kernel_stack (tasks s x)} \<subseteq> managed_pages M - avail_pages s" and "t_kernel_stack (tasks s x) \<noteq> x"
  shows "\<exists>s'. task_destroy x s = Inr s' \<and> represents s' qs \<and>
    avail_pages s' = avail_pages s \<union> {x, t_kernel_stack (tasks s x)}"
proof -
  define k where "k = t_kernel_stack (tasks s x)"
  have rep: "represents s qs" and pinv: "pmm_inv M s" using assms(1) by (auto simp: kernel_inv_def sched_inv_def)
  have k: "k \<in> managed_pages M" "k \<notin> avail_pages s" "x \<in> managed_pages M" "x \<notin> avail_pages s" "k \<noteq> x"
    using assms(3,4) by (auto simp: k_def)
  have nz: "k \<noteq> 0" "x \<noteq> 0" using k pmm.managed_page by auto
  from pmm.release_ok [OF pinv k(1,2)] obtain s1 where
    s1: "pmm_free_page k s = Inr s1" "avail_pages s1 = insert k (avail_pages s)" "pmm_inv M s1" by blast
  have "x \<notin> avail_pages s1" using s1(2) k by auto
  from pmm.release_ok [OF s1(3) k(3) this] obtain s2 where
    s2: "pmm_free_page x s1 = Inr s2" "avail_pages s2 = insert x (avail_pages s1)" by blast
  have "represents s2 qs"
    using pmm_free_page_sched [OF s1(1)] pmm_free_page_sched [OF s2(1)] by (intro represents_cong [OF rep]) simp_all
  moreover have "task_destroy x s = Inr s2" using nz s1(1) s2(1) by (simp add: task_destroy_def k_def [symmetric])
  ultimately show ?thesis using s1(2) s2(2) by (auto simp: k_def)
qed

text \<open>A sample with a queued task in the managed pages 0x8000 (structure) and 0x9000 (stack).\<close>

definition sample_managed :: sched_st where
  "sample_managed = (bitmap_or_bit 9 sample_sched)\<lparr>free_frames := free_frames sample_sched - 1,
     tasks := sample_tasks(0x8000 := zero_task\<lparr>t_priority := 7, t_kernel_stack := 0x9000, t_kernel_stack_size := 4096\<rparr>),
     g_scheduler := zero_scheduler\<lparr>current_task := 0x1000,
       ready := (ready zero_scheduler)(7 := \<lparr>q_head = 0x8000, q_tail = 0x8000, q_count = 1\<rparr>),
       priority_bitmap := set_priority_bit 7 (\<lambda>_. 0)\<rparr>\<rparr>"

lemma sample_managed_pages:
  "pmm_inv sample_frames sample_managed" "avail_pages sample_managed = (\<lambda>f. f * FRAME_SIZE) ` {10, 11, 12, 13, 14, 15}"
proof -
  have "9 \<in> free_set sample_sched" by (simp add: sample_sched_free)
  from pmm_inv_alloc [OF sample_sched_pmm this] show "pmm_inv sample_frames sample_managed"
    by (simp add: sample_managed_def)
  show "avail_pages sample_managed = (\<lambda>f. f * FRAME_SIZE) ` {10, 11, 12, 13, 14, 15}"
    by (simp add: sample_managed_def avail_pages_def sample_sched_free)
qed

lemma sample_managed_kernel: "kernel_inv sample_frames sample_managed ((\<lambda>_. [])(7 := [0x8000]))"
proof -
  have f: "idle_task sample_managed = 0x1000" "current_task (g_scheduler sample_managed) = 0x1000"
    "ready (g_scheduler sample_managed) = (ready zero_scheduler)(7 := \<lparr>q_head = 0x8000, q_tail = 0x8000, q_count = 1\<rparr>)"
    "priority_bitmap (g_scheduler sample_managed) = set_priority_bit 7 (\<lambda>_. 0)"
    "tasks sample_managed = sample_tasks(0x8000 := zero_task\<lparr>t_priority := 7, t_kernel_stack := 0x9000, t_kernel_stack_size := 4096\<rparr>)"
    by (simp_all add: sample_managed_def bitmap_or_bit_def Let_def sample_sched_fields)
  have "represents sample_managed ((\<lambda>_. [])(7 := [0x8000]))"
    by (simp add: represents_def queue_ok_def f zero_scheduler_def zero_task_def priority_bits.test_set_at
        prio_test_def [of "\<lambda>_. 0"])
  then have "sched_inv sample_managed ((\<lambda>_. [])(7 := [0x8000]))"
    by (simp add: sched_inv_def Let_def f sample_tasks_def zero_task_def)
  moreover have "live_tasks sample_managed ((\<lambda>_. [])(7 := [0x8000])) = {0x1000, 0x8000}"
    by (auto simp: live_tasks_def f split: if_splits)
  ultimately show ?thesis by (simp add: kernel_inv_def sample_managed_pages)
qed

theorem task_destroy_leaves_queued_witness:
  "\<exists>s'. task_destroy 0x8000 sample_managed = Inr s' \<and> represents s' ((\<lambda>_. [])(7 := [0x8000])) \<and>
     0x8000 \<in> avail_pages s'"
proof -
  have k: "t_kernel_stack (tasks sample_managed 0x8000) = 0x9000" by (simp add: sample_managed_def)
  have "{f \<in> sample_frames. f \<noteq> 0 \<and> f < MAX_FRAMES} = sample_frames" by auto
  then have "managed_pages sample_frames = (\<lambda>f. f * FRAME_SIZE) ` sample_frames" by (simp add: managed_pages_def)
  then have "{0x8000, 0x9000} \<subseteq> managed_pages sample_frames - avail_pages sample_managed"
    by (simp add: sample_managed_pages)
  then show ?thesis
    using task_destroy_leaves_queued [OF sample_managed_kernel, of "0x8000" 7] k by auto
qed

text \<open>
  \<^verbatim>\<open>task_init\<close> followed by \<^verbatim>\<open>scheduler_init\<close>, with two free pages, establishes the
  kernel's invariant: the boot code runs as a bootstrap task that is already
  dead and queued nowhere, and the idle task, at its entry point, is the only
  ready task, so the first call of \<^verbatim>\<open>schedule\<close> switches to it.
\<close>

theorem task_boot_correct:
  assumes "pmm_inv M s" and "2 \<le> card (avail_pages s)" and "b \<noteq> 0" and "b \<notin> avail_pages s"
  shows "\<exists>s1 s2 s3 i. task_init e s = Inr s1 \<and> scheduler_init b s1 = Inr s2 \<and>
    kernel_inv M s2 ((\<lambda>_. [])(0 := [i])) \<and> task_current s2 = b \<and> task_get_idle s2 = i \<and>
    ctx_eip (t_context (tasks s1 i)) = e \<and> schedule s2 = Inr (SwitchTo i, s3)"
proof -
  from task_init_spec [OF assms(1,2), of e] obtain i s1 where
    s1: "task_init e s = Inr s1" "pmm_inv M s1" "i \<in> avail_pages s" "i \<noteq> 0" "i \<notin> avail_pages s1"
      "avail_pages s1 \<subseteq> avail_pages s" "idle_task s1 = i" "t_priority (tasks s1 i) = 0"
      "ctx_eip (t_context (tasks s1 i)) = e" by blast
  have b: "b \<noteq> idle_task s1" "b \<notin> avail_pages s1" using s1(3,6,7) assms(4) by auto
  from scheduler_init_spec [OF s1(2), of b] s1 b assms(3) obtain s2 where
    s2: "scheduler_init b s1 = Inr s2" "kernel_inv M s2 ((\<lambda>_. [])(0 := [i]))" "current_task (g_scheduler s2) = b"
      "idle_task s2 = i" by auto
  have si: "sched_inv s2 ((\<lambda>_. [])(0 := [i]))" using s2(2) by (simp add: kernel_inv_def)
  have "\<forall>r > 0 :: u8. ((\<lambda>_. [])(0 := [i])) r = []" by auto
  with schedule_switch [OF si, of 0] have "\<exists>s3. schedule s2 = Inr (SwitchTo i, s3)" by auto
  with s1(1,9) s2 show ?thesis
    by (auto simp: task_current_def scheduler_current_def task_get_idle_def)
qed

theorem task_boot_correct_witness:
  "\<exists>s1 s2 s3 i. task_init 0x100300 sample_sched0 = Inr s1 \<and> scheduler_init 0x104000 s1 = Inr s2 \<and>
     schedule s2 = Inr (SwitchTo i, s3)"
proof -
  have "frame_bitmap sample_sched = frame_bitmap sample_sched0" "same_pages sample_sched sample_sched0"
    by (simp_all add: sample_sched_def same_pages_def)
  then have "pmm_inv sample_frames sample_sched0" "avail_pages sample_sched0 = avail_pages sample_sched"
    using sample_sched_pmm by (simp_all add: same_pages_def)
  then show ?thesis
    using task_boot_correct [of sample_frames sample_sched0 "0x104000" "0x100300"]
    by (auto simp: sample_sched_avail)
qed

end
