(* ===== verification/Port_Io.thy ===== *)
theory Port_Io
  imports Kernel_Prelude
begin

text \<open>
  Port input and output, the \<^verbatim>\<open>io_*\<close> operations of \<^verbatim>\<open>arch/x86/hal.c\<close> that every
  driver calls through the global pointer \<^verbatim>\<open>hal\<close>. The machine answers a read with
  a value that may depend on the port and on the moment; the moment is the number
  of port accesses so far. Writes are kept in order in a log.
\<close>

datatype io_write = OutB u16 u8 | OutW u16 u16 | OutL u16 u32

text \<open>\<open>hal_set\<close> says that \<^verbatim>\<open>hal\<close> is not \<^verbatim>\<open>NULL\<close>; \<open>port_in\<close> is the machine's answer.\<close>

record io_st =
  hal_set :: bool
  port_in :: "nat \<Rightarrow> u16 \<Rightarrow> u32"
  io_time :: nat
  port_log :: "io_write list"

definition log_write :: "io_write \<Rightarrow> 'a io_st_scheme \<Rightarrow> 'a io_st_scheme" where
  "log_write w s = s\<lparr>io_time := io_time s + 1, port_log := port_log s @ [w]\<rparr>"

definition io_outb :: "u16 \<Rightarrow> u8 \<Rightarrow> 'a io_st_scheme \<Rightarrow> 'a io_st_scheme" where
  "io_outb port value s = log_write (OutB port value) s"

definition io_outw :: "u16 \<Rightarrow> u16 \<Rightarrow> 'a io_st_scheme \<Rightarrow> 'a io_st_scheme" where
  "io_outw port value s = log_write (OutW port value) s"

definition io_outl :: "u16 \<Rightarrow> u32 \<Rightarrow> 'a io_st_scheme \<Rightarrow> 'a io_st_scheme" where
  "io_outl port value s = log_write (OutL port value) s"

definition io_inl :: "u16 \<Rightarrow> 'a io_st_scheme \<Rightarrow> u32 \<times> 'a io_st_scheme" where
  "io_inl port s = (port_in s (io_time s) port, s\<lparr>io_time := io_time s + 1\<rparr>)"

definition io_inw :: "u16 \<Rightarrow> 'a io_st_scheme \<Rightarrow> u16 \<times> 'a io_st_scheme" where
  "io_inw port s = (ucast (port_in s (io_time s) port), s\<lparr>io_time := io_time s + 1\<rparr>)"

definition io_inb :: "u16 \<Rightarrow> 'a io_st_scheme \<Rightarrow> u8 \<times> 'a io_st_scheme" where
  "io_inb port s = (ucast (port_in s (io_time s) port), s\<lparr>io_time := io_time s + 1\<rparr>)"

text \<open>\<^verbatim>\<open>system_reboot\<close>: the keyboard controller resets the machine; \<^verbatim>\<open>int $0xFF\<close> follows if it did not.\<close>

definition system_reboot :: "'a io_st_scheme \<Rightarrow> 'a io_st_scheme" where
  "system_reboot s = io_outb 0x64 0xFE s"

text \<open>A driver that only writes: its bytes are appended to the log.\<close>

definition io_outbs :: "(u16 \<times> u8) list \<Rightarrow> 'a io_st_scheme \<Rightarrow> 'a io_st_scheme" where
  "io_outbs ws s = fold (\<lambda>(p, v). io_outb p v) ws s"

lemma io_outb_simps [simp, frame_simps]:
  "hal_set (io_outb p v s) = hal_set s" "port_in (io_outb p v s) = port_in s"
  "io_time (io_outb p v s) = io_time s + 1" "port_log (io_outb p v s) = port_log s @ [OutB p v]"
  "io_st.more (io_outb p v s) = io_st.more s"
  by (simp_all add: io_outb_def log_write_def)

lemma io_inb_simps [simp, frame_simps]:
  "hal_set (snd (io_inb p s)) = hal_set s" "port_in (snd (io_inb p s)) = port_in s"
  "io_time (snd (io_inb p s)) = io_time s + 1" "port_log (snd (io_inb p s)) = port_log s"
  "io_st.more (snd (io_inb p s)) = io_st.more s"
  "fst (io_inb p s) = ucast (port_in s (io_time s) p)"
  by (simp_all add: io_inb_def)

lemma io_outbs_simps [simp]:
  "hal_set (io_outbs ws s) = hal_set s" "port_in (io_outbs ws s) = port_in s"
  "io_st.more (io_outbs ws s) = io_st.more s"
  "port_log (io_outbs ws s) = port_log s @ map (\<lambda>(p, v). OutB p v) ws"
  by (induction ws arbitrary: s) (auto simp: io_outbs_def)

end
