(* ===== verification/Idt.thy ===== *)
theory Idt
  imports Task Port_Io
begin

text \<open>
  The interrupt descriptor table and the common interrupt handlers of
  \<^verbatim>\<open>arch/x86/idt.c\<close>, with the interrupt masking of \<^verbatim>\<open>include/kernel/idt.h\<close>. The
  addresses of the assembly stubs are the linker's; a registered handler is
  called through the argument \<open>call\<close>, which gives the effect of the function at an
  address. Register dumps on the console are left out.
\<close>

section \<open>Data\<close>

record idt_entry =
  offset_low :: u16
  gate_selector :: u16
  gate_zero :: u8
  type_attr :: u8
  offset_high :: u16

record interrupt_frame =
  f_ds :: u32
  f_edi :: u32
  f_esi :: u32
  f_ebp :: u32
  f_esp :: u32
  f_ebx :: u32
  f_edx :: u32
  f_ecx :: u32
  f_eax :: u32
  int_no :: u32
  err_code :: u32
  f_eip :: u32
  f_cs :: u32
  f_eflags :: u32
  f_useresp :: u32
  f_ss :: u32

text \<open>\<open>idtr\<close> is the static pointer structure (limit, base), \<open>idtr_loaded\<close> the register \<^verbatim>\<open>lidt\<close> sets.\<close>

record irq_st = sched_st +
  idt :: "u8 \<Rightarrow> idt_entry"
  idtr :: "u16 \<times> addr"
  idtr_loaded :: "u16 \<times> addr"
  interrupt_handlers :: "u8 \<Rightarrow> addr"
  ports :: io_st

text \<open>The assembly entry points.\<close>

record stubs =
  isr_stub :: "nat \<Rightarrow> addr"
  irq_stub :: "nat \<Rightarrow> addr"
  syscall_entry_int80 :: addr


section \<open>Operations\<close>

definition outb :: "u16 \<Rightarrow> u8 \<Rightarrow> 'z irq_st_scheme \<Rightarrow> 'z irq_st_scheme" where
  "outb port v s = s\<lparr>ports := io_outb port v (ports s)\<rparr>"

definition inb :: "u16 \<Rightarrow> 'z irq_st_scheme \<Rightarrow> u8 \<times> 'z irq_st_scheme" where
  "inb port s = (let (v, p) = io_inb port (ports s) in (v, s\<lparr>ports := p\<rparr>))"

definition make_gate :: "u32 \<Rightarrow> u16 \<Rightarrow> u8 \<Rightarrow> idt_entry" where
  "make_gate handler selector flags =
     \<lparr>offset_low = ucast (handler AND 0xFFFF), gate_selector = selector, gate_zero = 0, type_attr = flags,
      offset_high = ucast (drop_bit 16 handler AND 0xFFFF)\<rparr>"

definition idt_set_gate :: "u8 \<Rightarrow> u32 \<Rightarrow> u16 \<Rightarrow> u8 \<Rightarrow> 'z irq_st_scheme \<Rightarrow> 'z irq_st_scheme" where
  "idt_set_gate num handler selector flags s = s\<lparr>idt := (idt s)(num := make_gate handler selector flags)\<rparr>"

definition pic_remap :: "'z irq_st_scheme \<Rightarrow> 'z irq_st_scheme" where
  "pic_remap s =
     (let s = outb 0x20 0x11 s;
          s = outb 0xA0 0x11 s;
          s = outb 0x21 0x20 s;
          s = outb 0xA1 0x28 s;
          s = outb 0x21 0x04 s;
          s = outb 0xA1 0x02 s;
          s = outb 0x21 0x01 s;
          s = outb 0xA1 0x01 s;
          s = outb 0x21 0xFF s
      in outb 0xA1 0xFF s)"

text \<open>The clearing loop; the gate number is the loop counter cut to eight bits.\<close>

definition clear_gate :: "nat \<Rightarrow> 'z irq_st_scheme \<Rightarrow> 'z irq_st_scheme" where
  "clear_gate i s =
     idt_set_gate (of_nat i) 0 0 0 (s\<lparr>interrupt_handlers := (interrupt_handlers s)(of_nat i := 0)\<rparr>)"

definition idt_init :: "stubs \<Rightarrow> addr \<Rightarrow> 'z irq_st_scheme \<Rightarrow> 'z irq_st_scheme" where
  "idt_init st idt_addr s =
     (let s = s\<lparr>idtr := (256 * 8 - 1, idt_addr)\<rparr>;
          s = fold clear_gate [0..<256] s;
          s = pic_remap s;
          s = fold (\<lambda>i. idt_set_gate (of_nat i) (isr_stub st i) 0x08 0x8E) [0..<32] s;
          s = fold (\<lambda>i. idt_set_gate (of_nat (32 + i)) (irq_stub st i) 0x08 0x8E) [0..<16] s;
          s = idt_set_gate 0x80 (syscall_entry_int80 st) 0x08 0xEE s
      in s\<lparr>idtr_loaded := idtr s\<rparr>)"

definition idt_register_handler :: "u8 \<Rightarrow> addr \<Rightarrow> 'z irq_st_scheme \<Rightarrow> 'z irq_st_scheme" where
  "idt_register_handler num handler s = s\<lparr>interrupt_handlers := (interrupt_handlers s)(num := handler)\<rparr>"

definition idt_unregister_handler :: "u8 \<Rightarrow> 'z irq_st_scheme \<Rightarrow> 'z irq_st_scheme" where
  "idt_unregister_handler num s = s\<lparr>interrupt_handlers := (interrupt_handlers s)(num := 0)\<rparr>"

text \<open>The wrappers of \<^verbatim>\<open>arch/x86/hal.c\<close>.\<close>

definition irq_register :: "u8 \<Rightarrow> addr \<Rightarrow> 'z irq_st_scheme \<Rightarrow> int \<times> 'z irq_st_scheme" where
  "irq_register vector handler s = (0, idt_register_handler vector handler s)"

definition irq_unregister :: "u8 \<Rightarrow> 'z irq_st_scheme \<Rightarrow> 'z irq_st_scheme" where
  "irq_unregister vector s = idt_unregister_handler vector s"

definition irq_port :: "u8 \<Rightarrow> u16 \<times> u8" where
  "irq_port irq = (if irq < 8 then (0x21, irq) else (0xA1, irq - 8))"

definition irq_clear_mask :: "u8 \<Rightarrow> 'z irq_st_scheme \<Rightarrow> 'z irq_st_scheme" where
  "irq_clear_mask irq s =
     (let (port, irq) = irq_port irq;
          (mask, s) = inb port s
      in outb port (mask AND NOT (push_bit (unat irq) 1)) s)"

definition irq_set_mask :: "u8 \<Rightarrow> 'z irq_st_scheme \<Rightarrow> 'z irq_st_scheme" where
  "irq_set_mask irq s =
     (let (port, irq) = irq_port irq;
          (mask, s) = inb port s
      in outb port (mask OR push_bit (unat irq) 1) s)"

type_synonym 'z handler_fn = "addr \<Rightarrow> interrupt_frame \<Rightarrow> 'z irq_st_scheme \<Rightarrow> fault + 'z irq_st_scheme"

text \<open>
  \<^verbatim>\<open>interrupt_handlers\<close> has 256 entries and \<^verbatim>\<open>exception_messages\<close> 32; the index is
  the 32-bit vector number of the frame. An exception without a handler ends in
  \<^verbatim>\<open>kernel_panic\<close>.
\<close>

definition isr_handler :: "'z handler_fn \<Rightarrow> interrupt_frame \<Rightarrow> 'z irq_st_scheme \<Rightarrow> fault + 'z irq_st_scheme" where
  "isr_handler call frame s =
     (if int_no frame \<ge> 256 then Inl OutOfBounds
      else if interrupt_handlers s (ucast (int_no frame)) \<noteq> 0 then
        call (interrupt_handlers s (ucast (int_no frame))) frame s
      else if int_no frame \<ge> 32 then Inl OutOfBounds
      else Inl (AssertFailed ''Unhandled exception''))"

text \<open>The two writes of the end-of-interrupt command.\<close>

definition send_eoi :: "u32 \<Rightarrow> 'z irq_st_scheme \<Rightarrow> 'z irq_st_scheme" where
  "send_eoi n s =
     (let s = (if n \<ge> 40 then outb 0xA0 0x20 s else s)
      in outb 0x20 0x20 s)"

definition irq_handler ::
  "'z handler_fn \<Rightarrow> interrupt_frame \<Rightarrow> 'z irq_st_scheme \<Rightarrow> fault + switch \<times> 'z irq_st_scheme" where
  "irq_handler call frame s =
     (if int_no frame \<ge> 256 then Inl OutOfBounds
      else
        andthen
          (if interrupt_handlers s (ucast (int_no frame)) \<noteq> 0
           then call (interrupt_handlers s (ucast (int_no frame))) frame s
           else Inr s) (\<lambda>s.
        let s = send_eoi (int_no frame) s
        in if scheduler_need_resched s then schedule s else Inr (Stay, s)))"


section \<open>Gates\<close>

text \<open>What the processor reads from a gate: the handler, the code segment, the flags.\<close>

definition gate_offset :: "idt_entry \<Rightarrow> u32" where
  "gate_offset e = ucast (offset_low e) OR push_bit 16 (ucast (offset_high e))"

definition gate_present :: "idt_entry \<Rightarrow> bool" where
  "gate_present e = bit (type_attr e) 7"

definition gate_dpl :: "idt_entry \<Rightarrow> u8" where
  "gate_dpl e = drop_bit 5 (type_attr e) AND 3"

lemma gate_offset_make_gate [simp]: "gate_offset (make_gate handler selector flags) = handler"
proof -
  have m: "(0xFFFF :: u32) = mask 16" by (simp add: mask_eq_exp_minus_1)
  show ?thesis
    unfolding gate_offset_def make_gate_def m by (rule bit_word_eqI) (auto simp: bit_simps)
qed

interpretation gate_codec: codec "\<lambda>(handler, selector, flags). make_gate handler selector flags"
  "\<lambda>e. (gate_offset e, gate_selector e, type_attr e)" "\<lambda>_. True"
  by unfold_locales (auto, simp_all add: make_gate_def)

lemma gate_flags [simp]:
  "type_attr (make_gate h sel fl) = fl" "gate_selector (make_gate h sel fl) = sel"
  by (simp_all add: make_gate_def)

lemma idt_set_gate_simps [simp]:
  "idt (idt_set_gate v h sel fl s) = (idt s)(v := make_gate h sel fl)"
  "idtr (idt_set_gate v h sel fl s) = idtr s" "ports (idt_set_gate v h sel fl s) = ports s"
  "interrupt_handlers (idt_set_gate v h sel fl s) = interrupt_handlers s"
  by (simp_all add: idt_set_gate_def)

lemma outb_simps [simp]:
  "idt (outb p v s) = idt s" "idtr (outb p v s) = idtr s" "interrupt_handlers (outb p v s) = interrupt_handlers s"
  "ports (outb p v s) = io_outb p v (ports s)" "idtr_loaded (outb p v s) = idtr_loaded s"
  "sched_st.truncate (outb p v s) = sched_st.truncate s"
  by (simp_all add: outb_def sched_st.truncate_def)

lemma irq_truncate_upd [simp]:
  "sched_st.truncate (s\<lparr>idtr := x\<rparr>) = sched_st.truncate s" "sched_st.truncate (s\<lparr>idtr_loaded := x\<rparr>) = sched_st.truncate s"
  "sched_st.truncate (idt_set_gate v h sel fl s) = sched_st.truncate s" "sched_st.truncate (clear_gate i s) = sched_st.truncate s"
  by (simp_all add: idt_set_gate_def clear_gate_def sched_st.truncate_def)

lemma u8_of_nat_eq: "i < 256 \<Longrightarrow> (v :: u8) = of_nat i \<longleftrightarrow> unat v = i"
  by (auto simp: word_unat_eq_iff unsigned_of_nat take_bit_eq_mod)

lemma set_gates:
  "k + n \<le> 256 \<Longrightarrow> idt (fold (\<lambda>i. idt_set_gate (of_nat (k + i)) (f i) sel fl) [0..<n] s) v =
     (if k \<le> unat v \<and> unat v < k + n then make_gate (f (unat v - k)) sel fl else idt s v)"
proof (induction n)
  case 0
  then show ?case by auto
next
  case (Suc n)
  have "v = of_nat (k + n) \<longleftrightarrow> unat v = k + n" using Suc.prems by (intro u8_of_nat_eq) simp
  then show ?case using Suc by (auto simp: less_Suc_eq)
qed

lemma set_gates_frame [simp]:
  "idtr (fold (\<lambda>i. idt_set_gate (g i) (f i) sel fl) js s) = idtr s"
  "ports (fold (\<lambda>i. idt_set_gate (g i) (f i) sel fl) js s) = ports s"
  "interrupt_handlers (fold (\<lambda>i. idt_set_gate (g i) (f i) sel fl) js s) = interrupt_handlers s"
  "sched_st.truncate (fold (\<lambda>i. idt_set_gate (g i) (f i) sel fl) js s) = sched_st.truncate s"
  by (induction js arbitrary: s) simp_all

lemma clear_gates:
  "n \<le> 256 \<Longrightarrow> unat v < n \<Longrightarrow> idt (fold clear_gate [0..<n] s) v = make_gate 0 0 0
    \<and> interrupt_handlers (fold clear_gate [0..<n] s) v = 0"
proof (induction n)
  case 0
  then show ?case by simp
next
  case (Suc n)
  have "v = of_nat n \<longleftrightarrow> unat v = n" using Suc.prems by (intro u8_of_nat_eq) simp
  then show ?case using Suc by (auto simp: clear_gate_def less_Suc_eq)
qed

lemma clear_gates_frame [simp]:
  "idtr (fold clear_gate js s) = idtr s" "ports (fold clear_gate js s) = ports s"
  "sched_st.truncate (fold clear_gate js s) = sched_st.truncate s"
  by (induction js arbitrary: s) (simp_all, simp_all add: clear_gate_def)

definition pic_writes :: "io_write list" where
  "pic_writes = [OutB 0x20 0x11, OutB 0xA0 0x11, OutB 0x21 0x20, OutB 0xA1 0x28, OutB 0x21 0x04,
     OutB 0xA1 0x02, OutB 0x21 0x01, OutB 0xA1 0x01, OutB 0x21 0xFF, OutB 0xA1 0xFF]"

lemma pic_remap_frame [simp]:
  "idt (pic_remap s) = idt s" "idtr (pic_remap s) = idtr s" "interrupt_handlers (pic_remap s) = interrupt_handlers s"
  "port_log (ports (pic_remap s)) = port_log (ports s) @ pic_writes" "io_time (ports (pic_remap s)) = io_time (ports s) + 10"
  "port_in (ports (pic_remap s)) = port_in (ports s)" "sched_st.truncate (pic_remap s) = sched_st.truncate s"
  by (simp_all add: pic_remap_def Let_def pic_writes_def)

text \<open>The table that \<^verbatim>\<open>idt_init\<close> leaves, gate by gate.\<close>

lemma idt_init_gate:
  fixes s :: "'z irq_st_scheme" and st :: stubs and idt_addr :: addr
  defines "s' \<equiv> idt_init st idt_addr s"
  shows "idt s' v = (if unat v < 32 then make_gate (isr_stub st (unat v)) 0x08 0x8E
      else if unat v < 48 then make_gate (irq_stub st (unat v - 32)) 0x08 0x8E
      else if v = 0x80 then make_gate (syscall_entry_int80 st) 0x08 0xEE else make_gate 0 0 0)"
    and "interrupt_handlers s' v = 0"
proof -
  define s1 where "s1 = pic_remap (fold clear_gate [0..<256] (s\<lparr>idtr := (256 * 8 - 1, idt_addr)\<rparr>))"
  define s2 where "s2 = fold (\<lambda>i. idt_set_gate (of_nat i) (isr_stub st i) 0x08 0x8E) [0..<32] s1"
  define s3 where "s3 = fold (\<lambda>i. idt_set_gate (of_nat (32 + i)) (irq_stub st i) 0x08 0x8E) [0..<16] s2"
  have s': "s' = (idt_set_gate 0x80 (syscall_entry_int80 st) 0x08 0xEE s3)\<lparr>idtr_loaded := idtr s3\<rparr>"
    by (simp add: s'_def idt_init_def Let_def s1_def s2_def s3_def)
  have v256: "unat v < 256" for v :: u8 using unsigned_less [of v] by simp
  have i1: "idt s1 v = make_gate 0 0 0" "interrupt_handlers s1 v = 0" for v
    using clear_gates [of 256 v "s\<lparr>idtr := (256 * 8 - 1, idt_addr)\<rparr>"] v256 by (simp_all add: s1_def)
  have i2: "idt s2 v = (if unat v < 32 then make_gate (isr_stub st (unat v)) 0x08 0x8E else make_gate 0 0 0)" for v
    using set_gates [of 0 32 "isr_stub st" "0x08" "0x8E" s1 v] by (simp add: s2_def i1)
  have i3: "idt s3 v = (if unat v < 32 then make_gate (isr_stub st (unat v)) 0x08 0x8E
      else if unat v < 48 then make_gate (irq_stub st (unat v - 32)) 0x08 0x8E else make_gate 0 0 0)" for v
    using set_gates [of 32 16 "irq_stub st" "0x08" "0x8E" s2 v] by (simp add: s3_def i2)
  show "idt s' v = (if unat v < 32 then make_gate (isr_stub st (unat v)) 0x08 0x8E
      else if unat v < 48 then make_gate (irq_stub st (unat v - 32)) 0x08 0x8E
      else if v = 0x80 then make_gate (syscall_entry_int80 st) 0x08 0xEE else make_gate 0 0 0)"
    by (simp add: s' i3)
  show "interrupt_handlers s' v = 0" by (simp add: s' s3_def s2_def i1)
qed

lemma idt_init_spec:
  fixes s :: "'z irq_st_scheme" and st :: stubs and idt_addr :: addr
  defines "s' \<equiv> idt_init st idt_addr s"
  shows "(\<forall>v. gate_offset (idt s' v) =
        (if unat v < 32 then isr_stub st (unat v)
         else if unat v < 48 then irq_stub st (unat v - 32)
         else if v = 0x80 then syscall_entry_int80 st else 0))
    \<and> (\<forall>v. gate_present (idt s' v) \<longleftrightarrow> unat v < 48 \<or> v = 0x80)
    \<and> (\<forall>v. gate_present (idt s' v) \<and> gate_dpl (idt s' v) = 3 \<longleftrightarrow> v = 0x80)
    \<and> (\<forall>v. gate_selector (idt s' v) = (if gate_present (idt s' v) then 0x08 else 0))
    \<and> idtr_loaded s' = (2047, idt_addr) \<and> (\<forall>v. interrupt_handlers s' v = 0)
    \<and> port_log (ports s') = port_log (ports s) @ pic_writes \<and> sched_st.truncate s' = sched_st.truncate s
    \<and> port_in (ports s') = port_in (ports s) \<and> io_time (ports s') = io_time (ports s) + 10"
proof -
  define s1 where "s1 = pic_remap (fold clear_gate [0..<256] (s\<lparr>idtr := (256 * 8 - 1, idt_addr)\<rparr>))"
  define s2 where "s2 = fold (\<lambda>i. idt_set_gate (of_nat i) (isr_stub st i) 0x08 0x8E) [0..<32] s1"
  define s3 where "s3 = fold (\<lambda>i. idt_set_gate (of_nat (32 + i)) (irq_stub st i) 0x08 0x8E) [0..<16] s2"
  have s': "s' = (idt_set_gate 0x80 (syscall_entry_int80 st) 0x08 0xEE s3)\<lparr>idtr_loaded := idtr s3\<rparr>"
    by (simp add: s'_def idt_init_def Let_def s1_def s2_def s3_def)
  note gate = idt_init_gate(1) [of st idt_addr s, folded s'_def]
  have p: "gate_present (idt s' v) \<longleftrightarrow> unat v < 48 \<or> v = 0x80" for v
    by (simp add: gate gate_present_def)
  have "gate_present (idt s' v) \<and> gate_dpl (idt s' v) = 3 \<longleftrightarrow> v = 0x80" for v
    unfolding p by (simp add: gate gate_dpl_def)
  moreover have "\<forall>v. interrupt_handlers s' v = 0" by (simp add: s'_def idt_init_gate(2))
  moreover have "idtr_loaded s' = (2047, idt_addr)" "port_log (ports s') = port_log (ports s) @ pic_writes"
    by (simp_all add: s' s3_def s2_def s1_def)
  moreover have "sched_st.truncate s' = sched_st.truncate s" "port_in (ports s') = port_in (ports s)"
    "io_time (ports s') = io_time (ports s) + 10"
    by (simp_all add: s' s3_def s2_def s1_def)
  ultimately show ?thesis using p by (simp add: gate)
qed

text \<open>
  \<^verbatim>\<open>idt_init\<close> loads a table in which the vectors below 32 enter their exception
  stubs, 32 to 47 their interrupt stubs, 0x80 the system call entry, all in the
  kernel code segment, and every other vector is absent; the only gate that user
  code may call is 0x80. No handler is registered, the interrupt controllers map
  their lines to 32 to 47, and all lines are masked.
\<close>

theorem idt_init_correct:
  fixes s :: "'z irq_st_scheme" and st :: stubs and idt_addr :: addr
  defines "s' \<equiv> idt_init st idt_addr s"
  shows "(\<forall>v. gate_offset (idt s' v) =
        (if unat v < 32 then isr_stub st (unat v)
         else if unat v < 48 then irq_stub st (unat v - 32)
         else if v = 0x80 then syscall_entry_int80 st else 0))
    \<and> (\<forall>v. gate_present (idt s' v) \<longleftrightarrow> unat v < 48 \<or> v = 0x80)
    \<and> (\<forall>v. gate_present (idt s' v) \<and> gate_dpl (idt s' v) = 3 \<longleftrightarrow> v = 0x80)
    \<and> (\<forall>v. gate_selector (idt s' v) = (if gate_present (idt s' v) then 0x08 else 0))
    \<and> idtr_loaded s' = (2047, idt_addr) \<and> (\<forall>v. interrupt_handlers s' v = 0)
    \<and> port_log (ports s') = port_log (ports s) @ pic_writes"
  using idt_init_spec [of st idt_addr s, folded s'_def] by blast

end
