(* ===== verification/Percpu.thy ===== *)
theory Percpu
  imports Kernel_Prelude
begin

text \<open>
  The per-CPU data of \<^verbatim>\<open>core/percpu.c\<close>: initialisation and the trace ring of each
  CPU. A ring of \<^verbatim>\<open>TRACE_BUFFER_SIZE\<close> slots holds at most one event less than
  that; it implements a bounded first-in first-out buffer that drops new events
  when it is full and counts them. \<^verbatim>\<open>hal->cpu_id()\<close> is 0 on this single-CPU
  port. The time stamp counter is an argument of \<open>trace_event\<close>.
\<close>

section \<open>A bounded buffer that drops\<close>

locale dropping_fifo =
  fixes inv :: "'b \<Rightarrow> bool"
    and contents :: "'b \<Rightarrow> 'e list"
    and lost :: "'b \<Rightarrow> u32"
    and put :: "'e \<Rightarrow> 'b \<Rightarrow> 'b"
    and get :: "nat \<Rightarrow> 'b \<Rightarrow> 'e list \<times> 'b"
    and cap :: nat
  assumes inv_put: "inv b \<Longrightarrow> inv (put e b)"
    and inv_get: "inv b \<Longrightarrow> inv (snd (get n b))"
    and contents_put: "inv b \<Longrightarrow>
      contents (put e b) = (if length (contents b) < cap then contents b @ [e] else contents b)"
    and lost_put: "inv b \<Longrightarrow> lost (put e b) = (if length (contents b) < cap then lost b else lost b + 1)"
    and fst_get: "inv b \<Longrightarrow> fst (get n b) = take n (contents b)"
    and contents_get: "inv b \<Longrightarrow> contents (snd (get n b)) = drop n (contents b)"
    and lost_get: "inv b \<Longrightarrow> lost (snd (get n b)) = lost b"
begin

lemma inv_puts: "inv b \<Longrightarrow> inv (fold put es b)"
  by (induction es arbitrary: b) (simp_all add: inv_put)

lemma contents_puts:
  "inv b \<Longrightarrow> length (contents b) \<le> cap \<Longrightarrow>
     contents (fold put es b) = contents b @ take (cap - length (contents b)) es"
proof (induction es arbitrary: b)
  case Nil
  then show ?case by simp
next
  case (Cons e es)
  then show ?case
    using Cons.IH [of "put e b"] by (auto simp: inv_put contents_put take_Cons' Suc_diff_Suc)
qed

lemma lost_puts:
  "inv b \<Longrightarrow> length (contents b) \<le> cap \<Longrightarrow>
     lost (fold put es b) = lost b + of_nat (length es - (cap - length (contents b)))"
proof (induction es arbitrary: b)
  case Nil
  then show ?case by simp
next
  case (Cons e es)
  show ?case
  proof (cases "length (contents b) < cap")
    case True
    then show ?thesis
      using Cons.IH [of "put e b"] Cons.prems by (simp add: inv_put contents_put lost_put Suc_diff_Suc)
  next
    case False
    then show ?thesis
      using Cons.IH [of "put e b"] Cons.prems by (simp add: inv_put contents_put lost_put)
  qed
qed

text \<open>What is read back is the oldest events, in the order they were put.\<close>

lemma get_puts:
  assumes "inv b" and "contents b = []"
  shows "fst (get n (fold put es b)) = take (min n cap) es"
    and "lost (snd (get n (fold put es b))) = lost b + of_nat (length es - cap)"
    and "contents (snd (get n (fold put es b))) = drop n (take cap es)"
  using assms contents_puts [of b es] lost_puts [of b es]
  by (simp_all add: fst_get lost_get contents_get inv_puts min.commute)

end


section \<open>Data\<close>

abbreviation MAX_CPUS :: u32 where "MAX_CPUS \<equiv> 256"

abbreviation TRACE_BUFFER_SIZE :: u32 where "TRACE_BUFFER_SIZE \<equiv> 1024"

abbreviation EINVAL :: int where "EINVAL \<equiv> 22"

datatype trace_event_type = TRACE_INTERRUPT | TRACE_SCHEDULE | TRACE_TASK_SWITCH | TRACE_SYSCALL
  | TRACE_IPI | TRACE_TLB_FLUSH | TRACE_CUSTOM

fun trace_type_code :: "trace_event_type \<Rightarrow> u32" where
  "trace_type_code TRACE_INTERRUPT = 0"
| "trace_type_code TRACE_SCHEDULE = 1"
| "trace_type_code TRACE_TASK_SWITCH = 2"
| "trace_type_code TRACE_SYSCALL = 3"
| "trace_type_code TRACE_IPI = 4"
| "trace_type_code TRACE_TLB_FLUSH = 5"
| "trace_type_code TRACE_CUSTOM = 6"

record trace_event =
  ev_timestamp :: u64
  ev_cpu_id :: u32
  ev_type :: u32
  ev_data :: "u64 list"

record trace_buffer =
  tb_events :: "trace_event list"
  tb_head :: u32
  tb_tail :: u32
  tb_overflow :: u32

record list_head =
  lh_next :: addr
  lh_prev :: addr

record per_cpu_data =
  pc_cpu_id :: u32
  pc_online :: bool
  pc_current_task :: addr
  pc_kernel_stack :: addr
  pc_idle_task :: addr
  pc_run_queue :: list_head
  pc_ticks :: u64
  pc_context_switches :: u64
  pc_slab_cache :: addr
  pc_trace :: trace_buffer
  pc_interrupts_handled :: u64
  pc_ipis_received :: u64
  pc_tlb_flushes :: u64

text \<open>
  The array \<^verbatim>\<open>per_cpu\<close> and the count of CPUs. \<open>per_cpu_base\<close> is the address the linker
  gives the array; \<^verbatim>\<open>struct per_cpu_data\<close> takes 49280 bytes (48 bytes an event, the
  whole rounded up to 64), with \<^verbatim>\<open>run_queue\<close> 20 bytes from its start.
\<close>

record percpu_st =
  per_cpu :: "per_cpu_data list"
  per_cpu_base :: addr
  num_cpus_online :: u32


section \<open>Operations\<close>

definition atomic_inc :: "u32 \<Rightarrow> u32" where
  "atomic_inc v = v + 1"

definition list_init :: "addr \<Rightarrow> list_head" where
  "list_init list = \<lparr>lh_next = list, lh_prev = list\<rparr>"

definition list_empty :: "addr \<Rightarrow> list_head \<Rightarrow> bool" where
  "list_empty list h \<longleftrightarrow> lh_next h = list"

definition run_queue_addr :: "percpu_st \<Rightarrow> u32 \<Rightarrow> addr" where
  "run_queue_addr s c = per_cpu_base s + c * 49280 + 20"

text \<open>The only implementation of \<^verbatim>\<open>hal->cpu_id\<close>, in \<^verbatim>\<open>arch/x86/hal.c\<close>.\<close>

definition cpu_id :: u32 where
  "cpu_id = 0"

definition percpu_init_cpu :: "u32 \<Rightarrow> percpu_st \<Rightarrow> percpu_st" where
  "percpu_init_cpu c s =
     (if c \<ge> MAX_CPUS then s
      else
        let cpu = per_cpu s ! unat c;
            cpu = cpu\<lparr>pc_cpu_id := c, pc_online := True, pc_current_task := 0, pc_kernel_stack := 0,
              pc_idle_task := 0, pc_ticks := 0, pc_context_switches := 0, pc_interrupts_handled := 0,
              pc_ipis_received := 0, pc_tlb_flushes := 0\<rparr>;
            cpu = cpu\<lparr>pc_run_queue := list_init (run_queue_addr s c)\<rparr>;
            cpu = cpu\<lparr>pc_trace := (pc_trace cpu)\<lparr>tb_head := 0, tb_tail := 0, tb_overflow := 0\<rparr>\<rparr>;
            cpu = cpu\<lparr>pc_slab_cache := 0\<rparr>
        in s\<lparr>per_cpu := (per_cpu s)[unat c := cpu]\<rparr>)"

definition percpu_init :: "percpu_st \<Rightarrow> percpu_st" where
  "percpu_init s = (percpu_init_cpu cpu_id s)\<lparr>num_cpus_online := 1\<rparr>"

text \<open>The body of \<^verbatim>\<open>trace_event\<close> on the buffer of the CPU.\<close>

definition trace_put :: "trace_event \<Rightarrow> trace_buffer \<Rightarrow> trace_buffer" where
  "trace_put event trace =
     (let head = tb_head trace;
          nx = (head + 1) mod TRACE_BUFFER_SIZE
      in if nx = tb_tail trace then trace\<lparr>tb_overflow := atomic_inc (tb_overflow trace)\<rparr>
         else trace\<lparr>tb_events := (tb_events trace)[unat head := event], tb_head := nx\<rparr>)"

definition trace_event :: "u64 \<Rightarrow> trace_event_type \<Rightarrow> u64 \<Rightarrow> u64 \<Rightarrow> u64 \<Rightarrow> u64 \<Rightarrow> percpu_st \<Rightarrow> percpu_st" where
  "trace_event tsc type d0 d1 d2 d3 s =
     (let cpu = per_cpu s ! unat cpu_id;
          event = \<lparr>ev_timestamp = tsc, ev_cpu_id = pc_cpu_id cpu, ev_type = trace_type_code type,
            ev_data = [d0, d1, d2, d3]\<rparr>
      in s\<lparr>per_cpu := (per_cpu s)[unat cpu_id := cpu\<lparr>pc_trace := trace_put event (pc_trace cpu)\<rparr>]\<rparr>)"

text \<open>The loop of \<^verbatim>\<open>trace_read\<close> with the number of events still wanted; the events copied out.\<close>

fun trace_read_loop :: "nat \<Rightarrow> trace_buffer \<Rightarrow> trace_event list \<times> trace_buffer" where
  "trace_read_loop 0 trace = ([], trace)"
| "trace_read_loop (Suc left) trace =
     (if tb_tail trace \<noteq> tb_head trace then
        let event = tb_events trace ! unat (tb_tail trace);
            (events, trace) = trace_read_loop left (trace\<lparr>tb_tail := (tb_tail trace + 1) mod TRACE_BUFFER_SIZE\<rparr>)
        in (event # events, trace)
      else ([], trace))"

definition trace_read :: "u32 \<Rightarrow> u32 \<Rightarrow> percpu_st \<Rightarrow> int \<times> trace_event list \<times> percpu_st" where
  "trace_read c count s =
     (if c \<ge> MAX_CPUS \<or> \<not> pc_online (per_cpu s ! unat c) then (- EINVAL, [], s)
      else
        let cpu = per_cpu s ! unat c;
            (events, trace) = trace_read_loop (unat count) (pc_trace cpu)
        in (int (length events), events, s\<lparr>per_cpu := (per_cpu s)[unat c := cpu\<lparr>pc_trace := trace\<rparr>]\<rparr>))"

text \<open>Work queues are stubs in the source: both functions do nothing.\<close>

definition schedule_work_on_cpu :: "u32 \<Rightarrow> addr \<Rightarrow> percpu_st \<Rightarrow> percpu_st" where
  "schedule_work_on_cpu c work s = s"

definition process_pending_work :: "percpu_st \<Rightarrow> percpu_st" where
  "process_pending_work s = s"


section \<open>The ring implements the bounded buffer\<close>

definition trace_inv :: "trace_buffer \<Rightarrow> bool" where
  "trace_inv b \<longleftrightarrow> length (tb_events b) = 1024 \<and> tb_head b < 1024 \<and> tb_tail b < 1024"

definition trace_len :: "trace_buffer \<Rightarrow> nat" where
  "trace_len b = (1024 + unat (tb_head b) - unat (tb_tail b)) mod 1024"

definition trace_contents :: "trace_buffer \<Rightarrow> trace_event list" where
  "trace_contents b = map (\<lambda>i. tb_events b ! ((unat (tb_tail b) + i) mod 1024)) [0..<trace_len b]"

lemma length_trace_contents [simp]: "length (trace_contents b) = trace_len b"
  by (simp add: trace_contents_def)

lemma unat_ring_next: "(h :: u32) < 1024 \<Longrightarrow> unat ((h + 1) mod 1024) = (unat h + 1) mod 1024"
  using unat_Suc_less [of h 1024] by (simp add: unat_mod word_less_nat_alt)

lemma ring_next_less: "(h + 1) mod 1024 < (1024 :: u32)"
  by (simp add: word_less_nat_alt unat_mod)

lemma trace_invD:
  assumes "trace_inv b"
  shows "unat (tb_head b) < 1024" "unat (tb_tail b) < 1024" "length (tb_events b) = 1024"
  using assms by (simp_all add: trace_inv_def word_less_nat_alt)

text \<open>Arithmetic of the two positions, over natural numbers.\<close>

lemma ring_mod: "x < 2048 \<Longrightarrow> x mod 1024 = (if x < 1024 then x else x - 1024 :: nat)"
  by (simp add: mod_if)

lemma ring_full_iff:
  fixes h t :: nat
  assumes "h < 1024" "t < 1024"
  shows "(h + 1) mod 1024 = t \<longleftrightarrow> \<not> (1024 + h - t) mod 1024 < 1023"
  using assms by (auto simp: ring_mod split: if_splits)

lemma ring_put_len:
  fixes h t :: nat
  assumes "h < 1024" "t < 1024" "(1024 + h - t) mod 1024 < 1023"
  shows "(1024 + (h + 1) mod 1024 - t) mod 1024 = Suc ((1024 + h - t) mod 1024)"
  using assms by (auto simp: ring_mod split: if_splits)

lemma ring_index_other:
  fixes h t :: nat
  assumes "h < 1024" "t < 1024" "i < (1024 + h - t) mod 1024"
  shows "(t + i) mod 1024 \<noteq> h"
  using assms by (auto simp: ring_mod split: if_splits)

lemma ring_index_head:
  fixes h t :: nat
  assumes "h < 1024" "t < 1024"
  shows "(t + (1024 + h - t) mod 1024) mod 1024 = h"
  using assms by (auto simp: ring_mod split: if_splits)

lemma ring_get_len:
  fixes h t :: nat
  assumes "h < 1024" "t < 1024" "t \<noteq> h"
  shows "(1024 + h - t) mod 1024 = Suc ((1024 + h - (t + 1) mod 1024) mod 1024)"
  using assms by (auto simp: ring_mod split: if_splits)

lemma trace_inv_put: "trace_inv b \<Longrightarrow> trace_inv (trace_put e b)"
  by (simp add: trace_inv_def trace_put_def Let_def ring_next_less)

lemma trace_put_full_iff:
  assumes "trace_inv b"
  shows "(tb_head b + 1) mod 1024 = tb_tail b \<longleftrightarrow> \<not> trace_len b < 1023"
proof -
  have "(tb_head b + 1) mod 1024 = tb_tail b \<longleftrightarrow> (unat (tb_head b) + 1) mod 1024 = unat (tb_tail b)"
    using assms by (simp add: word_unat_eq_iff [of "(tb_head b + 1) mod 1024"] unat_ring_next trace_inv_def)
  then show ?thesis
    using ring_full_iff [of "unat (tb_head b)" "unat (tb_tail b)"] trace_invD [OF assms]
    by (simp add: trace_len_def)
qed

lemma trace_contents_put:
  assumes "trace_inv b"
  shows "trace_contents (trace_put e b) = (if trace_len b < 1023 then trace_contents b @ [e] else trace_contents b)"
proof (cases "trace_len b < 1023")
  case True
  note i = trace_invD [OF assms]
  let ?b = "trace_put e b"
  have b: "?b = b\<lparr>tb_events := (tb_events b)[unat (tb_head b) := e], tb_head := (tb_head b + 1) mod 1024\<rparr>"
    using True trace_put_full_iff [OF assms] by (simp add: trace_put_def Let_def)
  have len: "trace_len ?b = Suc (trace_len b)"
    using ring_put_len [OF i(1,2)] True assms by (simp add: b trace_len_def unat_ring_next trace_inv_def)
  have "tb_events ?b ! ((unat (tb_tail b) + k) mod 1024) = tb_events b ! ((unat (tb_tail b) + k) mod 1024)"
    if "k < trace_len b" for k
    using that ring_index_other [OF i(1,2), of k] by (simp add: b trace_len_def)
  moreover have "tb_events ?b ! ((unat (tb_tail b) + trace_len b) mod 1024) = e"
    using ring_index_head [OF i(1,2)] i by (simp add: b trace_len_def)
  ultimately show ?thesis
    unfolding trace_contents_def len using True by (simp add: b)
next
  case False
  then show ?thesis
    using trace_put_full_iff [OF assms]
    by (simp add: trace_put_def Let_def trace_contents_def trace_len_def)
qed

lemma trace_overflow_put:
  assumes "trace_inv b"
  shows "tb_overflow (trace_put e b) = (if trace_len b < 1023 then tb_overflow b else tb_overflow b + 1)"
  using trace_put_full_iff [OF assms] by (simp add: trace_put_def Let_def atomic_inc_def)

lemma trace_read_step:
  assumes "trace_inv b" and "tb_tail b \<noteq> tb_head b"
  shows "trace_inv (b\<lparr>tb_tail := (tb_tail b + 1) mod 1024\<rparr>)"
    and "trace_contents b = tb_events b ! unat (tb_tail b) # trace_contents (b\<lparr>tb_tail := (tb_tail b + 1) mod 1024\<rparr>)"
proof -
  note i = trace_invD [OF assms(1)]
  let ?b = "b\<lparr>tb_tail := (tb_tail b + 1) mod 1024\<rparr>"
  show "trace_inv ?b" using assms(1) by (simp add: trace_inv_def ring_next_less)
  have t: "unat ((tb_tail b + 1) mod 1024) = (unat (tb_tail b) + 1) mod 1024"
    using assms(1) by (simp add: unat_ring_next trace_inv_def)
  have "trace_len b = Suc (trace_len ?b)"
    using ring_get_len [OF i(1,2)] assms(2) by (simp add: trace_len_def t word_unat_eq_iff)
  then show "trace_contents b = tb_events b ! unat (tb_tail b) # trace_contents ?b"
    using i by (simp add: trace_contents_def t upt_conv_Cons map_Suc_upt [symmetric] mod_simps
      del: upt_Suc map_Suc_upt)
qed

lemma trace_read_loop_correct:
  "trace_inv b \<Longrightarrow> trace_inv (snd (trace_read_loop n b))
    \<and> fst (trace_read_loop n b) = take n (trace_contents b)
    \<and> trace_contents (snd (trace_read_loop n b)) = drop n (trace_contents b)
    \<and> tb_overflow (snd (trace_read_loop n b)) = tb_overflow b"
proof (induction n b rule: trace_read_loop.induct)
  case (1 b)
  then show ?case by simp
next
  case (2 n b)
  show ?case
  proof (cases "tb_tail b = tb_head b")
    case True
    then have "trace_contents b = []" by (simp add: trace_contents_def trace_len_def)
    then show ?thesis using True 2(2) by simp
  next
    case False
    note step = trace_read_step [OF 2(2) False]
    show ?thesis
      using 2(1) [OF False refl step(1)] False step(2) by (simp add: Let_def split_beta)
  qed
qed

interpretation trace_ring: dropping_fifo trace_inv trace_contents tb_overflow trace_put trace_read_loop 1023
  by unfold_locales
    (simp_all add: trace_inv_put trace_contents_put trace_overflow_put trace_read_loop_correct)


section \<open>Recording and reading back\<close>

type_synonym trace_request = "u64 \<times> trace_event_type \<times> u64 \<times> u64 \<times> u64 \<times> u64"

fun record_request :: "trace_request \<Rightarrow> percpu_st \<Rightarrow> percpu_st" where
  "record_request (tsc, type, d0, d1, d2, d3) s = trace_event tsc type d0 d1 d2 d3 s"

fun event_of :: "u32 \<Rightarrow> trace_request \<Rightarrow> trace_event" where
  "event_of c (tsc, type, d0, d1, d2, d3) =
     \<lparr>ev_timestamp = tsc, ev_cpu_id = c, ev_type = trace_type_code type, ev_data = [d0, d1, d2, d3]\<rparr>"

lemma record_request_per_cpu:
  assumes "per_cpu s \<noteq> []"
  shows "per_cpu (record_request r s) = (per_cpu s)[0 := (per_cpu s ! 0)\<lparr>pc_trace :=
    trace_put (event_of (pc_cpu_id (per_cpu s ! 0)) r) (pc_trace (per_cpu s ! 0))\<rparr>]"
  using assms by (cases r) (simp add: trace_event_def Let_def cpu_id_def)

lemma record_requests_per_cpu:
  "per_cpu s \<noteq> [] \<Longrightarrow> per_cpu (fold record_request rs s) = (per_cpu s)[0 := (per_cpu s ! 0)\<lparr>pc_trace :=
    fold trace_put (map (event_of (pc_cpu_id (per_cpu s ! 0))) rs) (pc_trace (per_cpu s ! 0))\<rparr>]"
proof (induction rs arbitrary: s)
  case Nil
  then show ?case by simp
next
  case (Cons r rs)
  then show ?case
    using Cons.IH [of "record_request r s"] by (simp add: record_request_per_cpu del: record_request.simps)
qed

lemma percpu_init_boot:
  assumes "per_cpu s \<noteq> []"
  shows "pc_cpu_id (per_cpu (percpu_init s) ! 0) = 0" and "pc_online (per_cpu (percpu_init s) ! 0)"
    and "pc_trace (per_cpu (percpu_init s) ! 0) =
      (pc_trace (per_cpu s ! 0))\<lparr>tb_head := 0, tb_tail := 0, tb_overflow := 0\<rparr>"
    and "length (per_cpu (percpu_init s)) = length (per_cpu s)"
    and "\<forall>c > 0. per_cpu (percpu_init s) ! c = per_cpu s ! c"
  using assms by (simp_all add: percpu_init_def percpu_init_cpu_def cpu_id_def Let_def)

text \<open>
  C27: after \<^verbatim>\<open>percpu_init\<close>, whatever events are recorded with \<^verbatim>\<open>trace_event\<close>,
  \<^verbatim>\<open>trace_read\<close> of CPU 0 returns how many it delivers and delivers the oldest
  ones in the order of recording, up to the number asked for and at most 1023;
  the rest of the first 1023 stays for the next read, the overflow counter holds
  the number of events dropped, and no other CPU's data changes.
\<close>

theorem trace_read_correct:
  fixes s :: percpu_st and rs :: "trace_request list" and count :: u32
  assumes "length (per_cpu s) = 256" and "length (tb_events (pc_trace (per_cpu s ! 0))) = 1024"
  shows "\<exists>s'. trace_read 0 count (fold record_request rs (percpu_init s)) =
      (int (min (unat count) (min 1023 (length rs))), map (event_of 0) (take (min (unat count) 1023) rs), s')
    \<and> trace_contents (pc_trace (per_cpu s' ! 0)) = map (event_of 0) (drop (unat count) (take 1023 rs))
    \<and> tb_overflow (pc_trace (per_cpu s' ! 0)) = of_nat (length rs - 1023)
    \<and> (\<forall>c > 0. per_cpu s' ! c = per_cpu s ! c)"
proof -
  let ?s = "percpu_init s"
  let ?b = "pc_trace (per_cpu ?s ! 0)"
  let ?es = "map (event_of 0) rs"
  have ne: "per_cpu s \<noteq> []" using assms by auto
  note boot = percpu_init_boot [OF ne]
  have "per_cpu ?s \<noteq> []" using boot(4) assms by auto
  note run = record_requests_per_cpu [OF this, of rs, unfolded boot(1)]
  have inv: "trace_inv ?b" and empty: "trace_contents ?b = []" and zero: "tb_overflow ?b = 0"
    using assms by (simp_all add: boot(3) trace_inv_def trace_contents_def trace_len_def)
  note ring = trace_ring.get_puts [OF inv empty, of "unat count" ?es]
  obtain es b where eb: "trace_read_loop (unat count) (fold trace_put ?es ?b) = (es, b)"
    by fastforce
  have es: "es = map (event_of 0) (take (min (unat count) 1023) rs)"
    using ring(1) by (simp add: eb take_map)
  have len: "length es = min (unat count) (min 1023 (length rs))"
    by (simp add: es min.commute min.left_commute)
  show ?thesis
    using ring(2,3) boot assms eb by (auto simp: trace_read_def run Let_def es len [unfolded es] zero
      take_map drop_map min.commute min.left_commute)
qed

definition sample_event :: trace_event where
  "sample_event = \<lparr>ev_timestamp = 0, ev_cpu_id = 0, ev_type = 0, ev_data = [0, 0, 0, 0]\<rparr>"

definition sample_per_cpu_data :: per_cpu_data where
  "sample_per_cpu_data = \<lparr>pc_cpu_id = 0, pc_online = False, pc_current_task = 0, pc_kernel_stack = 0,
     pc_idle_task = 0, pc_run_queue = \<lparr>lh_next = 0, lh_prev = 0\<rparr>, pc_ticks = 0, pc_context_switches = 0,
     pc_slab_cache = 0, pc_trace = \<lparr>tb_events = replicate 1024 sample_event, tb_head = 0, tb_tail = 0, tb_overflow = 0\<rparr>,
     pc_interrupts_handled = 0, pc_ipis_received = 0, pc_tlb_flushes = 0\<rparr>"

definition sample_percpu :: percpu_st where
  "sample_percpu = \<lparr>per_cpu = replicate 256 sample_per_cpu_data, per_cpu_base = 0x200000, num_cpus_online = 0\<rparr>"

theorem trace_read_correct_witness:
  "\<exists>s'. trace_read 0 2 (fold record_request
       [(7, TRACE_SYSCALL, 1, 0, 0, 0), (9, TRACE_IPI, 2, 0, 0, 0), (11, TRACE_CUSTOM, 3, 0, 0, 0)]
       (percpu_init sample_percpu))
     = (2, [\<lparr>ev_timestamp = 7, ev_cpu_id = 0, ev_type = 3, ev_data = [1, 0, 0, 0]\<rparr>,
            \<lparr>ev_timestamp = 9, ev_cpu_id = 0, ev_type = 4, ev_data = [2, 0, 0, 0]\<rparr>], s')"
proof -
  have "length (per_cpu sample_percpu) = 256" "length (tb_events (pc_trace (per_cpu sample_percpu ! 0))) = 1024"
    by (simp_all add: sample_percpu_def sample_per_cpu_data_def)
  from trace_read_correct [OF this, of 2
    "[(7, TRACE_SYSCALL, 1, 0, 0, 0), (9, TRACE_IPI, 2, 0, 0, 0), (11, TRACE_CUSTOM, 3, 0, 0, 0)]"]
  show ?thesis by (auto simp del: fold_Cons record_request.simps)
qed

end
