(* ===== verification/Timer.thy ===== *)
theory Timer
  imports Idt Percpu
begin

text \<open>
  The timer driver \<^verbatim>\<open>arch/x86/timer.c\<close>: programming the interval timer, calibrating
  the time stamp counter, reading microseconds, and the timer interrupt. The time
  stamp counter is a function of the moment, like the ports. The calibration
  polls the interval timer, so it may never return (\<open>None\<close>). Messages on the
  console are left out.
\<close>

section \<open>State\<close>

abbreviation PIT_CHANNEL0 :: u16 where "PIT_CHANNEL0 \<equiv> 0x40"
abbreviation PIT_COMMAND :: u16 where "PIT_COMMAND \<equiv> 0x43"
abbreviation PIT_BASE_FREQ :: u32 where "PIT_BASE_FREQ \<equiv> 1193182"
abbreviation CALIBRATION_TICKS :: u32 where "CALIBRATION_TICKS \<equiv> 50"

record timer_st = irq_st +
  percpu :: percpu_st
  tsc_freq_hz :: u64
  timer_freq_hz :: u32
  tsc_at :: "nat \<Rightarrow> u64"


section \<open>Operations\<close>

definition timer_read_tsc :: "'z timer_st_scheme \<Rightarrow> u64" where
  "timer_read_tsc s = tsc_at s (io_time (ports s))"

definition pit_init :: "u32 \<Rightarrow> 'z irq_st_scheme \<Rightarrow> fault + 'z irq_st_scheme" where
  "pit_init frequency_hz s =
     (if frequency_hz = 0 then Inl DivByZero
      else
        let divisor = PIT_BASE_FREQ div frequency_hz;
            divisor = (if divisor > 65535 then 65535 else divisor);
            divisor = (if divisor < 1 then 1 else divisor);
            command = 0x00 OR 0x30 OR 0x04 OR 0x00;
            s = outb PIT_COMMAND command s;
            s = outb PIT_CHANNEL0 (ucast (divisor AND 0xFF)) s
        in Inr (outb PIT_CHANNEL0 (ucast (drop_bit 8 divisor AND 0xFF)) s))"

text \<open>Latching and reading the 16-bit counter of channel 0.\<close>

definition read_pit_count :: "'z irq_st_scheme \<Rightarrow> u16 \<times> 'z irq_st_scheme" where
  "read_pit_count s =
     (let s = outb PIT_COMMAND 0x00 s;
          (low, s) = inb PIT_CHANNEL0 s;
          (high, s) = inb PIT_CHANNEL0 s
      in (push_bit 8 (ucast high) OR ucast low, s))"

definition ticks_elapsed :: "u16 \<Rightarrow> u16 \<Rightarrow> u32" where
  "ticks_elapsed last_count current_count =
     (if current_count > last_count then ucast last_count + (65536 - ucast current_count)
      else ucast last_count - ucast current_count)"

partial_function (option) pit_wait_loop :: "u32 \<Rightarrow> u32 \<Rightarrow> u16 \<Rightarrow> 'z irq_st_scheme \<Rightarrow> 'z irq_st_scheme option" where
  "pit_wait_loop ticks total_ticks last_count s =
     (if total_ticks < ticks then
        let (current_count, s') = read_pit_count s
        in pit_wait_loop ticks (total_ticks + ticks_elapsed last_count current_count) current_count s'
      else Some s)"

definition pit_wait_ticks :: "u32 \<Rightarrow> 'z irq_st_scheme \<Rightarrow> 'z irq_st_scheme option" where
  "pit_wait_ticks ticks s = (let (start_count, s) = read_pit_count s in pit_wait_loop ticks 0 start_count s)"

text \<open>The arithmetic at the end of \<^verbatim>\<open>calibrate_tsc\<close>, in 64 bits.\<close>

definition tsc_frequency :: "u64 \<Rightarrow> u32 \<Rightarrow> fault + u64" where
  "tsc_frequency tsc_cycles freq =
     (if freq = 0 then Inl DivByZero
      else
        let time_us = ucast CALIBRATION_TICKS * 1000000 div ucast freq
        in if time_us = 0 then Inl DivByZero else Inr (tsc_cycles * 1000000 div time_us))"

definition calibrate_tsc :: "'z timer_st_scheme \<Rightarrow> (fault + 'z timer_st_scheme) option" where
  "calibrate_tsc s =
     (let (flags, s) = irq_disable s;
          tsc_start = timer_read_tsc s
      in case pit_wait_ticks CALIBRATION_TICKS s of
           None \<Rightarrow> None
         | Some s \<Rightarrow>
           let tsc_end = timer_read_tsc s;
               s = irq_restore flags s;
               tsc_cycles = tsc_end - tsc_start
           in Some (andthen (tsc_frequency tsc_cycles (timer_freq_hz s)) (\<lambda>f. Inr (s\<lparr>tsc_freq_hz := f\<rparr>))))"

text \<open>
  \<^verbatim>\<open>timer_init\<close>; the address of \<^verbatim>\<open>timer_interrupt_handler\<close> is an argument. The two
  reads of the mask are for messages only but are port accesses.
\<close>

definition timer_init :: "addr \<Rightarrow> u32 \<Rightarrow> 'z timer_st_scheme \<Rightarrow> (fault + 'z timer_st_scheme) option" where
  "timer_init handler frequency_hz s =
     (let s = s\<lparr>timer_freq_hz := frequency_hz\<rparr>
      in case pit_init frequency_hz s of
           Inl e \<Rightarrow> Some (Inl e)
         | Inr s \<Rightarrow>
           (case calibrate_tsc s of
              None \<Rightarrow> None
            | Some (Inl e) \<Rightarrow> Some (Inl e)
            | Some (Inr s) \<Rightarrow>
              let (_, s) = irq_register 32 handler s;
                  (_, s) = inb 0x21 s;
                  s = irq_clear_mask 0 s;
                  (_, s) = inb 0x21 s
              in Some (Inr s)))"

definition timer_read_us :: "'z timer_st_scheme \<Rightarrow> fault + u64" where
  "timer_read_us s =
     (if tsc_freq_hz s = 0 then Inr 0
      else if tsc_freq_hz s div 1000000 = 0 then Inl DivByZero
      else Inr (timer_read_tsc s div (tsc_freq_hz s div 1000000)))"

definition timer_get_tsc_freq :: "'z timer_st_scheme \<Rightarrow> u64" where
  "timer_get_tsc_freq s = tsc_freq_hz s"

definition count_tick :: "percpu_st \<Rightarrow> percpu_st" where
  "count_tick p =
     (let cpu = per_cpu p ! unat cpu_id
      in p\<lparr>per_cpu := (per_cpu p)[unat cpu_id := cpu\<lparr>pc_ticks := pc_ticks cpu + 1\<rparr>]\<rparr>)"

definition timer_interrupt_handler :: "'z timer_st_scheme \<Rightarrow> fault + 'z timer_st_scheme" where
  "timer_interrupt_handler s =
     (let s = s\<lparr>percpu := count_tick (percpu s)\<rparr>
      in andthen (scheduler_tick s) (\<lambda>(_, s). Inr s))"

text \<open>The functions the kernel registers as handlers: the timer's, at its address.\<close>

definition kernel_handlers :: "addr \<Rightarrow> addr \<Rightarrow> interrupt_frame \<Rightarrow> 'z timer_st_scheme \<Rightarrow> fault + 'z timer_st_scheme" where
  "kernel_handlers timer_addr a frame s = (if a = timer_addr then timer_interrupt_handler s else Inl OutOfBounds)"


section \<open>The timer interrupt\<close>

lemma kernel_inv_devices [simp]:
  fixes s :: "'z irq_st_scheme" and t :: "'z timer_st_scheme"
  shows "kernel_inv M (s\<lparr>ports := io\<rparr>) qs = kernel_inv M s qs"
    "kernel_inv M (t\<lparr>percpu := p\<rparr>) qs = kernel_inv M t qs"
  by (simp_all add: kernel_inv_def pmm_inv_def avail_pages_def free_set_def bitmap_test_def live_tasks_def
      sched_inv_def represents_def)

lemma outb_sched [simp]:
  "g_scheduler (outb p v s) = g_scheduler s" "tasks (outb p v s) = tasks s"
  "kernel_inv M (outb p v s) qs = kernel_inv M s qs"
  by (simp_all add: outb_def)

lemma outb_percpu [simp]:
  fixes s :: "'z timer_st_scheme"
  shows "percpu (outb p v s) = percpu s"
  by (simp add: outb_def)

lemma same_pages_timer:
  fixes s s' :: "'z timer_st_scheme"
  assumes "same_pages s s'"
  shows "percpu s' = percpu s" "ports s' = ports s"
proof -
  have "sched_st.more s' = sched_st.more s" using assms by (simp add: same_pages_def)
  then show "percpu s' = percpu s" "ports s' = ports s" by (cases s, cases s', simp)+
qed

lemma tick_timer:
  fixes s :: "'z timer_st_scheme"
  assumes inv: "kernel_inv M s qs" and "per_cpu (percpu s) \<noteq> []"
  defines "prio \<equiv> task_prio s (current_task (g_scheduler s))"
  shows "\<exists>s'. timer_interrupt_handler s = Inr s' \<and> kernel_inv M s' qs \<and> ports s' = ports s \<and>
    percpu s' = count_tick (percpu s) \<and>
    need_resched (g_scheduler s') = (need_resched (g_scheduler s) \<or> (\<exists>p \<ge> prio. qs p \<noteq> [])) \<and>
    sched_ticks (g_scheduler s') = sched_ticks (g_scheduler s) + 1"
proof -
  define s1 where "s1 = s\<lparr>percpu := count_tick (percpu s)\<rparr>"
  have inv1: "kernel_inv M s1 qs" using inv by (simp add: s1_def)
  then have "sched_inv s1 qs" by (simp add: kernel_inv_def)
  from scheduler_tick_spec [OF this] obtain b s' where
    s': "scheduler_tick s1 = Inr (b, s')" "sched_ticks (g_scheduler s') = sched_ticks (g_scheduler s1) + 1"
      "need_resched (g_scheduler s') = (need_resched (g_scheduler s) \<or> (\<exists>p \<ge> prio. qs p \<noteq> []))"
    by (auto simp: s1_def prio_def)
  moreover have "kernel_inv M s' qs" using tick_kernel_inv [OF inv1] s'(1) by auto
  moreover note same_pages_timer [OF scheduler_tick_pages [OF s'(1)]]
  ultimately show ?thesis by (intro exI [of _ s']) (simp add: timer_interrupt_handler_def s1_def [symmetric], simp add: s1_def)
qed

text \<open>\<^verbatim>\<open>schedule\<close> stays with the running task only if no task is queued.\<close>

lemma schedule_kernel_switch:
  assumes "kernel_inv M s qs" and "qs p \<noteq> []"
  shows "\<exists>n s' qs'. schedule s = Inr (SwitchTo n, s') \<and> kernel_inv M s' qs'"
proof -
  have "sched_inv s qs" using assms(1) by (simp add: kernel_inv_def)
  moreover obtain m where "qs m \<noteq> []" "\<forall>r > m. qs r = []" using highest_nonempty assms(2) by metis
  ultimately obtain n s' where "schedule s = Inr (SwitchTo n, s')" using schedule_switch by blast
  with schedule_kernel_inv [OF assms(1)] show ?thesis by auto
qed



text \<open>A machine on which a task of priority 7 is ready while the idle task runs.\<close>

lemma kernel_inv_extend: "kernel_inv M (sched_st.extend s m) qs = kernel_inv M s qs"
  by (simp add: kernel_inv_def pmm_inv_def avail_pages_def free_set_def bitmap_test_def live_tasks_def
      sched_inv_def represents_def sched_st.defs)

definition sample_ports :: io_st where
  "sample_ports = \<lparr>hal_set = True, port_in = \<lambda>t _. ucast (of_nat t :: u8), io_time = 0, port_log = []\<rparr>"

definition sample_timer :: timer_st where
  "sample_timer = sched_st.extend sample_sched
     \<lparr>idt = \<lambda>_. make_gate 0 0 0, idtr = (0, 0), idtr_loaded = (0, 0), interrupt_handlers = (\<lambda>_. 0)(32 := 0x100500),
      ports = sample_ports,
      percpu = sample_percpu,
      tsc_freq_hz = 0, timer_freq_hz = 0, tsc_at = \<lambda>t. 1000 * of_nat t\<rparr>"

definition timer_frame :: interrupt_frame where
  "timer_frame = \<lparr>f_ds = 0x10, f_edi = 0, f_esi = 0, f_ebp = 0, f_esp = 0, f_ebx = 0, f_edx = 0, f_ecx = 0, f_eax = 0,
     int_no = 32, err_code = 0, f_eip = 0, f_cs = 8, f_eflags = 0x202, f_useresp = 0, f_ss = 0x10\<rparr>"



section \<open>The interval timer\<close>

lemma unat_le_div:
  fixes x y :: u32
  shows "unat (x div y) = unat x div unat y"
  by (simp add: unat_div_distrib)

text \<open>The 16-bit number in a counter, as two bytes.\<close>

lemma two_bytes:
  fixes d :: u32
  assumes "unat d < 65536"
  shows "unat (ucast (d AND 0xFF) :: u8) + 256 * unat (ucast (drop_bit 8 d AND 0xFF) :: u8) = unat d"
proof -
  have m: "(0xFF :: u32) = mask 8" by (simp add: mask_eq_exp_minus_1)
  have "unat (ucast (d AND 0xFF) :: u8) = unat d mod 256"
    unfolding m by (simp flip: take_bit_eq_mask add: unsigned_ucast_eq unsigned_take_bit_eq) (simp add: take_bit_eq_mod)
  moreover have "unat (ucast (drop_bit 8 d AND 0xFF) :: u8) = unat d div 256"
    unfolding m using assms
    by (simp flip: take_bit_eq_mask add: unsigned_ucast_eq unsigned_take_bit_eq unsigned_drop_bit_eq)
      (simp add: take_bit_eq_mod drop_bit_eq_div)
  ultimately show ?thesis by simp
qed

definition pit_divisor :: "u32 \<Rightarrow> nat" where
  "pit_divisor f = max 1 (min 65535 (1193182 div unat f))"

lemma pit_init_result:
  assumes "f \<noteq> 0"
  shows "\<exists>lo hi. pit_init f s = Inr (outb 0x40 hi (outb 0x40 lo (outb 0x43 0x34 s))) \<and>
    unat lo + 256 * unat hi = pit_divisor f"
proof -
  define d0 :: u32 where "d0 = 1193182 div f"
  define d1 where "d1 = (if d0 > 65535 then 65535 else d0)"
  define d where "d = (if d1 < 1 then 1 else d1)"
  have "unat d0 = 1193182 div unat f" by (simp add: d0_def unat_le_div)
  moreover have "unat d = max 1 (min 65535 (unat d0))"
    by (auto simp: d_def d1_def word_less_nat_alt max_def min_def split: if_splits)
  ultimately have d: "unat d = pit_divisor f" by (simp add: pit_divisor_def)
  then have "unat d < 65536" by (auto simp: pit_divisor_def)
  note two_bytes [OF this]
  moreover have "pit_init f s = Inr (outb 0x40 (ucast (drop_bit 8 d AND 0xFF)) (outb 0x40 (ucast (d AND 0xFF)) (outb 0x43 0x34 s)))"
    using assms by (simp add: pit_init_def Let_def d_def d1_def d0_def)
  ultimately show ?thesis using d
    by (intro exI [of _ "ucast (d AND 0xFF)"] exI [of _ "ucast (drop_bit 8 d AND 0xFF)"] conjI) simp_all
qed

text \<open>The counter as a poll that starts at moment \<open>t\<close> reads it: latch, low byte, high byte.\<close>

definition pit_count :: "(nat \<Rightarrow> u16 \<Rightarrow> u32) \<Rightarrow> nat \<Rightarrow> u16" where
  "pit_count pin t = push_bit 8 (ucast (ucast (pin (t + 2) 0x40) :: u8)) OR ucast (ucast (pin (t + 1) 0x40) :: u8)"

lemma read_pit_count_result:
  "read_pit_count s = (pit_count (port_in (ports s)) (io_time (ports s)),
     s\<lparr>ports := (ports s)\<lparr>io_time := io_time (ports s) + 3, port_log := port_log (ports s) @ [OutB 0x43 0]\<rparr>\<rparr>)"
  by (simp add: read_pit_count_def outb_def inb_def io_inb_def io_outb_def log_write_def pit_count_def Let_def)

lemma ticks_elapsed_bounds:
  assumes "cur \<noteq> prv"
  shows "1 \<le> unat (ticks_elapsed prv cur)" "unat (ticks_elapsed prv cur) < 65536"
proof -
  have b: "unat prv < 65536" "unat cur < 65536" using unsigned_less [of prv] unsigned_less [of cur] by simp_all
  have u: "unat (ucast prv :: u32) = unat prv" "unat (ucast cur :: u32) = unat cur"
    using b by (simp_all add: unsigned_ucast_eq take_bit_nat_eq_self)
  have "unat prv \<noteq> unat cur" using assms by (simp add: word_unat_eq_iff)
  moreover have "unat (ticks_elapsed prv cur) = (if unat cur > unat prv then unat prv + (65536 - unat cur) else unat prv - unat cur)"
    using b by (simp add: ticks_elapsed_def word_less_nat_alt unat_word_ariths unat_sub word_le_nat_alt u)
  ultimately show "1 \<le> unat (ticks_elapsed prv cur)" "unat (ticks_elapsed prv cur) < 65536" using b by auto
qed

text \<open>A counter that moves between two polls: every poll counts, and none counts too much.\<close>

lemma pit_wait_loop_returns:
  fixes s :: "'z irq_st_scheme"
  assumes "unat ticks + 65536 \<le> 2 ^ 32" and "port_in (ports s) = pin" and "io_time (ports s) = t + 3"
    and "\<forall>k. pit_count pin (t + 3 * k + 3) \<noteq> pit_count pin (t + 3 * k)"
  shows "\<exists>l p. pit_wait_loop ticks done_ticks (pit_count pin t) s = Some (s\<lparr>ports := p\<rparr>) \<and>
    port_in p = pin \<and> port_log p = port_log (ports s) @ l \<and>
    io_time p \<le> io_time (ports s) + 3 * (unat ticks - unat done_ticks)"
  using assms(2-)
proof (induction "unat ticks - unat done_ticks" arbitrary: done_ticks t s rule: less_induct)
  case less
  show ?case
  proof (cases "done_ticks < ticks")
    case False
    then have "pit_wait_loop ticks done_ticks (pit_count pin t) s = Some (s\<lparr>ports := ports s\<rparr>)"
      by (simp add: pit_wait_loop.simps)
    then show ?thesis using less.prems by (intro exI [of _ "[]"] exI [of _ "ports s"]) simp
  next
    case True
    define c where "c = pit_count pin (t + 3)"
    define e where "e = ticks_elapsed (pit_count pin t) c"
    define s1 where "s1 = s\<lparr>ports := (ports s)\<lparr>io_time := t + 6, port_log := port_log (ports s) @ [OutB 0x43 0]\<rparr>\<rparr>"
    have "c \<noteq> pit_count pin t" using less.prems(3) [rule_format, of 0] by (simp add: c_def)
    note e = ticks_elapsed_bounds [OF this, folded e_def]
    have tot: "unat done_ticks < unat ticks" using True by (simp add: word_less_nat_alt)
    then have "unat (done_ticks + e) = unat done_ticks + unat e" using e assms(1) by (simp add: unat_word_ariths)
    with e tot have dec: "unat ticks - unat (done_ticks + e) < unat ticks - unat done_ticks"
      "Suc (unat ticks - unat (done_ticks + e)) \<le> unat ticks - unat done_ticks" by simp_all
    have adv: "\<forall>k. pit_count pin (t + 3 + 3 * k + 3) \<noteq> pit_count pin (t + 3 + 3 * k)"
    proof
      fix k
      show "pit_count pin (t + 3 + 3 * k + 3) \<noteq> pit_count pin (t + 3 + 3 * k)"
        using less.prems(3) [rule_format, of "Suc k"] by (simp add: ac_simps)
    qed
    have "port_in (ports s1) = pin" "io_time (ports s1) = t + 3 + 3" using less.prems(1) by (simp_all add: s1_def)
    from less.hyps [OF dec(1) this adv] obtain l p where
      p: "pit_wait_loop ticks (done_ticks + e) c s1 = Some (s1\<lparr>ports := p\<rparr>)" "port_in p = pin"
        "port_log p = port_log (ports s1) @ l" "io_time p \<le> io_time (ports s1) + 3 * (unat ticks - unat (done_ticks + e))"
      unfolding c_def by blast
    have "pit_wait_loop ticks done_ticks (pit_count pin t) s = pit_wait_loop ticks (done_ticks + e) c s1"
      using True less.prems(1,2)
      by (subst pit_wait_loop.simps) (simp add: read_pit_count_result e_def c_def s1_def add.commute)
    then have "pit_wait_loop ticks done_ticks (pit_count pin t) s = Some (s\<lparr>ports := p\<rparr>)" using p(1) by (simp add: s1_def)
    moreover have "io_time p \<le> io_time (ports s) + 3 * (unat ticks - unat done_ticks)"
      using p(4) dec(2) less.prems(2) by (simp add: s1_def)
    ultimately show ?thesis using p(2,3) by (auto simp: s1_def)
  qed
qed

lemma calibrate_tsc_returns:
  fixes s :: "'z timer_st_scheme"
  defines "pin \<equiv> port_in (ports s)" and "t \<equiv> io_time (ports s)"
  assumes "\<forall>k. pit_count pin (t + 3 * k + 3) \<noteq> pit_count pin (t + 3 * k)"
    and "timer_freq_hz s \<noteq> 0" and "unat (timer_freq_hz s) \<le> 50000000"
  shows "\<exists>l p f. calibrate_tsc s = Some (Inr (s\<lparr>ports := p, tsc_freq_hz := f\<rparr>)) \<and>
    port_in p = pin \<and> port_log p = port_log (ports s) @ l \<and> io_time p \<le> t + 153"
proof -
  define s1 where "s1 = snd (irq_disable s)"
  define s2 where "s2 = s1\<lparr>ports := (ports s)\<lparr>io_time := t + 3, port_log := port_log (ports s) @ [OutB 0x43 0]\<rparr>\<rparr>"
  have s1: "ports s1 = ports s" by (simp add: s1_def irq_disable_def)
  have "port_in (ports s2) = pin" "io_time (ports s2) = t + 3" by (simp_all add: s2_def pin_def)
  from pit_wait_loop_returns [OF _ this assms(3), of 50 0] obtain l p where
    p: "pit_wait_loop 50 0 (pit_count pin t) s2 = Some (s2\<lparr>ports := p\<rparr>)" "port_in p = pin"
      "port_log p = port_log (ports s2) @ l" "io_time p \<le> io_time (ports s2) + 150" by auto
  have w: "pit_wait_ticks 50 s1 = Some (s1\<lparr>ports := p\<rparr>)"
    using p(1) by (simp add: pit_wait_ticks_def read_pit_count_result s1 s2_def pin_def t_def)
  have "(50 :: u64) * 1000000 div ucast (timer_freq_hz s) \<noteq> 0"
  proof -
    have "unat ((50 :: u64) * 1000000 div ucast (timer_freq_hz s)) = 50000000 div unat (timer_freq_hz s)"
      using take_bit_nat_eq_self [of "unat (timer_freq_hz s)" 64] assms(5)
      by (simp add: unat_div_distrib unsigned_ucast_eq)
    also have "\<dots> > 0" using assms(4,5) by (simp add: div_greater_zero_iff unat_gt_0)
    finally show ?thesis by (metis less_irrefl unsigned_0)
  qed
  then obtain f where f: "tsc_frequency (timer_read_tsc (s1\<lparr>ports := p\<rparr>) - timer_read_tsc s1) (timer_freq_hz s) = Inr f"
    using assms(4) by (simp add: tsc_frequency_def Let_def)
  have "irq_restore (fst (irq_disable s)) (s1\<lparr>ports := p\<rparr>) = s\<lparr>ports := p\<rparr>"
    by (simp add: irq_restore_def irq_disable_def s1_def)
  with w f have "calibrate_tsc s = Some (Inr (s\<lparr>ports := p, tsc_freq_hz := f\<rparr>))"
    by (simp add: calibrate_tsc_def split_def Let_def s1_def [symmetric])
  with p(2-4) show ?thesis
    by (intro exI [of _ "OutB 0x43 0 # l"] exI [of _ p] exI [of _ f]) (simp add: s2_def)
qed

lemma timer_init_spec:
  fixes s :: "'z timer_st_scheme"
  assumes "f \<noteq> 0" and "unat f \<le> 50000000"
    and "\<forall>k. pit_count (port_in (ports s)) (io_time (ports s) + 3 + 3 * k + 3)
      \<noteq> pit_count (port_in (ports s)) (io_time (ports s) + 3 + 3 * k)"
  shows "\<exists>s' lo hi l m. timer_init h f s = Some (Inr s') \<and> sched_st.truncate s' = sched_st.truncate s \<and> idt s' = idt s \<and> percpu s' = percpu s \<and>
    interrupt_handlers s' = (interrupt_handlers s)(32 := h) \<and> timer_freq_hz s' = f \<and>
    port_log (ports s') = port_log (ports s) @ [OutB 0x43 0x34, OutB 0x40 lo, OutB 0x40 hi] @ l @ [OutB 0x21 m] \<and>
    unat lo + 256 * unat hi = max 1 (min 65535 (1193182 div unat f)) \<and> \<not> bit m 0"
proof -
  from pit_init_result [OF assms(1), of "s\<lparr>timer_freq_hz := f\<rparr>"] obtain lo hi where
    p: "pit_init f (s\<lparr>timer_freq_hz := f\<rparr>) = Inr (outb 0x40 hi (outb 0x40 lo (outb 0x43 0x34 (s\<lparr>timer_freq_hz := f\<rparr>))))"
      "unat lo + 256 * unat hi = pit_divisor f" by blast
  define s1 where "s1 = outb 0x40 hi (outb 0x40 lo (outb 0x43 0x34 (s\<lparr>timer_freq_hz := f\<rparr>)))"
  have s1: "port_in (ports s1) = port_in (ports s)" "io_time (ports s1) = io_time (ports s) + 3" "timer_freq_hz s1 = f"
    "port_log (ports s1) = port_log (ports s) @ [OutB 0x43 0x34, OutB 0x40 lo, OutB 0x40 hi]"
    by (simp_all add: s1_def) (simp add: outb_def)
  from calibrate_tsc_returns [of s1] obtain l q g where
    c: "calibrate_tsc s1 = Some (Inr (s1\<lparr>ports := q, tsc_freq_hz := g\<rparr>))" "port_log q = port_log (ports s1) @ l"
    using assms s1(1-3) by auto
  define m where "m = (ucast (port_in q (io_time q + 1) 0x21) :: u8) AND NOT (push_bit (unat (0 :: u8)) 1)"
  have m: "\<not> bit m 0" by (simp add: m_def bit_simps)
  define s' where "s' = snd (inb 0x21 (irq_clear_mask 0 (snd (inb 0x21 (snd (irq_register 32 h (s1\<lparr>ports := q, tsc_freq_hz := g\<rparr>)))))))"
  have "timer_init h f s = Some (Inr s')"
    using p(1) c(1) by (simp add: timer_init_def Let_def s1_def [symmetric] s'_def split_def)
  moreover have "port_log (ports s') = port_log (ports s) @ [OutB 0x43 0x34, OutB 0x40 lo, OutB 0x40 hi] @ l @ [OutB 0x21 m]"
    using c(2) s1(4)
    by (simp add: s'_def irq_clear_mask_def irq_port_def inb_def irq_register_def idt_register_handler_def io_inb_def
        outb_def io_outb_def log_write_def m_def)
  moreover have "sched_st.truncate s' = sched_st.truncate s" "interrupt_handlers s' = (interrupt_handlers s)(32 := h)"
    "timer_freq_hz s' = f" "idt s' = idt s" "percpu s' = percpu s"
    by (simp_all add: s'_def irq_clear_mask_def irq_port_def inb_def irq_register_def idt_register_handler_def io_inb_def
        s1_def outb_def sched_st.truncate_def)
  ultimately show ?thesis using p(2) m unfolding pit_divisor_def by blast
qed


lemma sample_count_moves: "pit_count (port_in sample_ports) (t + 3) \<noteq> pit_count (port_in sample_ports) t"
proof
  assume eq: "pit_count (port_in sample_ports) (t + 3) = pit_count (port_in sample_ports) t"
  have "ucast (pit_count (port_in sample_ports) t) = (of_nat (t + 1) :: u8)" for t
    by (rule bit_word_eqI) (simp add: pit_count_def sample_ports_def bit_simps)
  from this [of "t + 3"] this [of t] eq have "(of_nat (t + 4) :: u8) = of_nat (t + 1)" by (simp add: ac_simps)
  then show False by simp
qed


text \<open>
  \<^verbatim>\<open>timer_read_us\<close> divides by the frequency in MHz: a calibrated frequency below
  1 MHz is a division by zero.
\<close>

lemma timer_read_us_div_by_zero:
  assumes "tsc_freq_hz s \<noteq> 0" and "tsc_freq_hz s < 1000000"
  shows "timer_read_us s = Inl DivByZero"
  using assms by (simp add: timer_read_us_def div_word_less)

text \<open>A clock of at least 1 MHz never runs backwards.\<close>

lemma timer_read_us_mono:
  assumes "1000000 \<le> tsc_freq_hz s" and "tsc_freq_hz s' = tsc_freq_hz s"
    and "timer_read_tsc s \<le> timer_read_tsc s'"
  shows "\<exists>u u'. timer_read_us s = Inr u \<and> timer_read_us s' = Inr u' \<and> u \<le> u'"
proof -
  have "tsc_freq_hz s div 1000000 \<noteq> 0" "tsc_freq_hz s \<noteq> 0"
    using assms(1) by (auto simp: word_le_nat_alt word_unat_eq_iff unat_div_distrib)
  with assms(2,3) show ?thesis by (simp add: timer_read_us_def word_le_nat_alt unat_div_distrib div_le_mono)
qed

end
