(* ===== verification/Syscall.thy ===== *)
theory Syscall
  imports Task
begin

text \<open>
  The system calls, \<^verbatim>\<open>core/syscall.c\<close>. \<^verbatim>\<open>long\<close> is 32 bits wide. A call either returns a
  value to its caller, possibly after other tasks have run, or never returns
  (\<open>None\<close>); the \<open>switch\<close> says whether the processor went to another task. Messages
  on the console are left out.
\<close>

section \<open>Operations\<close>

abbreviation ENOSYS :: u32 where "ENOSYS \<equiv> 38"
abbreviation SYS_EXIT :: u32 where "SYS_EXIT \<equiv> 1"
abbreviation SYS_YIELD :: u32 where "SYS_YIELD \<equiv> 2"
abbreviation SYS_GETPID :: u32 where "SYS_GETPID \<equiv> 3"
abbreviation SYS_SLEEP_US :: u32 where "SYS_SLEEP_US \<equiv> 4"
abbreviation MAX_SYSCALLS :: u32 where "MAX_SYSCALLS \<equiv> 256"

type_synonym 'z syscall_fn =
  "u32 \<Rightarrow> u32 \<Rightarrow> u32 \<Rightarrow> u32 \<Rightarrow> u32 \<Rightarrow> 'z sched_st_scheme \<Rightarrow> fault + u32 option \<times> switch \<times> 'z sched_st_scheme"

definition sys_exit :: "'z syscall_fn" where
  "sys_exit arg0 arg1 arg2 arg3 arg4 s = andthen (task_exit arg0 s) (\<lambda>(d, s). Inr (None, d, s))"

definition sys_yield :: "'z syscall_fn" where
  "sys_yield arg0 arg1 arg2 arg3 arg4 s = andthen (task_yield s) (\<lambda>(d, s). Inr (Some 0, d, s))"

definition sys_getpid :: "'z syscall_fn" where
  "sys_getpid arg0 arg1 arg2 arg3 arg4 s =
     (let current = current_task (g_scheduler s)
      in if current = 0 then Inr (Some (- 1), Stay, s)
         else andthen (load_task current s) (\<lambda>t. Inr (Some (t_id t), Stay, s)))"

definition sys_sleep_us :: "'z syscall_fn" where
  "sys_sleep_us arg0 arg1 arg2 arg3 arg4 s = Inr (Some (- ENOSYS), Stay, s)"

text \<open>The table of 256 entries; \<open>None\<close> is a null entry.\<close>

definition syscall_table :: "u32 \<Rightarrow> 'z syscall_fn option" where
  "syscall_table = (\<lambda>_. None)(SYS_EXIT := Some sys_exit, SYS_YIELD := Some sys_yield,
     SYS_GETPID := Some sys_getpid, SYS_SLEEP_US := Some sys_sleep_us)"

definition syscall_handler :: "u32 \<Rightarrow> 'z syscall_fn" where
  "syscall_handler syscall_num arg0 arg1 arg2 arg3 arg4 s =
     (if syscall_num \<ge> MAX_SYSCALLS then Inr (Some (- ENOSYS), Stay, s)
      else case syscall_table syscall_num of
             None \<Rightarrow> Inr (Some (- ENOSYS), Stay, s)
           | Some syscall \<Rightarrow> syscall arg0 arg1 arg2 arg3 arg4 s)"


section \<open>Properties\<close>

lemma syscall_numbers:
  "syscall_handler 1 = sys_exit" "syscall_handler 2 = sys_yield" "syscall_handler 3 = sys_getpid"
  "syscall_handler 4 = sys_sleep_us"
  by (intro ext, simp add: syscall_handler_def syscall_table_def word_le_nat_alt)+

lemma syscall_unknown:
  assumes "num \<notin> {1, 2, 3}"
  shows "syscall_handler num a0 a1 a2 a3 a4 s = Inr (Some (- ENOSYS), Stay, s)"
proof (cases "num = 4")
  case True
  then show ?thesis by (simp add: syscall_numbers sys_sleep_us_def)
next
  case False
  then show ?thesis using assms by (simp add: syscall_handler_def syscall_table_def)
qed

text \<open>A task that exits while it is not the idle task leaves the processor for good.\<close>

lemma exit_switches:
  assumes "kernel_inv M s qs" and "task_current s \<noteq> task_get_idle s" and "task_exit code s = Inr (d, s')"
  shows "d \<noteq> Stay"
proof -
  define c where "c = current_task (g_scheduler s)"
  define s1 where "s1 = s\<lparr>tasks := (tasks s)(c := (tasks s c)\<lparr>t_state := TASK_STATE_ZOMBIE, t_exit_code := code\<rparr>)\<rparr>"
  have c: "c \<noteq> 0" "\<forall>p. c \<notin> set (qs p)" "c \<noteq> idle_task s" "represents s qs" "idle_task s \<in> set (qs 0)"
    using assms(1,2)
    by (auto simp: kernel_inv_def sched_inv_def Let_def c_def task_current_def scheduler_current_def task_get_idle_def)
  have "represents s1 qs" using unlinked_upd [OF c(4,2)] by (simp add: s1_def)
  then have inv: "sched_inv s1 qs"
    using assms(1) c by (auto simp: kernel_inv_def sched_inv_def Let_def s1_def c_def [symmetric])
  have "qs 0 \<noteq> []" using c(5) by auto
  then obtain m where "qs m \<noteq> []" "\<forall>r > m. qs r = []" using highest_nonempty by metis
  from schedule_switch [OF inv this] obtain n s2 where "schedule s1 = Inr (SwitchTo n, s2)" by blast
  moreover have "task_exit code s = schedule s1"
    using c(1) by (simp add: task_exit_def store_task_def task_current_def scheduler_current_def c_def [symmetric] s1_def)
  ultimately show ?thesis using assms(3) by simp
qed

lemma syscall_handler_spec:
  assumes inv: "kernel_inv M s qs" and idle: "num = SYS_EXIT \<Longrightarrow> task_current s \<noteq> task_get_idle s"
  shows "\<exists>r d s' qs'. syscall_handler num a0 a1 a2 a3 a4 s = Inr (r, d, s') \<and> kernel_inv M s' qs' \<and>
    (kernel_step w s s' \<or> s' = s) \<and>
    r = (if num = SYS_EXIT then None else if num = SYS_YIELD then Some 0
         else if num = SYS_GETPID then Some (t_id (tasks s (task_current s))) else Some (- ENOSYS)) \<and>
    (num = SYS_EXIT \<longrightarrow> d \<noteq> Stay \<and> task_current s \<notin> live_tasks s' qs')"
proof -
  consider "num = 1" | "num = 2" | "num = 3" | "num \<notin> {1, 2, 3}" by blast
  then show ?thesis
  proof cases
    case 1
    from exit_kernel_inv [OF inv idle] 1 obtain d s' qs' where
      e: "task_exit a0 s = Inr (d, s')" "kernel_inv M s' qs'" "live_tasks s' qs' \<subseteq> live_tasks s qs - {task_current s}"
      by blast
    have "kernel_step w s s'" using kernel_step.exits [OF _ e(1)] idle 1 by blast
    moreover have "task_current s \<notin> live_tasks s' qs'" using e(3) by blast
    ultimately show ?thesis
      using exit_switches [OF inv idle e(1)] 1 e by (auto simp: syscall_numbers sys_exit_def)
  next
    case 2
    from schedule_kernel_inv [OF inv] obtain d s' qs' where
      y: "task_yield s = Inr (d, s')" "kernel_inv M s' qs'" by (auto simp: task_yield_def)
    with 2 show ?thesis by (auto simp: syscall_numbers sys_yield_def intro: kernel_step.yields)
  next
    case 3
    have "current_task (g_scheduler s) \<noteq> 0" using inv by (simp add: kernel_inv_def sched_inv_def Let_def)
    with 3 inv show ?thesis
      by (auto simp: syscall_numbers sys_getpid_def load_task_def task_current_def scheduler_current_def)
  next
    case 4
    then show ?thesis using inv by (auto simp: syscall_unknown)
  qed
qed



end
