(* ===== verification/Klib_String.thy ===== *)
theory Klib_String
  imports Kernel_Prelude
begin

text \<open>
  The kernel's string and memory functions, \<^verbatim>\<open>lib/string.c\<close>, on byte memory. Loops
  that run up to a given count are folds over the indices; the two that run
  until a terminator may not return (\<open>None\<close>) when memory holds none. Pointer
  arithmetic wraps at 32 bits, as on the machine.
\<close>

section \<open>Operations\<close>

definition index_addr :: "addr \<Rightarrow> nat \<Rightarrow> addr" where
  "index_addr p i = p + of_nat i"

partial_function (option) strlen_loop :: "mem \<Rightarrow> addr \<Rightarrow> u32 \<Rightarrow> u32 option" where
  "strlen_loop m str len = (if m (str + len) \<noteq> 0 then strlen_loop m str (len + 1) else Some len)"

definition strlen :: "mem \<Rightarrow> addr \<Rightarrow> u32 option" where
  "strlen m str = strlen_loop m str 0"

text \<open>The loop of \<^verbatim>\<open>strlcpy\<close> with the number of iterations left (\<^verbatim>\<open>size - 1 - i\<close>).\<close>

fun strlcpy_loop :: "addr \<Rightarrow> addr \<Rightarrow> nat \<Rightarrow> u32 \<Rightarrow> mem \<Rightarrow> u32 \<times> mem" where
  "strlcpy_loop dst src 0 i m = (i, m)"
| "strlcpy_loop dst src (Suc left) i m =
     (if m (src + i) \<noteq> 0 then strlcpy_loop dst src left (i + 1) (m(dst + i := m (src + i))) else (i, m))"

definition strlcpy :: "addr \<Rightarrow> addr \<Rightarrow> u32 \<Rightarrow> mem \<Rightarrow> u32 \<times> mem" where
  "strlcpy dst src sz m =
     (if sz = 0 then (0, m)
      else
        let (i, m) = strlcpy_loop dst src (unat (sz - 1)) 0 m
        in (i, m(dst + i := 0)))"

definition copy_byte :: "addr \<Rightarrow> addr \<Rightarrow> nat \<Rightarrow> mem \<Rightarrow> mem" where
  "copy_byte dst src i m = m(index_addr dst i := m (index_addr src i))"

definition strlcat :: "addr \<Rightarrow> addr \<Rightarrow> u32 \<Rightarrow> mem \<Rightarrow> (u32 \<times> mem) option" where
  "strlcat dst src sz m =
     (case strlen m dst of
        None \<Rightarrow> None
      | Some dst_len \<Rightarrow>
        (case strlen m src of
           None \<Rightarrow> None
         | Some src_len \<Rightarrow>
           if dst_len \<ge> sz then Some (dst_len + src_len, m)
           else
             let copy_len = sz - dst_len - 1;
                 copy_len = (if src_len < copy_len then src_len else copy_len);
                 m = fold (copy_byte (dst + dst_len) src) [0..<unat copy_len] m
             in Some (dst_len + src_len, m(dst + dst_len + copy_len := 0))))"

text \<open>The difference of two bytes, as an \<^verbatim>\<open>int\<close>.\<close>

definition byte_diff :: "u8 \<Rightarrow> u8 \<Rightarrow> int" where
  "byte_diff a b = uint a - uint b"

partial_function (option) strcmp :: "mem \<Rightarrow> addr \<Rightarrow> addr \<Rightarrow> int option" where
  "strcmp m s1 s2 =
     (if m s1 \<noteq> 0 \<and> m s1 = m s2 then strcmp m (s1 + 1) (s2 + 1) else Some (byte_diff (m s1) (m s2)))"

fun strncmp_loop :: "mem \<Rightarrow> addr \<Rightarrow> addr \<Rightarrow> nat \<Rightarrow> int" where
  "strncmp_loop m s1 s2 0 = 0"
| "strncmp_loop m s1 s2 (Suc n) =
     (if m s1 \<noteq> 0 \<and> m s1 = m s2 then strncmp_loop m (s1 + 1) (s2 + 1) n else byte_diff (m s1) (m s2))"

definition strncmp :: "mem \<Rightarrow> addr \<Rightarrow> addr \<Rightarrow> u32 \<Rightarrow> int" where
  "strncmp m s1 s2 n = strncmp_loop m s1 s2 (unat n)"

definition memcpy :: "addr \<Rightarrow> addr \<Rightarrow> u32 \<Rightarrow> mem \<Rightarrow> addr \<times> mem" where
  "memcpy dest src n m = (dest, fold (copy_byte dest src) [0..<unat n] m)"

definition memmove :: "addr \<Rightarrow> addr \<Rightarrow> u32 \<Rightarrow> mem \<Rightarrow> addr \<times> mem" where
  "memmove dest src n m =
     (if dest < src then (dest, fold (copy_byte dest src) [0..<unat n] m)
      else (dest, fold (copy_byte dest src) (rev [0..<unat n]) m))"

definition memset :: "addr \<Rightarrow> u32 \<Rightarrow> u32 \<Rightarrow> mem \<Rightarrow> addr \<times> mem" where
  "memset ptr value n m = (ptr, fold (\<lambda>i m. m(index_addr ptr i := ucast value)) [0..<unat n] m)"

fun memcmp_loop :: "mem \<Rightarrow> addr \<Rightarrow> addr \<Rightarrow> nat list \<Rightarrow> int" where
  "memcmp_loop m s1 s2 [] = 0"
| "memcmp_loop m s1 s2 (i # is) =
     (if m (index_addr s1 i) \<noteq> m (index_addr s2 i) then byte_diff (m (index_addr s1 i)) (m (index_addr s2 i))
      else memcmp_loop m s1 s2 is)"

definition memcmp :: "mem \<Rightarrow> addr \<Rightarrow> addr \<Rightarrow> u32 \<Rightarrow> int" where
  "memcmp m s1 s2 n = memcmp_loop m s1 s2 [0..<unat n]"


section \<open>Byte copies\<close>

lemma index_addr_inj: "i < 4294967296 \<Longrightarrow> j < 4294967296 \<Longrightarrow> index_addr p i = index_addr p j \<longleftrightarrow> i = j"
  by (simp add: index_addr_def word_unat_eq_iff [of "of_nat i"] unsigned_of_nat take_bit_eq_mod)

lemma unat_index_addr: "unat p + i < 4294967296 \<Longrightarrow> unat (index_addr p i) = unat p + i"
  by (simp add: index_addr_def unat_word_ariths unsigned_of_nat take_bit_eq_mod)

lemma index_addr_offset: "x = index_addr p (unat (x - p))"
  by (simp add: index_addr_def)

lemma offset_less_iff: "x - p < n \<longleftrightarrow> (\<exists>i < unat n. x = index_addr p i)"
proof
  assume "x - p < n"
  then show "\<exists>i < unat n. x = index_addr p i"
    using index_addr_offset [of x p] by (auto simp: word_less_nat_alt intro!: exI [of _ "unat (x - p)"])
next
  assume "\<exists>i < unat n. x = index_addr p i"
  then obtain i where "i < unat n" "x = index_addr p i" by auto
  moreover have "i < 4294967296" using \<open>i < unat n\<close> unat_u32_bound [of n] by linarith
  ultimately show "x - p < n"
    by (simp add: index_addr_def word_less_nat_alt unsigned_of_nat take_bit_eq_mod)
qed

lemma copy_byte_same: "copy_byte dst src i m (index_addr dst i) = m (index_addr src i)"
  by (simp add: copy_byte_def)

lemma copy_byte_other: "x \<noteq> index_addr dst i \<Longrightarrow> copy_byte dst src i m x = m x"
  by (simp add: copy_byte_def)

text \<open>
  Copying byte by byte delivers the original source bytes if no byte is
  overwritten before it is read.
\<close>

lemma fold_copy_byte_other:
  "\<forall>k \<in> set js. x \<noteq> index_addr dst k \<Longrightarrow> fold (copy_byte dst src) js m x = m x"
  by (induction js arbitrary: m) (simp_all add: copy_byte_other)

lemma fold_copy_byte_at:
  assumes "set js \<subseteq> {0..<4294967296}" and "distinct js"
    and "sorted_wrt (\<lambda>i k. index_addr dst i \<noteq> index_addr src k) js" and "k \<in> set js"
  shows "fold (copy_byte dst src) js m (index_addr dst k) = m (index_addr src k)"
  using assms
proof (induction js arbitrary: m)
  case Nil
  then show ?case by simp
next
  case (Cons i js)
  let ?m = "copy_byte dst src i m"
  have unfold: "fold (copy_byte dst src) (i # js) m = fold (copy_byte dst src) js ?m" by simp
  show ?case
  proof (cases "k = i")
    case True
    have "\<forall>j \<in> set js. index_addr dst k \<noteq> index_addr dst j"
      using Cons.prems True by (auto simp: index_addr_inj subset_iff)
    then show ?thesis
      using fold_copy_byte_other [of js "index_addr dst k" dst src ?m] True
      by (simp only: unfold copy_byte_same)
  next
    case False
    then have k: "k \<in> set js" using Cons.prems by simp
    then have "index_addr src k \<noteq> index_addr dst i" using Cons.prems by auto
    then show ?thesis
      using Cons.IH [of ?m] Cons.prems k by (simp add: copy_byte_other)
  qed
qed

text \<open>The effect of a copy as one function: the region is replaced, the rest kept.\<close>

definition copied :: "addr \<Rightarrow> addr \<Rightarrow> u32 \<Rightarrow> mem \<Rightarrow> mem" where
  "copied dst src n m = (\<lambda>x. if x - dst < n then m (src + (x - dst)) else m x)"

lemma fold_copy_byte_copied:
  assumes js: "set js = {0..<unat n}" "distinct js"
    and ord: "sorted_wrt (\<lambda>i k. index_addr dst i \<noteq> index_addr src k) js"
  shows "fold (copy_byte dst src) js m = copied dst src n m"
proof
  fix x
  have sub: "set js \<subseteq> {0..<4294967296}"
    using js unat_u32_bound [of n] by auto
  show "fold (copy_byte dst src) js m x = copied dst src n m x"
  proof (cases "x - dst < n")
    case True
    then have "unat (x - dst) \<in> set js" by (simp add: js word_less_nat_alt)
    from fold_copy_byte_at [OF sub js(2) ord this, of m]
    show ?thesis
      using True index_addr_offset [of x dst] by (simp add: copied_def index_addr_def)
  next
    case False
    then have "\<forall>k \<in> set js. x \<noteq> index_addr dst k"
      using offset_less_iff [of x dst n] js by auto
    then show ?thesis using False by (simp add: fold_copy_byte_other copied_def)
  qed
qed

lemma forward_order:
  assumes "\<And>i k. i < k \<Longrightarrow> k < n \<Longrightarrow> index_addr dst i \<noteq> index_addr src k"
  shows "sorted_wrt (\<lambda>i k. index_addr dst i \<noteq> index_addr src k) [0..<n]"
  using assms by (auto simp: sorted_wrt_iff_nth_less)

lemma backward_order:
  assumes "\<And>i k. k < i \<Longrightarrow> i < n \<Longrightarrow> index_addr dst i \<noteq> index_addr src k"
  shows "sorted_wrt (\<lambda>i k. index_addr dst i \<noteq> index_addr src k) (rev [0..<n])"
  unfolding sorted_wrt_rev using assms by (auto simp: sorted_wrt_iff_nth_less)

text \<open>
  C28: for any two regions that do not wrap around the address space, however
  they overlap, \<^verbatim>\<open>memmove\<close> returns the destination pointer, leaves the original
  bytes of the source in the destination and changes no other byte.
\<close>

theorem memmove_correct:
  assumes "unat dest + unat n \<le> 4294967296" and "unat src + unat n \<le> 4294967296"
  shows "memmove dest src n m = (dest, \<lambda>x. if x - dest < n then m (src + (x - dest)) else m x)"
proof -
  have ne: "index_addr dest i \<noteq> index_addr src k"
    if "i < unat n" "k < unat n" "unat dest + i \<noteq> unat src + k" for i k
    using that assms unat_index_addr [of dest i] unat_index_addr [of src k] by auto
  show ?thesis
  proof (cases "dest < src")
    case True
    have "fold (copy_byte dest src) [0..<unat n] m = copied dest src n m"
    proof (rule fold_copy_byte_copied)
      show "sorted_wrt (\<lambda>i k. index_addr dest i \<noteq> index_addr src k) [0..<unat n]"
        using True by (intro forward_order ne) (auto simp: word_less_nat_alt)
    qed simp_all
    then show ?thesis using True by (simp add: memmove_def copied_def)
  next
    case False
    have "fold (copy_byte dest src) (rev [0..<unat n]) m = copied dest src n m"
    proof (rule fold_copy_byte_copied)
      show "sorted_wrt (\<lambda>i k. index_addr dest i \<noteq> index_addr src k) (rev [0..<unat n])"
        using False by (intro backward_order ne) (auto simp: word_less_nat_alt)
    qed simp_all
    then show ?thesis using False by (simp add: memmove_def copied_def)
  qed
qed

theorem memmove_correct_witness:
  "snd (memmove 0x1001 0x1000 3 (\<lambda>a. ucast a)) 0x1003 = 2
   \<and> snd (memmove 0x1000 0x1001 3 (\<lambda>a. ucast a)) 0x1000 = 1"
  using memmove_correct [of "0x1001" 3 "0x1000" "\<lambda>a. ucast a"]
    memmove_correct [of "0x1000" 3 "0x1001" "\<lambda>a. ucast a"] by simp

lemma memcpy_copied:
  assumes "\<And>i k. i < k \<Longrightarrow> k < unat n \<Longrightarrow> index_addr dest i \<noteq> index_addr src k"
  shows "memcpy dest src n m = (dest, copied dest src n m)"
  using fold_copy_byte_copied [OF _ _ forward_order [OF assms]] by (simp add: memcpy_def)

lemma memset_fills: "snd (memset ptr v n m) x = (if x - ptr < n then ucast v else m x)"
proof -
  have "fold (\<lambda>i m. m(index_addr ptr i := c)) js m x = (if \<exists>i \<in> set js. x = index_addr ptr i then c else m x)"
    for js and c :: u8
    by (induction js arbitrary: m) auto
  then show ?thesis by (auto simp: memset_def offset_less_iff)
qed

lemma memcmp_loop_eq_0: "memcmp_loop m s1 s2 js = 0 \<longleftrightarrow> (\<forall>i \<in> set js. m (index_addr s1 i) = m (index_addr s2 i))"
  by (induction js) (auto simp: byte_diff_def word_uint_eq_iff)

lemma memcmp_eq_0: "memcmp m s1 s2 n = 0 \<longleftrightarrow> (\<forall>i < unat n. m (index_addr s1 i) = m (index_addr s2 i))"
  by (auto simp: memcmp_def memcmp_loop_eq_0)


section \<open>Strings\<close>

text \<open>The bytes \<open>xs\<close>, none of them zero, stand at \<open>p\<close> and a zero byte follows.\<close>

definition c_string :: "mem \<Rightarrow> addr \<Rightarrow> u8 list \<Rightarrow> bool" where
  "c_string m p xs \<longleftrightarrow> length xs < 4294967296 \<and> m (index_addr p (length xs)) = 0
     \<and> (\<forall>i < length xs. m (index_addr p i) = xs ! i \<and> xs ! i \<noteq> 0)"

lemma c_string_Nil [simp]: "c_string m p [] \<longleftrightarrow> m p = 0"
  by (simp add: c_string_def index_addr_def)

lemma index_addr_Suc: "index_addr p (Suc i) = index_addr (p + 1) i"
  by (simp add: index_addr_def add.assoc)

lemma c_string_Cons_iff:
  "c_string m p (x # xs) \<longleftrightarrow> m p = x \<and> x \<noteq> 0 \<and> c_string m (p + 1) xs \<and> length xs + 1 < 4294967296"
proof -
  have "index_addr p 0 = p" by (simp add: index_addr_def)
  then show ?thesis by (auto simp: c_string_def All_less_Suc2 index_addr_Suc)
qed

lemma c_string_Cons:
  assumes "c_string m p (x # xs)"
  shows "m p = x" and "x \<noteq> 0" and "c_string m (p + 1) xs"
  using assms by (simp_all add: c_string_Cons_iff)

lemma strlen_loop_c_string:
  "c_string m (p + k) xs \<Longrightarrow> strlen_loop m p k = Some (k + of_nat (length xs))"
proof (induction xs arbitrary: k)
  case Nil
  then show ?case by (subst strlen_loop.simps) simp
next
  case (Cons x xs)
  note c = c_string_Cons [OF Cons.prems]
  have "strlen_loop m p (k + 1) = Some (k + 1 + of_nat (length xs))"
    using c(3) by (intro Cons.IH) (simp add: add.assoc)
  then show ?case
    using c(1,2) by (subst strlen_loop.simps) (simp add: add.assoc)
qed

text \<open>\<^verbatim>\<open>strlen\<close> returns on every terminated string.\<close>

lemma strlen_c_string: "c_string m p xs \<Longrightarrow> strlen m p = Some (of_nat (length xs))"
  using strlen_loop_c_string [of m p 0 xs] by (simp add: strlen_def)

text \<open>Two string functions compare in the same way: by the first position that differs.\<close>

fun compare_bytes :: "u8 list \<Rightarrow> u8 list \<Rightarrow> int" where
  "compare_bytes (x # xs) (y # ys) = (if x = y then compare_bytes xs ys else byte_diff x y)"
| "compare_bytes (x # xs) [] = byte_diff x 0"
| "compare_bytes [] (y # ys) = byte_diff 0 y"
| "compare_bytes [] [] = 0"

lemma byte_diff_simps [simp]:
  "byte_diff x x = 0" "byte_diff x y = 0 \<longleftrightarrow> x = y" "byte_diff x y < 0 \<longleftrightarrow> x < y"
  by (simp_all add: byte_diff_def word_less_def word_uint_eq_iff)

lemma compare_bytes_sign:
  assumes "\<forall>x \<in> set xs. x \<noteq> 0" and "\<forall>y \<in> set ys. y \<noteq> 0"
  shows "compare_bytes xs ys = 0 \<longleftrightarrow> xs = ys" and "compare_bytes xs ys < 0 \<longleftrightarrow> ord_class.lexordp xs ys"
  using assms by (induction xs ys rule: compare_bytes.induct) (auto simp: word_greater_zero_iff)

lemma strcmp_c_string:
  "c_string m p xs \<Longrightarrow> c_string m q ys \<Longrightarrow> strcmp m p q = Some (compare_bytes xs ys)"
proof (induction xs ys arbitrary: p q rule: compare_bytes.induct)
  case (1 x xs y ys)
  note c = c_string_Cons [OF "1.prems"(1)] c_string_Cons [OF "1.prems"(2)]
  then show ?case
    using 1(1) [of "p + 1" "q + 1"] by (subst strcmp.simps) simp
next
  case (2 x xs)
  note c = c_string_Cons [OF 2(1)]
  then show ?case using 2(2) by (subst strcmp.simps) simp
next
  case (3 y ys)
  note c = c_string_Cons [OF 3(2)]
  then show ?case using 3(1) by (subst strcmp.simps) simp
next
  case 4
  then show ?case by (subst strcmp.simps) simp
qed

lemma c_string_nonzero: "c_string m p xs \<Longrightarrow> \<forall>x \<in> set xs. x \<noteq> 0"
  by (auto simp: c_string_def in_set_conv_nth)

text \<open>
  On two terminated strings \<^verbatim>\<open>strcmp\<close> returns; the result is zero exactly for
  equal strings and negative exactly when the first one comes first in the
  lexicographic order of unsigned bytes.
\<close>

theorem strcmp_correct:
  assumes "c_string m p xs" and "c_string m q ys"
  shows "\<exists>r. strcmp m p q = Some r \<and> (r = 0 \<longleftrightarrow> xs = ys) \<and> (r < 0 \<longleftrightarrow> ord_class.lexordp xs ys)"
  using strcmp_c_string [OF assms] compare_bytes_sign [of xs ys] assms [THEN c_string_nonzero] by simp

abbreviation sample_text :: mem where
  "sample_text \<equiv> (\<lambda>_. 0)(0x1000 := 0x61, 0x1001 := 0x62, 0x2000 := 0x61, 0x2001 := 0x80, 0x2002 := 0x63)"

lemma sample_strings:
  "c_string sample_text 0x1000 [0x61, 0x62]" "c_string sample_text 0x2000 [0x61, 0x80, 0x63]"
  by (simp_all add: c_string_Cons_iff)

theorem strcmp_correct_witness:
  "\<exists>r. strcmp sample_text 0x1000 0x2000 = Some r \<and> r < 0"
  using strcmp_correct [OF sample_strings] by auto


section \<open>Bounded copies of strings\<close>

lemma index_addr_add: "index_addr (index_addr p i) k = index_addr p (i + k)"
  by (simp add: index_addr_def add.assoc)

lemma copied_at: "k < n \<Longrightarrow> n < 4294967296 \<Longrightarrow>
  copied dst src (of_nat n) m (index_addr dst k) = m (index_addr src k)"
  by (simp add: copied_def index_addr_def word_less_nat_alt unsigned_of_nat take_bit_eq_mod)

lemma copied_other: "\<not> x - dst < n \<Longrightarrow> copied dst src n m x = m x"
  by (simp add: copied_def)

lemma offset_less_of_nat_iff:
  "n < 4294967296 \<Longrightarrow> x - p < of_nat n \<longleftrightarrow> (\<exists>i < n. x = index_addr p i)"
  by (subst offset_less_iff) (simp add: unsigned_of_nat take_bit_eq_mod)

text \<open>
  Copying \<open>n\<close> bytes of one string behind the bytes \<open>ys\<close> and terminating there
  gives the concatenation.
\<close>

lemma c_string_append_copied:
  assumes ys: "\<forall>i < length ys. m (index_addr dst i) = ys ! i \<and> ys ! i \<noteq> 0"
    and xs: "c_string m src xs" and n: "n \<le> length xs" "length ys + n < 4294967296"
  shows "c_string ((copied (index_addr dst (length ys)) src (of_nat n) m)
      (index_addr dst (length ys + n) := 0)) dst (ys @ take n xs)"
proof -
  let ?p = "index_addr dst (length ys)"
  let ?c = "copied ?p src (of_nat n) m"
  have old: "?c (index_addr dst i) = ys ! i" if "i < length ys" for i
  proof -
    have "\<not> index_addr dst i - ?p < of_nat n"
      using that n by (auto simp: offset_less_of_nat_iff index_addr_add index_addr_inj)
    then show ?thesis using that ys by (simp add: copied_other)
  qed
  have new: "?c (index_addr dst (length ys + k)) = xs ! k \<and> xs ! k \<noteq> 0" if "k < n" for k
    using that n xs copied_at [of k n ?p src m] by (simp add: index_addr_add c_string_def)
  have *: "(ys @ take n xs) ! i = (if i < length ys then ys ! i else xs ! (i - length ys))"
    if "i < length ys + n" for i
    using that n by (auto simp: nth_append)
  have "?c (index_addr dst i) = (ys @ take n xs) ! i \<and> (ys @ take n xs) ! i \<noteq> 0" if "i < length ys + n" for i
    using old [of i] new [of "i - length ys"] ys * [OF that] that by (cases "i < length ys") auto
  then show ?thesis
    using n by (simp add: c_string_def index_addr_inj min_def)
qed

text \<open>The region \<open>size\<close> bytes from \<open>dst\<close> holds no byte of the string at \<open>src\<close>.\<close>

definition apart :: "addr \<Rightarrow> u32 \<Rightarrow> addr \<Rightarrow> u8 list \<Rightarrow> bool" where
  "apart dst sz src xs \<longleftrightarrow> (\<forall>i \<le> length xs. \<not> index_addr src i - dst < sz)"

lemma apartD: "apart dst sz src xs \<Longrightarrow> i \<le> length xs \<Longrightarrow> k < unat sz \<Longrightarrow> index_addr dst k \<noteq> index_addr src i"
  by (metis apart_def offset_less_iff)

lemma strlcpy_loop_copies:
  assumes "\<forall>k \<in> {i..length xs}. m (index_addr src k) = (xs @ [0]) ! k" and "\<forall>x \<in> set xs. x \<noteq> 0"
    and "i \<le> length xs" and "i + left < unat sz" and "apart dst sz src xs"
  shows "strlcpy_loop dst src left (of_nat i) m =
    (of_nat (i + min left (length xs - i)), fold (copy_byte dst src) [i..<i + min left (length xs - i)] m)"
  using assms
proof (induction left arbitrary: i m)
  case 0
  then show ?case by simp
next
  case (Suc left)
  have at: "m (src + of_nat i) = (xs @ [0]) ! i"
    using Suc.prems by (simp add: index_addr_def)
  show ?case
  proof (cases "i = length xs")
    case True
    then show ?thesis using at by simp
  next
    case False
    then have i: "i < length xs" using Suc.prems by simp
    have cb: "m(dst + of_nat i := m (src + of_nat i)) = copy_byte dst src i m"
      by (simp add: copy_byte_def index_addr_def)
    have keep: "\<forall>k \<in> {Suc i..length xs}. copy_byte dst src i m (index_addr src k) = (xs @ [0]) ! k"
    proof
      fix k assume "k \<in> {Suc i..length xs}"
      then show "copy_byte dst src i m (index_addr src k) = (xs @ [0]) ! k"
        using Suc.prems apartD [of dst sz src xs k i] by (simp add: copy_byte_other)
    qed
    have "strlcpy_loop dst src left (of_nat (Suc i)) (copy_byte dst src i m) =
        (of_nat (Suc i + min left (length xs - Suc i)),
         fold (copy_byte dst src) [Suc i..<Suc i + min left (length xs - Suc i)] (copy_byte dst src i m))"
      using Suc.prems i by (intro Suc.IH [OF keep]) auto
    moreover have "i + min (Suc left) (length xs - i) = Suc i + min left (length xs - Suc i)"
      using i by simp
    moreover have "m (src + of_nat i) \<noteq> 0" using at i Suc.prems by (simp add: nth_append)
    ultimately show ?thesis
      using i by (simp add: cb upt_rec [of i] ac_simps del: upt_Suc of_nat_add)
  qed
qed

lemma fold_copy_apart:
  assumes "apart dst sz src xs" and "n \<le> length xs" and "n < 4294967296" and "a + n \<le> unat sz"
  shows "fold (copy_byte (index_addr dst a) src) [0..<n] m = copied (index_addr dst a) src (of_nat n) m"
proof (rule fold_copy_byte_copied)
  show "sorted_wrt (\<lambda>i k. index_addr (index_addr dst a) i \<noteq> index_addr src k) [0..<n]"
    using assms by (intro forward_order) (simp add: index_addr_add apartD)
qed (use assms in \<open>simp_all add: unsigned_of_nat take_bit_eq_mod\<close>)

lemma strlcpy_spec:
  assumes "c_string m src xs" and "apart dst sz src xs" and "sz \<noteq> 0"
  shows "\<exists>m'. strlcpy dst src sz m = (of_nat (min (unat sz - 1) (length xs)), m')
    \<and> c_string m' dst (take (unat sz - 1) xs)
    \<and> (\<forall>x. \<not> x - dst < sz \<longrightarrow> m' x = m x)"
proof -
  define n where "n = min (unat sz - 1) (length xs)"
  have sz: "0 < unat sz" using assms(3) by (simp add: unat_gt_0)
  have n: "n < unat sz" "n \<le> length xs" "n < 4294967296"
    using sz unat_u32_bound [of sz] by (auto simp: n_def)
  have bytes: "\<forall>k \<in> {0..length xs}. m (index_addr src k) = (xs @ [0]) ! k"
    using assms(1) by (auto simp: c_string_def nth_append)
  have sz1: "unat (sz - 1) = unat sz - 1"
    using sz by (simp add: unat_minus_one assms(3))
  have "strlcpy_loop dst src (unat (sz - 1)) 0 m = (of_nat n, fold (copy_byte dst src) [0..<n] m)"
    using strlcpy_loop_copies [OF bytes c_string_nonzero [OF assms(1)], of "unat sz - 1" sz dst] assms sz
    by (simp add: n_def sz1)
  moreover have "fold (copy_byte dst src) [0..<n] m = copied dst src (of_nat n) m"
    using fold_copy_apart [OF assms(2) n(2,3), of 0 m] n by (simp add: index_addr_def)
  ultimately have eq: "strlcpy dst src sz m = (of_nat n, (copied dst src (of_nat n) m)(index_addr dst n := 0))"
    using assms(3) by (simp add: strlcpy_def index_addr_def)
  have "c_string ((copied dst src (of_nat n) m)(index_addr dst n := 0)) dst (take (unat sz - 1) xs)"
    using c_string_append_copied [of "[]" m dst src xs n] assms(1) n
    by (simp add: index_addr_def n_def min_def split: if_splits)
  moreover have "((copied dst src (of_nat n) m)(index_addr dst n := 0)) x = m x" if "\<not> x - dst < sz" for x
  proof -
    have ne: "x \<noteq> index_addr dst k" if "k < unat sz" for k
      using \<open>\<not> x - dst < sz\<close> that by (auto simp: offset_less_iff)
    then have "\<not> x - dst < of_nat n"
      using n by (auto simp: offset_less_of_nat_iff)
    then show ?thesis using ne [OF n(1)] by (simp add: copied_other)
  qed
  ultimately show ?thesis using eq by (auto simp: n_def)
qed



text \<open>
  For two terminated strings, the destination shorter than the buffer size
  and the source outside the buffer, \<^verbatim>\<open>strlcat\<close> returns the sum of the two
  lengths (modulo the width of \<^verbatim>\<open>size_t\<close>), leaves the longest prefix of the
  concatenation that fits, terminated, and changes no byte outside the buffer.
\<close>

theorem strlcat_correct:
  assumes "c_string m dst ys" and "c_string m src xs" and "apart dst sz src xs" and "length ys < unat sz"
  shows "\<exists>m'. strlcat dst src sz m = Some (of_nat (length ys + length xs), m')
    \<and> c_string m' dst (take (unat sz - 1) (ys @ xs))
    \<and> (\<forall>x. \<not> x - dst < sz \<longrightarrow> m' x = m x)"
proof -
  define n where "n = min (unat sz - 1 - length ys) (length xs)"
  have len: "length xs < 4294967296" "length ys < 4294967296" using assms by (simp_all add: c_string_def)
  have n: "length ys + n < unat sz" "n \<le> length xs" "n < 4294967296" "length ys + n < 4294967296"
    using assms(4) unat_u32_bound [of sz] by (auto simp: n_def)
  have u: "unat (of_nat (length ys) :: u32) = length ys" "unat (of_nat (length xs) :: u32) = length xs"
    using len by (simp_all add: unsigned_of_nat take_bit_eq_mod)
  have fits: "\<not> of_nat (length ys) \<ge> sz" using assms(4) by (simp add: word_le_nat_alt u)
  have room: "unat (sz - of_nat (length ys) - 1) = unat sz - 1 - length ys"
  proof -
    have d: "unat (sz - of_nat (length ys)) = unat sz - length ys"
      using fits unat_sub [of "of_nat (length ys)" sz] by (simp add: u)
    then have "sz - of_nat (length ys) \<noteq> 0" using assms(4) by (metis unat_0 zero_less_diff less_irrefl)
    then show ?thesis using d by (simp add: unat_minus_one)
  qed
  have un: "unat (of_nat n :: u32) = n" using n by (simp add: unsigned_of_nat take_bit_eq_mod)
  have copy: "(if of_nat (length xs) < sz - of_nat (length ys) - 1 then of_nat (length xs)
      else sz - of_nat (length ys) - 1) = (of_nat n :: u32)"
    using un room u by (auto simp: word_unat_eq_iff word_less_nat_alt n_def)
  have "fold (copy_byte (index_addr dst (length ys)) src) [0..<n] m =
      copied (index_addr dst (length ys)) src (of_nat n) m"
    using fold_copy_apart [OF assms(3) n(2,3)] n by simp
  then have eq: "strlcat dst src sz m = Some (of_nat (length ys + length xs),
      (copied (index_addr dst (length ys)) src (of_nat n) m)(index_addr dst (length ys + n) := 0))"
    using fits by (simp add: strlcat_def strlen_c_string [OF assms(1)] strlen_c_string [OF assms(2)]
      copy un Let_def index_addr_def add.assoc)
  have "c_string ((copied (index_addr dst (length ys)) src (of_nat n) m)(index_addr dst (length ys + n) := 0))
      dst (ys @ take n xs)"
    using assms(1,2) n by (intro c_string_append_copied) (simp_all add: c_string_def)
  moreover have "ys @ take n xs = take (unat sz - 1) (ys @ xs)"
    using assms(4) by (simp add: n_def min_def)
  moreover have "((copied (index_addr dst (length ys)) src (of_nat n) m)(index_addr dst (length ys + n) := 0)) x = m x"
    if "\<not> x - dst < sz" for x
  proof -
    have ne: "x \<noteq> index_addr dst k" if "k < unat sz" for k
      using \<open>\<not> x - dst < sz\<close> that by (auto simp: offset_less_iff)
    then have "\<not> x - index_addr dst (length ys) < of_nat n"
      using n by (auto simp: offset_less_of_nat_iff index_addr_add)
    then show ?thesis using ne [OF n(1)] by (simp add: copied_other)
  qed
  ultimately show ?thesis using eq by auto
qed

theorem strlcat_correct_witness:
  "\<exists>m'. strlcat 0x1000 0x2000 5 sample_text = Some (5, m') \<and> c_string m' 0x1000 [0x61, 0x62, 0x61, 0x80]"
proof -
  have "apart 0x1000 5 0x2000 [0x61, 0x80, 0x63]"
    by (simp add: apart_def index_addr_def le_Suc_eq)
  from strlcat_correct [OF sample_strings this] show ?thesis by auto
qed

end
