(* ===== verification/Paging.thy ===== *)
theory Paging
  imports Mmu Klib_String
begin

text \<open>
  Memory as the running processor sees it: every access of the kernel goes
  through the page tables once paging is on. Gives the effect of \<^verbatim>\<open>memcpy\<close> on
  virtual addresses and the frame facts of the MMU operations: they change only
  memory of free pages and of page tables.
\<close>

section \<open>Accesses\<close>

text \<open>The two-level walk from \<^verbatim>\<open>cr3\<close>, or the address itself while paging is off.\<close>

definition cpu_address :: "'z mmu_st_scheme \<Rightarrow> addr \<Rightarrow> addr option" where
  "cpu_address s v =
     (if \<not> bit (cr0 s) 31 then Some v
      else
        let pde = get_entry s (PAGE_FRAME (cr3 s)) (PD_INDEX v) in
        if pde AND PDE_PRESENT = 0 then None
        else
          let pte = get_entry s (PAGE_FRAME pde) (PT_INDEX v) in
          if pte AND PTE_PRESENT = 0 then None else Some (PAGE_FRAME pte + (v AND 4095)))"

text \<open>The bytes \<open>is\<close> of \<^verbatim>\<open>memcpy(dest, src, n)\<close>, each read and written through the page tables.\<close>

fun copy_virtual :: "addr \<Rightarrow> addr \<Rightarrow> nat list \<Rightarrow> 'z mmu_st_scheme \<Rightarrow> fault + 'z mmu_st_scheme" where
  "copy_virtual dest src [] s = Inr s"
| "copy_virtual dest src (i # is) s =
     (case cpu_address s (index_addr src i) of
        None \<Rightarrow> Inl (PageFault (index_addr src i))
      | Some p \<Rightarrow>
        (case cpu_address s (index_addr dest i) of
           None \<Rightarrow> Inl (PageFault (index_addr dest i))
         | Some q \<Rightarrow> copy_virtual dest src is (s\<lparr>memory := (memory s)(q := memory s p)\<rparr>)))"

definition memcpy_virtual :: "addr \<Rightarrow> addr \<Rightarrow> u32 \<Rightarrow> 'z mmu_st_scheme \<Rightarrow> fault + 'z mmu_st_scheme" where
  "memcpy_virtual dest src n s = copy_virtual dest src [0..<unat n] s"

text \<open>The kernel runs in its own address space, with paging on.\<close>

definition paging_on :: "'z mmu_st_scheme \<Rightarrow> bool" where
  "paging_on s \<longleftrightarrow> bit (cr0 s) 31 \<and> cr3 s = page_directory (pt_storage s) \<and> kernel_address_space s = PtStorage"

lemma cpu_address_translate:
  assumes "mmu_inv M s" and "paging_on s"
  shows "cpu_address s v = map_option (\<lambda>(p, _). p + (v AND 4095)) (translate s v)"
proof -
  have "PAGE_FRAME (cr3 s) = page_directory (pt_storage s)"
    using assms(2) mmu_inv_pd [OF assms(1)] by (simp add: paging_on_def PAGE_FRAME_eq)
  with assms(2) show ?thesis by (simp add: cpu_address_def translate_def paging_on_def Let_def)
qed


section \<open>Pages and bytes\<close>

text \<open>The page of a byte inside an aligned page.\<close>

lemma align_down_offset:
  assumes "page_aligned t" and "unat k < 4096"
  shows "PAGE_ALIGN_DOWN (t + k) = t" and "(t + k) AND 4095 = k" and "unat (t + k) = unat t + unat k"
proof -
  obtain q where q: "unat t = 4096 * q" using assms(1) by (auto simp: page_aligned_unat mod_eq_0_iff_dvd)
  moreover have "unat t < 4294967296" by (rule unat_u32_bound)
  ultimately have "q \<le> 1048575" by simp
  then have "unat t \<le> 4294963200" using q by simp
  then show u: "unat (t + k) = unat t + unat k" using assms(2) by (simp add: unat_word_ariths)
  have d: "(unat t + unat k) div 4096 * 4096 = unat t" "(unat t + unat k) mod 4096 = unat k"
    using q assms(2) by simp_all
  show "PAGE_ALIGN_DOWN (t + k) = t" using d(1) u by (simp add: word_unat_eq_iff unat_PAGE_ALIGN_DOWN)
  have "unat ((t + k) AND 4095) = unat (t + k) mod 4096"
    by (simp add: mask_12 take_bit_eq_mask [symmetric] take_bit_eq_mod unat_mod)
  then show "(t + k) AND 4095 = k" using d(2) u by (simp add: word_unat_eq_iff)
qed

lemma entry_bytes:
  assumes "page_aligned t" and "unat i < 1024" and "b < 4"
  shows "PAGE_ALIGN_DOWN (entry_addr t i + of_nat b) = t"
proof -
  have "unat (4 * i) = 4 * unat i" using assms(2) by (simp add: unat_word_ariths)
  moreover have "unat (of_nat b :: u32) = b" using assms(3) by (simp add: unsigned_of_nat take_bit_eq_mod)
  ultimately have "unat (4 * i + of_nat b) < 4096" using assms(2,3) by (simp add: unat_word_ariths)
  from align_down_offset(1) [OF assms(1) this] show ?thesis by (simp add: entry_addr_def add.assoc)
qed

lemma entry_byte_0123:
  assumes "page_aligned t" and "unat i < 1024"
  shows "PAGE_ALIGN_DOWN (entry_addr t i) = t" "PAGE_ALIGN_DOWN (entry_addr t i + 1) = t"
    "PAGE_ALIGN_DOWN (entry_addr t i + 2) = t" "PAGE_ALIGN_DOWN (entry_addr t i + 3) = t"
  using entry_bytes [OF assms, of 0] entry_bytes [OF assms, of 1] entry_bytes [OF assms, of 2] entry_bytes [OF assms, of 3]
  by simp_all

text \<open>A page table entry depends on its page only, and writing one changes its page only.\<close>

lemma get_entry_cong:
  assumes "page_aligned t" and "unat i < 1024" and "\<And>a. PAGE_ALIGN_DOWN a = t \<Longrightarrow> memory s' a = memory s a"
  shows "get_entry s' t i = get_entry s t i"
  using entry_byte_0123 [OF assms(1,2)] assms(3) by (simp add: get_entry_def read32_def)

lemma set_entry_memory:
  assumes "page_aligned t" and "unat i < 1024" and "PAGE_ALIGN_DOWN a \<noteq> t"
  shows "memory (set_entry t i x s) a = memory s a"
  using entry_byte_0123 [OF assms(1,2)] assms(3) by (auto simp: set_entry_def write32_def)

lemma zero_table_memory:
  assumes "page_aligned t" and "PAGE_ALIGN_DOWN a \<noteq> t"
  shows "memory (zero_table t s) a = memory s a"
proof -
  have "memory (fold (\<lambda>i. set_entry t (of_nat i) 0) js s) a = memory s a" if "set js \<subseteq> {0..<1024}" for js :: "nat list"
    using that
  proof (induction js arbitrary: s)
    case Nil
    then show ?case by simp
  next
    case (Cons i js)
    then have "unat (of_nat i :: u32) < 1024" by (simp add: unsigned_of_nat take_bit_eq_mod)
    with Cons set_entry_memory [OF assms(1) this assms(2)] show ?case by simp
  qed
  from this [of "[0..<1024]"] show ?thesis by (simp add: zero_table_def)
qed

lemma owned_page_aligned: "mmu_inv M s \<Longrightarrow> t \<in> owned_pages s \<Longrightarrow> page_aligned t"
  using mmu_inv_pd by (auto simp: owned_pages_def table_page_def)

text \<open>Memory outside the page tables is invisible to the translation.\<close>

lemma mmu_state_cong:
  fixes s s' :: "'z mmu_st_scheme"
  assumes inv: "mmu_inv M s" and pt: "pt_storage s' = pt_storage s" and pinv: "pmm_inv M s'"
    and av: "avail_pages s' \<subseteq> avail_pages s"
    and m: "\<And>a. PAGE_ALIGN_DOWN a \<in> owned_pages s \<Longrightarrow> memory s' a = memory s a"
  shows "mmu_inv M s'" "translate s' = translate s" "table_slots s' = table_slots s" "owned_pages s' = owned_pages s"
proof -
  have e: "get_entry s' t i = get_entry s t i" if "t \<in> owned_pages s" "unat i < 1024" for t i
    using that owned_page_aligned [OF inv] m by (intro get_entry_cong) auto
  have "page_directory (pt_storage s) \<in> owned_pages s" by (simp add: owned_pages_def)
  note view = mmu_view_cong [OF pt e [OF this]]
  show slots: "table_slots s' = table_slots s" and "owned_pages s' = owned_pages s" using view(1,4) by simp_all
  show "mmu_inv M s'" by (rule view(3)) (use inv pinv av in simp_all)
  show "translate s' = translate s"
  proof
    fix v
    show "translate s' v = translate s v"
    proof (cases "PD_INDEX v \<in> table_slots s")
      case True
      then have "table_page s (PD_INDEX v) \<in> owned_pages s" by (simp add: owned_pages_def)
      with True view(2) [of "PD_INDEX v"] slots e show ?thesis by (simp add: translate_table Let_def)
    qed (simp add: translate_None slots)
  qed
qed

lemma mmu_memory_cong:
  assumes inv: "mmu_inv M s" and m: "\<And>a. PAGE_ALIGN_DOWN a \<in> owned_pages s \<Longrightarrow> m a = memory s a"
  defines "s' \<equiv> s\<lparr>memory := m\<rparr>"
  shows "mmu_inv M s'" "translate s' = translate s" "table_slots s' = table_slots s" "owned_pages s' = owned_pages s"
proof -
  have s': "pt_storage s' = pt_storage s" "pmm_inv M s'" "avail_pages s' \<subseteq> avail_pages s"
    using inv by (simp_all add: s'_def mmu_inv_def)
  show "mmu_inv M s'" "translate s' = translate s" "table_slots s' = table_slots s" "owned_pages s' = owned_pages s"
    using mmu_state_cong [OF inv s'] m by (simp_all add: s'_def)
qed


section \<open>Frame facts\<close>

text \<open>Everything but memory, free pages and the flush log is kept, and memory outside the footprint.\<close>

definition mmu_frame :: "'z mmu_st_scheme \<Rightarrow> 'z mmu_st_scheme \<Rightarrow> bool" where
  "mmu_frame s s' \<longleftrightarrow> mmu_st.more s' = mmu_st.more s \<and> pt_storage s' = pt_storage s \<and>
     kernel_address_space s' = kernel_address_space s \<and> cr0 s' = cr0 s \<and> cr3 s' = cr3 s \<and>
     avail_pages s' \<subseteq> avail_pages s \<and> (\<forall>a. PAGE_ALIGN_DOWN a \<notin> page_footprint s \<longrightarrow> memory s' a = memory s a)"

lemma more_mmu_more:
  fixes s s' :: "'z mmu_st_scheme"
  assumes "pmm_st.more s' = pmm_st.more s"
  shows "mmu_st.more s' = mmu_st.more s"
  using assms by (cases s, cases s', simp)

lemma alloc_page_frame:
  fixes s :: "'z mmu_st_scheme"
  assumes "pmm_inv M s" and "pmm_alloc_page s = Inr (p, s')"
  shows "mmu_frame s s'"
  using pmm.alloc_page(5) [OF assms] pmm_alloc_page_mmu [OF assms(2)] more_mmu_more [OF pmm_alloc_page_more [OF assms(2)]]
  by (auto simp: mmu_frame_def)

lemma set_entry_mmu_frame:
  assumes "mmu_frame s s1" and "page_aligned t" "unat i < 1024" "t \<in> page_footprint s"
  shows "mmu_frame s (set_entry t i x s1)"
proof -
  have "memory (set_entry t i x s1) a = memory s1 a" if "PAGE_ALIGN_DOWN a \<notin> page_footprint s" for a
    using that assms(4) by (intro set_entry_memory [OF assms(2,3)]) blast
  with assms(1) show ?thesis by (simp add: mmu_frame_def)
qed

lemma mmu_map_page_frame:
  assumes inv: "mmu_inv M s" and al: "page_aligned phys" "page_aligned virt"
    and map: "mmu_map_page PtStorage phys virt flags s = Inr (r, s')"
  shows "mmu_frame s s'"
proof -
  let ?pd = "page_directory (pt_storage s)" and ?i = "PD_INDEX virt"
  have pd: "page_aligned ?pd" "?pd \<in> page_footprint s" using mmu_inv_pd [OF inv] by (simp_all add: owned_pages_def)
  have k: "unat (PT_INDEX virt) < 1024" "unat ?i < 1024" by simp_all
  have fl: "mmu_frame s (flush_tlb_single v t) = mmu_frame s t" for v t
    by (simp add: mmu_frame_def flush_tlb_single_def)
  show ?thesis
  proof (cases "?i \<in> table_slots s")
    case True
    have "mmu_frame s s" by (simp add: mmu_frame_def)
    from set_entry_mmu_frame [OF this mmu_inv_table(1) [OF inv True] k(1)] True map show ?thesis
      by (auto simp: mmu_map_page_present [OF inv al True] owned_pages_def fl)
  next
    case False
    have pinv: "pmm_inv M s" using inv by (simp add: mmu_inv_def)
    from pmm.alloc_total [OF pinv] obtain p s1 where a: "pmm_alloc_page s = Inr (p, s1)" by blast
    note f1 = alloc_page_frame [OF pinv a]
    have e: "get_entry s ?pd ?i AND PDE_PRESENT = 0" using False by (simp add: table_slots_def and_1_bit)
    show ?thesis
    proof (cases "p = 0")
      case True
      then show ?thesis using a e map f1 al by (simp add: mmu_map_page_def ensure_table_def Let_def)
    next
      case nz: False
      have p: "page_aligned p" "p \<in> page_footprint s" using pmm.alloc_page [OF pinv a] nz by auto
      define s2 where "s2 = zero_table p s1"
      define s3 where "s3 = set_entry ?pd ?i (p OR 7) s2"
      have "memory s2 x = memory s1 x" if "PAGE_ALIGN_DOWN x \<notin> page_footprint s" for x
        unfolding s2_def using that p(2) by (intro zero_table_memory [OF p(1)]) blast
      then have f2: "mmu_frame s s2" using f1 by (simp add: mmu_frame_def s2_def)
      have f3: "mmu_frame s s3" unfolding s3_def by (rule set_entry_mmu_frame [OF f2 pd(1) k(2) pd(2)])
      have "PAGE_FRAME (get_entry s3 ?pd ?i) = p"
        using pd(1) k(2) by (simp add: s3_def get_set_entry page_frame_or(1) [OF p(1)])
      then have "s' = flush_tlb_single virt (set_entry p (PT_INDEX virt) (phys OR flags_to_x86 flags) s3)"
        using a e map nz al by (simp add: mmu_map_page_def ensure_table_def Let_def s2_def [symmetric])
          (auto simp: s3_def)
      then show ?thesis using set_entry_mmu_frame [OF f3 p(1) k(1) p(2)] by (simp add: fl)
    qed
  qed
qed


section \<open>Copying\<close>

text \<open>
  A copy from an identity-mapped region into one mapped page is \<^verbatim>\<open>memcpy\<close> on the
  physical addresses, if neither region holds page tables.
\<close>

lemma copy_virtual_physical:
  fixes s :: "'z mmu_st_scheme"
  assumes inv: "mmu_inv M s" and on: "paging_on s"
    and d: "\<And>i. i \<in> set is \<Longrightarrow> cpu_address s (index_addr dest i) = Some (index_addr q i)"
    and s: "\<And>i. i \<in> set is \<Longrightarrow> cpu_address s (index_addr src i) = Some (index_addr p i)"
    and own: "\<And>i. i \<in> set is \<Longrightarrow> PAGE_ALIGN_DOWN (index_addr q i) \<notin> owned_pages s"
  shows "copy_virtual dest src is s = Inr (s\<lparr>memory := fold (copy_byte q p) is (memory s)\<rparr>)"
  using assms
proof (induction "is" arbitrary: s)
  case Nil
  then show ?case by simp
next
  case (Cons i "is")
  define s1 where "s1 = s\<lparr>memory := copy_byte q p i (memory s)\<rparr>"
  have "copy_byte q p i (memory s) a = memory s a" if "PAGE_ALIGN_DOWN a \<in> owned_pages s" for a
    using that Cons.prems(5) [of i] by (auto simp: copy_byte_def)
  note c = mmu_memory_cong [OF Cons.prems(1) this, folded s1_def]
  have on1: "paging_on s1" using Cons.prems(2) by (simp add: paging_on_def s1_def)
  have "cpu_address s1 = cpu_address s"
    by (rule ext) (simp add: cpu_address_translate [OF c(1) on1] cpu_address_translate [OF Cons.prems(1,2)] c(2))
  with Cons.IH [OF c(1) on1] Cons.prems c(4)
  have "copy_virtual dest src is s1 = Inr (s1\<lparr>memory := fold (copy_byte q p) is (memory s1)\<rparr>)" by simp
  moreover have "copy_virtual dest src (i # is) s = copy_virtual dest src is s1"
    using Cons.prems(3,4) [of i] by (simp add: s1_def copy_byte_def)
  ultimately show ?case by (simp add: s1_def)
qed

end
