(* ===== verification/User_Task.thy ===== *)
theory User_Task
  imports Paging Task
begin

text \<open>
  Creation of a ring 3 task, \<^verbatim>\<open>core/user.c\<close>. The built-in test program lies between
  two addresses the linker chooses, arguments of the operation. The program is
  copied through the page tables into the page just mapped. Messages on the
  console are left out.
\<close>

section \<open>Operations\<close>

abbreviation USER_CODE_BASE :: addr where "USER_CODE_BASE \<equiv> 0x00400000"
abbreviation USER_STACK_TOP :: addr where "USER_STACK_TOP \<equiv> 0xC0000000"
abbreviation USER_STACK_SIZE :: u32 where "USER_STACK_SIZE \<equiv> 0x1000"
abbreviation USER_CS_SELECTOR :: u32 where "USER_CS_SELECTOR \<equiv> 0x1B"
abbreviation USER_DS_SELECTOR :: u32 where "USER_DS_SELECTOR \<equiv> 0x23"
abbreviation USER_EFLAGS :: u32 where "USER_EFLAGS \<equiv> 0x202"
abbreviation SCHED_DEFAULT_PRIORITY :: u8 where "SCHED_DEFAULT_PRIORITY \<equiv> 128"

definition user_context :: cpu_context where
  "user_context = zero_context\<lparr>ctx_cs := USER_CS_SELECTOR, ctx_ss := USER_DS_SELECTOR, ctx_ds := USER_DS_SELECTOR,
     ctx_es := USER_DS_SELECTOR, ctx_fs := USER_DS_SELECTOR, ctx_gs := USER_DS_SELECTOR, ctx_eip := USER_CODE_BASE,
     ctx_esp := USER_STACK_TOP, ctx_ebp := USER_STACK_TOP, ctx_eflags := USER_EFLAGS\<rparr>"

definition upd_task :: "addr \<Rightarrow> (task \<Rightarrow> task) \<Rightarrow> 'z sched_st_scheme \<Rightarrow> 'z sched_st_scheme" where
  "upd_task p f s = s\<lparr>tasks := (tasks s)(p := f (tasks s p))\<rparr>"

text \<open>The error exits after both pages were taken.\<close>

definition give_back :: "addr \<Rightarrow> addr \<Rightarrow> 'z sched_st_scheme \<Rightarrow> fault + addr \<times> 'z sched_st_scheme" where
  "give_back code_phys stack_phys s =
     andthen (pmm_free_page code_phys s) (\<lambda>s. andthen (pmm_free_page stack_phys s) (\<lambda>s. Inr (0, s)))"

text \<open>The last part of \<^verbatim>\<open>task_create_user\<close>: the stack page and the kernel stack.\<close>

definition user_stacks :: "addr \<Rightarrow> addr \<Rightarrow> addr \<Rightarrow> 'z sched_st_scheme \<Rightarrow> fault + addr \<times> 'z sched_st_scheme" where
  "user_stacks task code_phys stack_phys s =
     (let user_stack_base = USER_STACK_TOP - USER_STACK_SIZE;
          pt = t_address_space (tasks s task) in
      andthen (mmu_map_page pt stack_phys user_stack_base (MMU_PRESENT OR MMU_USER OR MMU_WRITABLE) s) (\<lambda>(stack_virt, s).
      if stack_virt = 0 then give_back code_phys stack_phys (mmu_unmap_page pt USER_CODE_BASE s)
      else
        let s = upd_task task (\<lambda>t. t\<lparr>t_kernel_stack_size := 4096\<rparr>) s in
        andthen (pmm_alloc_page s) (\<lambda>(kernel_stack, s).
        let s = upd_task task (\<lambda>t. t\<lparr>t_kernel_stack := kernel_stack\<rparr>) s in
        if kernel_stack = 0 then
          give_back code_phys stack_phys (mmu_unmap_page pt user_stack_base (mmu_unmap_page pt USER_CODE_BASE s))
        else Inr (task, upd_task task (\<lambda>t. t\<lparr>t_context := user_context\<rparr>) s))))"

definition task_create_user ::
  "addr \<Rightarrow> addr \<Rightarrow> string \<Rightarrow> addr \<Rightarrow> u32 \<Rightarrow> 'z sched_st_scheme \<Rightarrow> fault + addr \<times> 'z sched_st_scheme" where
  "task_create_user user_test_start user_test_end nm entry_point code_size s =
     (let (entry_point, code_size) =
            (if entry_point = 0 \<or> code_size = 0 then (user_test_start, user_test_end - user_test_start)
             else (entry_point, code_size)) in
      andthen (task_alloc s) (\<lambda>(task, s).
      if task = 0 then Inr (0, s)
      else
        let s = upd_task task (\<lambda>t. (set_name nm t)\<lparr>t_state := TASK_STATE_READY, t_priority := SCHED_DEFAULT_PRIORITY\<rparr>) s in
        andthen (pmm_alloc_page s) (\<lambda>(code_phys, s).
        if code_phys = 0 then Inr (0, s)
        else
          andthen (pmm_alloc_page s) (\<lambda>(stack_phys, s).
          if stack_phys = 0 then andthen (pmm_free_page code_phys s) (\<lambda>s. Inr (0, s))
          else
            let s = upd_task task (\<lambda>t. t\<lparr>t_address_space := mmu_get_kernel_address_space s\<rparr>) s in
            andthen (mmu_map_page (t_address_space (tasks s task)) code_phys USER_CODE_BASE
                (MMU_PRESENT OR MMU_USER OR MMU_WRITABLE) s) (\<lambda>(code_virt, s).
            if code_virt = 0 then give_back code_phys stack_phys s
            else
              andthen (memcpy_virtual USER_CODE_BASE entry_point code_size s)
                (user_stacks task code_phys stack_phys))))))"


section \<open>Properties\<close>

text \<open>Task structures are invisible to the memory managers.\<close>

lemma mmu_tasks_upd [simp]:
  fixes s :: "'z sched_st_scheme"
  shows "get_entry (s\<lparr>tasks := t\<rparr>) = get_entry s" "get_entry (s\<lparr>next_task_id := k\<rparr>) = get_entry s"
  by (simp_all add: get_entry_def fun_eq_iff)

lemma mmu_upd_task [simp]:
  fixes s :: "'z sched_st_scheme"
  shows "mmu_inv M (upd_task p f s) = mmu_inv M s" "translate (upd_task p f s) = translate s"
    "table_slots (upd_task p f s) = table_slots s" "owned_pages (upd_task p f s) = owned_pages s"
    "avail_pages (upd_task p f s) = avail_pages s" "paging_on (upd_task p f s) = paging_on s"
    "pmm_inv M (upd_task p f s) = pmm_inv M s" "memory (upd_task p f s) = memory s"
    "g_scheduler (upd_task p f s) = g_scheduler s" "idle_task (upd_task p f s) = idle_task s"
    "kernel_address_space (upd_task p f s) = kernel_address_space s"
    "next_task_id (upd_task p f s) = next_task_id s" "sched_st.more (upd_task p f s) = sched_st.more s"
    "tasks (upd_task p f s) = (tasks s)(p := f (tasks s p))"
  by (simp_all add: upd_task_def mmu_inv_def translate_def table_slots_def table_page_def [abs_def] owned_pages_def
      paging_on_def fun_eq_iff Let_def)

lemma mmu_fresh_task [simp]:
  fixes s :: "'z sched_st_scheme"
  shows "mmu_inv M (fresh_task p s) = mmu_inv M s" "translate (fresh_task p s) = translate s"
    "table_slots (fresh_task p s) = table_slots s" "owned_pages (fresh_task p s) = owned_pages s"
    "paging_on (fresh_task p s) = paging_on s" "kernel_address_space (fresh_task p s) = kernel_address_space s"
    "g_scheduler (fresh_task p s) = g_scheduler s" "idle_task (fresh_task p s) = idle_task s"
    "sched_st.more (fresh_task p s) = sched_st.more s"
  by (simp_all add: fresh_task_def mmu_inv_def translate_def table_slots_def table_page_def [abs_def] owned_pages_def
      paging_on_def fun_eq_iff Let_def)

lemma mmu_inv_alloc:
  fixes s :: "'z mmu_st_scheme"
  assumes inv: "mmu_inv M s" and a: "pmm_alloc_page s = Inr (p, s')" and ne: "avail_pages s \<noteq> {}"
  shows "mmu_inv M s'" "translate s' = translate s" "table_slots s' = table_slots s" "owned_pages s' = owned_pages s"
    "p \<in> avail_pages s" "p \<noteq> 0" "page_aligned p" "avail_pages s' = avail_pages s - {p}" "p \<notin> owned_pages s"
    "mmu_frame s s'" "memory s' = memory s" "p \<in> managed_pages M"
proof -
  have pinv: "pmm_inv M s" using inv by (simp add: mmu_inv_def)
  note al = pmm.alloc_page [OF pinv a] and f = pmm_alloc_page_mmu [OF a]
  show p: "p \<in> avail_pages s" "p \<noteq> 0" "page_aligned p" "p \<in> managed_pages M" "avail_pages s' = avail_pages s - {p}"
    using al ne by auto
  show "memory s' = memory s" "mmu_frame s s'" using f alloc_page_frame [OF pinv a] by simp_all
  have e: "get_entry s' = get_entry s" using f by (intro ext) (simp add: get_entry_def)
  have pt: "pt_storage s' = pt_storage s" using f by simp
  note v = mmu_view_cong [OF pt, unfolded e, OF refl]
  show "translate s' = translate s" by (intro ext) (simp add: translate_def e pt Let_def)
  show "table_slots s' = table_slots s" "owned_pages s' = owned_pages s" using v(1,4) by simp_all
  show "mmu_inv M s'" by (rule v(3)) (use al(1,5) inv in auto)
  show "p \<notin> owned_pages s" using p(1) inv by (auto simp: mmu_inv_def owned_pages_def)
qed

lemma mmu_frame_sched:
  fixes s s' :: "'z sched_st_scheme"
  assumes "mmu_frame s s'"
  shows "tasks s' = tasks s" "g_scheduler s' = g_scheduler s" "idle_task s' = idle_task s"
    "next_task_id s' = next_task_id s" "paging_on s' = paging_on s"
    "kernel_address_space s' = kernel_address_space s" "sched_st.more s' = sched_st.more s"
proof -
  have "mmu_st.more s' = mmu_st.more s" using assms by (simp add: mmu_frame_def)
  then show "tasks s' = tasks s" "g_scheduler s' = g_scheduler s" "idle_task s' = idle_task s" "next_task_id s' = next_task_id s"
    "sched_st.more s' = sched_st.more s"
    by (cases s, cases s', simp)+
  show "paging_on s' = paging_on s" "kernel_address_space s' = kernel_address_space s"
    using assms by (simp_all add: mmu_frame_def paging_on_def)
qed

lemma user_visible: "visible p (MMU_PRESENT OR MMU_USER OR MMU_WRITABLE) = Some (p, 7)"
  by (simp add: visible_def flags_to_x86_def Let_def)

text \<open>The code page: mapped, then filled through its mapping.\<close>

lemma load_user_code:
  fixes s :: "'z sched_st_scheme"
  assumes inv: "mmu_inv M s" and on: "paging_on s" and room: "0 < page_budget s"
    and c: "page_aligned c" "c \<notin> page_footprint s" and sz: "unat sz \<le> 4096"
    and ident: "\<And>i. i < unat sz \<Longrightarrow> cpu_address s (index_addr e i) = Some (index_addr e i)"
    and far: "\<And>i. i < unat sz \<Longrightarrow> PAGE_ALIGN_DOWN (index_addr e i) \<notin> insert c (insert USER_CODE_BASE (page_footprint s))"
  shows "\<exists>s1 s2. mmu_map_page PtStorage c USER_CODE_BASE (MMU_PRESENT OR MMU_USER OR MMU_WRITABLE) s = Inr (USER_CODE_BASE, s1) \<and>
    memcpy_virtual USER_CODE_BASE e sz s1 = Inr s2 \<and> mmu_inv M s2 \<and> mmu_st.more s2 = mmu_st.more s \<and>
    paging_on s2 \<and> page_footprint s2 = page_footprint s \<and> avail_pages s2 \<subseteq> avail_pages s \<and> page_budget s \<le> Suc (page_budget s2) \<and>
    (\<forall>v. translate s2 v = (if PAGE_ALIGN_DOWN v = USER_CODE_BASE then Some (c, 7) else translate s v)) \<and>
    (\<forall>i < unat sz. memory s2 (index_addr c i) = memory s (index_addr e i))"
proof -
  have ub: "page_aligned USER_CODE_BASE" by (simp add: page_aligned_def)
  from mmu.map_ok [OF inv c(1) ub, of "MMU_PRESENT OR MMU_USER OR MMU_WRITABLE"] room obtain s1 where
    s1: "mmu_map_page PtStorage c USER_CODE_BASE (MMU_PRESENT OR MMU_USER OR MMU_WRITABLE) s = Inr (USER_CODE_BASE, s1)"
      "mmu_inv M s1" "page_budget s1 = page_budget s - (if PD_INDEX USER_CODE_BASE \<in> table_slots s then 0 else 1)"
      "\<And>v. translate s1 v = (if PAGE_ALIGN_DOWN v = USER_CODE_BASE then Some (c, 7) else translate s v)"
      "page_footprint s1 = page_footprint s"
    unfolding user_visible by blast
  note f = mmu_map_page_frame [OF inv c(1) ub s1(1)]
  have on1: "paging_on s1" using mmu_frame_sched(5) [OF f] on by simp
  have ix: "unat (of_nat i :: u32) = i" if "i < unat sz" for i
    using that sz by (simp add: unsigned_of_nat take_bit_eq_mod)
  have cpage: "PAGE_ALIGN_DOWN (index_addr c i) = c" if "i < unat sz" for i
    using align_down_offset(1) [OF c(1), of "of_nat i"] ix [OF that] that sz by (simp add: index_addr_def)
  have dst: "cpu_address s1 (index_addr USER_CODE_BASE i) = Some (index_addr c i)" if "i < unat sz" for i
    using align_down_offset(1,2) [OF ub, of "of_nat i"] ix [OF that] that sz
    by (simp add: cpu_address_translate [OF s1(2) on1] s1(4) index_addr_def)
  have src: "cpu_address s1 (index_addr e i) = Some (index_addr e i)" if "i < unat sz" for i
    using ident [OF that] far [OF that]
    by (simp add: cpu_address_translate [OF s1(2) on1] cpu_address_translate [OF inv on] s1(4))
  define m where "m = fold (copy_byte c e) [0..<unat sz] (memory s1)"
  have "copy_virtual USER_CODE_BASE e [0..<unat sz] s1 = Inr (s1\<lparr>memory := m\<rparr>)"
    unfolding m_def
  proof (rule copy_virtual_physical [OF s1(2) on1])
    fix i
    assume i: "i \<in> set [0..<unat sz]"
    show "PAGE_ALIGN_DOWN (index_addr c i) \<notin> owned_pages s1" using cpage [of i] i s1(5) c(2) by auto
  qed (simp_all add: dst src)
  then have cp: "memcpy_virtual USER_CODE_BASE e sz s1 = Inr (s1\<lparr>memory := m\<rparr>)" by (simp add: memcpy_virtual_def)
  have ne: "index_addr c i \<noteq> index_addr e k" if "i < unat sz" "k < unat sz" for i k
    using cpage [OF that(1)] far [OF that(2)] by auto
  have m: "m = copied c e sz (memory s1)"
    unfolding m_def
  proof (rule fold_copy_byte_copied)
    show "sorted_wrt (\<lambda>i k. index_addr c i \<noteq> index_addr e k) [0..<unat sz]" by (rule forward_order) (simp add: ne)
  qed simp_all
  have keep: "m a = memory s1 a" if "PAGE_ALIGN_DOWN a \<noteq> c" for a
  proof -
    have "\<not> a - c < sz" using that cpage [of "unat (a - c)"] by (auto simp: index_addr_def word_less_nat_alt)
    then show ?thesis by (simp add: m copied_def)
  qed
  have "m a = memory s1 a" if "PAGE_ALIGN_DOWN a \<in> owned_pages s1" for a
    using that s1(5) c(2) by (intro keep) blast
  note mc = mmu_memory_cong [OF s1(2) this]
  have "memory s1 (index_addr e i) = memory s (index_addr e i)" if "i < unat sz" for i
    using f far [OF that] by (simp add: mmu_frame_def)
  moreover have "m (index_addr c i) = memory s1 (index_addr e i)" if "i < unat sz" for i
    using that ix [OF that] by (simp add: m copied_def index_addr_def word_less_nat_alt)
  ultimately have bytes: "\<forall>i < unat sz. m (index_addr c i) = memory s (index_addr e i)" by simp
  have "avail_pages s1 \<subseteq> avail_pages s" "mmu_st.more s1 = mmu_st.more s" using f by (simp_all add: mmu_frame_def)
  with s1 cp mc bytes on1 show ?thesis
    by (intro exI [of _ s1] exI [of _ "s1\<lparr>memory := m\<rparr>"]) (auto simp: paging_on_def split: if_splits)
qed

text \<open>The two stacks and the registers.\<close>

lemma user_stacks_ok:
  fixes s :: "'z sched_st_scheme"
  assumes inv: "mmu_inv M s" and on: "paging_on s" and room: "2 \<le> page_budget s" and u: "page_aligned u"
    and pt: "t_address_space (tasks s p) = PtStorage"
  shows "\<exists>k s'. user_stacks p c u s = Inr (p, s') \<and> mmu_inv M s' \<and> k \<in> avail_pages s - avail_pages s' \<and>
    avail_pages s' \<subseteq> avail_pages s \<and> g_scheduler s' = g_scheduler s \<and> idle_task s' = idle_task s \<and>
    (\<forall>v. translate s' v = (if PAGE_ALIGN_DOWN v = 0xBFFFF000 then Some (u, 7) else translate s v)) \<and>
    tasks s' = (tasks s)(p := (tasks s p)\<lparr>t_kernel_stack_size := 4096, t_kernel_stack := k, t_context := user_context\<rparr>) \<and>
    (\<forall>a. PAGE_ALIGN_DOWN a \<notin> page_footprint s \<longrightarrow> memory s' a = memory s a) \<and>
    page_budget s \<le> page_budget s' + 2 \<and> sched_st.more s' = sched_st.more s \<and> paging_on s' \<and>
    page_footprint s' \<subseteq> page_footprint s"
proof -
  have ub: "page_aligned 0xBFFFF000" by (simp add: page_aligned_def)
  from mmu.map_ok [OF inv u ub, of "MMU_PRESENT OR MMU_USER OR MMU_WRITABLE"] room obtain s1 where
    s1: "mmu_map_page PtStorage u 0xBFFFF000 (MMU_PRESENT OR MMU_USER OR MMU_WRITABLE) s = Inr (0xBFFFF000, s1)"
      "mmu_inv M s1" "page_budget s1 = page_budget s - (if PD_INDEX 0xBFFFF000 \<in> table_slots s then 0 else 1)"
      "\<And>v. translate s1 v = (if PAGE_ALIGN_DOWN v = 0xBFFFF000 then Some (u, 7) else translate s v)"
      "page_footprint s1 = page_footprint s"
    unfolding user_visible by fastforce
  note f = mmu_map_page_frame [OF inv u ub s1(1)]
  define s2 where "s2 = upd_task p (\<lambda>t. t\<lparr>t_kernel_stack_size := 4096\<rparr>) s1"
  have inv2: "mmu_inv M s2" using s1(2) by (simp add: s2_def)
  then have "pmm_inv M s2" by (simp add: mmu_inv_def)
  from pmm.alloc_total [OF this] obtain k s3 where a: "pmm_alloc_page s2 = Inr (k, s3)" by blast
  have "page_budget s1 > 0" using s1(3) room by (simp split: if_splits)
  then have "avail_pages s2 \<noteq> {}" by (auto simp: s2_def)
  note k = mmu_inv_alloc [OF inv2 a this]
  define s' where "s' = upd_task p (\<lambda>t. t\<lparr>t_context := user_context\<rparr>) (upd_task p (\<lambda>t. t\<lparr>t_kernel_stack := k\<rparr>) s3)"
  have "user_stacks p c u s = Inr (p, s')"
    using s1(1) a k(6) by (simp add: user_stacks_def Let_def pt s2_def [symmetric] s'_def)
  moreover have "mmu_inv M s'" using k(1) by (simp add: s'_def)
  moreover have "avail_pages s1 \<subseteq> avail_pages s" "\<forall>a. PAGE_ALIGN_DOWN a \<notin> page_footprint s \<longrightarrow> memory s1 a = memory s a"
    using f by (auto simp: mmu_frame_def)
  moreover have "k \<in> avail_pages s1" "avail_pages s' = avail_pages s1 - {k}" "memory s' = memory s1" "translate s' = translate s1"
    using k by (simp_all add: s'_def s2_def)
  moreover have "g_scheduler s' = g_scheduler s" "idle_task s' = idle_task s"
    "tasks s' = (tasks s)(p := (tasks s p)\<lparr>t_kernel_stack_size := 4096, t_kernel_stack := k, t_context := user_context\<rparr>)"
    using mmu_frame_sched [OF k(10)] mmu_frame_sched [OF f] by (simp_all add: s'_def s2_def)
  moreover have "sched_st.more s' = sched_st.more s" "paging_on s'"
    using mmu_frame_sched(5,7) [OF k(10)] mmu_frame_sched(5,7) [OF f] on by (simp_all add: s'_def s2_def)
  moreover have "page_footprint s' \<subseteq> page_footprint s"
    using k s1(5) by (auto simp: s'_def s2_def)
  moreover have "page_budget s \<le> page_budget s' + 2"
    using k(5,8) s1(3) by (simp add: s'_def s2_def split: if_splits)
  ultimately show ?thesis using s1(4) by (intro exI [of _ k] exI [of _ s']) auto
qed

lemma task_create_user_ok:
  fixes s :: "'z sched_st_scheme"
  assumes inv: "mmu_inv M s" and kinv: "kernel_inv M s qs" and on: "paging_on s" and room: "6 \<le> page_budget s"
    and e: "e \<noteq> 0" "sz \<noteq> 0" "unat sz \<le> 4096"
    and ident: "\<forall>i < unat sz. cpu_address s (index_addr e i) = Some (index_addr e i)"
    and far: "\<forall>i < unat sz. PAGE_ALIGN_DOWN (index_addr e i) \<notin> insert USER_CODE_BASE (page_footprint s)"
  shows "\<exists>p c u k s'. task_create_user ub ue nm e sz s = Inr (p, s') \<and> kernel_inv M s' qs \<and> mmu_inv M s' \<and>
    {p, c, u, k} \<subseteq> avail_pages s - avail_pages s' \<and> distinct [p, c, u, k] \<and>
    tasks s' = (tasks s)(p := zero_task\<lparr>t_id := next_task_id s, t_name := take 31 nm, t_state := TASK_STATE_READY,
      t_priority := 128, t_address_space := PtStorage, t_kernel_stack := k, t_kernel_stack_size := 4096,
      t_context := user_context\<rparr>) \<and>
    (\<forall>v. translate s' v = (if PAGE_ALIGN_DOWN v = 0xBFFFF000 then Some (u, 7)
      else if PAGE_ALIGN_DOWN v = 0x400000 then Some (c, 7) else translate s v)) \<and>
    (\<forall>i < unat sz. memory s' (index_addr c i) = memory s (index_addr e i)) \<and>
    g_scheduler s' = g_scheduler s \<and> idle_task s' = idle_task s \<and> page_budget s \<le> page_budget s' + 6 \<and> sched_st.more s' = sched_st.more s \<and> paging_on s' \<and>
    {c, u} \<inter> page_footprint s' = {} \<and> avail_pages s' \<subseteq> avail_pages s"
proof -
  have "pmm_inv M s" using inv by (simp add: mmu_inv_def)
  from pmm.alloc_total [OF this] obtain p s1 where a: "pmm_alloc_page s = Inr (p, s1)" by blast
  have "avail_pages s \<noteq> {}" using room by auto
  note p = mmu_inv_alloc [OF inv a this] and fp = mmu_frame_sched [OF p(10)]
  define s2 where "s2 = upd_task p (\<lambda>t. (set_name nm t)\<lparr>t_state := TASK_STATE_READY, t_priority := SCHED_DEFAULT_PRIORITY\<rparr>) (fresh_task p s1)"
  have inv2: "mmu_inv M s2" using p(1) by (simp add: s2_def)
  then have pinv2: "pmm_inv M s2" by (simp add: mmu_inv_def)
  have b2: "avail_pages s2 = avail_pages s - {p}" "5 \<le> page_budget s2" using p(5,8) room by (simp_all add: s2_def)
  from pmm.alloc_total [OF pinv2] obtain c s3 where b: "pmm_alloc_page s2 = Inr (c, s3)" by blast
  have "avail_pages s2 \<noteq> {}" using b2(2) by auto
  note c = mmu_inv_alloc [OF inv2 b this] and fc = mmu_frame_sched [OF c(10)]
  have "pmm_inv M s3" using c(1) by (simp add: mmu_inv_def)
  from pmm.alloc_total [OF this] obtain u s4 where d: "pmm_alloc_page s3 = Inr (u, s4)" by blast
  have b3: "4 \<le> page_budget s3" using c(5,8) b2(2) by simp
  then have "avail_pages s3 \<noteq> {}" by auto
  note u = mmu_inv_alloc [OF c(1) d this] and fu = mmu_frame_sched [OF u(10)]
  define s5 where "s5 = upd_task p (\<lambda>t. t\<lparr>t_address_space := mmu_get_kernel_address_space s4\<rparr>) s4"
  have pt: "mmu_get_kernel_address_space s4 = PtStorage"
    using on fp(6) fc(6) fu(6) by (simp add: mmu_get_kernel_address_space_def paging_on_def s2_def)
  have s5: "mmu_inv M s5" "paging_on s5" "memory s5 = memory s" "translate s5 = translate s"
      "owned_pages s5 = owned_pages s" "avail_pages s5 = avail_pages s - {p, c, u}" "3 \<le> page_budget s5"
    using p c u on fp(5) fc(5) fu(5) b3 b2(1) by (auto simp: s5_def s2_def)
  have foot: "page_footprint s5 \<subseteq> page_footprint s" "c \<notin> page_footprint s5" "c \<in> page_footprint s"
    using s5(5,6) c(5,9) b2(1) p(4) by (auto simp: s2_def)
  have adr: "cpu_address s5 = cpu_address s"
    by (rule ext) (simp add: cpu_address_translate [OF s5(1,2)] cpu_address_translate [OF inv on] s5(4))
  have far5: "PAGE_ALIGN_DOWN (index_addr e i) \<notin> insert c (insert USER_CODE_BASE (page_footprint s5))" if "i < unat sz" for i
    using far foot that by auto
  have "0 < page_budget s5" using s5(7) by simp
  have id5: "cpu_address s5 (index_addr e i) = Some (index_addr e i)" if "i < unat sz" for i
    using ident that by (simp add: adr)
  from load_user_code [OF s5(1,2) \<open>0 < page_budget s5\<close> c(7) foot(2) e(3) id5 far5] obtain s6 s7 where
    s7: "mmu_map_page PtStorage c USER_CODE_BASE (MMU_PRESENT OR MMU_USER OR MMU_WRITABLE) s5 = Inr (USER_CODE_BASE, s6)"
      "memcpy_virtual USER_CODE_BASE e sz s6 = Inr s7" "mmu_inv M s7" "mmu_st.more s7 = mmu_st.more s5" "paging_on s7"
      "page_footprint s7 = page_footprint s5" "avail_pages s7 \<subseteq> avail_pages s5" "page_budget s5 \<le> Suc (page_budget s7)"
      "\<And>v. translate s7 v = (if PAGE_ALIGN_DOWN v = USER_CODE_BASE then Some (c, 7) else translate s5 v)"
      "\<And>i. i < unat sz \<Longrightarrow> memory s7 (index_addr c i) = memory s5 (index_addr e i)"
    by blast
  have f7: "tasks s7 = tasks s5" "g_scheduler s7 = g_scheduler s5" "idle_task s7 = idle_task s5"
    "sched_st.more s7 = sched_st.more s5"
    using s7(4) by (cases s7, cases s5, simp)+
  have as: "t_address_space (tasks s7 p) = PtStorage" using f7(1) pt by (simp add: s5_def)
  have "2 \<le> page_budget s7" using s7(8) s5(7) by simp
  from user_stacks_ok [OF s7(3,5) this u(7) as, of c] obtain k s' where
    s': "user_stacks p c u s7 = Inr (p, s')" "mmu_inv M s'" "k \<in> avail_pages s7 - avail_pages s'" "avail_pages s' \<subseteq> avail_pages s7"
      "g_scheduler s' = g_scheduler s7" "idle_task s' = idle_task s7"
      "\<And>v. translate s' v = (if PAGE_ALIGN_DOWN v = 0xBFFFF000 then Some (u, 7) else translate s7 v)"
      "tasks s' = (tasks s7)(p := (tasks s7 p)\<lparr>t_kernel_stack_size := 4096, t_kernel_stack := k, t_context := user_context\<rparr>)"
      "\<And>a. PAGE_ALIGN_DOWN a \<notin> page_footprint s7 \<Longrightarrow> memory s' a = memory s7 a"
      "page_budget s7 \<le> page_budget s' + 2" "sched_st.more s' = sched_st.more s7" "paging_on s'"
      "page_footprint s' \<subseteq> page_footprint s7" by auto
  have "task_create_user ub ue nm e sz s = Inr (p, s')"
    using a p(6) b c(6) d u(6) s7(1,2) s'(1) e(1,2) pt
    by (simp add: task_create_user_def task_alloc_def Let_def s2_def [symmetric] s5_def [symmetric])
      (simp add: s5_def)
  moreover have tasks: "tasks s' = (tasks s)(p := zero_task\<lparr>t_id := next_task_id s, t_name := take 31 nm, t_state := TASK_STATE_READY,
      t_priority := 128, t_address_space := PtStorage, t_kernel_stack := k, t_kernel_stack_size := 4096, t_context := user_context\<rparr>)"
    using fp fc fu pt by (simp add: s'(8) f7 s5_def s2_def fresh_task_def set_name_def zero_task_def)
  moreover have pages: "{p, c, u, k} \<subseteq> avail_pages s - avail_pages s'" "distinct [p, c, u, k]" "avail_pages s' \<subseteq> avail_pages s"
    using p(5) c(5) u(5,8) c(8) s'(3,4) s7(7) s5(6) b2(1) by auto
  moreover have g: "g_scheduler s' = g_scheduler s" "idle_task s' = idle_task s" "sched_st.more s' = sched_st.more s"
    using fp fc fu by (simp_all add: s'(5,6,11) f7 s5_def s2_def)
  moreover have "page_budget s \<le> page_budget s' + 6"
  proof -
    have d: "c \<noteq> p" "u \<noteq> p" "u \<noteq> c" "{p, c, u} \<subseteq> avail_pages s"
      using p(5) c(5,8) u(5) b2(1) by auto
    then have "card {p, c, u} = 3" by (simp add: eq_commute)
    then have "page_budget s5 = page_budget s - 3" by (simp add: s5(6) card_Diff_subset [OF _ d(4)])
    then show ?thesis using s'(10) s7(8) by simp
  qed
  moreover have "kernel_inv M s' qs"
  proof (rule kernel_inv_cong [OF kinv _ pages(3)])
    show "g_scheduler s' = g_scheduler s" "idle_task s' = idle_task s" using g by simp_all
  qed (use s'(2) tasks p(5) in \<open>auto simp: mmu_inv_def\<close>)
  moreover have "\<forall>i < unat sz. memory s' (index_addr c i) = memory s (index_addr e i)"
  proof (intro allI impI)
    fix i assume that: "i < unat sz"
    have "unat (of_nat i :: u32) < 4096" using that e(3) by (simp add: unsigned_of_nat take_bit_eq_mod)
    from align_down_offset(1) [OF c(7) this] s7(6) foot(2) have "memory s' (index_addr c i) = memory s7 (index_addr c i)"
      by (intro s'(9)) (simp add: index_addr_def)
    with s7(10) [OF that] s5(3) show "memory s' (index_addr c i) = memory s (index_addr e i)" by simp
  qed
  moreover have "{c, u} \<inter> page_footprint s' = {}"
  proof -
    have "u \<notin> owned_pages s5" using u(9) c(4) p(4) by (simp add: s5(5)) (simp add: s2_def)
    then have "u \<notin> page_footprint s5" by (simp add: s5(6))
    with s'(13) s7(6) foot(2) show ?thesis by blast
  qed
  moreover have "\<forall>v. translate s' v = (if PAGE_ALIGN_DOWN v = 0xBFFFF000 then Some (u, 7)
      else if PAGE_ALIGN_DOWN v = 0x400000 then Some (c, 7) else translate s v)"
    using s'(7) s7(9) s5(4) by simp
  ultimately show ?thesis using s'(2,12)
    by (intro exI [of _ p] exI [of _ c] exI [of _ u] exI [of _ k] exI [of _ s'] conjI) assumption+
qed


text \<open>A sample: paging is on, page 0x100000 is mapped to itself, six pages are free.\<close>

definition sample_paged :: sched_st where
  "sample_paged = sample_sched\<lparr>cr0 := 0x80000011, cr3 := 0x8000\<rparr>"

definition sample_user :: sched_st where
  "sample_user = (case mmu_map_page PtStorage 0x100000 0x100000 3 sample_paged of Inr (_, t) \<Rightarrow> t | Inl _ \<Rightarrow> sample_paged)"

lemma sample_paged_mmu: "mmu_inv sample_frames sample_paged" "owned_pages sample_paged = {0x8000}" "paging_on sample_paged"
    "table_slots sample_paged = {}"
proof -
  have f: "memory sample_paged = memory sample_mmu" "pt_storage sample_paged = pt_storage sample_mmu"
    "frame_bitmap sample_paged = frame_bitmap sample_mmu" "kernel_address_space sample_paged = kernel_address_space sample_mmu"
    by (simp_all add: sample_paged_def sample_sched_def sample_sched0_def sample_cpu_def mmu_st.defs cpu_st.defs)
  have pt: "page_directory (pt_storage sample_paged) = 0x8000" "pd_phys (pt_storage sample_paged) = 0x8000"
    by (simp_all add: f sample_mmu_def)
  have "get_entry sample_paged = get_entry sample_mmu" by (intro ext) (simp add: get_entry_def f)
  then show slots: "table_slots sample_paged = {}" using sample_mmu_slots by (simp add: table_slots_def f)
  then show "owned_pages sample_paged = {0x8000}" by (simp add: owned_pages_def pt)
  have "pmm_inv sample_frames sample_paged" "avail_pages sample_paged = avail_pages sample_sched"
    using sample_sched_pmm by (simp_all add: sample_paged_def)
  moreover have "0x8000 \<in> managed_pages sample_frames"
    using sample_mmu_inv by (simp add: mmu_inv_def sample_mmu_def)
  ultimately show "mmu_inv sample_frames sample_paged" by (simp add: mmu_inv_def pt slots sample_sched_avail)
  show "paging_on sample_paged"
    by (simp add: paging_on_def pt f) (simp add: sample_paged_def sample_mmu_def)
qed

lemma sample_user_ok:
  "mmu_inv sample_frames sample_user" "kernel_inv sample_frames sample_user ((\<lambda>_. [])(7 := [0x2000]))"
  "paging_on sample_user" "page_budget sample_user = 6"
  "page_footprint sample_user = insert 0x8000 (avail_pages sample_sched)"
  "PAGE_ALIGN_DOWN v = 0x100000 \<Longrightarrow> cpu_address sample_user v = Some v"
proof -
  have av: "avail_pages sample_paged = avail_pages sample_sched" by (simp add: sample_paged_def)
  have b: "page_budget sample_paged = 7" unfolding av sample_sched_avail by simp
  have al: "page_aligned 0x100000" by (simp add: page_aligned_def)
  have room: "PD_INDEX 0x100000 \<in> table_slots sample_paged \<or> 0 < page_budget sample_paged" using b by simp
  from mmu.map_ok [OF sample_paged_mmu(1) al al room, of 3] obtain s1 where
    s1: "mmu_map_page PtStorage 0x100000 0x100000 3 sample_paged = Inr (0x100000, s1)" "mmu_inv sample_frames s1"
      "page_budget s1 = 6" "\<And>v. translate s1 v = (if PAGE_ALIGN_DOWN v = 0x100000 then visible 0x100000 3 else translate sample_paged v)"
      "page_footprint s1 = page_footprint sample_paged"
    using b sample_paged_mmu(4) by auto
  then have eq: "sample_user = s1" by (simp add: sample_user_def)
  note f = mmu_map_page_frame [OF sample_paged_mmu(1) al al s1(1), folded eq] and g = mmu_frame_sched [OF f]
  show inv: "mmu_inv sample_frames sample_user" and "page_budget sample_user = 6"
    and "page_footprint sample_user = insert 0x8000 (avail_pages sample_sched)"
    using s1 eq sample_paged_mmu(2) av by simp_all
  show on: "paging_on sample_user" using g(5) sample_paged_mmu(3) by simp
  show "kernel_inv sample_frames sample_user ((\<lambda>_. [])(7 := [0x2000]))"
  proof (rule kernel_inv_cong [OF sample_sched_kernel])
    show "avail_pages sample_user \<subseteq> avail_pages sample_sched" using f av by (simp add: mmu_frame_def)
    show "pmm_inv sample_frames sample_user" using inv by (simp add: mmu_inv_def)
  qed (simp_all add: g, simp_all add: sample_paged_def)
  show "cpu_address sample_user v = Some v" if v: "PAGE_ALIGN_DOWN v = 0x100000"
  proof -
    have "PAGE_ALIGN_DOWN v + (v AND 4095) = v"
      using align_down_split [of v] by (simp add: mask_12 take_bit_eq_mask [symmetric] take_bit_eq_mod)
    moreover have "translate sample_user v = visible 0x100000 3" using s1(4) v eq by simp
    ultimately show ?thesis using v by (simp add: cpu_address_translate [OF inv on] visible_def)
  qed
qed


text \<open>
  Creating a user task with a single page left returns null but does not give
  the page back: nothing refers to the page any more.
\<close>

theorem task_create_user_leaks:
  assumes "kernel_inv M s qs" and "avail_pages s = {p}"
  shows "\<exists>s'. task_create_user ub ue nm e sz s = Inr (0, s') \<and> avail_pages s' = {} \<and>
    p \<notin> live_tasks s' qs \<and> kernel_inv M s' qs"
proof -
  have pinv: "pmm_inv M s" using assms(1) by (simp add: kernel_inv_def)
  from pmm.alloc_total [OF pinv] obtain q s1 where a: "pmm_alloc_page s = Inr (q, s1)" by blast
  note al = pmm.alloc_page [OF pinv a] and f = pmm_alloc_page_sched [OF a]
  have q: "q = p" "p \<noteq> 0" using al assms(2) by auto
  define s2 where "s2 = upd_task p (\<lambda>t. (set_name nm t)\<lparr>t_state := TASK_STATE_READY, t_priority := SCHED_DEFAULT_PRIORITY\<rparr>) (fresh_task p s1)"
  have s2: "pmm_inv M s2" "avail_pages s2 = {}" using al assms(2) q by (simp_all add: s2_def)
  have "task_create_user ub ue nm e sz s = Inr (0, s2)"
    using a q pmm.alloc_none [OF s2] by (simp add: task_create_user_def task_alloc_def Let_def s2_def [symmetric])
  moreover have g: "g_scheduler s2 = g_scheduler s" "idle_task s2 = idle_task s" using f by (simp_all add: s2_def)
  moreover have "kernel_inv M s2 qs"
  proof (rule kernel_inv_cong [OF assms(1) s2(1) _ g])
    fix y
    assume "y \<notin> avail_pages s"
    then show "tasks s2 y = tasks s y" using assms(2) f by (simp add: s2_def fresh_task_def)
  qed (simp add: s2)
  moreover have "p \<notin> live_tasks s2 qs"
    using assms g by (auto simp: kernel_inv_def live_tasks_def)
  ultimately show ?thesis using s2(2) by blast
qed

text \<open>A sample in which only frame 15 is left.\<close>

definition sample_last_page :: sched_st where
  "sample_last_page = (fold bitmap_or_bit [9, 10, 11, 12, 13, 14] sample_sched)\<lparr>free_frames := 1\<rparr>"

theorem task_create_user_leaks_witness:
  "\<exists>s'. task_create_user 0x100000 0x100040 ''init'' 0 0 sample_last_page = Inr (0, s') \<and> avail_pages s' = {}"
proof -
  have "free_set sample_last_page = {15}" by (auto simp: sample_last_page_def sample_sched_free)
  moreover from this have av: "avail_pages sample_last_page = {0xF000}" by (simp add: avail_pages_def)
  ultimately have "pmm_inv sample_frames sample_last_page"
    using sample_sched_pmm by (simp add: pmm_inv_def) (simp add: sample_last_page_def bitmap_or_bit_def Let_def)
  moreover have "avail_pages sample_last_page \<subseteq> avail_pages sample_sched" by (simp add: av sample_sched_avail)
  ultimately have "kernel_inv sample_frames sample_last_page ((\<lambda>_. [])(7 := [0x2000]))"
    by (rule kernel_inv_cong [OF sample_sched_kernel])
      (simp_all add: sample_last_page_def bitmap_or_bit_def Let_def)
  from task_create_user_leaks [OF this av] show ?thesis by blast
qed

end
