(* ===== verification/Page_Use.thy ===== *)
theory Page_Use
  imports User_Task
begin

text \<open>
  What the operations on tasks do to memory: they change only pages that were
  free before, and leave page tables, control registers and the memory of every page in
  use alone. The address translation and the contents of mapped pages therefore
  survive them.
\<close>

section \<open>Taking free pages\<close>

definition takes_free :: "'z sched_st_scheme \<Rightarrow> 'z sched_st_scheme \<Rightarrow> bool" where
  "takes_free s s' \<longleftrightarrow> pt_storage s' = pt_storage s \<and> kernel_address_space s' = kernel_address_space s \<and>
     cr0 s' = cr0 s \<and> cr3 s' = cr3 s \<and> avail_pages s' \<subseteq> avail_pages s \<and>
     (\<forall>a. PAGE_ALIGN_DOWN a \<notin> avail_pages s \<longrightarrow> memory s' a = memory s a)"

text \<open>The same for operations that touch no device either.\<close>

definition uses_free :: "'z sched_st_scheme \<Rightarrow> 'z sched_st_scheme \<Rightarrow> bool" where
  "uses_free s s' \<longleftrightarrow> takes_free s s' \<and> sched_st.more s' = sched_st.more s"

lemma takes_free_refl [simp]: "takes_free s s"
  by (simp add: takes_free_def)

lemma takes_free_trans: "takes_free s t \<Longrightarrow> takes_free t u \<Longrightarrow> takes_free s u"
  by (auto simp: takes_free_def)

lemma takes_free_mmu:
  assumes inv: "mmu_inv M s" and u: "takes_free s s'" and pinv: "pmm_inv M s'"
  shows "mmu_inv M s'" "translate s' = translate s" "owned_pages s' = owned_pages s" "paging_on s' = paging_on s"
proof -
  have dis: "owned_pages s \<inter> avail_pages s = {}" using inv by (auto simp: mmu_inv_def owned_pages_def)
  have s': "pt_storage s' = pt_storage s" "avail_pages s' \<subseteq> avail_pages s" using u by (simp_all add: takes_free_def)
  have m: "memory s' a = memory s a" if "PAGE_ALIGN_DOWN a \<in> owned_pages s" for a
    using that u dis by (auto simp: takes_free_def)
  show "mmu_inv M s'" "translate s' = translate s" "owned_pages s' = owned_pages s"
    using mmu_state_cong [OF inv s'(1) pinv s'(2) m] by simp_all
  show "paging_on s' = paging_on s" using u by (simp add: takes_free_def paging_on_def)
qed

lemma avail_page_not_null: "pmm_inv M s \<Longrightarrow> p \<in> avail_pages s \<Longrightarrow> p \<noteq> 0"
  using frame_addr_eq_0 by (fastforce simp: avail_pages_def pmm_inv_def free_set_def)

lemma avail_page_aligned: "p \<in> avail_pages s \<Longrightarrow> page_aligned p"
  by (auto simp: avail_pages_def free_set_def page_aligned_frame_addr)

lemma uses_free_refl [simp]: "uses_free s s"
  by (simp add: uses_free_def)

lemma uses_free_trans: "uses_free s t \<Longrightarrow> uses_free t u \<Longrightarrow> uses_free s u"
  by (auto simp: uses_free_def intro: takes_free_trans)

lemma same_pages_uses_free:
  fixes s s' :: "'z sched_st_scheme"
  assumes "same_pages s s'"
  shows "uses_free s s'"
proof -
  have "mmu_st.truncate s' = mmu_st.truncate s" using assms by (simp add: same_pages_def)
  then have "pt_storage s' = pt_storage s" "kernel_address_space s' = kernel_address_space s" "cr0 s' = cr0 s"
    "cr3 s' = cr3 s" "memory s' = memory s"
    by (simp_all add: mmu_st.truncate_def)
  with assms show ?thesis by (simp add: uses_free_def takes_free_def same_pages_def)
qed

lemma uses_free_upd [simp]:
  "uses_free s (t\<lparr>tasks := f\<rparr>) = uses_free s t" "uses_free s (t\<lparr>idle_task := i\<rparr>) = uses_free s t"
  "uses_free s (t\<lparr>next_task_id := k\<rparr>) = uses_free s t" "uses_free s (t\<lparr>g_scheduler := g\<rparr>) = uses_free s t"
  "uses_free s (t\<lparr>regs := r\<rparr>) = uses_free s t" "uses_free s (fresh_task p t) = uses_free s t"
  by (simp_all add: uses_free_def takes_free_def fresh_task_def)

lemma uses_free_mmu:
  assumes "mmu_inv M s" and "uses_free s s'" and "pmm_inv M s'"
  shows "mmu_inv M s'" "translate s' = translate s" "owned_pages s' = owned_pages s" "paging_on s' = paging_on s"
  using takes_free_mmu [OF assms(1) _ assms(3)] assms(2) by (simp_all add: uses_free_def)

lemma alloc_uses_free:
  fixes s :: "'z sched_st_scheme"
  assumes "pmm_inv M s" and "pmm_alloc_page s = Inr (p, s')"
  shows "uses_free s s'" "pmm_inv M s'" "page_budget s \<le> page_budget s' + 1"
    "p \<noteq> 0 \<Longrightarrow> page_aligned p" "p \<noteq> 0 \<Longrightarrow> p \<in> avail_pages s"
proof -
  note al = pmm.alloc_page [OF assms] and f = pmm_alloc_page_mmu [OF assms(2)]
  have "pmm_st.more s' = pmm_st.more s" by (rule pmm_alloc_page_more [OF assms(2)])
  then have "sched_st.more s' = sched_st.more s" by (cases s, cases s', simp)
  then show "uses_free s s'" using al f by (auto simp: uses_free_def takes_free_def)
  show "pmm_inv M s'" by (rule al(1))
  show "page_budget s \<le> page_budget s' + 1" using al(5) by (simp add: card_Diff_singleton_if) linarith
  show "page_aligned p" "p \<in> avail_pages s" if "p \<noteq> 0" using al that by auto
qed

text \<open>A word written into a page that was free.\<close>

lemma store_word_uses_free:
  assumes "uses_free s t" and "page_aligned p" and "p \<in> avail_pages s" and "unat i < 1024"
  shows "uses_free s (store_word (entry_addr p i) v t)"
proof -
  have "write32 (entry_addr p i) v (memory t) a = memory t a" if "PAGE_ALIGN_DOWN a \<notin> avail_pages s" for a
  proof -
    have "PAGE_ALIGN_DOWN a \<noteq> p" using that assms(3) by blast
    from set_entry_memory [OF assms(2,4) this, of v t] show ?thesis by (simp add: set_entry_def)
  qed
  with assms(1) show ?thesis by (simp add: uses_free_def takes_free_def store_word_def)
qed


lemma task_init_uses_free:
  fixes s :: "'z sched_st_scheme"
  assumes inv: "pmm_inv M s" and r: "task_init e s = Inr s'"
  shows "uses_free s s'" "page_budget s \<le> page_budget s' + 2"
proof -
  from pmm.alloc_total [OF inv] obtain i s1 where a: "pmm_alloc_page s = Inr (i, s1)" by blast
  note al = alloc_uses_free [OF inv a]
  define s2 where "s2 = s1\<lparr>idle_task := i, tasks := (tasks s1)(i := (set_name ''idle'' (zero_task\<lparr>t_id := 0\<rparr>))\<lparr>
    t_state := TASK_STATE_READY, t_priority := SCHED_IDLE_PRIORITY,
    t_address_space := mmu_get_kernel_address_space (s1\<lparr>idle_task := i\<rparr>), t_kernel_stack_size := 4096\<rparr>)\<rparr>"
  have inv2: "pmm_inv M s2" "uses_free s s2" "page_budget s2 = page_budget s1" using al by (simp_all add: s2_def)
  from pmm.alloc_total [OF inv2(1)] obtain k s3 where b: "pmm_alloc_page s2 = Inr (k, s3)" by blast
  note bl = alloc_uses_free [OF inv2(1) b]
  have u3: "uses_free s s3" by (rule uses_free_trans [OF inv2(2) bl(1)])
  have e: "k + 4092 = entry_addr k 1023" "k + 4088 = entry_addr k 1022" by (simp_all add: entry_addr_def)
  have "uses_free s s' \<and> page_budget s \<le> page_budget s' + 2"
  proof (cases "i = 0 \<or> k = 0")
    case True
    with r a b al(1,3) u3 bl(3) inv2(3) show ?thesis
      by (auto simp: task_init_def Let_def s2_def [symmetric] split: if_splits)
  next
    case False
    then have kp: "page_aligned k" "k \<in> avail_pages s" using bl(4,5) inv2(2) by (auto simp: uses_free_def takes_free_def)
    have w: "uses_free s (store_word (entry_addr k 1022) 0 (store_word (entry_addr k 1023) 0
        (s3\<lparr>tasks := f\<rparr>)))" for f
      by (intro store_word_uses_free kp) (simp_all add: u3)
    have "page_budget s \<le> page_budget s3 + 2" using al(3) bl(3) inv2(3) by simp
    with r a b False w show ?thesis
      by (auto simp: task_init_def Let_def s2_def [symmetric] add.commute e)
  qed
  then show "uses_free s s'" "page_budget s \<le> page_budget s' + 2" by simp_all
qed

lemma scheduler_init_uses_free:
  assumes r: "scheduler_init b s = Inr s'"
  shows "uses_free s s'" "avail_pages s' = avail_pages s"
proof -
  have "uses_free s s' \<and> avail_pages s' = avail_pages s"
  proof (cases "idle_task s = 0")
    case True
    with r show ?thesis by (auto simp: scheduler_init_def Let_def upd_sched_def task_get_idle_def)
  next
    case False
    with r have "\<exists>g ts. scheduler_enqueue (idle_task s) (s\<lparr>g_scheduler := g, tasks := ts\<rparr>) = Inr s'"
      by (simp add: scheduler_init_def Let_def upd_sched_def task_get_idle_def store_task_def) blast
    then obtain g ts where "same_pages (s\<lparr>g_scheduler := g, tasks := ts\<rparr>) s'" using scheduler_enqueue_pages by blast
    then have "avail_pages s' = avail_pages s" "uses_free (s\<lparr>g_scheduler := g, tasks := ts\<rparr>) s'"
      by (simp add: same_pages_def, intro same_pages_uses_free)
    moreover have "uses_free s (s\<lparr>g_scheduler := g, tasks := ts\<rparr>)" by simp
    ultimately show ?thesis using uses_free_trans by blast
  qed
  then show "uses_free s s'" "avail_pages s' = avail_pages s" by simp_all
qed

text \<open>The wrapper block of a new thread lies in its stack page.\<close>

lemma push_frame_uses_free:
  assumes "uses_free s t" and "page_aligned k" and "k \<in> avail_pages s"
  shows "uses_free s (t\<lparr>memory := push_frame k e arg (memory t)\<rparr>)"
proof -
  have e: "k + 4080 = entry_addr k 1020" "k + 4084 = entry_addr k 1021" "k + 4088 = entry_addr k 1022"
    "k + 4092 = entry_addr k 1023" by (simp_all add: entry_addr_def)
  have eq: "t\<lparr>memory := push_frame k e arg (memory t)\<rparr> = store_word (entry_addr k 1020) 0
      (store_word (entry_addr k 1021) (k + 4088) (store_word (entry_addr k 1023) arg (store_word (entry_addr k 1022) e t)))"
    by (simp add: push_frame_def store_word_def e)
  show ?thesis unfolding eq by (intro store_word_uses_free assms) simp_all
qed

lemma task_create_uses_free:
  fixes s :: "'z sched_st_scheme"
  assumes inv: "pmm_inv M s" and e: "e \<noteq> 0" and av: "2 \<le> page_budget s"
    and r: "task_create_kernel_thread w nm e arg pr 4096 s = Inr (q, s')"
  shows "uses_free s s'"
proof -
  from pmm.alloc_total [OF inv] obtain p s1 where a: "pmm_alloc_page s = Inr (p, s1)" by blast
  note al = pmm.alloc_page [OF inv a] and au = alloc_uses_free [OF inv a]
  have "avail_pages s \<noteq> {}" using av by auto
  then have p: "p \<noteq> 0" "p \<in> avail_pages s" using al by auto
  have inv2: "pmm_inv M (with_task p nm pr s1)" using al(1) by simp
  from pmm.alloc_total [OF this] obtain k s2 where b: "pmm_alloc_page (with_task p nm pr s1) = Inr (k, s2)" by blast
  note bl = pmm.alloc_page [OF inv2 b] and bu = alloc_uses_free [OF inv2 b]
  have "avail_pages s \<noteq> {p}" using av by auto
  then have "avail_pages (with_task p nm pr s1) \<noteq> {}" using al(5) p(2) by auto
  then have k: "k \<noteq> 0" "k \<in> avail_pages s" "page_aligned k" using bl bu al(5) by auto
  have "uses_free s (with_task p nm pr s1)" using au(1) by (simp add: with_task_def Let_def)
  then have u2: "uses_free s s2" using bu(1) by (rule uses_free_trans)
  have "s' = (s2\<lparr>tasks := (tasks s2)(p := (tasks s2 p)\<lparr>t_kernel_stack := k\<rparr>)\<rparr>)\<lparr>memory := push_frame k e arg (memory s2)\<rparr>
      \<lparr>tasks := (tasks s2)(p := (tasks s2 p)\<lparr>t_kernel_stack := k, t_context := kernel_context (k + 4080) w\<rparr>)\<rparr>"
    using task_create_unfold [OF e a p(1) b, of w arg] r k(1) by (simp add: Let_def)
  then show ?thesis
    using push_frame_uses_free [OF u2 k(3,2), of e arg] by simp
qed

text \<open>Thread creation on every branch: refused, out of pages, or successful.\<close>

lemma create_uses_free:
  fixes s :: "'z sched_st_scheme"
  assumes inv: "pmm_inv M s" and r: "task_create_kernel_thread w nm e arg pr sz s = Inr (q, s')"
  shows "uses_free s s'"
proof (cases "e = 0 \<or> sz \<noteq> 4096")
  case True
  then have "task_create_kernel_thread w nm e arg pr sz s = Inr (0, s)" by (auto simp: task_create_kernel_thread_def)
  then show ?thesis using r by simp
next
  case False
  then have e: "e \<noteq> 0" "sz = 4096" by auto
  consider "avail_pages s = {}" | p where "avail_pages s = {p}" | "2 \<le> page_budget s"
  proof -
    have "card (avail_pages s) = 0 \<or> card (avail_pages s) = 1 \<or> 2 \<le> card (avail_pages s)" by linarith
    then show ?thesis using that by (auto simp: card_1_singleton_iff)
  qed
  then show ?thesis
  proof cases
    case 1
    with task_create_no_page [OF inv e(1)] r e(2) show ?thesis by simp
  next
    case (2 p)
    from task_create_no_stack [OF inv e(1) 2, of w nm arg pr] r e(2) have av: "avail_pages s' = avail_pages s" by simp
    from pmm.alloc_total [OF inv] obtain x s1 where a: "pmm_alloc_page s = Inr (x, s1)" by blast
    note al = pmm.alloc_page [OF inv a] and au = alloc_uses_free [OF inv a]
    have x: "x \<noteq> 0" "avail_pages s1 = {}" using al 2 by auto
    have "pmm_inv M (with_task x nm pr s1)" "avail_pages (with_task x nm pr s1) = {}" using al(1) x by simp_all
    from pmm.alloc_none [OF this] have "pmm_alloc_page (with_task x nm pr s1) = Inr (0, with_task x nm pr s1)" .
    with task_create_unfold [OF e(1) a x(1) this, of w arg] r e(2) obtain s3 where
      s3: "pmm_free_page x s3 = Inr s'" "\<exists>f. s3 = (with_task x nm pr s1)\<lparr>tasks := f\<rparr>"
      by (auto simp: Let_def andthen_eq_Inr)
    have "uses_free s s3" using au(1) s3(2) by (auto simp: with_task_def Let_def)
    moreover have "pmm_st.more s' = pmm_st.more s3" by (rule pmm_free_page_more [OF s3(1)])
    then have "sched_st.more s' = sched_st.more s3" by (cases s', cases s3, simp)
    ultimately show ?thesis using pmm_free_page_mmu [OF s3(1)] av by (auto simp: uses_free_def takes_free_def)
  next
    case 3
    then show ?thesis using task_create_uses_free [OF inv e(1)] r e(2) by blast
  qed
qed

end
