(* ===== verification/Boot.thy ===== *)
theory Boot
  imports Pmm_Init Timer Syscall Page_Use
begin

text \<open>
  The boot sequence: the rest of \<^verbatim>\<open>arch/x86/hal.c\<close> and \<^verbatim>\<open>kmain\<close> of \<^verbatim>\<open>core/init.c\<close> in a build
  without \<^verbatim>\<open>KERNEL_TESTS\<close>. The console, which \<^verbatim>\<open>kmain\<close> sets up after the per-CPU data,
  has a state of its own, and what \<^verbatim>\<open>kmain\<close> does to it is the subject of \<open>Boot_Console\<close>. Addresses that the linker
  chooses are collected in a record. The main result follows the boot from the
  multiboot memory map to the first instruction in ring 3.
\<close>

section \<open>The hardware abstraction layer\<close>

abbreviation HAL_CPU_FEAT_FPU :: u32 where "HAL_CPU_FEAT_FPU \<equiv> 1"

record linkage =
  l_tss :: addr
  l_gdt :: addr
  l_idt :: addr
  l_stubs :: stubs
  l_timer_handler :: addr
  l_kernel_start :: addr
  l_kernel_end :: addr
  l_idle_entry :: addr
  l_bootstrap_task :: addr
  l_task_wrapper :: addr
  l_user_test_start :: addr
  l_user_test_end :: addr
  l_test_thread_entry :: addr

definition detect_cpu_features :: u32 where
  "detect_cpu_features = (let features = 0 in features OR HAL_CPU_FEAT_FPU)"

definition cpu_features :: u32 where
  "cpu_features = detect_cpu_features"

definition cpu_init :: "linkage \<Rightarrow> 'z irq_st_scheme \<Rightarrow> 'z irq_st_scheme" where
  "cpu_init lk s = idt_init (l_stubs lk) (l_idt lk) (gdt_init (l_tss lk) (l_gdt lk) s)"

definition hal_x86_init :: "linkage \<Rightarrow> 'z irq_st_scheme \<Rightarrow> 'z irq_st_scheme" where
  "hal_x86_init lk s = cpu_init lk (s\<lparr>ports := (ports s)\<lparr>hal_set := True\<rparr>\<rparr>)"

definition hal_timer_init :: "linkage \<Rightarrow> u32 \<Rightarrow> 'z timer_st_scheme \<Rightarrow> (fault + 'z timer_st_scheme) option" where
  "hal_timer_init lk frequency_hz s = timer_init (l_timer_handler lk) frequency_hz s"

text \<open>The entries of the table that have no work to do on this single-CPU port.\<close>

definition hal_mmu_map :: "addr \<Rightarrow> addr \<Rightarrow> u32 \<Rightarrow> addr" where
  "hal_mmu_map phys virt flags = virt"

definition mmio_map :: "addr \<Rightarrow> u32 \<Rightarrow> addr" where
  "mmio_map phys sz = phys"

definition smp_num_cpus :: u32 where
  "smp_num_cpus = 1"

definition smp_boot_cpu :: "u32 \<Rightarrow> addr \<Rightarrow> int" where
  "smp_boot_cpu cpu entry_point = - 19"


section \<open>The boot sequence\<close>

text \<open>A task that was created is made ready; a null pointer is not.\<close>

definition enqueue_created :: "addr \<Rightarrow> 'z sched_st_scheme \<Rightarrow> fault + 'z sched_st_scheme" where
  "enqueue_created task s = (if task \<noteq> 0 then scheduler_enqueue task s else Inr s)"

text \<open>The part of \<^verbatim>\<open>kmain\<close> from the user task to the end; \<^verbatim>\<open>task_yield\<close> does not come back.\<close>

definition start_tasks :: "linkage \<Rightarrow> 'z sched_st_scheme \<Rightarrow> fault + switch \<times> 'z sched_st_scheme" where
  "start_tasks lk s =
     andthen (task_create_user (l_user_test_start lk) (l_user_test_end lk) ''user_test'' 0 0 s) (\<lambda>(user_task, s).
     andthen (enqueue_created user_task s) (\<lambda>s.
     andthen (task_create_kernel_thread (l_task_wrapper lk) ''test_thread'' (l_test_thread_entry lk) 0
         SCHED_DEFAULT_PRIORITY 4096 s) (\<lambda>(test_task, s).
     andthen (enqueue_created test_task s) (\<lambda>s.
     task_yield (irq_enable s)))))"

definition start_memory :: "linkage \<Rightarrow> u32 \<Rightarrow> addr \<Rightarrow> 'z sched_st_scheme \<Rightarrow> (fault + 'z sched_st_scheme) option" where
  "start_memory lk multiboot_magic mbi s =
     (case pmm_init (l_kernel_start lk) (l_kernel_end lk) (memory s) multiboot_magic mbi s of
        None \<Rightarrow> None
      | Some r \<Rightarrow> Some (andthen r mmu_init))"

definition kmain ::
  "linkage \<Rightarrow> u32 \<Rightarrow> addr \<Rightarrow> 'z timer_st_scheme \<Rightarrow> (fault + switch \<times> 'z timer_st_scheme) option" where
  "kmain lk multiboot_magic multiboot_info_addr s =
     (let s = hal_x86_init lk s;
          s = s\<lparr>percpu := percpu_init (percpu s)\<rparr>
      in case hal_timer_init lk 1000 s of
           None \<Rightarrow> None
         | Some (Inl e) \<Rightarrow> Some (Inl e)
         | Some (Inr s) \<Rightarrow>
           (case start_memory lk multiboot_magic multiboot_info_addr s of
              None \<Rightarrow> None
            | Some r \<Rightarrow> Some (
                andthen r (\<lambda>s.
                andthen (task_init (l_idle_entry lk) s) (\<lambda>s.
                andthen (scheduler_init (l_bootstrap_task lk) s)
                  (start_tasks lk))))))"


section \<open>From the first task to ring 3\<close>

lemma enqueue_created_ok:
  fixes s :: "'z sched_st_scheme"
  assumes inv: "kernel_inv M s qs" and p: "p \<noteq> 0" "t_state (tasks s p) = TASK_STATE_READY" "p \<notin> live_tasks s qs" "p \<notin> avail_pages s"
    and pr: "t_priority (tasks s p) = r"
  shows "\<exists>s'. enqueue_created p s = Inr s' \<and> kernel_inv M s' (qs(r := qs r @ [p])) \<and> uses_free s s' \<and>
    avail_pages s' = avail_pages s \<and> (\<forall>y. strip_links (tasks s' y) = strip_links (tasks s y)) \<and>
    g_scheduler s' = (g_scheduler s)\<lparr>ready := ready (g_scheduler s'), priority_bitmap := priority_bitmap (g_scheduler s')\<rparr> \<and>
    tss s' = tss s \<and> idle_task s' = idle_task s"
proof -
  from enqueue_kernel_inv [OF inv p] obtain s' where
    s': "scheduler_enqueue p s = Inr s'" "kernel_inv M s' (qs(r := qs r @ [p]))" by (auto simp: pr)
  have "represents s qs" "p \<notin> set (qs (t_priority (tasks s p)))"
    using inv p(3) by (auto simp: kernel_inv_def sched_inv_def live_tasks_def)
  from scheduler_enqueue_spec [OF this(1) p(1,2) this(2)] s'(1) have o: "only_queues s s'" by auto
  note sp = scheduler_enqueue_pages [OF s'(1)]
  have "g_scheduler s' = (g_scheduler s)\<lparr>ready := ready (g_scheduler s'), priority_bitmap := priority_bitmap (g_scheduler s')\<rparr>"
    using o by (cases "g_scheduler s", cases "g_scheduler s'") (simp add: only_queues_def)
  with s' p(1) only_queuesD [OF o] same_pages_uses_free [OF sp] sp show ?thesis
    by (intro exI [of _ s']) (simp add: enqueue_created_def same_pages_def)
qed

lemma irq_enable_frame [simp]:
  "kernel_inv M (irq_enable s) qs = kernel_inv M s qs" "uses_free t (irq_enable s) = uses_free t s"
  "tasks (irq_enable s) = tasks s" "g_scheduler (irq_enable s) = g_scheduler s" "tss (irq_enable s) = tss s"
  "avail_pages (irq_enable s) = avail_pages s"
  by (simp_all add: irq_enable_def kernel_inv_def live_tasks_def sched_inv_def represents_def)

text \<open>The first switch: the processor enters the task at the head of the queue of priority 128.\<close>

lemma first_switch:
  fixes s :: "'z sched_st_scheme"
  assumes inv: "kernel_inv M s qs" and q: "qs 128 = p # ps" "\<forall>r > 128. qs r = []"
    and t: "t_kernel_stack (tasks s p) \<noteq> 0" "t_kernel_stack_size (tasks s p) > 0"
  shows "\<exists>s' qs'. task_yield s = Inr (SwitchTo p, s') \<and> kernel_inv M s' qs' \<and> uses_free s s' \<and>
    current_task (g_scheduler s') = p \<and> ctx_esp (regs s') = ctx_esp (t_context (tasks s p)) \<and>
    (\<exists>r. regs s' = load_context (t_context (tasks s p)) r) \<and>
    tss_esp0 (tss s') = t_kernel_stack (tasks s p) + t_kernel_stack_size (tasks s p)"
proof -
  have si: "sched_inv s qs" using inv by (simp add: kernel_inv_def)
  have ne: "qs 128 \<noteq> []" using q(1) by simp
  from schedule_switch [OF si ne q(2)] obtain s' where
    s': "schedule s = Inr (SwitchTo p, s')" "current_task (g_scheduler s') = p"
      "regs s' = load_context (t_context (tasks s p)) ((regs s)\<lparr>ctx_eflags := ctx_eflags (regs s) AND NOT IF_FLAG\<rparr>)"
      "tss s' = (if t_kernel_stack (tasks s p) \<noteq> 0 \<and> t_kernel_stack_size (tasks s p) > 0
        then (tss s)\<lparr>tss_esp0 := t_kernel_stack (tasks s p) + t_kernel_stack_size (tasks s p)\<rparr> else tss s)"
    using q(1) by auto
  from schedule_kernel_inv [OF inv] s'(1) obtain qs' where k: "kernel_inv M s' qs'" by auto
  with s' t same_pages_uses_free [OF schedule_pages [OF s'(1)]] show ?thesis
    by (intro exI [of _ s'] exI [of _ qs'] conjI) (simp_all add: task_yield_def load_context_def, blast)
qed

lemma task_create_user_default:
  "us \<noteq> 0 \<Longrightarrow> ue - us \<noteq> 0 \<Longrightarrow> task_create_user us ue nm 0 0 s = task_create_user us ue nm us (ue - us) s"
  by (simp add: task_create_user_def)

text \<open>
  What holds once the processor runs the first user task \<open>p\<close>: it is in ring 3 at the start of
  the program, which lies in the page \<open>c\<close>, with its stack in the page \<open>u\<close>; these two pages are the only ones
  user code can reach, and they are neither free nor page tables. A trap enters the task's
  kernel stack, and the kernel's structures are consistent.
\<close>

definition boot_translation :: "addr \<Rightarrow> addr \<Rightarrow> addr \<Rightarrow> (addr \<times> u32) option" where
  "boot_translation c u v = (if PAGE_ALIGN_DOWN v = 0xBFFFF000 then Some (u, 7)
     else if PAGE_ALIGN_DOWN v = 0x400000 then Some (c, 7)
     else if 4096 \<le> v \<and> v < 16777216 then Some (PAGE_ALIGN_DOWN v, PTE_PRESENT OR PTE_WRITABLE) else None)"

definition in_ring_3 :: "u32 set \<Rightarrow> addr \<Rightarrow> addr \<Rightarrow> addr \<Rightarrow> 'z sched_st_scheme \<Rightarrow> bool" where
  "in_ring_3 M p c u s \<longleftrightarrow> (\<exists>qs. kernel_inv M s qs) \<and> mmu_inv M s \<and> paging_on s \<and> current_task (g_scheduler s) = p \<and>
     ctx_cs (regs s) = 0x1B \<and> ctx_ss (regs s) = 0x23 \<and> ctx_eip (regs s) = USER_CODE_BASE \<and>
     ctx_esp (regs s) = USER_STACK_TOP \<and> ctx_eflags (regs s) = USER_EFLAGS \<and>
     translate s = boot_translation c u \<and> {c, u} \<inter> page_footprint s = {} \<and>
     (\<exists>k. page_aligned k \<and> k \<noteq> 0 \<and> k \<notin> avail_pages s \<and> tss_esp0 (tss s) = k + 4096)"

lemma load_user_context:
  "ctx_cs (load_context user_context r) = 0x1B" "ctx_ss (load_context user_context r) = 0x23"
  "ctx_eip (load_context user_context r) = USER_CODE_BASE" "ctx_esp (load_context user_context r) = USER_STACK_TOP"
  "ctx_eflags (load_context user_context r) = USER_EFLAGS"
  by (simp_all add: load_context_def user_context_def zero_context_def)

text \<open>Making two tasks of the default priority ready and switching: the first one runs.\<close>

lemma run_first_of_two:
  fixes s :: "'z sched_st_scheme"
  assumes kinv: "kernel_inv M s ((\<lambda>_. [])(0 := [i]))" and p: "p \<notin> live_tasks s ((\<lambda>_. [])(0 := [i]))" "p \<notin> avail_pages s" "p \<noteq> 0"
      "t_state (tasks s p) = TASK_STATE_READY" "t_priority (tasks s p) = 128" "t_kernel_stack (tasks s p) \<noteq> 0"
      "t_kernel_stack_size (tasks s p) > 0"
    and e: "e \<noteq> 0" and room: "2 \<le> page_budget s"
  shows "\<exists>s' qs'. andthen (enqueue_created p s) (\<lambda>s.
      andthen (task_create_kernel_thread w nm e arg 128 4096 s) (\<lambda>(q, s).
      andthen (enqueue_created q s) (\<lambda>s. task_yield (irq_enable s)))) = Inr (SwitchTo p, s') \<and>
    kernel_inv M s' qs' \<and> uses_free s s' \<and> current_task (g_scheduler s') = p \<and>
    (\<exists>r. regs s' = load_context (t_context (tasks s p)) r) \<and>
    tss_esp0 (tss s') = t_kernel_stack (tasks s p) + t_kernel_stack_size (tasks s p)"
proof -
  define qs :: "u8 \<Rightarrow> addr list" where "qs = (\<lambda>_. [])(0 := [i], 128 := [p])"
  from enqueue_created_ok [OF kinv p(3,4,1,2,5)] obtain s1 where
    s1: "enqueue_created p s = Inr s1" "kernel_inv M s1 qs" "uses_free s s1" "avail_pages s1 = avail_pages s"
      "\<And>y. strip_links (tasks s1 y) = strip_links (tasks s y)" by (auto simp: qs_def)
  have inv1: "pmm_inv M s1" using s1(2) by (simp add: kernel_inv_def)
  have room1: "2 \<le> page_budget s1" using room s1(4) by simp
  from task_create_ok [OF inv1 e room1, of w nm arg 128] obtain q k s2 where
    s2: "task_create_kernel_thread w nm e arg 128 4096 s1 = Inr (q, s2)" "q \<in> avail_pages s1"
      "\<And>y. y \<noteq> q \<Longrightarrow> tasks s2 y = tasks s1 y" "t_priority (tasks s2 q) = 128" by auto
  have u2: "uses_free s1 s2" by (rule task_create_uses_free [OF inv1 e room1 s2(1)])
  have q: "q \<noteq> 0" "q \<noteq> p" using avail_page_not_null [OF inv1 s2(2)] s2(2) s1(4) p(2) by auto
  from create_kernel_inv [OF s1(2), of w nm e arg 128 4096] s2(1) q(1) have
    k2: "kernel_inv M s2 qs" "t_state (tasks s2 q) = TASK_STATE_READY" "q \<notin> live_tasks s2 qs" "q \<notin> avail_pages s2" by auto
  from enqueue_created_ok [OF k2(1) q(1) k2(2-4) s2(4)] obtain s3 where
    s3: "enqueue_created q s2 = Inr s3" "kernel_inv M s3 (qs(128 := qs 128 @ [q]))" "uses_free s2 s3"
      "\<And>y. strip_links (tasks s3 y) = strip_links (tasks s2 y)" by auto
  have "strip_links (tasks s3 p) = strip_links (tasks s p)" using s3(4) s2(3) q(2) s1(5) by simp
  note t = strip_linksD [OF this]
  have qs: "(qs(128 := qs 128 @ [q])) 128 = p # [q]" "\<forall>r > 128. (qs(128 := qs 128 @ [q])) r = []"
    by (auto simp: qs_def)
  have "kernel_inv M (irq_enable s3) (qs(128 := qs 128 @ [q]))" using s3(2) by simp
  from first_switch [OF this qs] p(6,7) t obtain s' qs' where
    s': "task_yield (irq_enable s3) = Inr (SwitchTo p, s')" "kernel_inv M s' qs'" "uses_free (irq_enable s3) s'"
      "current_task (g_scheduler s') = p" "\<exists>r. regs s' = load_context (t_context (tasks s p)) r"
      "tss_esp0 (tss s') = t_kernel_stack (tasks s p) + t_kernel_stack_size (tasks s p)" by auto
  have "uses_free s s3" by (rule uses_free_trans [OF s1(3) uses_free_trans [OF u2 s3(3)]])
  then have "uses_free s s'" using s'(3) uses_free_trans irq_enable_frame(2) by blast
  then show ?thesis using s1(1) s2(1) s3(1) s' by auto
qed

lemma start_tasks_ok:
  fixes s :: "'z sched_st_scheme" and lk :: linkage
  defines "us \<equiv> l_user_test_start lk" and "sz \<equiv> l_user_test_end lk - l_user_test_start lk"
  assumes inv: "mmu_inv M s" and kinv: "kernel_inv M s ((\<lambda>_. [])(0 := [i]))" and on: "paging_on s" and room: "8 \<le> page_budget s"
    and e: "us \<noteq> 0" "sz \<noteq> 0" "unat sz \<le> 4096" "l_test_thread_entry lk \<noteq> 0"
    and ident: "\<forall>i < unat sz. cpu_address s (index_addr us i) = Some (index_addr us i)"
    and far: "\<forall>i < unat sz. PAGE_ALIGN_DOWN (index_addr us i) \<notin> insert USER_CODE_BASE (page_footprint s)"
    and tr: "\<forall>v. translate s v = (if 4096 \<le> v \<and> v < 16777216
       then Some (PAGE_ALIGN_DOWN v, PTE_PRESENT OR PTE_WRITABLE) else None)"
  shows "\<exists>p c u s'. start_tasks lk s = Inr (SwitchTo p, s') \<and> in_ring_3 M p c u s' \<and>
    {c, u} \<subseteq> avail_pages s \<and> avail_pages s' \<subseteq> avail_pages s \<and>
    (\<forall>i < unat sz. memory s' (index_addr c i) = memory s (index_addr us i)) \<and> sched_st.more s' = sched_st.more s"
proof -
  let ?qs = "(\<lambda>_. [])(0 := [i]) :: u8 \<Rightarrow> addr list"
  have "6 \<le> page_budget s" using room by simp
  from task_create_user_ok [OF inv kinv on this e(1-3) ident far, of us "l_user_test_end lk" "''user_test''"] obtain p c u k s1 where
    s1: "task_create_user us (l_user_test_end lk) ''user_test'' us sz s = Inr (p, s1)" "kernel_inv M s1 ?qs" "mmu_inv M s1"
      "{p, c, u, k} \<subseteq> avail_pages s - avail_pages s1"
      "tasks s1 = (tasks s)(p := zero_task\<lparr>t_id := next_task_id s, t_name := take 31 ''user_test'', t_state := TASK_STATE_READY,
        t_priority := 128, t_address_space := PtStorage, t_kernel_stack := k, t_kernel_stack_size := 4096,
        t_context := user_context\<rparr>)"
      "\<And>v. translate s1 v = (if PAGE_ALIGN_DOWN v = 0xBFFFF000 then Some (u, 7)
        else if PAGE_ALIGN_DOWN v = 0x400000 then Some (c, 7) else translate s v)"
      "\<And>i. i < unat sz \<Longrightarrow> memory s1 (index_addr c i) = memory s (index_addr us i)" "avail_pages s1 \<subseteq> avail_pages s"
    and f1: "g_scheduler s1 = g_scheduler s" "idle_task s1 = idle_task s" "page_budget s \<le> page_budget s1 + 6"
      "sched_st.more s1 = sched_st.more s" "paging_on s1" "{c, u} \<inter> page_footprint s1 = {}"
    by (elim exE conjE) blast
  have pinv: "pmm_inv M s" "pmm_inv M s1" using inv s1(3) by (simp_all add: mmu_inv_def)
  have nz: "p \<noteq> 0" "k \<noteq> 0" using s1(4) avail_page_not_null [OF pinv(1)] by auto
  have "live_tasks s1 ?qs = live_tasks s ?qs" by (simp add: live_tasks_def f1)
  moreover have "live_tasks s ?qs \<inter> avail_pages s = {}" using kinv by (simp add: kernel_inv_def)
  ultimately have live: "p \<notin> live_tasks s1 ?qs" "p \<notin> avail_pages s1" using s1(4) by auto
  have t: "t_state (tasks s1 p) = TASK_STATE_READY" "t_priority (tasks s1 p) = 128" "t_kernel_stack (tasks s1 p) = k"
    "t_kernel_stack_size (tasks s1 p) = 4096" "t_context (tasks s1 p) = user_context" by (simp_all add: s1(5))
  have room1: "2 \<le> page_budget s1" using f1(3) room by simp
  from run_first_of_two [OF s1(2) live nz(1) t(1,2) _ _ e(4) room1, of "l_task_wrapper lk" "''test_thread''" 0] t(3-5) nz(2) obtain s' qs' where
    run: "andthen (enqueue_created p s1) (\<lambda>s.
      andthen (task_create_kernel_thread (l_task_wrapper lk) ''test_thread'' (l_test_thread_entry lk) 0 128 4096 s) (\<lambda>(q, s).
      andthen (enqueue_created q s) (\<lambda>s. task_yield (irq_enable s)))) = Inr (SwitchTo p, s')"
    and s': "kernel_inv M s' qs'" "uses_free s1 s'" "current_task (g_scheduler s') = p"
      "\<exists>r. regs s' = load_context user_context r" "tss_esp0 (tss s') = k + 4096" by auto
  have step: "start_tasks lk s = Inr (SwitchTo p, s')"
    using run s1(1) task_create_user_default [of us "l_user_test_end lk" "''user_test''" s] e(1,2) by (simp add: start_tasks_def us_def sz_def)
  have pinv': "pmm_inv M s'" using s'(1) by (simp add: kernel_inv_def)
  note m = uses_free_mmu [OF s1(3) s'(2) pinv']
  have av: "avail_pages s' \<subseteq> avail_pages s1" using s'(2) by (simp add: uses_free_def takes_free_def)
  have "page_aligned k" "page_aligned c" using s1(4) avail_page_aligned by blast+
  moreover have "translate s' = boot_translation c u" by (rule ext) (simp add: m(2) s1(6) tr boot_translation_def)
  moreover have "{c, u} \<inter> page_footprint s' = {}" using f1(6) av m(3) by blast
  ultimately have "in_ring_3 M p c u s'" unfolding in_ring_3_def
    using s' m(1,4) f1(5) s1(4) av nz(2) load_user_context by auto
  moreover have "memory s' (index_addr c i) = memory s1 (index_addr c i)" if "i < unat sz" for i
  proof -
    have "unat (of_nat i :: u32) < 4096" using that e(3) by (simp add: unsigned_of_nat take_bit_eq_mod)
    from align_down_offset(1) [OF \<open>page_aligned c\<close> this] s1(4) s'(2) show ?thesis
      by (simp add: uses_free_def takes_free_def index_addr_def)
  qed
  moreover have "sched_st.more s' = sched_st.more s" using s'(2) f1(4) by (simp add: uses_free_def takes_free_def)
  moreover have "avail_pages s1 \<subseteq> avail_pages s" using s1(8) .
  ultimately show ?thesis using step s1(4,7) av
    by (intro exI [of _ p] exI [of _ c] exI [of _ u] exI [of _ s']) auto
qed


section \<open>Paging and the memory map\<close>

lemma mmu_frame_trans:
  "mmu_frame s t \<Longrightarrow> mmu_frame t u \<Longrightarrow> page_footprint t = page_footprint s \<Longrightarrow> mmu_frame s u"
  by (auto simp: mmu_frame_def)

lemma identity_map_frame:
  assumes "identity_map v s = Inr s'" and "mmu_inv M s" and "kernel_address_space s = PtStorage" and "page_aligned v"
  shows "mmu_frame s s'"
  using assms
proof (induction v s rule: identity_map.induct)
  case (1 v s)
  show ?case
  proof (cases "v < 16777216")
    case True
    with 1(2) 1(4) obtain r t where m: "mmu_map_page PtStorage v v (MMU_PRESENT OR MMU_WRITABLE) s = Inr (r, t)"
      and rest: "(if r = 0 then Inr t else identity_map (v + FRAME_SIZE) t) = Inr s'"
      by (auto simp: identity_map.simps [of v] andthen_eq_Inr)
    have f: "mmu_frame s t" by (rule mmu_map_page_frame [OF 1(3) 1(5) 1(5) m])
    show ?thesis
    proof (cases "r = 0")
      case False
      then have "PD_INDEX v \<in> table_slots s \<or> 0 < page_budget s"
        using mmu.map_full [OF 1(3), of v v "MMU_PRESENT OR MMU_WRITABLE"] m by (cases "PD_INDEX v \<in> table_slots s") (auto simp: card_gt_0_iff)
      from mmu.map_ok [OF 1(3) 1(5) 1(5) this, of "MMU_PRESENT OR MMU_WRITABLE"] m
      have t: "mmu_inv M t" "page_footprint t = page_footprint s" by auto
      have "page_aligned (v + FRAME_SIZE)" using 1(5) True
        by (simp add: page_aligned_unat unat_word_ariths word_less_nat_alt mod_Suc_eq)
      moreover have "identity_map (v + FRAME_SIZE) t = Inr s'" using rest False by simp
      moreover have k: "kernel_address_space t = PtStorage" using f 1(4) by (simp add: mmu_frame_def)
      ultimately have "mmu_frame t s'" using 1(1) True m 1(4) False t(1) by force
      then show ?thesis using mmu_frame_trans [OF f _ t(2)] by blast
    qed (use rest f in simp)
  qed (use 1(2) in \<open>simp add: identity_map.simps [of v] mmu_frame_def\<close>)
qed

text \<open>Turning paging on takes free pages only and changes no task and no device.\<close>

lemma mmu_init_frame:
  fixes s :: "'z mmu_st_scheme"
  assumes inv: "pmm_inv M s" and r: "mmu_init s = Inr s'"
  shows "mmu_st.more s' = mmu_st.more s" "\<And>a. PAGE_ALIGN_DOWN a \<notin> avail_pages s \<Longrightarrow> memory s' a = memory s a"
proof -
  have "mmu_st.more s' = mmu_st.more s \<and> (\<forall>a. PAGE_ALIGN_DOWN a \<notin> avail_pages s \<longrightarrow> memory s' a = memory s a)"
  proof (cases "avail_pages s = {}")
    case True
    from pmm.alloc_total [OF inv] obtain p t where a: "pmm_alloc_page s = Inr (p, t)" by blast
    note f = alloc_page_frame [OF inv a]
    have "p = 0" using pmm.alloc_page [OF inv a] True by auto
    then have "s' = t\<lparr>kernel_address_space := NullPt\<rparr>"
      using r a inv by (simp add: mmu_init_def mmu_create_address_space_def pmm_is_initialized_def pmm_inv_def)
    then show ?thesis using f pmm_alloc_page_mmu [OF a] by (simp add: mmu_frame_def)
  next
    case False
    from pmm.alloc_total [OF inv] obtain p t where a: "pmm_alloc_page s = Inr (p, t)" by blast
    note al = pmm.alloc_page [OF inv a] and f = alloc_page_frame [OF inv a]
    have p: "p \<noteq> 0" "page_aligned p" "p \<in> avail_pages s" using al False by auto
    define t1 where "t1 = (zero_table p t)\<lparr>pt_storage := \<lparr>page_directory = p, pd_phys = p\<rparr>\<rparr>"
    define t2 where "t2 = t1\<lparr>kernel_address_space := PtStorage\<rparr>"
    have c: "mmu_create_address_space s = Inr (PtStorage, t1)"
      using inv a p by (simp add: mmu_create_address_space_def pmm_is_initialized_def pmm_inv_def t1_def)
    from mmu_create_spec [OF inv False] c have inv1: "mmu_inv M t1" "table_slots t1 = {}" "avail_pages t1 \<subseteq> avail_pages s"
      by auto
    have "table_slots t2 = {}" using inv1(2) by (simp add: t2_def table_slots_def)
    then have inv2: "mmu_inv M t2" "owned_pages t2 = {p}" "avail_pages t2 \<subseteq> avail_pages s"
      using inv1 by (simp_all add: mmu_inv_def owned_pages_def) (simp_all add: t2_def t1_def)
    have "memory (zero_table p t) a = memory s a" if "PAGE_ALIGN_DOWN a \<notin> avail_pages s" for a
    proof -
      have "PAGE_ALIGN_DOWN a \<noteq> p" using that p(3) by blast
      from zero_table_memory [OF p(2) this, of t] show ?thesis using pmm_alloc_page_mmu [OF a] by simp
    qed
    then have m2: "mmu_st.more t2 = mmu_st.more s" "\<And>a. PAGE_ALIGN_DOWN a \<notin> avail_pages s \<Longrightarrow> memory t2 a = memory s a"
      using f by (simp_all add: t2_def t1_def mmu_frame_def)
    show ?thesis
    proof (cases "free_frames t2 = 0")
      case True
      then show ?thesis using r c m2 p(2) by (auto simp: mmu_init_def t2_def t1_def)
    next
      case False
      have "pd_phys (pt_storage t1) = p" by (simp add: t1_def)
      with False c p(2) r have "andthen (identity_map FRAME_SIZE t2) (\<lambda>s.
          let s = mmu_switch_address_space (kernel_address_space s) s in Inr (s\<lparr>cr0 := cr0 s OR push_bit 31 1\<rparr>)) = Inr s'"
        by (simp add: mmu_init_def t2_def [symmetric])
      then obtain t3 where t3: "identity_map FRAME_SIZE t2 = Inr t3"
        "s' = (let s = mmu_switch_address_space (kernel_address_space t3) t3 in s\<lparr>cr0 := cr0 s OR push_bit 31 1\<rparr>)"
        by (auto simp: andthen_eq_Inr Let_def)
      have "mmu_frame t2 t3" by (rule identity_map_frame [OF t3(1) inv2(1)]) (simp_all add: t2_def page_aligned_def)
      moreover have "page_footprint t2 \<subseteq> avail_pages s" using inv2(2,3) p(3) by auto
      ultimately have "mmu_st.more t3 = mmu_st.more s" "\<And>a. PAGE_ALIGN_DOWN a \<notin> avail_pages s \<Longrightarrow> memory t3 a = memory s a"
        using m2 by (auto simp: mmu_frame_def)
      then show ?thesis by (simp add: t3(2) mmu_switch_address_space_def Let_def)
    qed
  qed
  then show "mmu_st.more s' = mmu_st.more s" "\<And>a. PAGE_ALIGN_DOWN a \<notin> avail_pages s \<Longrightarrow> memory s' a = memory s a"
    by blast+
qed

text \<open>What the boot loader must have left in memory, and where the linker must have put the image.\<close>

definition loader_ok :: "mem \<Rightarrow> addr \<Rightarrow> mmap_entry list \<Rightarrow> bool" where
  "loader_ok m mbi es \<longleftrightarrow> (let info = read_multiboot_info m mbi in
     0x1000 \<le> mbi \<and> mb_flags info AND MULTIBOOT_FLAG_MMAP \<noteq> 0 \<and>
     mmap_chain m (mb_mmap_addr info) (mb_mmap_addr info + mb_mmap_length info) es \<and>
     sorted_wrt (\<lambda>x y. entry_frames x \<inter> entry_frames y = {}) es)"

definition in_image :: "linkage \<Rightarrow> addr \<Rightarrow> bool" where
  "in_image lk a \<longleftrightarrow> l_kernel_start lk \<le> a \<and> a < l_kernel_end lk"

definition image_ok :: "linkage \<Rightarrow> bool" where
  "image_ok lk \<longleftrightarrow> 4096 \<le> l_kernel_start lk \<and> l_kernel_start lk < l_kernel_end lk \<and> l_kernel_end lk \<le> USER_CODE_BASE \<and>
     l_kernel_start lk \<le> l_user_test_start lk \<and> l_user_test_start lk < l_user_test_end lk \<and>
     l_user_test_end lk \<le> l_kernel_end lk \<and> l_user_test_end lk - l_user_test_start lk \<le> 4096 \<and>
     in_image lk (l_bootstrap_task lk) \<and> in_image lk (l_timer_handler lk) \<and> l_test_thread_entry lk \<noteq> 0"

lemma kernel_page_not_free:
  assumes "free_set s = M - critical_frames (l_kernel_start lk) (l_kernel_end lk)" and "in_image lk a"
  shows "PAGE_ALIGN_DOWN a \<notin> avail_pages s"
proof
  assume "PAGE_ALIGN_DOWN a \<in> avail_pages s"
  then obtain f where f: "f \<in> free_set s" "PAGE_ALIGN_DOWN a = f * FRAME_SIZE" by (auto simp: avail_pages_def)
  then have "unat f < 1048576" by (auto simp: free_set_def word_less_nat_alt)
  then have "unat f = unat a div 4096" using f(2) by (simp add: word_unat_eq_iff unat_PAGE_ALIGN_DOWN unat_frame_addr)
  moreover have "unat (l_kernel_start lk) \<le> unat a \<and> unat a < unat (l_kernel_start lk) + unat (l_kernel_end lk - l_kernel_start lk)"
  proof -
    have "unat (l_kernel_end lk - l_kernel_start lk) = unat (l_kernel_end lk) - unat (l_kernel_start lk)"
      using assms(2) by (intro unat_sub) (auto simp: in_image_def)
    with assms(2) show ?thesis by (auto simp: in_image_def word_le_nat_alt word_less_nat_alt)
  qed
  ultimately have "f \<in> critical_frames (l_kernel_start lk) (l_kernel_end lk)"
    by (auto simp: critical_frames_def region_frames_def)
  with f(1) assms(1) show False by simp
qed

lemma page_budget_free_set: "page_budget s = card (free_set s)"
  unfolding avail_pages_def by (rule card_image) (auto simp: inj_on_def free_set_def frame_addr_inj)

lemma start_memory_ok:
  fixes s :: "'z sched_st_scheme"
  assumes l: "loader_ok (memory s) mbi es" and i: "image_ok lk" and M: "M = (\<Union>x \<in> set es. entry_frames x)"
    and c: "\<forall>g \<in> M \<inter> critical_frames (l_kernel_start lk) (l_kernel_end lk). unat g < card M"
    and n: "15 \<le> card (M - critical_frames (l_kernel_start lk) (l_kernel_end lk))"
  shows "\<exists>s'. start_memory lk MULTIBOOT_MAGIC mbi s = Some (Inr s') \<and> mmu_inv M s' \<and> paging_on s' \<and>
    (\<forall>v. translate s' v = (if 4096 \<le> v \<and> v < 16777216
       then Some (PAGE_ALIGN_DOWN v, PTE_PRESENT OR PTE_WRITABLE) else None)) \<and>
    10 \<le> page_budget s' \<and> sched_st.more s' = sched_st.more s \<and>
    (\<forall>a. in_image lk a \<longrightarrow> PAGE_ALIGN_DOWN a \<notin> page_footprint s' \<and> memory s' a = memory s a)"
proof -
  have ke: "unat (l_kernel_end lk) \<le> 4194304" using i by (simp add: image_ok_def word_le_nat_alt)
  then have "l_kernel_start lk < l_kernel_end lk" "unat (l_kernel_end lk) + 4095 < 2 ^ 32"
    using i by (simp_all add: image_ok_def)
  from pmm_init_mmap_spec [where m = "memory s" and mbi = mbi and s = s, OF _ _ _ _ this M c] l obtain t where
    t: "pmm_init (l_kernel_start lk) (l_kernel_end lk) (memory s) MULTIBOOT_MAGIC mbi s = Some (Inr t)" "pmm_inv M t"
      "free_set t = M - critical_frames (l_kernel_start lk) (l_kernel_end lk)" "pmm_st.more t = pmm_st.more s"
    by (auto simp: loader_ok_def Let_def)
  have mt: "memory t = memory s" "sched_st.more t = sched_st.more s" using t(4) by (cases t, cases s, simp)+
  have "5 \<le> card (free_set t)" using t(3) n by simp
  from mmu_init_spec [OF t(2) this] obtain s' where
    s': "mmu_init t = Inr s'" "mmu_inv M s'" "kernel_address_space s' = PtStorage" "bit (cr0 s') 31"
      "cr3 s' = page_directory (pt_storage s')"
      "\<forall>v. translate s' v = (if 4096 \<le> v \<and> v < 16777216
       then Some (PAGE_ALIGN_DOWN v, PTE_PRESENT OR PTE_WRITABLE) else None)"
      "page_footprint s' = avail_pages t" "page_budget t \<le> page_budget s' + 5" by blast
  note fr = mmu_init_frame [OF t(2) s'(1)]
  have "sched_st.more s' = sched_st.more s" using fr(1) mt(2) by (cases s', cases t, simp)
  moreover have "10 \<le> page_budget s'" using s'(8) n t(3) by (simp add: page_budget_free_set)
  moreover have "PAGE_ALIGN_DOWN a \<notin> page_footprint s' \<and> memory s' a = memory s a" if "in_image lk a" for a
    using kernel_page_not_free [OF t(3) that] fr(2) s'(7) mt(1) by simp
  ultimately show ?thesis using t(1) s' by (intro exI [of _ s']) (simp add: start_memory_def paging_on_def)
qed

lemma program_in_image:
  assumes "image_ok lk" and "i < unat (l_user_test_end lk - l_user_test_start lk)"
  shows "in_image lk (index_addr (l_user_test_start lk) i)"
proof -
  have sz: "unat (l_user_test_end lk - l_user_test_start lk) = unat (l_user_test_end lk) - unat (l_user_test_start lk)"
    using assms(1) by (intro unat_sub) (auto simp: image_ok_def)
  have "unat (l_user_test_start lk) + i < 2 ^ 32"
    using assms sz unat_u32_bound [of "l_user_test_end lk"] by simp
  then have "unat (index_addr (l_user_test_start lk) i) = unat (l_user_test_start lk) + i" by (simp add: unat_index_addr)
  then show ?thesis using assms sz by (auto simp: image_ok_def in_image_def word_le_nat_alt word_less_nat_alt)
qed

lemma align_down_plus: "PAGE_ALIGN_DOWN a + (a AND 4095) = a"
  by (simp add: align_down_split mask_12 take_bit_eq_mask [symmetric] take_bit_eq_mod)

text \<open>Addresses of the image are mapped to themselves and lie below the user program.\<close>

lemma image_identity:
  assumes "mmu_inv M s" and "paging_on s" and "image_ok lk" and "in_image lk a"
    and "\<forall>v. translate s v = (if 4096 \<le> v \<and> v < 16777216
       then Some (PAGE_ALIGN_DOWN v, PTE_PRESENT OR PTE_WRITABLE) else None)"
  shows "cpu_address s a = Some a" "PAGE_ALIGN_DOWN a \<noteq> USER_CODE_BASE"
proof -
  have a: "4096 \<le> unat a" "unat a < 4194304"
    using assms(3,4) by (auto simp: image_ok_def in_image_def word_le_nat_alt word_less_nat_alt)
  then have "4096 \<le> a \<and> a < 16777216" by (simp add: word_le_nat_alt word_less_nat_alt)
  then show "cpu_address s a = Some a"
    using assms(5) by (simp add: cpu_address_translate [OF assms(1,2)] align_down_plus)
  show "PAGE_ALIGN_DOWN a \<noteq> USER_CODE_BASE"
    using a by (auto simp: word_unat_eq_iff unat_PAGE_ALIGN_DOWN)
qed

lemma first_tasks_ok:
  fixes s :: "'z sched_st_scheme" and lk :: linkage
  defines "us \<equiv> l_user_test_start lk" and "sz \<equiv> l_user_test_end lk - l_user_test_start lk"
  assumes inv: "mmu_inv M s" and on: "paging_on s" and room: "10 \<le> page_budget s" and i: "image_ok lk"
    and tr: "\<forall>v. translate s v = (if 4096 \<le> v \<and> v < 16777216
       then Some (PAGE_ALIGN_DOWN v, PTE_PRESENT OR PTE_WRITABLE) else None)"
    and im: "\<forall>a. in_image lk a \<longrightarrow> PAGE_ALIGN_DOWN a \<notin> page_footprint s"
  shows "\<exists>p c u s'. andthen (task_init (l_idle_entry lk) s) (\<lambda>s. andthen (scheduler_init (l_bootstrap_task lk) s)
      (start_tasks lk)) = Inr (SwitchTo p, s') \<and> in_ring_3 M p c u s' \<and>
    (\<forall>a. in_image lk a \<longrightarrow> PAGE_ALIGN_DOWN a \<notin> avail_pages s' \<union> {c, u}) \<and>
    (\<forall>i < unat sz. memory s' (index_addr c i) = memory s (index_addr us i)) \<and> sched_st.more s' = sched_st.more s"
proof -
  have pinv: "pmm_inv M s" using inv by (simp add: mmu_inv_def)
  have "2 \<le> card (avail_pages s)" using room by simp
  from task_init_spec [OF pinv this, of "l_idle_entry lk"] obtain i1 s1 where
    s1: "task_init (l_idle_entry lk) s = Inr s1" "pmm_inv M s1" "i1 \<in> avail_pages s" "i1 \<noteq> 0" "i1 \<notin> avail_pages s1"
      "idle_task s1 = i1" "t_priority (tasks s1 i1) = SCHED_IDLE_PRIORITY" by blast
  note u1 = task_init_uses_free [OF pinv s1(1)]
  have b: "in_image lk (l_bootstrap_task lk)" using i by (simp add: image_ok_def)
  have b': "l_bootstrap_task lk \<noteq> 0" "l_bootstrap_task lk \<notin> avail_pages s"
    using b i im avail_page_aligned [of "l_bootstrap_task lk" s]
    by (auto simp: in_image_def image_ok_def align_down_aligned)
  then have b1: "l_bootstrap_task lk \<noteq> idle_task s1" "l_bootstrap_task lk \<notin> avail_pages s1"
    using s1(3,6) u1(1) by (auto simp: uses_free_def takes_free_def)
  from scheduler_init_spec [OF s1(2) _ _ _ b'(1) b1] s1(4-7) obtain s2 where
    s2: "scheduler_init (l_bootstrap_task lk) s1 = Inr s2" "kernel_inv M s2 ((\<lambda>_. [])(0 := [i1]))" by auto
  note u2 = scheduler_init_uses_free [OF s2(1)]
  have uf: "uses_free s s2" by (rule uses_free_trans [OF u1(1) u2(1)])
  have pinv2: "pmm_inv M s2" using s2(2) by (simp add: kernel_inv_def)
  note m = uses_free_mmu [OF inv uf pinv2]
  have on2: "paging_on s2" using m(4) on by simp
  have foot: "page_footprint s2 \<subseteq> page_footprint s" using m(3) uf by (auto simp: uses_free_def takes_free_def)
  have room2: "8 \<le> page_budget s2" using u1(2) u2(2) room by simp
  have ne: "us \<noteq> 0" "sz \<noteq> 0" "unat sz \<le> 4096" "l_test_thread_entry lk \<noteq> 0"
    using i by (auto simp: image_ok_def us_def sz_def word_le_nat_alt)
  have prog: "in_image lk (index_addr us j)" if "j < unat sz" for j
    using program_in_image [OF i] that by (simp add: us_def sz_def)
  have tr2: "\<forall>v. translate s2 v = (if 4096 \<le> v \<and> v < 16777216
       then Some (PAGE_ALIGN_DOWN v, PTE_PRESENT OR PTE_WRITABLE) else None)" using m(2) tr by simp
  note id = image_identity [OF m(1) on2 i _ tr2]
  have ident: "\<forall>j < unat sz. cpu_address s2 (index_addr us j) = Some (index_addr us j)" using id(1) prog by blast
  have far: "\<forall>j < unat sz. PAGE_ALIGN_DOWN (index_addr us j) \<notin> insert USER_CODE_BASE (page_footprint s2)"
    using id(2) prog im foot by blast
  from start_tasks_ok [OF m(1) s2(2) on2 room2, of lk, folded us_def sz_def, OF ne ident far tr2] obtain p c u s' where
    s': "start_tasks lk s2 = Inr (SwitchTo p, s')" "in_ring_3 M p c u s'" "sched_st.more s' = sched_st.more s2"
      "\<forall>j < unat sz. memory s' (index_addr c j) = memory s2 (index_addr us j)"
      "{c, u} \<subseteq> avail_pages s2" "avail_pages s' \<subseteq> avail_pages s2" by (elim exE conjE) blast
  have "memory s2 (index_addr us j) = memory s (index_addr us j)" if "j < unat sz" for j
    using uf im prog [OF that] by (auto simp: uses_free_def takes_free_def)
  moreover have "PAGE_ALIGN_DOWN a \<notin> avail_pages s' \<union> {c, u}" if "in_image lk a" for a
    using im that foot s'(5,6) by blast
  moreover have "sched_st.more s2 = sched_st.more s" using uf by (simp add: uses_free_def takes_free_def)
  ultimately show ?thesis using s1(1) s2(1) s'
    by (intro exI [of _ p] exI [of _ c] exI [of _ u] exI [of _ s']) auto
qed


section \<open>The whole boot\<close>

text \<open>Descriptor tables, interrupt table and controllers; tasks and memory are not touched.\<close>

lemma gdt_init_frame:
  fixes s :: "'z irq_st_scheme"
  shows "memory (gdt_init t g s) = memory s" "ports (gdt_init t g s) = ports s"
  by (simp_all add: gdt_init_def Let_def set_gdt_def gdt_flush_def tss_flush_def)

text \<open>None of this reaches the per-CPU data.\<close>

lemma timer_percpu_simps:
  fixes s :: "'z timer_st_scheme"
  shows "percpu (idt_set_gate v h sel fl s) = percpu s"
    "percpu (fold (\<lambda>i. idt_set_gate (g i) (f i) sel fl) js s) = percpu s"
    "percpu (fold clear_gate js s) = percpu s" "percpu (gdt_init t gd s) = percpu s"
proof -
  show g: "percpu (idt_set_gate v h sel fl s) = percpu s" for v h sel fl and s :: "'z timer_st_scheme"
    by (simp add: idt_set_gate_def)
  show "percpu (fold (\<lambda>i. idt_set_gate (g i) (f i) sel fl) js s) = percpu s"
    by (induction js arbitrary: s) (simp_all add: g)
  show "percpu (fold clear_gate js s) = percpu s"
    by (induction js arbitrary: s) (simp_all add: g clear_gate_def)
  show "percpu (gdt_init t gd s) = percpu s"
    by (simp add: gdt_init_def Let_def set_gdt_def gdt_flush_def tss_flush_def)
qed

lemma hal_x86_init_percpu:
  fixes s :: "'z timer_st_scheme"
  shows "percpu (hal_x86_init lk s) = percpu s"
  by (simp add: hal_x86_init_def cpu_init_def idt_init_def Let_def pic_remap_def timer_percpu_simps)

lemma hal_x86_init_ok:
  fixes s :: "'z irq_st_scheme" and lk :: linkage
  defines "s' \<equiv> hal_x86_init lk s"
  shows "memory s' = memory s" "port_in (ports s') = port_in (ports s)" "io_time (ports s') = io_time (ports s) + 10"
    "gate_offset (idt s' 0x80) = syscall_entry_int80 (l_stubs lk)" "gate_present (idt s' 0x80) \<and> gate_dpl (idt s' 0x80) = 3"
    "gate_offset (idt s' 32) = irq_stub (l_stubs lk) 0" "gate_present (idt s' 32)" "hal_set (ports s')"
    "interrupt_handlers s' = (\<lambda>_. 0)"
proof -
  define s1 where "s1 = gdt_init (l_tss lk) (l_gdt lk) (s\<lparr>ports := (ports s)\<lparr>hal_set := True\<rparr>\<rparr>)"
  have s': "s' = idt_init (l_stubs lk) (l_idt lk) s1" by (simp add: s'_def hal_x86_init_def cpu_init_def s1_def)
  have f: "memory s1 = memory s" "ports s1 = (ports s)\<lparr>hal_set := True\<rparr>" by (simp_all add: s1_def gdt_init_frame)
  note spec = idt_init_spec [of "l_stubs lk" "l_idt lk" s1, folded s']
  have "sched_st.truncate s' = sched_st.truncate s1" using spec by blast
  then have "memory s' = memory s1" by (simp add: sched_st.truncate_def)
  then show "memory s' = memory s" using f(1) by simp
  show "port_in (ports s') = port_in (ports s)" "io_time (ports s') = io_time (ports s) + 10"
    using spec f(2) by simp_all
  have g: "gate_offset (idt s' v) = (if unat v < 32 then isr_stub (l_stubs lk) (unat v)
      else if unat v < 48 then irq_stub (l_stubs lk) (unat v - 32)
      else if v = 0x80 then syscall_entry_int80 (l_stubs lk) else 0)" "gate_present (idt s' v) \<longleftrightarrow> unat v < 48 \<or> v = 0x80"
      "gate_present (idt s' v) \<and> gate_dpl (idt s' v) = 3 \<longleftrightarrow> v = 0x80" for v using spec by blast+
  show "gate_offset (idt s' 0x80) = syscall_entry_int80 (l_stubs lk)" "gate_offset (idt s' 32) = irq_stub (l_stubs lk) 0"
    "gate_present (idt s' 32)" by (simp_all add: g(1,2))
  show "gate_present (idt s' 0x80) \<and> gate_dpl (idt s' 0x80) = 3" using g(3) by simp
  show "interrupt_handlers s' = (\<lambda>_. 0)" using spec by (simp add: fun_eq_iff)
  show "hal_set (ports s')"
    by (simp add: s' idt_init_def Let_def pic_remap_def f)
qed

lemma kmain_spec:
  fixes s :: "'z timer_st_scheme" and lk :: linkage
  assumes "loader_ok (memory s) mbi es" and "image_ok lk" and "M = (\<Union>x \<in> set es. entry_frames x)"
    and "\<forall>g \<in> M \<inter> critical_frames (l_kernel_start lk) (l_kernel_end lk). unat g < card M"
    and "15 \<le> card (M - critical_frames (l_kernel_start lk) (l_kernel_end lk))"
    and "\<forall>k. pit_count (port_in (ports s)) (io_time (ports s) + 13 + 3 * k + 3)
      \<noteq> pit_count (port_in (ports s)) (io_time (ports s) + 13 + 3 * k)"
  shows "\<exists>p c u s'. kmain lk MULTIBOOT_MAGIC mbi s = Some (Inr (SwitchTo p, s')) \<and> in_ring_3 M p c u s' \<and>
    (\<forall>a. in_image lk a \<longrightarrow> PAGE_ALIGN_DOWN a \<notin> avail_pages s' \<union> {c, u}) \<and>
    percpu s' = percpu_init (percpu s) \<and>
    (\<forall>i < unat (l_user_test_end lk - l_user_test_start lk).
       memory s' (index_addr c i) = memory s (index_addr (l_user_test_start lk) i)) \<and>
    interrupt_handlers s' = (\<lambda>_. 0)(32 := l_timer_handler lk) \<and> gate_offset (idt s' 32) = irq_stub (l_stubs lk) 0 \<and>
    gate_offset (idt s' 0x80) = syscall_entry_int80 (l_stubs lk) \<and> gate_present (idt s' 0x80) \<and> gate_dpl (idt s' 0x80) = 3"
proof -
  define s1 where "s1 = (hal_x86_init lk s)\<lparr>percpu := percpu_init (percpu (hal_x86_init lk s))\<rparr>"
  note h = hal_x86_init_ok [of lk s]
  have s1: "memory s1 = memory s" "port_in (ports s1) = port_in (ports s)" "io_time (ports s1) = io_time (ports s) + 10"
    "idt s1 = idt (hal_x86_init lk s)" "interrupt_handlers s1 = (\<lambda>_. 0)" "percpu s1 = percpu_init (percpu s)"
    using h by (simp_all add: s1_def hal_x86_init_percpu)
  have moves: "\<forall>k. pit_count (port_in (ports s1)) (io_time (ports s1) + 3 + 3 * k + 3)
      \<noteq> pit_count (port_in (ports s1)) (io_time (ports s1) + 3 + 3 * k)"
    using assms(6) by (simp add: s1 add.assoc)
  have f: "(1000 :: u32) \<noteq> 0" "unat (1000 :: u32) \<le> 50000000" by simp_all
  from timer_init_spec [OF f moves, of "l_timer_handler lk"] obtain s2 where
    s2: "timer_init (l_timer_handler lk) 1000 s1 = Some (Inr s2)" "sched_st.truncate s2 = sched_st.truncate s1" "idt s2 = idt s1"
      "interrupt_handlers s2 = (interrupt_handlers s1)(32 := l_timer_handler lk)" "percpu s2 = percpu s1" by blast
  have m2: "memory s2 = memory s" using s2(2) s1(1) by (simp add: sched_st.truncate_def)
  from start_memory_ok [of s2, unfolded m2, OF assms(1-5)] obtain s3 where
    s3: "start_memory lk MULTIBOOT_MAGIC mbi s2 = Some (Inr s3)" "mmu_inv M s3" "paging_on s3"
      "\<forall>v. translate s3 v = (if 4096 \<le> v \<and> v < 16777216
         then Some (PAGE_ALIGN_DOWN v, PTE_PRESENT OR PTE_WRITABLE) else None)"
      "10 \<le> page_budget s3" "sched_st.more s3 = sched_st.more s2"
      "\<forall>a. in_image lk a \<longrightarrow> PAGE_ALIGN_DOWN a \<notin> page_footprint s3 \<and> memory s3 a = memory s a" by blast
  have im3: "\<forall>a. in_image lk a \<longrightarrow> PAGE_ALIGN_DOWN a \<notin> page_footprint s3" using s3(7) by blast
  from first_tasks_ok [OF s3(2,3,5) assms(2) s3(4) im3] obtain p c u s' where
    s': "andthen (task_init (l_idle_entry lk) s3) (\<lambda>s. andthen (scheduler_init (l_bootstrap_task lk) s)
      (start_tasks lk)) = Inr (SwitchTo p, s')" "in_ring_3 M p c u s'" "sched_st.more s' = sched_st.more s3"
      "\<forall>i < unat (l_user_test_end lk - l_user_test_start lk).
         memory s' (index_addr c i) = memory s3 (index_addr (l_user_test_start lk) i)"
      "\<forall>a. in_image lk a \<longrightarrow> PAGE_ALIGN_DOWN a \<notin> avail_pages s' \<union> {c, u}" by (elim exE conjE) blast
  have "kmain lk MULTIBOOT_MAGIC mbi s = Some (Inr (SwitchTo p, s'))"
    using s2(1) s3(1) s'(1) by (simp add: kmain_def hal_timer_init_def Let_def s1_def)
  moreover have "interrupt_handlers s' = interrupt_handlers s2" "idt s' = idt s2" "percpu s' = percpu s2"
    using s'(3) s3(6) by (cases s', cases s3, cases s2, simp)+
  moreover have "memory s3 (index_addr (l_user_test_start lk) i) = memory s (index_addr (l_user_test_start lk) i)"
    if "i < unat (l_user_test_end lk - l_user_test_start lk)" for i
    using s3(7) program_in_image [OF assms(2) that] by simp
  ultimately show ?thesis using s'(2,4,5) s2(3-5) s1(4-6) h(4-6)
    by (intro exI [of _ p] exI [of _ c] exI [of _ u] exI [of _ s']) auto
qed


text \<open>A machine with 32 MB, an image of 1 MB at 1 MB and a user program of 64 bytes.\<close>

definition sample_linkage :: linkage where
  "sample_linkage = \<lparr>l_tss = 0x104000, l_gdt = 0x104100, l_idt = 0x105000,
     l_stubs = \<lparr>isr_stub = \<lambda>i. 0x110000 + 16 * of_nat i, irq_stub = \<lambda>i. 0x120000 + 16 * of_nat i, syscall_entry_int80 = 0x130000\<rparr>,
     l_timer_handler = 0x106000, l_kernel_start = 0x100000, l_kernel_end = 0x200000, l_idle_entry = 0x107000,
     l_bootstrap_task = 0x102000, l_task_wrapper = 0x108000, l_user_test_start = 0x101000, l_user_test_end = 0x101040,
     l_test_thread_entry = 0x103000\<rparr>"

definition sample_power_on :: timer_st where
  "sample_power_on = sample_timer\<lparr>memory := sample_mem\<rparr>"

lemma sample_critical: "critical_frames 0x100000 0x200000 \<subseteq> {f. f < 512}"
  by (auto simp: critical_frames_def region_frames_def word_less_nat_alt)

text \<open>The hypotheses of the theorem hold there.\<close>

lemma sample_boot_hyps:
  "loader_ok (memory sample_power_on) 0x2000 [sample_entry]" "image_ok sample_linkage"
  "{f :: u32. f < 8192} = (\<Union>x \<in> set [sample_entry]. entry_frames x)"
  "\<forall>g \<in> {f :: u32. f < 8192} \<inter> critical_frames (l_kernel_start sample_linkage) (l_kernel_end sample_linkage).
     unat g < card {f :: u32. f < 8192}"
  "15 \<le> card ({f :: u32. f < 8192} - critical_frames (l_kernel_start sample_linkage) (l_kernel_end sample_linkage))"
  "\<forall>k. pit_count (port_in (ports sample_power_on)) (io_time (ports sample_power_on) + 13 + 3 * k + 3)
    \<noteq> pit_count (port_in (ports sample_power_on)) (io_time (ports sample_power_on) + 13 + 3 * k)"
proof -
  have lk: "l_kernel_start sample_linkage = 0x100000" "l_kernel_end sample_linkage = 0x200000"
    by (simp_all add: sample_linkage_def)
  show "image_ok sample_linkage" by (simp add: sample_linkage_def image_ok_def in_image_def)
  have "mmap_chain sample_mem 0x3000 0x3018 [sample_entry]"
    by (simp add: sample_mem_entry) (simp add: sample_entry_def)
  then show "loader_ok (memory sample_power_on) 0x2000 [sample_entry]"
    by (simp add: loader_ok_def Let_def sample_power_on_def sample_mem_info)
  show "{f :: u32. f < 8192} = (\<Union>x \<in> set [sample_entry]. entry_frames x)" by (simp add: sample_entry_frames)
  show "\<forall>g \<in> {f :: u32. f < 8192} \<inter> critical_frames (l_kernel_start sample_linkage) (l_kernel_end sample_linkage).
     unat g < card {f :: u32. f < 8192}"
    unfolding card_words_below lk by (auto simp: word_less_nat_alt)
  have "{f :: u32. f < 8192} - {f. f < 512} \<subseteq> {f. f < 8192} - critical_frames 0x100000 0x200000" using sample_critical by blast
  then have "card ({f :: u32. f < 8192} - {f. f < 512}) \<le> card ({f. f < 8192} - critical_frames 0x100000 0x200000)"
    by (intro card_mono) simp_all
  moreover have "{f :: u32. f < 512} \<subseteq> {f. f < 8192}" by (auto simp: word_less_nat_alt)
  from card_Diff_subset [OF _ this] have "card ({f :: u32. f < 8192} - {f. f < 512}) = 7680"
    unfolding card_words_below by simp
  ultimately show "15 \<le> card ({f :: u32. f < 8192} - critical_frames (l_kernel_start sample_linkage) (l_kernel_end sample_linkage))"
    by (simp add: lk)
  have p: "ports sample_power_on = sample_ports" by (simp add: sample_power_on_def sample_timer_def sched_st.defs)
  show "\<forall>k. pit_count (port_in (ports sample_power_on)) (io_time (ports sample_power_on) + 13 + 3 * k + 3)
    \<noteq> pit_count (port_in (ports sample_power_on)) (io_time (ports sample_power_on) + 13 + 3 * k)"
    unfolding p by (simp only: sample_count_moves not_False_eq_True simp_thms)
qed


end
