(* ===== verification/System.thy ===== *)
theory System
  imports Boot
begin

text \<open>
  The running system: hardware interrupts, system calls, thread creation, and user code
  that computes and writes to the pages it can reach, in any order. Kernel operations
  are atomic steps, as they run with interrupts off. The invariant extends
  that of the kernel by the page tables and the reach of user code; every state
  reached from a boot satisfies it.
\<close>

section \<open>Steps\<close>

text \<open>
  The physical address a store of user code goes to; the flags of the page table entry must
  allow user access (bit 2) and writing (bit 1).
\<close>

definition user_store_address :: "'z mmu_st_scheme \<Rightarrow> addr \<Rightarrow> addr option" where
  "user_store_address s v =
     (case translate s v of
        None \<Rightarrow> None
      | Some (p, flags) \<Rightarrow> if bit flags 1 \<and> bit flags 2 then Some (p + (v AND 4095)) else None)"

definition user_pages :: "'z mmu_st_scheme \<Rightarrow> addr set" where
  "user_pages s = {p. \<exists>v flags. translate s v = Some (p, flags) \<and> bit flags 1 \<and> bit flags 2}"

text \<open>\<open>h\<close> is the address of the timer handler, \<open>w\<close> that of \<^verbatim>\<open>task_wrapper\<close>.\<close>

inductive system_step :: "addr \<Rightarrow> addr \<Rightarrow> 'z timer_st_scheme \<Rightarrow> 'z timer_st_scheme \<Rightarrow> bool" for h w where
  interrupt: "32 \<le> int_no frame \<Longrightarrow> int_no frame < 48 \<Longrightarrow> irq_handler (kernel_handlers h) frame s = Inr (d, s') \<Longrightarrow>
    system_step h w s s'"
| syscall: "num = SYS_EXIT \<longrightarrow> task_current s \<noteq> task_get_idle s \<Longrightarrow>
    syscall_handler num a0 a1 a2 a3 a4 s = Inr (r, d, s') \<Longrightarrow> system_step h w s s'"
| spawn_fails: "task_create_kernel_thread w nm e arg pr sz s = Inr (0, s') \<Longrightarrow> system_step h w s s'"
| spawn: "task_create_kernel_thread w nm e arg pr sz s = Inr (p, s1) \<Longrightarrow> p \<noteq> 0 \<Longrightarrow>
    scheduler_enqueue p s1 = Inr s' \<Longrightarrow> system_step h w s s'"
| user_computes: "system_step h w s (s\<lparr>regs := r\<rparr>)"
| user_stores: "user_store_address s v = Some a \<Longrightarrow> system_step h w s (s\<lparr>memory := (memory s)(a := b)\<rparr>)"

inductive_cases system_stepE: "system_step h w s s'"

definition system_inv :: "u32 set \<Rightarrow> addr \<Rightarrow> 'z timer_st_scheme \<Rightarrow> bool" where
  "system_inv M h s \<longleftrightarrow> (\<exists>qs. kernel_inv M s qs) \<and> mmu_inv M s \<and> interrupt_handlers s = (\<lambda>_. 0)(32 := h) \<and> h \<noteq> 0 \<and>
     per_cpu (percpu s) \<noteq> [] \<and> user_pages s \<inter> page_footprint s = {}"

text \<open>What every step keeps: the translation, and memory that is neither free nor in reach of user code.\<close>

definition keeps_protected :: "'z sched_st_scheme \<Rightarrow> 'z sched_st_scheme \<Rightarrow> bool" where
  "keeps_protected s s' \<longleftrightarrow> translate s' = translate s \<and> avail_pages s' \<subseteq> avail_pages s \<and>
     (\<forall>a. PAGE_ALIGN_DOWN a \<notin> avail_pages s \<union> user_pages s \<longrightarrow> memory s' a = memory s a)"

lemma user_pages_cong: "translate s' = translate s \<Longrightarrow> user_pages s' = user_pages s"
  by (simp add: user_pages_def)

lemma keeps_protected_refl [simp]: "keeps_protected s s"
  by (simp add: keeps_protected_def)

lemma keeps_protected_trans: "keeps_protected s t \<Longrightarrow> keeps_protected t u \<Longrightarrow> keeps_protected s u"
  using user_pages_cong [of t s] by (auto simp: keeps_protected_def)


section \<open>Each step keeps the invariant\<close>

lemma takes_free_system:
  fixes s s' :: "'z timer_st_scheme"
  assumes inv: "system_inv M h s" and k: "kernel_inv M s' qs" and u: "takes_free s s'"
    and d: "interrupt_handlers s' = interrupt_handlers s" "per_cpu (percpu s') \<noteq> []"
  shows "system_inv M h s' \<and> keeps_protected s s'"
proof -
  have minv: "mmu_inv M s" using inv by (simp add: system_inv_def)
  have pinv: "pmm_inv M s'" using k by (simp add: kernel_inv_def)
  note m = takes_free_mmu [OF minv u pinv]
  have av: "avail_pages s' \<subseteq> avail_pages s" using u by (simp add: takes_free_def)
  have "user_pages s' \<inter> page_footprint s' = {}"
    using inv av m(3) user_pages_cong [OF m(2)] by (auto simp: system_inv_def)
  with inv k m(1) d have "system_inv M h s'" by (auto simp: system_inv_def)
  moreover have "keeps_protected s s'" using m(2) u by (simp add: keeps_protected_def takes_free_def)
  ultimately show ?thesis by simp
qed

lemma uses_free_system:
  fixes s s' :: "'z timer_st_scheme"
  assumes inv: "system_inv M h s" and k: "kernel_inv M s' qs" and u: "uses_free s s'"
  shows "system_inv M h s' \<and> keeps_protected s s'"
proof -
  have "sched_st.more s' = sched_st.more s" using u by (simp add: uses_free_def)
  then have "interrupt_handlers s' = interrupt_handlers s" "percpu s' = percpu s" by (cases s, cases s', simp)+
  then show ?thesis using inv u by (intro takes_free_system [OF inv k]) (simp_all add: uses_free_def system_inv_def)
qed

lemma takes_free_devices [simp]:
  fixes s t :: "'z timer_st_scheme"
  shows "takes_free s (t\<lparr>ports := io\<rparr>) = takes_free s t" "takes_free s (t\<lparr>percpu := p\<rparr>) = takes_free s t"
  by (simp_all add: takes_free_def avail_pages_def free_set_def bitmap_test_def)

lemma send_eoi_simps [simp]:
  fixes s t :: "'z timer_st_scheme"
  shows "kernel_inv M (send_eoi n s) qs = kernel_inv M s qs" "takes_free t (send_eoi n s) = takes_free t s"
    "interrupt_handlers (send_eoi n s) = interrupt_handlers s" "percpu (send_eoi n s) = percpu s"
    "g_scheduler (send_eoi n s) = g_scheduler s"
  by (simp_all add: send_eoi_def Let_def outb_def)

lemma same_pages_takes_free: "same_pages s s' \<Longrightarrow> takes_free s s'"
  using same_pages_uses_free by (auto simp: uses_free_def)

lemma same_pages_irq:
  fixes s s' :: "'z timer_st_scheme"
  assumes "same_pages s s'"
  shows "interrupt_handlers s' = interrupt_handlers s" "percpu s' = percpu s"
proof -
  have "sched_st.more s' = sched_st.more s" using assms by (simp add: same_pages_def)
  then show "interrupt_handlers s' = interrupt_handlers s" "percpu s' = percpu s" by (cases s, cases s', simp)+
qed

text \<open>The handler of a vector, if it has one.\<close>

lemma handler_step:
  fixes s :: "'z timer_st_scheme"
  assumes inv: "system_inv M h s" and v: "unat v < 48"
  defines "c \<equiv> interrupt_handlers s v"
  shows "\<exists>s1 qs. (if c \<noteq> 0 then kernel_handlers h c frame s else Inr s) = Inr s1 \<and> kernel_inv M s1 qs \<and> takes_free s s1 \<and>
    interrupt_handlers s1 = interrupt_handlers s \<and> per_cpu (percpu s1) \<noteq> []"
proof -
  obtain qs where k: "kernel_inv M s qs" using inv by (auto simp: system_inv_def)
  have p: "per_cpu (percpu s) \<noteq> []" using inv by (simp add: system_inv_def)
  show ?thesis
  proof (cases "v = 32")
    case True
    from tick_timer [OF k p] obtain s1 where
      s1: "timer_interrupt_handler s = Inr s1" "kernel_inv M s1 qs" "percpu s1 = count_tick (percpu s)" by blast
    then obtain b where "scheduler_tick (s\<lparr>percpu := count_tick (percpu s)\<rparr>) = Inr (b, s1)"
      by (auto simp: timer_interrupt_handler_def andthen_eq_Inr)
    note sp = scheduler_tick_pages [OF this]
    have "takes_free (s\<lparr>percpu := count_tick (percpu s)\<rparr>) s1" by (rule same_pages_takes_free [OF sp])
    then have "takes_free s s1" using takes_free_trans takes_free_devices(2) takes_free_refl by blast
    moreover have "c = h" "h \<noteq> 0" using True inv by (simp_all add: c_def system_inv_def)
    ultimately show ?thesis using s1 p same_pages_irq(1) [OF sp]
      by (intro exI [of _ s1] exI [of _ qs]) (simp add: kernel_handlers_def count_tick_def Let_def)
  next
    case False
    then have "c = 0" using inv by (simp add: c_def system_inv_def)
    with k p show ?thesis by auto
  qed
qed

lemma interrupt_step:
  fixes s :: "'z timer_st_scheme"
  assumes inv: "system_inv M h s" and n: "int_no frame < 48"
  shows "\<exists>d s'. irq_handler (kernel_handlers h) frame s = Inr (d, s') \<and> system_inv M h s' \<and> keeps_protected s s'"
proof -
  define v :: u8 where "v = ucast (int_no frame)"
  have "unat v < 48" using n by (simp add: v_def unsigned_ucast_eq take_bit_eq_mod word_less_nat_alt)
  from handler_step [OF inv this, of frame] obtain s1 qs where
    s1: "(if interrupt_handlers s v \<noteq> 0 then kernel_handlers h (interrupt_handlers s v) frame s else Inr s) = Inr s1"
      "kernel_inv M s1 qs" "takes_free s s1" "interrupt_handlers s1 = interrupt_handlers s" "per_cpu (percpu s1) \<noteq> []" by blast
  define s2 where "s2 = send_eoi (int_no frame) s1"
  have s2: "kernel_inv M s2 qs" "takes_free s s2" "interrupt_handlers s2 = interrupt_handlers s" "per_cpu (percpu s2) \<noteq> []"
    using s1 by (simp_all add: s2_def)
  have irq: "irq_handler (kernel_handlers h) frame s = (if scheduler_need_resched s2 then schedule s2 else Inr (Stay, s2))"
  proof -
    have "\<not> 256 \<le> int_no frame" using n by (simp add: word_le_nat_alt word_less_nat_alt)
    then show ?thesis unfolding irq_handler_def v_def [symmetric] s1(1) by (simp add: s2_def Let_def)
  qed
  from schedule_kernel_inv [OF s2(1)] obtain d s3 qs3 where s3: "schedule s2 = Inr (d, s3)" "kernel_inv M s3 qs3" by blast
  note sp = schedule_pages [OF s3(1)]
  have "takes_free s s3" by (rule takes_free_trans [OF s2(2) same_pages_takes_free [OF sp]])
  with takes_free_system [OF inv s3(2)] s2 same_pages_irq [OF sp] have "system_inv M h s3 \<and> keeps_protected s s3" by simp
  moreover have "system_inv M h s2 \<and> keeps_protected s s2" by (rule takes_free_system [OF inv s2])
  ultimately show ?thesis using irq s3(1) by (cases "scheduler_need_resched s2") auto
qed

lemma syscall_pages:
  assumes "syscall_handler num a0 a1 a2 a3 a4 s = Inr (r, d, s')"
  shows "same_pages s s'"
proof -
  have e: "same_pages s s'" if "task_exit code s = Inr (d, s')" for code d
  proof -
    from that obtain t where t: "store_task (task_current s) (\<lambda>t. t\<lparr>t_state := TASK_STATE_ZOMBIE, t_exit_code := code\<rparr>) s = Inr t"
      "schedule t = Inr (d, s')" by (auto simp: task_exit_def andthen_eq_Inr)
    show ?thesis by (rule same_pages_trans [OF store_task_pages [OF t(1)] schedule_pages [OF t(2)]])
  qed
  consider "num = 1" | "num = 2" | "num = 3" | "num \<notin> {1, 2, 3}" by blast
  then show ?thesis
  proof cases
    case 1
    with assms e show ?thesis by (auto simp: syscall_numbers sys_exit_def andthen_eq_Inr)
  next
    case 2
    with assms show ?thesis by (auto simp: syscall_numbers sys_yield_def task_yield_def andthen_eq_Inr intro: schedule_pages)
  next
    case 3
    with assms show ?thesis by (auto simp: syscall_numbers sys_getpid_def Let_def andthen_eq_Inr split: if_splits)
  next
    case 4
    with assms show ?thesis by (simp add: syscall_unknown)
  qed
qed

lemma syscall_step:
  fixes s :: "'z timer_st_scheme"
  assumes inv: "system_inv M h s" and idle: "num = SYS_EXIT \<longrightarrow> task_current s \<noteq> task_get_idle s"
  shows "\<exists>r d s'. syscall_handler num a0 a1 a2 a3 a4 s = Inr (r, d, s') \<and> system_inv M h s' \<and> keeps_protected s s'"
proof -
  obtain qs where "kernel_inv M s qs" using inv by (auto simp: system_inv_def)
  from syscall_handler_spec [OF this, of num a0 a1 a2 a3 a4 0] idle obtain r d s' qs' where
    s': "syscall_handler num a0 a1 a2 a3 a4 s = Inr (r, d, s')" "kernel_inv M s' qs'" by blast
  from uses_free_system [OF inv s'(2) same_pages_uses_free [OF syscall_pages [OF s'(1)]]] s'(1) show ?thesis by blast
qed

lemma spawn_step:
  fixes s :: "'z timer_st_scheme"
  assumes inv: "system_inv M h s"
  shows "\<exists>p s1. task_create_kernel_thread w nm e arg pr sz s = Inr (p, s1) \<and> system_inv M h s1 \<and> keeps_protected s s1 \<and>
    (p \<noteq> 0 \<longrightarrow> (\<exists>s'. scheduler_enqueue p s1 = Inr s' \<and> system_inv M h s' \<and> keeps_protected s s'))"
proof -
  obtain qs where k: "kernel_inv M s qs" using inv by (auto simp: system_inv_def)
  then have pinv: "pmm_inv M s" by (simp add: kernel_inv_def)
  from create_kernel_inv [OF k, of w nm e arg pr sz] obtain p s1 where
    s1: "task_create_kernel_thread w nm e arg pr sz s = Inr (p, s1)" "kernel_inv M s1 qs"
      "p \<noteq> 0 \<Longrightarrow> t_state (tasks s1 p) = TASK_STATE_READY \<and> p \<notin> live_tasks s1 qs \<and> p \<notin> avail_pages s1" by blast
  have u: "uses_free s s1" by (rule create_uses_free [OF pinv s1(1)])
  note i1 = uses_free_system [OF inv s1(2) u]
  moreover have "\<exists>s'. scheduler_enqueue p s1 = Inr s' \<and> system_inv M h s' \<and> keeps_protected s s'" if "p \<noteq> 0"
  proof -
    from enqueue_kernel_inv [OF s1(2) that] s1(3) [OF that] obtain s' qs' where
      s': "scheduler_enqueue p s1 = Inr s'" "kernel_inv M s' qs'" by blast
    have "uses_free s s'" by (rule uses_free_trans [OF u same_pages_uses_free [OF scheduler_enqueue_pages [OF s'(1)]]])
    with uses_free_system [OF inv s'(2)] s'(1) show ?thesis by blast
  qed
  ultimately show ?thesis using s1(1) by blast
qed

text \<open>User code reaches only user pages, none of which holds a page table or is free.\<close>

lemma store_step:
  fixes s :: "'z timer_st_scheme"
  assumes inv: "system_inv M h s" and a: "user_store_address s v = Some a"
  shows "system_inv M h (s\<lparr>memory := (memory s)(a := b)\<rparr>) \<and> keeps_protected s (s\<lparr>memory := (memory s)(a := b)\<rparr>)"
proof -
  define m where "m = (memory s)(a := b)"
  let ?s = "s\<lparr>memory := m\<rparr>"
  obtain p fl where p: "translate s v = Some (p, fl)" "bit fl 1" "bit fl 2" "a = p + (v AND 4095)"
    using a by (auto simp: user_store_address_def split: option.splits prod.splits if_splits)
  have al: "page_aligned p" using p(1) by (auto simp: translate_def Let_def page_aligned_PAGE_FRAME split: if_splits)
  have "unat (v AND 4095) < 4096" by (simp add: mask_12 take_bit_eq_mask [symmetric] take_bit_eq_mod unat_mod)
  from align_down_offset(1) [OF al this] have ap: "PAGE_ALIGN_DOWN a = p" by (simp add: p(4))
  have pu: "p \<in> user_pages s" using p(1-3) by (auto simp: user_pages_def)
  have minv: "mmu_inv M s" using inv by (simp add: system_inv_def)
  have "m x = memory s x" if "PAGE_ALIGN_DOWN x \<in> owned_pages s" for x
    using that ap pu inv by (auto simp: system_inv_def m_def)
  note m = mmu_memory_cong [OF minv this]
  have t: "user_pages ?s = user_pages s" "page_footprint ?s = page_footprint s"
    using user_pages_cong [OF m(2)] m(4) by simp_all
  have "kernel_inv M ?s qs = kernel_inv M s qs" for qs
    by (simp add: kernel_inv_def live_tasks_def sched_inv_def represents_def)
  then have "system_inv M h ?s" using inv m(1) t by (auto simp: system_inv_def)
  moreover have "m x = memory s x" if "PAGE_ALIGN_DOWN x \<notin> user_pages s" for x using that ap pu by (auto simp: m_def)
  then have "keeps_protected s ?s" using m(2) by (simp add: keeps_protected_def)
  ultimately show ?thesis unfolding m_def by simp
qed

lemma system_step_inv:
  assumes "system_step h w s s'" and inv: "system_inv M h s"
  shows "system_inv M h s' \<and> keeps_protected s s'"
  using assms(1)
proof (cases rule: system_step.cases)
  case (interrupt frame d)
  with interrupt_step [OF inv, of frame] show ?thesis by auto
next
  case (syscall num a0 a1 a2 a3 a4 r d)
  with syscall_step [OF inv, of num a0 a1 a2 a3 a4] show ?thesis by auto
next
  case (spawn_fails nm e arg pr sz)
  with spawn_step [OF inv, of w nm e arg pr sz] show ?thesis by auto
next
  case (spawn nm e arg pr sz p s1)
  with spawn_step [OF inv, of w nm e arg pr sz] show ?thesis by auto
next
  case (user_computes r)
  have "translate s' = translate s" "owned_pages s' = owned_pages s" "mmu_inv M s' = mmu_inv M s"
    unfolding user_computes
    by (simp_all add: translate_def owned_pages_def mmu_inv_def table_slots_def table_page_def [abs_def] fun_eq_iff Let_def get_entry_def)
  then show ?thesis using inv user_pages_cong [of s' s] unfolding user_computes
    by (auto simp: system_inv_def keeps_protected_def kernel_inv_def live_tasks_def sched_inv_def represents_def)
next
  case (user_stores v a b)
  with store_step [OF inv, of v a b] show ?thesis by simp
qed

lemma system_steps_inv:
  assumes "(system_step h w)\<^sup>*\<^sup>* s t" and "system_inv M h s"
  shows "system_inv M h t \<and> keeps_protected s t"
  using assms
  by (induction rule: rtranclp_induct) (auto dest: system_step_inv intro: keeps_protected_trans)


section \<open>Properties\<close>

text \<open>What a state of the running system promises: no request faults.\<close>

definition serves_requests :: "addr \<Rightarrow> addr \<Rightarrow> 'z timer_st_scheme \<Rightarrow> bool" where
  "serves_requests h w t \<longleftrightarrow>
     (\<forall>frame. int_no frame < 48 \<longrightarrow> (\<exists>d t'. irq_handler (kernel_handlers h) frame t = Inr (d, t'))) \<and>
     (\<forall>num a0 a1 a2 a3 a4. (num = SYS_EXIT \<longrightarrow> task_current t \<noteq> task_get_idle t) \<longrightarrow>
        (\<exists>r d t'. syscall_handler num a0 a1 a2 a3 a4 t = Inr (r, d, t'))) \<and>
     (\<forall>nm e arg pr sz. \<exists>p t'. task_create_kernel_thread w nm e arg pr sz t = Inr (p, t'))"

lemma system_inv_serves: "system_inv M h t \<Longrightarrow> serves_requests h w t"
  unfolding serves_requests_def
proof (intro conjI allI impI)
  assume inv: "system_inv M h t"
  show "\<exists>d t'. irq_handler (kernel_handlers h) frame t = Inr (d, t')" if "int_no frame < 48" for frame
    using interrupt_step [OF inv that] by blast
  show "\<exists>r d t'. syscall_handler num a0 a1 a2 a3 a4 t = Inr (r, d, t')"
    if "num = SYS_EXIT \<longrightarrow> task_current t \<noteq> task_get_idle t" for num a0 a1 a2 a3 a4
    using syscall_step [OF inv that] by blast
  show "\<exists>p t'. task_create_kernel_thread w nm e arg pr sz t = Inr (p, t')" for nm e arg pr sz
    using spawn_step [OF inv] by blast
qed

lemma system_steps_safe:
  assumes "system_inv M h s" and "(system_step h w)\<^sup>*\<^sup>* s t"
  shows "(\<exists>qs. kernel_inv M t qs) \<and> mmu_inv M t \<and> serves_requests h w t \<and> translate t = translate s \<and>
    (\<forall>a. PAGE_ALIGN_DOWN a \<notin> avail_pages s \<union> user_pages s \<longrightarrow> memory t a = memory s a)"
  using system_steps_inv [OF assms(2,1)] system_inv_serves [of M h t w]
  by (simp add: system_inv_def keeps_protected_def)

text \<open>After the boot user code reaches the two pages of its task, writable, and nothing else.\<close>

lemma boot_user_pages:
  assumes "translate s = boot_translation c u"
  shows "user_pages s = {c, u}"
proof -
  have b: "bit (7 :: u32) 1" "bit (7 :: u32) 2" "\<not> bit (PTE_PRESENT OR PTE_WRITABLE :: u32) 2"
    by (simp_all add: bit_simps)
  have "boot_translation c u 0x400000 = Some (c, 7)" "boot_translation c u 0xBFFFF000 = Some (u, 7)"
    by (simp_all add: boot_translation_def PAGE_ALIGN_DOWN_def)
  then have "{c, u} \<subseteq> user_pages s" using assms b(1,2) by (fastforce simp: user_pages_def)
  moreover have "user_pages s \<subseteq> {c, u}"
    using assms b by (auto simp: user_pages_def boot_translation_def split: if_splits)
  ultimately show ?thesis by blast
qed

lemma boot_system_inv:
  assumes "in_ring_3 M p c u s" and "interrupt_handlers s = (\<lambda>_. 0)(32 := h)" and "h \<noteq> 0" and "per_cpu (percpu s) \<noteq> []"
  shows "system_inv M h s"
  using assms boot_user_pages [of s c u] by (auto simp: in_ring_3_def system_inv_def)



end
