(* ===== verification/Fairness.thy ===== *)
theory Fairness
  imports System
begin

text \<open>
  Sharing of the processor under preemption: each timer interrupt rotates the queue of the
  highest priority by one, so every task of that priority gets its turn after
  as many ticks as there are tasks before it.
\<close>

text \<open>\<open>n\<close> timer interrupts, one after the other.\<close>

fun timer_ticks :: "addr \<Rightarrow> interrupt_frame \<Rightarrow> nat \<Rightarrow> 'z timer_st_scheme \<Rightarrow> fault + 'z timer_st_scheme" where
  "timer_ticks h frame 0 s = Inr s"
| "timer_ticks h frame (Suc n) s =
     andthen (irq_handler (kernel_handlers h) frame s) (\<lambda>(d, s). timer_ticks h frame n s)"

text \<open>The running task \<open>c\<close> has the highest priority \<open>m\<close>; the tasks \<open>xs\<close> wait at that priority.\<close>

definition contended :: "u32 set \<Rightarrow> addr \<Rightarrow> u8 \<Rightarrow> addr \<Rightarrow> addr list \<Rightarrow> 'z timer_st_scheme \<Rightarrow> bool" where
  "contended M h m c xs s \<longleftrightarrow> (\<exists>qs. kernel_inv M s qs \<and> qs m = xs \<and> (\<forall>r > m. qs r = [])) \<and>
     current_task (g_scheduler s) = c \<and> t_state (tasks s c) = TASK_STATE_RUNNING \<and> t_priority (tasks s c) = m \<and>
     interrupt_handlers s = (\<lambda>_. 0)(32 := h) \<and> h \<noteq> 0 \<and> per_cpu (percpu s) \<noteq> []"

text \<open>A tick with a contender asks for a switch and changes no more than the counters.\<close>

lemma tick_contended:
  fixes s :: "'z timer_st_scheme"
  assumes k: "kernel_inv M s qs" and q: "qs m \<noteq> []" and c: "c = current_task (g_scheduler s)" and m: "t_priority (tasks s c) = m"
    and p: "per_cpu (percpu s) \<noteq> []"
  shows "\<exists>s1. timer_interrupt_handler s = Inr s1 \<and> kernel_inv M s1 qs \<and> need_resched (g_scheduler s1) \<and>
    current_task (g_scheduler s1) = c \<and> t_state (tasks s1 c) = t_state (tasks s c) \<and> t_priority (tasks s1 c) = m \<and>
    interrupt_handlers s1 = interrupt_handlers s \<and> per_cpu (percpu s1) \<noteq> []"
proof -
  define s0 where "s0 = s\<lparr>percpu := count_tick (percpu s)\<rparr>"
  have k0: "kernel_inv M s0 qs" using k by (simp add: s0_def)
  then have "sched_inv s0 qs" by (simp add: kernel_inv_def)
  from scheduler_tick_spec [OF this] obtain b s1 where
    s1: "scheduler_tick s0 = Inr (b, s1)" "current_task (g_scheduler s1) = c"
      "tasks s1 = (tasks s0)(c := (tasks s0 c)\<lparr>t_cpu_time_ticks := t_cpu_time_ticks (tasks s0 c) + 1\<rparr>)"
      "need_resched (g_scheduler s1) = (need_resched (g_scheduler s0) \<or> (\<exists>p \<ge> task_prio s0 c. qs p \<noteq> []))"
    using c by (auto simp: s0_def)
  have "kernel_inv M s1 qs" using tick_kernel_inv [OF k0] s1(1) by auto
  moreover have "need_resched (g_scheduler s1)" using s1(4) q m by (auto simp: s0_def)
  moreover note same_pages_irq [OF scheduler_tick_pages [OF s1(1)]]
  ultimately show ?thesis using s1(1-3) m p
    by (intro exI [of _ s1]) (simp add: timer_interrupt_handler_def s0_def [symmetric], simp add: s0_def count_tick_def Let_def)
qed

text \<open>The switch: the head of the queue runs, the task that ran goes to the tail.\<close>

lemma switch_contended:
  fixes s :: "'z timer_st_scheme"
  assumes k: "kernel_inv M s qs" and q: "qs m = n # ns" "\<forall>r > m. qs r = []" and c: "c = current_task (g_scheduler s)"
    and t: "t_state (tasks s c) = TASK_STATE_RUNNING" "t_priority (tasks s c) = m"
  shows "\<exists>s'. schedule s = Inr (SwitchTo n, s') \<and> kernel_inv M s' (qs(m := ns @ [c])) \<and> current_task (g_scheduler s') = n \<and>
    t_state (tasks s' n) = TASK_STATE_RUNNING \<and> t_priority (tasks s' n) = m"
proof -
  have si: "sched_inv s qs" using k by (simp add: kernel_inv_def)
  then have rep: "represents s qs" by (simp add: sched_inv_def)
  have ne: "qs m \<noteq> []" using q(1) by simp
  have qs': "switch_queues qs m (parked (t_state (tasks s c)) = TASK_STATE_READY) (task_prio s c) c = qs(m := ns @ [c])"
    using q(1) t by (simp add: switch_queues_def parked_def Let_def)
  from schedule_switch [OF si ne q(2), folded c] obtain s' where
    s': "schedule s = Inr (SwitchTo n, s')" "n \<noteq> c" "current_task (g_scheduler s') = n" "idle_task s' = idle_task s"
      "\<And>y. strip_links (tasks s' y) = strip_links ((exchanged c n y (tasks s y))
       \<lparr>t_context := if y = c then save_context ((regs s)\<lparr>ctx_eflags := ctx_eflags (regs s) AND NOT IF_FLAG\<rparr>)
          else t_context (tasks s y)\<rparr>)"
    using q(1) by auto
  have "sched_inv s' (qs(m := ns @ [c]))"
    using schedule_switch_inv [OF si ne q(2) s'(1), folded c] qs' by simp
  moreover have "set (qs m) \<subseteq> live_tasks s qs" by (auto simp: live_tasks_def)
  then have "insert n (set ns) \<subseteq> live_tasks s qs" using q(1) by simp
  then have "live_tasks s' (qs(m := ns @ [c])) \<subseteq> live_tasks s qs"
    using s'(3,4) c by (auto simp: live_tasks_def split: if_splits)
  ultimately have "kernel_inv M s' (qs(m := ns @ [c]))"
    using k schedule_pages [OF s'(1)] by (auto simp: kernel_inv_def same_pages_def)
  moreover have "n \<in> set (qs m)" using q(1) by simp
  note represents_priority(1) [OF rep this]
  moreover note strip_linksD [OF s'(5) [of n]]
  ultimately show ?thesis using s'(1,3) by (intro exI [of _ s']) (simp add: exchanged_def)
qed

lemma timer_rotates:
  fixes s :: "'z timer_st_scheme"
  assumes con: "contended M h m c (n # ns) s" and f: "int_no frame = 32"
  shows "\<exists>s'. irq_handler (kernel_handlers h) frame s = Inr (SwitchTo n, s') \<and> contended M h m n (ns @ [c]) s'"
proof -
  from con obtain qs where qs: "kernel_inv M s qs" "qs m = n # ns" "\<forall>r > m. qs r = []"
    and s: "current_task (g_scheduler s) = c" "t_state (tasks s c) = TASK_STATE_RUNNING" "t_priority (tasks s c) = m"
      "interrupt_handlers s = (\<lambda>_. 0)(32 := h)" "h \<noteq> 0" "per_cpu (percpu s) \<noteq> []" by (auto simp: contended_def)
  have ne: "qs m \<noteq> []" using qs(2) by simp
  from tick_contended [OF qs(1) ne s(1) [symmetric] s(3,6)] obtain s1 where
    s1: "timer_interrupt_handler s = Inr s1" "kernel_inv M s1 qs" "need_resched (g_scheduler s1)"
      "current_task (g_scheduler s1) = c" "t_state (tasks s1 c) = TASK_STATE_RUNNING" "t_priority (tasks s1 c) = m"
      "interrupt_handlers s1 = interrupt_handlers s" "per_cpu (percpu s1) \<noteq> []" using s(2) by auto
  define s2 where "s2 = send_eoi 32 s1"
  have s2: "kernel_inv M s2 qs" "current_task (g_scheduler s2) = c" "t_state (tasks s2 c) = TASK_STATE_RUNNING"
    "t_priority (tasks s2 c) = m"
    using s1 by (simp_all add: s2_def send_eoi_def Let_def)
  have irq: "irq_handler (kernel_handlers h) frame s = schedule s2"
    using f s(4,5) s1(1,3)
    by (simp add: irq_handler_def kernel_handlers_def s2_def Let_def scheduler_need_resched_def word_le_nat_alt)
  from switch_contended [OF s2(1) qs(2,3) s2(2) [symmetric] s2(3,4)] obtain s' where
    s': "schedule s2 = Inr (SwitchTo n, s')" "kernel_inv M s' (qs(m := ns @ [c]))" "current_task (g_scheduler s') = n"
      "t_state (tasks s' n) = TASK_STATE_RUNNING" "t_priority (tasks s' n) = m" by blast
  have "\<exists>qs. kernel_inv M s' qs \<and> qs m = ns @ [c] \<and> (\<forall>r > m. qs r = [])"
    using s'(2) qs(3) by (intro exI [of _ "qs(m := ns @ [c])"]) auto
  moreover have "interrupt_handlers s' = (\<lambda>_. 0)(32 := h)" "per_cpu (percpu s') \<noteq> []"
    using same_pages_irq [OF schedule_pages [OF s'(1)]] s1(7,8) s(4) by (simp_all add: s2_def)
  ultimately show ?thesis using irq s' s(5) by (simp add: contended_def)
qed

lemma timer_rotates_ring:
  fixes s :: "'z timer_st_scheme"
  assumes "contended M h m c xs s" and "xs \<noteq> []" and f: "int_no frame = 32"
  shows "\<exists>s'. timer_ticks h frame n s = Inr s' \<and>
    contended M h m (hd (rotate n (c # xs))) (tl (rotate n (c # xs))) s'"
  using assms(1,2)
proof (induction n arbitrary: c xs s)
  case 0
  then show ?case by simp
next
  case (Suc n)
  then obtain x ns where xs: "xs = x # ns" by (cases xs) auto
  from timer_rotates [OF Suc.prems(1) [unfolded xs] f] obtain s1 where
    s1: "irq_handler (kernel_handlers h) frame s = Inr (SwitchTo x, s1)" "contended M h m x (ns @ [c]) s1" by blast
  have "rotate n (x # ns @ [c]) = rotate (Suc n) (c # xs)" by (simp add: xs rotate1_rotate_swap)
  with Suc.IH [OF s1(2)] s1(1) show ?case by simp
qed

text \<open>
  C3: no task of the highest priority starves. If the running task \<open>c\<close> shares its priority with
  the waiting tasks \<open>xs\<close> and none of a higher priority is ready, then timer interrupts
  hand the processor round in the order of the queue: after \<open>n\<close> of them the task
  at position \<open>n\<close> of the ring of \<open>c\<close> and \<open>xs\<close> runs, and the ring is still complete.
\<close>

theorem timer_round_robin:
  fixes s :: "'z timer_st_scheme"
  assumes "contended M h m c xs s" and "xs \<noteq> []" and "int_no frame = 32"
  shows "\<exists>s'. timer_ticks h frame n s = Inr s' \<and>
    current_task (g_scheduler s') = (c # xs) ! (n mod length (c # xs)) \<and>
    contended M h m (hd (rotate n (c # xs))) (tl (rotate n (c # xs))) s'"
proof -
  from timer_rotates_ring [OF assms, of n] obtain s' where
    s': "timer_ticks h frame n s = Inr s'" "contended M h m (hd (rotate n (c # xs))) (tl (rotate n (c # xs))) s'" by blast
  then have "current_task (g_scheduler s') = hd (rotate n (c # xs))" by (simp add: contended_def)
  also have "\<dots> = (c # xs) ! (n mod length (c # xs))" by (rule hd_rotate_conv_nth) simp
  finally show ?thesis using s' by blast
qed

text \<open>Two tasks of priority 0: the one at 0x2000 runs, the idle task waits.\<close>

definition sample_pair :: timer_st where
  "sample_pair = sched_st.extend (sample_busy\<lparr>tasks := (tasks sample_busy)(0x2000 := (tasks sample_busy 0x2000)\<lparr>t_priority := 0\<rparr>)\<rparr>)
     (sched_st.more sample_timer)"

lemma sample_pair_contended: "contended sample_frames 0x100500 0 0x2000 [0x1000] sample_pair"
proof -
  let ?s = "sample_busy\<lparr>tasks := (tasks sample_busy)(0x2000 := (tasks sample_busy 0x2000)\<lparr>t_priority := 0\<rparr>)\<rparr>"
  let ?qs = "(\<lambda>_. [])(0 := [0x1000]) :: u8 \<Rightarrow> addr list"
  have b: "current_task (g_scheduler sample_busy) = 0x2000" "idle_task sample_busy = 0x1000"
    "t_state (tasks sample_busy 0x2000) = TASK_STATE_RUNNING"
    by (simp_all add: sample_busy_def sample_sched_fields)
  have "represents sample_busy ?qs" using sample_busy_inv by (simp add: sched_inv_def)
  from unlinked_upd [OF this, of "0x2000"] have rep: "represents ?s ?qs" by (simp split: if_splits)
  have "kernel_inv sample_frames ?s ?qs"
    using sample_busy_kernel rep b by (auto simp: kernel_inv_def sched_inv_def Let_def live_tasks_def split: if_splits)
  then have "kernel_inv sample_frames sample_pair ?qs" by (simp add: sample_pair_def kernel_inv_extend)
  moreover have "current_task (g_scheduler sample_pair) = 0x2000" "t_state (tasks sample_pair 0x2000) = TASK_STATE_RUNNING"
    "t_priority (tasks sample_pair 0x2000) = 0"
    using b by (simp_all add: sample_pair_def sched_st.defs)
  moreover have "interrupt_handlers sample_pair = (\<lambda>_. 0)(32 := 0x100500)" "per_cpu (percpu sample_pair) \<noteq> []"
    by (simp_all add: sample_pair_def sample_timer_def sched_st.defs sample_percpu_def)
  ultimately show ?thesis by (auto simp: contended_def intro!: exI [of _ ?qs])
qed

theorem timer_round_robin_witness:
  "\<exists>s'. timer_ticks 0x100500 timer_frame 3 sample_pair = Inr s' \<and> current_task (g_scheduler s') = 0x1000"
proof -
  have "int_no timer_frame = 32" by (simp add: timer_frame_def)
  moreover have "(3 :: nat) mod Suc (Suc 0) = Suc 0" by (simp add: mod_Suc numeral_3_eq_3)
  ultimately show ?thesis using timer_round_robin [OF sample_pair_contended, of timer_frame 3] by auto
qed

end
