(* ===== verification/Vga_Text.thy ===== *)
theory Vga_Text
  imports Port_Io
begin

text \<open>
  The text mode driver \<^verbatim>\<open>drivers/vga/vga_text.c\<close>. The text buffer is a map from
  addresses to 16-bit cells, so that a write outside the screen would be visible;
  the hardware cursor is set through the port log. The abstract screen is a grid
  of 25 rows and 80 columns with a cursor; the driver refines it.
\<close>

section \<open>Data\<close>

abbreviation VGA_MEMORY :: addr where "VGA_MEMORY \<equiv> 0xB8000"
abbreviation VGA_CTRL_REG :: u16 where "VGA_CTRL_REG \<equiv> 0x3D4"
abbreviation VGA_DATA_REG :: u16 where "VGA_DATA_REG \<equiv> 0x3D5"
abbreviation VGA_WIDTH :: nat where "VGA_WIDTH \<equiv> 80"
abbreviation VGA_HEIGHT :: nat where "VGA_HEIGHT \<equiv> 25"

datatype vga_color = VGA_COLOR_BLACK | VGA_COLOR_BLUE | VGA_COLOR_GREEN | VGA_COLOR_CYAN
  | VGA_COLOR_RED | VGA_COLOR_MAGENTA | VGA_COLOR_BROWN | VGA_COLOR_LIGHT_GREY
  | VGA_COLOR_DARK_GREY | VGA_COLOR_LIGHT_BLUE | VGA_COLOR_LIGHT_GREEN | VGA_COLOR_LIGHT_CYAN
  | VGA_COLOR_LIGHT_RED | VGA_COLOR_LIGHT_MAGENTA | VGA_COLOR_YELLOW | VGA_COLOR_WHITE

fun vga_color_code :: "vga_color \<Rightarrow> u32" where
  "vga_color_code VGA_COLOR_BLACK = 0"
| "vga_color_code VGA_COLOR_BLUE = 1"
| "vga_color_code VGA_COLOR_GREEN = 2"
| "vga_color_code VGA_COLOR_CYAN = 3"
| "vga_color_code VGA_COLOR_RED = 4"
| "vga_color_code VGA_COLOR_MAGENTA = 5"
| "vga_color_code VGA_COLOR_BROWN = 6"
| "vga_color_code VGA_COLOR_LIGHT_GREY = 7"
| "vga_color_code VGA_COLOR_DARK_GREY = 8"
| "vga_color_code VGA_COLOR_LIGHT_BLUE = 9"
| "vga_color_code VGA_COLOR_LIGHT_GREEN = 10"
| "vga_color_code VGA_COLOR_LIGHT_CYAN = 11"
| "vga_color_code VGA_COLOR_LIGHT_RED = 12"
| "vga_color_code VGA_COLOR_LIGHT_MAGENTA = 13"
| "vga_color_code VGA_COLOR_YELLOW = 14"
| "vga_color_code VGA_COLOR_WHITE = 15"

text \<open>The static \<^verbatim>\<open>vga_state\<close>, with the cells its \<^verbatim>\<open>buffer\<close> points to.\<close>

record vga_st = io_st +
  vga_buffer :: addr
  cursor_x :: u16
  cursor_y :: u16
  current_color :: u8
  vga_initialized :: bool
  vga_cells :: "addr \<Rightarrow> u16"


section \<open>Operations\<close>

definition cell_addr :: "'a vga_st_scheme \<Rightarrow> nat \<Rightarrow> addr" where
  "cell_addr s index = vga_buffer s + 2 * of_nat index"

definition get_cell :: "'a vga_st_scheme \<Rightarrow> nat \<Rightarrow> u16" where
  "get_cell s index = vga_cells s (cell_addr s index)"

definition set_cell :: "nat \<Rightarrow> u16 \<Rightarrow> 'a vga_st_scheme \<Rightarrow> 'a vga_st_scheme" where
  "set_cell index v s = s\<lparr>vga_cells := (vga_cells s)(cell_addr s index := v)\<rparr>"

definition make_color :: "vga_color \<Rightarrow> vga_color \<Rightarrow> u8" where
  "make_color fg bg = ucast (vga_color_code fg OR push_bit 4 (vga_color_code bg))"

text \<open>\<^verbatim>\<open>char\<close> is signed on this target: \<^verbatim>\<open>(uint16_t)c\<close> extends the sign.\<close>

definition make_entry :: "u8 \<Rightarrow> u8 \<Rightarrow> u16" where
  "make_entry c color = scast c OR push_bit 8 (ucast color)"

definition update_hardware_cursor :: "'a vga_st_scheme \<Rightarrow> 'a vga_st_scheme" where
  "update_hardware_cursor s =
     (if \<not> hal_set s then s
      else
        let pos = cursor_y s * 80 + cursor_x s;
            s = io_outb VGA_CTRL_REG 0x0F s;
            s = io_outb VGA_DATA_REG (ucast (pos AND 0xFF)) s;
            s = io_outb VGA_CTRL_REG 0x0E s
        in io_outb VGA_DATA_REG (ucast (drop_bit 8 pos AND 0xFF)) s)"

definition vga_text_clear :: "'a vga_st_scheme \<Rightarrow> 'a vga_st_scheme" where
  "vga_text_clear s =
     (let blank = make_entry 0x20 (current_color s);
          s = fold (\<lambda>y. fold (\<lambda>x. set_cell (y * VGA_WIDTH + x) blank) [0..<VGA_WIDTH]) [0..<VGA_HEIGHT] s
      in update_hardware_cursor (s\<lparr>cursor_x := 0, cursor_y := 0\<rparr>))"

definition copy_cell :: "nat \<Rightarrow> nat \<Rightarrow> 'a vga_st_scheme \<Rightarrow> 'a vga_st_scheme" where
  "copy_cell src dst s = set_cell dst (get_cell s src) s"

definition vga_text_scroll :: "'a vga_st_scheme \<Rightarrow> 'a vga_st_scheme" where
  "vga_text_scroll s =
     (let s = fold (\<lambda>y. fold (\<lambda>x. copy_cell ((y + 1) * VGA_WIDTH + x) (y * VGA_WIDTH + x)) [0..<VGA_WIDTH])
                [0..<VGA_HEIGHT - 1] s;
          blank = make_entry 0x20 (current_color s)
      in fold (\<lambda>x. set_cell ((VGA_HEIGHT - 1) * VGA_WIDTH + x) blank) [0..<VGA_WIDTH] s)"

definition vga_text_putchar_at :: "u8 \<Rightarrow> u16 \<Rightarrow> u16 \<Rightarrow> 'a vga_st_scheme \<Rightarrow> 'a vga_st_scheme" where
  "vga_text_putchar_at c x y s =
     (if x \<ge> 80 \<or> y \<ge> 25 then s
      else set_cell (unat y * VGA_WIDTH + unat x) (make_entry c (current_color s)) s)"

definition printable :: "u8 \<Rightarrow> bool" where
  "printable c \<longleftrightarrow> sint c \<ge> 0x20 \<and> sint c \<le> 0x7E"

text \<open>The first part of \<^verbatim>\<open>vga_text_putchar\<close>, which moves the cursor and writes the cell.\<close>

definition place_char :: "u8 \<Rightarrow> 'a vga_st_scheme \<Rightarrow> 'a vga_st_scheme" where
  "place_char c s =
     (if c = 0x0A then s\<lparr>cursor_x := 0, cursor_y := cursor_y s + 1\<rparr>
      else if c = 0x0D then s\<lparr>cursor_x := 0\<rparr>
      else if c = 0x09 then s\<lparr>cursor_x := (cursor_x s + 8) AND NOT 7\<rparr>
      else if c = 0x08 then
        (if cursor_x s > 0 then
           let s = s\<lparr>cursor_x := cursor_x s - 1\<rparr>
           in vga_text_putchar_at 0x20 (cursor_x s) (cursor_y s) s
         else s)
      else if printable c then
        let s = vga_text_putchar_at c (cursor_x s) (cursor_y s) s
        in s\<lparr>cursor_x := cursor_x s + 1\<rparr>
      else s)"

definition vga_text_putchar :: "u8 \<Rightarrow> 'a vga_st_scheme \<Rightarrow> 'a vga_st_scheme" where
  "vga_text_putchar c s =
     (let s = place_char c s;
          s = (if cursor_x s \<ge> 80 then s\<lparr>cursor_x := 0, cursor_y := cursor_y s + 1\<rparr> else s);
          s = (if cursor_y s \<ge> 25 then (vga_text_scroll s)\<lparr>cursor_y := 25 - 1\<rparr> else s)
      in update_hardware_cursor s)"

definition vga_text_write :: "u8 list \<Rightarrow> 'a vga_st_scheme \<Rightarrow> 'a vga_st_scheme" where
  "vga_text_write str s = fold vga_text_putchar str s"

text \<open>The loop of \<^verbatim>\<open>vga_text_write_at\<close> from index \<open>i\<close>; \<^verbatim>\<open>x + i\<close> is a \<^verbatim>\<open>size_t\<close>.\<close>

fun write_at_loop :: "u8 list \<Rightarrow> u32 \<Rightarrow> u16 \<Rightarrow> u16 \<Rightarrow> 'a vga_st_scheme \<Rightarrow> 'a vga_st_scheme" where
  "write_at_loop [] i x y s = s"
| "write_at_loop (c # str) i x y s =
     (if ucast x + i < (80 :: u32) \<and> y < 25 then
        write_at_loop str (i + 1) x y (vga_text_putchar_at c (ucast (ucast x + i :: u32)) y s)
      else s)"

definition vga_text_write_at :: "u8 list \<Rightarrow> u16 \<Rightarrow> u16 \<Rightarrow> 'a vga_st_scheme \<Rightarrow> 'a vga_st_scheme" where
  "vga_text_write_at str x y s = write_at_loop str 0 x y s"

definition vga_text_set_color :: "vga_color \<Rightarrow> vga_color \<Rightarrow> 'a vga_st_scheme \<Rightarrow> 'a vga_st_scheme" where
  "vga_text_set_color fg bg s = s\<lparr>current_color := make_color fg bg\<rparr>"

definition vga_text_move_cursor :: "u16 \<Rightarrow> u16 \<Rightarrow> 'a vga_st_scheme \<Rightarrow> 'a vga_st_scheme" where
  "vga_text_move_cursor x y s =
     (if x < 80 \<and> y < 25 then update_hardware_cursor (s\<lparr>cursor_x := x, cursor_y := y\<rparr>) else s)"

definition vga_text_get_cursor :: "'a vga_st_scheme \<Rightarrow> u16 \<times> u16" where
  "vga_text_get_cursor s = (cursor_x s, cursor_y s)"

definition vga_text_cursor_enable :: "bool \<Rightarrow> 'a vga_st_scheme \<Rightarrow> 'a vga_st_scheme" where
  "vga_text_cursor_enable enable s =
     (if \<not> hal_set s then s
      else if enable then
        io_outb VGA_DATA_REG 0x0F (io_outb VGA_CTRL_REG 0x0B
          (io_outb VGA_DATA_REG 0x00 (io_outb VGA_CTRL_REG 0x0A s)))
      else io_outb VGA_DATA_REG 0x20 (io_outb VGA_CTRL_REG 0x0A s))"

definition vga_text_init :: "'a vga_st_scheme \<Rightarrow> int \<times> 'a vga_st_scheme" where
  "vga_text_init s =
     (if vga_initialized s then (0, s)
      else
        let s = s\<lparr>vga_buffer := VGA_MEMORY, cursor_x := 0, cursor_y := 0,
              current_color := make_color VGA_COLOR_LIGHT_GREY VGA_COLOR_BLACK, vga_initialized := True\<rparr>;
            s = vga_text_clear s
        in (0, vga_text_cursor_enable True s))"

definition vga_text_shutdown :: "'a vga_st_scheme \<Rightarrow> 'a vga_st_scheme" where
  "vga_text_shutdown s = (vga_text_clear s)\<lparr>vga_initialized := False\<rparr>"


section \<open>Cells and loops\<close>

lemma fold_shift: "fold (\<lambda>x. g (k + x)) [0..<n] t = fold g [k..<k + n] t"
proof (induction n)
  case 0
  then show ?case by simp
next
  case (Suc n)
  then show ?case by (simp add: fold_append)
qed

lemma nested_fold:
  "fold (\<lambda>y. fold (\<lambda>x. g (y * n + x)) [0..<n]) [0..<m] s = fold g [0..<m * n] s"
proof (induction m)
  case 0
  then show ?case by simp
next
  case (Suc m)
  have "[0..<Suc m * n] = [0..<m * n] @ [m * n..<m * n + n]"
    using upt_add_eq_append [of 0 "m * n" n] by (simp add: add.commute)
  then have "fold g [0..<Suc m * n] s = fold g [m * n..<m * n + n] (fold g [0..<m * n] s)"
    by (simp only: fold_append o_apply)
  also have "\<dots> = fold (\<lambda>x. g (m * n + x)) [0..<n] (fold (\<lambda>y. fold (\<lambda>x. g (y * n + x)) [0..<n]) [0..<m] s)"
    by (simp only: Suc fold_shift)
  finally show ?case by simp
qed

definition on_screen :: "'a vga_st_scheme \<Rightarrow> addr \<Rightarrow> bool" where
  "on_screen s a \<longleftrightarrow> (\<exists>i < 2000. a = cell_addr s i)"

lemma cell_addr_inj: "i < 2000 \<Longrightarrow> j < 2000 \<Longrightarrow> cell_addr s i = cell_addr s j \<longleftrightarrow> i = j"
proof -
  assume ij: "i < 2000" "j < 2000"
  have "unat (2 * of_nat k :: u32) = 2 * k" if "k < 2000" for k
    using that by (simp add: unat_word_ariths unsigned_of_nat take_bit_eq_mod)
  note unat = this [OF ij(1)] this [OF ij(2)]
  show ?thesis
    unfolding cell_addr_def add_left_cancel word_unat_eq_iff [of "2 * of_nat i"] unat by simp
qed

lemma set_cell_simps [simp]:
  "vga_buffer (set_cell i v s) = vga_buffer s" "cursor_x (set_cell i v s) = cursor_x s"
  "cursor_y (set_cell i v s) = cursor_y s" "current_color (set_cell i v s) = current_color s"
  "vga_initialized (set_cell i v s) = vga_initialized s" "hal_set (set_cell i v s) = hal_set s"
  "port_log (set_cell i v s) = port_log s" "vga_st.more (set_cell i v s) = vga_st.more s"
  "port_in (set_cell i v s) = port_in s" "io_time (set_cell i v s) = io_time s"
  by (simp_all add: set_cell_def)

text \<open>
  A state that differs from another in cells of the screen only, which now hold
  \<open>f\<close> by index.
\<close>

definition redraws :: "(nat \<Rightarrow> u16) \<Rightarrow> 'a vga_st_scheme \<Rightarrow> 'a vga_st_scheme \<Rightarrow> bool" where
  "redraws f s s' \<longleftrightarrow> (\<exists>c. s' = s\<lparr>vga_cells := c\<rparr> \<and> (\<forall>i < 2000. c (cell_addr s i) = f i)
     \<and> (\<forall>a. \<not> on_screen s a \<longrightarrow> c a = vga_cells s a))"

lemma cell_addr_cells [simp]: "cell_addr (s\<lparr>vga_cells := c\<rparr>) = cell_addr s"
  by (simp add: cell_addr_def fun_eq_iff)

lemma on_screen_cells [simp]: "on_screen (s\<lparr>vga_cells := c\<rparr>) = on_screen s"
  by (simp add: on_screen_def fun_eq_iff)

lemma redraws_refl: "(\<And>i. i < 2000 \<Longrightarrow> f i = get_cell s i) \<Longrightarrow> redraws f s s"
  by (auto simp: redraws_def get_cell_def intro!: exI [of _ "vga_cells s"])

lemma redraws_trans: "redraws f s s' \<Longrightarrow> redraws g s' s'' \<Longrightarrow> redraws g s s''"
  by (auto simp: redraws_def)

lemma redraws_get: "redraws f s s' \<Longrightarrow> i < 2000 \<Longrightarrow> get_cell s' i = f i"
  by (auto simp: redraws_def get_cell_def)

lemma redraws_cong: "redraws f s s' \<Longrightarrow> (\<And>i. i < 2000 \<Longrightarrow> f i = g i) \<Longrightarrow> redraws g s s'"
  by (auto simp: redraws_def)

lemma redraws_set_cell: "i < 2000 \<Longrightarrow> redraws ((get_cell s)(i := v)) s (set_cell i v s)"
  by (auto simp: redraws_def set_cell_def get_cell_def cell_addr_inj on_screen_def)

lemma redraws_color: "redraws f s s' \<Longrightarrow> current_color s' = current_color s"
  by (auto simp: redraws_def)

lemma redraws_fill:
  "n \<le> 2000 \<Longrightarrow> redraws (\<lambda>j. if k \<le> j \<and> j < n then b else get_cell s j) s (fold (\<lambda>i. set_cell i b) [k..<n] s)"
proof (induction n)
  case 0
  show ?case by (simp add: redraws_refl)
next
  case (Suc n)
  then have IH: "redraws (\<lambda>j. if k \<le> j \<and> j < n then b else get_cell s j) s (fold (\<lambda>i. set_cell i b) [k..<n] s)"
    by simp
  show ?case
  proof (cases "k \<le> n")
    case True
    have "redraws ((get_cell (fold (\<lambda>i. set_cell i b) [k..<n] s))(n := b)) s
        (set_cell n b (fold (\<lambda>i. set_cell i b) [k..<n] s))"
      using Suc.prems by (intro redraws_trans [OF IH redraws_set_cell]) simp
    then have "redraws (\<lambda>j. if k \<le> j \<and> j < Suc n then b else get_cell s j) s
        (set_cell n b (fold (\<lambda>i. set_cell i b) [k..<n] s))"
      by (rule redraws_cong) (use True in \<open>auto simp: redraws_get [OF IH]\<close>)
    then show ?thesis using True by simp
  next
    case False
    then have "[k..<Suc n] = []" by simp
    then show ?thesis using False by (simp only: fold.simps id_apply) (rule redraws_refl, auto)
  qed
qed

text \<open>Copying upwards by one row never reads a cell that was already overwritten.\<close>

lemma redraws_shift:
  "n \<le> 1920 \<Longrightarrow> redraws (\<lambda>j. if j < n then get_cell s (j + 80) else get_cell s j) s
     (fold (\<lambda>i. copy_cell (i + 80) i) [0..<n] s)"
proof (induction n)
  case 0
  show ?case by (simp add: redraws_refl)
next
  case (Suc n)
  let ?t = "fold (\<lambda>i. copy_cell (i + 80) i) [0..<n] s"
  have IH: "redraws (\<lambda>j. if j < n then get_cell s (j + 80) else get_cell s j) s ?t"
    using Suc by simp
  have "redraws ((get_cell ?t)(n := get_cell ?t (n + 80))) s (copy_cell (n + 80) n ?t)"
    using redraws_trans [OF IH redraws_set_cell, of n "get_cell ?t (n + 80)"] Suc.prems
    by (simp only: copy_cell_def [of "n + 80" n ?t])
  then have "redraws (\<lambda>j. if j < Suc n then get_cell s (j + 80) else get_cell s j) s (copy_cell (n + 80) n ?t)"
    by (rule redraws_cong) (use Suc.prems in \<open>auto simp: redraws_get [OF IH]\<close>)
  then show ?case by simp
qed

lemma redraws_scroll:
  "redraws (\<lambda>j. if j < 1920 then get_cell s (j + 80) else make_entry 0x20 (current_color s)) s (vga_text_scroll s)"
proof -
  let ?t = "fold (\<lambda>i. copy_cell (i + 80) i) [0..<1920] s"
  let ?b = "make_entry 0x20 (current_color s)"
  have shift: "redraws (\<lambda>j. if j < 1920 then get_cell s (j + 80) else get_cell s j) s ?t"
    by (rule redraws_shift) simp
  have "fold (\<lambda>y. fold (\<lambda>x. copy_cell ((y + 1) * 80 + x) (y * 80 + x)) [0..<80]) [0..<24] s = ?t"
  proof -
    have "(y + 1) * 80 + x = y * 80 + x + (80 :: nat)" for x y by simp
    then show ?thesis using nested_fold [of "\<lambda>i. copy_cell (i + 80) i" 80 24 s] by (simp only:) simp
  qed
  moreover have "fold (\<lambda>x. set_cell (24 * 80 + x) ?b) [0..<80] ?t = fold (\<lambda>i. set_cell i ?b) [1920..<2000] ?t"
    using fold_shift [of "\<lambda>i. set_cell i ?b" "24 * 80" 80 ?t] by (simp only: mult_numeral_1) simp
  ultimately have "vga_text_scroll s = fold (\<lambda>i. set_cell i ?b) [1920..<2000] ?t"
    using redraws_color [OF shift] by (simp only: vga_text_scroll_def Let_def) simp
  moreover have "redraws (\<lambda>j. if 1920 \<le> j \<and> j < 2000 then ?b else get_cell ?t j) s
      (fold (\<lambda>i. set_cell i ?b) [1920..<2000] ?t)"
    by (intro redraws_trans [OF shift] redraws_fill) simp
  ultimately show ?thesis
    by (auto elim!: redraws_cong simp: redraws_get [OF shift])
qed

lemma redraws_clear:
  "redraws (\<lambda>j. b) s (fold (\<lambda>y. fold (\<lambda>x. set_cell (y * 80 + x) b) [0..<80]) [0..<25] s)"
proof -
  have "redraws (\<lambda>j. if 0 \<le> j \<and> j < 2000 then b else get_cell s j) s (fold (\<lambda>i. set_cell i b) [0..<2000] s)"
    by (rule redraws_fill) simp
  then have "redraws (\<lambda>j. b) s (fold (\<lambda>i. set_cell i b) [0..<2000] s)"
    by (rule redraws_cong) simp
  then show ?thesis using nested_fold [of "\<lambda>i. set_cell i b" 80 25 s] by simp
qed


section \<open>The screen\<close>

text \<open>The abstract screen: a grid addressed by row and column and a cursor.\<close>

record screen =
  grid :: "nat \<Rightarrow> nat \<Rightarrow> u16"
  row :: nat
  col :: nat

definition put_cell :: "nat \<Rightarrow> nat \<Rightarrow> u16 \<Rightarrow> screen \<Rightarrow> screen" where
  "put_cell r c v t = t\<lparr>grid := (grid t)(r := (grid t r)(c := v))\<rparr>"

text \<open>To the start of the next row; on the last row, all rows move up and a blank one appears.\<close>

definition screen_newline :: "u16 \<Rightarrow> screen \<Rightarrow> screen" where
  "screen_newline blank t =
     (if row t < 24 then t\<lparr>row := row t + 1, col := 0\<rparr>
      else t\<lparr>grid := (\<lambda>r c. if r < 24 then grid t (r + 1) c else if r = 24 \<and> c < 80 then blank else 0), col := 0\<rparr>)"

definition screen_advance :: "u16 \<Rightarrow> nat \<Rightarrow> screen \<Rightarrow> screen" where
  "screen_advance blank c t = (if c < 80 then t\<lparr>col := c\<rparr> else screen_newline blank t)"

definition screen_putchar :: "u8 \<Rightarrow> u8 \<Rightarrow> screen \<Rightarrow> screen" where
  "screen_putchar color c t =
     (let blank = make_entry 0x20 color
      in if c = 0x0A then screen_newline blank t
         else if c = 0x0D then t\<lparr>col := 0\<rparr>
         else if c = 0x09 then screen_advance blank ((col t div 8 + 1) * 8) t
         else if c = 0x08 then (if col t > 0 then (put_cell (row t) (col t - 1) blank t)\<lparr>col := col t - 1\<rparr> else t)
         else if 0x20 \<le> c \<and> c \<le> 0x7E then
           screen_advance blank (col t + 1) (put_cell (row t) (col t) (make_entry c color) t)
         else t)"

definition screen_of :: "'a vga_st_scheme \<Rightarrow> screen" where
  "screen_of s = \<lparr>grid = (\<lambda>r c. if r < 25 \<and> c < 80 then get_cell s (r * 80 + c) else 0),
     row = unat (cursor_y s), col = unat (cursor_x s)\<rparr>"

definition vga_inv :: "'a vga_st_scheme \<Rightarrow> bool" where
  "vga_inv s \<longleftrightarrow> vga_buffer s = VGA_MEMORY \<and> cursor_x s < 80 \<and> cursor_y s < 25"

lemma sint_u8: "sint (c :: u8) = (if uint c < 128 then uint c else uint c - 256)"
proof -
  have "0 \<le> uint c" "uint c < 256" using uint_bounded [of c] by simp_all
  moreover have "sint c = (uint c + 128) mod 256 - 128"
    by (simp add: sint_uint signed_take_bit_eq_take_bit_shift take_bit_eq_mod)
  moreover have "(k + 128) mod 256 = (if k < 128 then k + 128 else k - 128)" if "0 \<le> k" "k < 256" for k :: int
  proof (cases "k < 128")
    case True
    then show ?thesis using that by (simp add: mod_pos_pos_trivial)
  next
    case False
    then show ?thesis
      using that mod_add_self2 [of "k - 128" 256] mod_pos_pos_trivial [of "k - 128" 256]
      by (simp add: add.commute)
  qed
  ultimately show ?thesis by simp
qed

lemma printable_unsigned: "printable c \<longleftrightarrow> 0x20 \<le> c \<and> c \<le> 0x7E"
  using uint_bounded [of c] by (auto simp: printable_def sint_u8 word_le_def)

lemma unat_tab_stop:
  assumes "(x :: u16) < 80"
  shows "unat ((x + 8) AND NOT 7) = (unat x div 8 + 1) * 8"
proof -
  have m: "(7 :: u16) = mask 3" by (simp add: mask_eq_exp_minus_1)
  have "(x + 8) AND NOT 7 = push_bit 3 (drop_bit 3 (x + 8))"
    unfolding m by (rule bit_word_eqI) (auto simp: bit_simps)
  moreover have "unat x < 80" using assms by (simp add: word_less_nat_alt)
  ultimately show ?thesis
    by (simp add: push_bit_eq_mult drop_bit_eq_div unat_word_ariths unat_div div_add_self2)
qed

lemma unat_bounds:
  assumes "vga_inv s"
  shows "unat (cursor_x s) < 80" "unat (cursor_y s) < 25"
  using assms by (simp_all add: vga_inv_def word_less_nat_alt)

lemma screen_index: "r < 25 \<Longrightarrow> c < 80 \<Longrightarrow> r * 80 + c < (2000 :: nat)"
  by linarith

lemma screen_index_inj: "c < 80 \<Longrightarrow> c' < 80 \<Longrightarrow> r * 80 + c = r' * 80 + c' \<longleftrightarrow> r = r' \<and> c = (c' :: nat)"
proof -
  assume c: "c < 80" "c' < 80"
  have "r = r'" if "r * 80 + c = r' * 80 + c'"
  proof -
    have "(r * 80 + c) div 80 = (r' * 80 + c') div 80" using that by simp
    then show ?thesis using c by simp
  qed
  then show ?thesis by auto
qed

lemma screen_of_set_cell:
  assumes "r < 25" "c < 80"
  shows "screen_of (set_cell (r * 80 + c) v s) = put_cell r c v (screen_of s)"
proof -
  have "get_cell (set_cell (r * 80 + c) v s) (r' * 80 + c') =
      (if r' = r \<and> c' = c then v else get_cell s (r' * 80 + c'))" if "r' < 25" "c' < 80" for r' c'
    using redraws_get [OF redraws_set_cell [OF screen_index [OF assms], of s v] screen_index [OF that]] assms that
    by (auto simp: screen_index_inj)
  then show ?thesis using assms by (auto simp: screen_of_def put_cell_def fun_eq_iff)
qed

lemma screen_of_scroll:
  "screen_of (vga_text_scroll s) = (screen_of s)\<lparr>grid := (\<lambda>r c. if r < 24 then grid (screen_of s) (r + 1) c
     else if r = 24 \<and> c < 80 then make_entry 0x20 (current_color s) else 0)\<rparr>"
proof -
  note r = redraws_scroll [of s]
  have "cursor_x (vga_text_scroll s) = cursor_x s" "cursor_y (vga_text_scroll s) = cursor_y s"
    using r by (auto simp: redraws_def)
  moreover have g: "get_cell (vga_text_scroll s) (r * 80 + c) =
      (if r < 24 then get_cell s ((r + 1) * 80 + c) else make_entry 0x20 (current_color s))"
    if "r < 25" "c < 80" for r c
    using redraws_get [OF redraws_scroll [of s] screen_index [OF that]] that by (auto simp: ac_simps)
  ultimately show ?thesis using g [of 24] by (auto simp: screen_of_def fun_eq_iff)
qed

lemma io_outb_vga [simp]:
  "vga_buffer (io_outb p v s) = vga_buffer s" "cursor_x (io_outb p v s) = cursor_x s"
  "cursor_y (io_outb p v s) = cursor_y s" "current_color (io_outb p v s) = current_color s"
  "vga_initialized (io_outb p v s) = vga_initialized s" "vga_cells (io_outb p v s) = vga_cells s"
  "vga_st.more (io_outb p v s) = vga_st.more s"
  by (simp_all add: io_outb_def log_write_def)

lemma update_hardware_cursor_vga [simp]:
  "vga_buffer (update_hardware_cursor s) = vga_buffer s" "cursor_x (update_hardware_cursor s) = cursor_x s"
  "cursor_y (update_hardware_cursor s) = cursor_y s" "current_color (update_hardware_cursor s) = current_color s"
  "vga_initialized (update_hardware_cursor s) = vga_initialized s" "vga_cells (update_hardware_cursor s) = vga_cells s"
  "hal_set (update_hardware_cursor s) = hal_set s" "port_in (update_hardware_cursor s) = port_in s" "vga_st.more (update_hardware_cursor s) = vga_st.more s"
  by (simp_all add: update_hardware_cursor_def Let_def)

lemma get_cell_cong: "vga_buffer s = vga_buffer t \<Longrightarrow> vga_cells s = vga_cells t \<Longrightarrow> get_cell s = get_cell t"
  by (simp add: get_cell_def cell_addr_def fun_eq_iff)

lemma screen_of_cong:
  "vga_buffer s = vga_buffer t \<Longrightarrow> vga_cells s = vga_cells t \<Longrightarrow>
     screen_of s = (screen_of t)\<lparr>row := unat (cursor_y s), col := unat (cursor_x s)\<rparr>"
  using get_cell_cong [of s t] by (simp add: screen_of_def cong: if_cong)

text \<open>
  What no output operation changes: the buffer pointer, the colour, memory off the
  screen, and the state beyond the driver; only the two cursor ports are written.
\<close>

definition keeps_rest :: "'a vga_st_scheme \<Rightarrow> 'a vga_st_scheme \<Rightarrow> bool" where
  "keeps_rest s s' \<longleftrightarrow> vga_buffer s' = vga_buffer s \<and> current_color s' = current_color s
     \<and> hal_set s' = hal_set s \<and> vga_initialized s' = vga_initialized s
     \<and> port_in s' = port_in s \<and> vga_st.more s' = vga_st.more s
     \<and> (\<exists>ws. port_log s' = port_log s @ ws \<and> set ws \<subseteq> range (OutB VGA_CTRL_REG) \<union> range (OutB VGA_DATA_REG))
     \<and> (\<forall>a. \<not> on_screen s a \<longrightarrow> vga_cells s' a = vga_cells s a)"

lemma keeps_rest_trans: "keeps_rest s t \<Longrightarrow> keeps_rest t u \<Longrightarrow> keeps_rest s u"
  unfolding keeps_rest_def on_screen_def cell_addr_def
  by (elim conjE exE) (intro conjI, auto)

lemma keeps_rest_redraws: "redraws f s t \<Longrightarrow> keeps_rest s t"
  by (auto simp: redraws_def keeps_rest_def)

lemma keeps_rest_cursors [simp]:
  "keeps_rest s (t\<lparr>cursor_x := x\<rparr>) \<longleftrightarrow> keeps_rest s t" "keeps_rest s (t\<lparr>cursor_y := y\<rparr>) \<longleftrightarrow> keeps_rest s t"
  "keeps_rest s s"
  by (simp_all add: keeps_rest_def)

lemma keeps_rest_update_hardware_cursor: "keeps_rest s (update_hardware_cursor s)"
  by (simp add: keeps_rest_def) (simp add: update_hardware_cursor_def Let_def)

text \<open>The second part of \<^verbatim>\<open>vga_text_putchar\<close>: scrolling when the cursor has left the last row.\<close>

definition scroll_if_below :: "'a vga_st_scheme \<Rightarrow> 'a vga_st_scheme" where
  "scroll_if_below s = (if cursor_y s \<ge> 25 then (vga_text_scroll s)\<lparr>cursor_y := 25 - 1\<rparr> else s)"

lemma newline_refines:
  assumes "cursor_y s < 25"
  defines "t \<equiv> scroll_if_below (s\<lparr>cursor_x := 0, cursor_y := cursor_y s + 1\<rparr>)"
  shows "screen_of t = screen_newline (make_entry 0x20 (current_color s)) (screen_of s)"
    and "keeps_rest s t" and "cursor_x t = 0" and "cursor_y t < 25"
proof -
  let ?s = "s\<lparr>cursor_x := 0, cursor_y := cursor_y s + 1\<rparr>"
  have y: "unat (cursor_y s + 1) = unat (cursor_y s) + 1" "unat (cursor_y s) < 25"
    using unat_Suc_less [OF assms(1)] assms(1) by (simp_all add: word_less_nat_alt)
  have le: "25 \<le> cursor_y s + 1 \<longleftrightarrow> \<not> unat (cursor_y s) < 24"
    using y by (simp add: word_le_nat_alt) linarith
  have s: "screen_of ?s = (screen_of s)\<lparr>row := unat (cursor_y s) + 1, col := 0\<rparr>"
    using y screen_of_cong [of ?s s] by simp
  have rest: "keeps_rest s ?s" by simp
  have "screen_of t = screen_newline (make_entry 0x20 (current_color s)) (screen_of s)
      \<and> keeps_rest s t \<and> cursor_x t = 0 \<and> cursor_y t < 25"
  proof (cases "unat (cursor_y s) < 24")
    case True
    then have "t = ?s" by (simp add: t_def scroll_if_below_def le)
    then show ?thesis
      using True s rest le by (simp add: screen_newline_def screen_of_def not_le)
  next
    case False
    then have t: "t = (vga_text_scroll ?s)\<lparr>cursor_y := 24\<rparr>" by (simp add: t_def scroll_if_below_def le)
    have k: "keeps_rest ?s (vga_text_scroll ?s)" by (rule keeps_rest_redraws [OF redraws_scroll])
    then have "keeps_rest ?s t" by (simp add: t keeps_rest_def)
    moreover have "cursor_x t = 0" using redraws_scroll [of ?s] by (auto simp: t redraws_def)
    moreover have "screen_of t = (screen_of (vga_text_scroll ?s))\<lparr>row := 24, col := 0\<rparr>"
      using screen_of_cong [of t "vga_text_scroll ?s"] \<open>cursor_x t = 0\<close> by (simp add: t)
    moreover have "row (screen_of s) = 24" using False y by (simp add: screen_of_def)
    moreover have "screen_of (vga_text_scroll ?s)\<lparr>row := 24, col := 0\<rparr> =
        screen_newline (make_entry 0x20 (current_color s)) (screen_of s)"
      using \<open>row (screen_of s) = 24\<close> unfolding screen_of_scroll s
      by (cases "screen_of s") (simp add: screen_newline_def cong: if_cong)
    moreover have "cursor_y t < 25" by (simp add: t)
    ultimately show ?thesis
      using keeps_rest_trans [OF rest] by simp
  qed
  then show "screen_of t = screen_newline (make_entry 0x20 (current_color s)) (screen_of s)"
    and "keeps_rest s t" and "cursor_x t = 0" and "cursor_y t < 25"
    by simp_all
qed

text \<open>Wrapping and scrolling together, and the driver's promise for one character.\<close>

definition settle :: "'a vga_st_scheme \<Rightarrow> 'a vga_st_scheme" where
  "settle s = scroll_if_below (if cursor_x s \<ge> 80 then s\<lparr>cursor_x := 0, cursor_y := cursor_y s + 1\<rparr> else s)"

definition renders :: "'a vga_st_scheme \<Rightarrow> screen \<Rightarrow> 'a vga_st_scheme \<Rightarrow> bool" where
  "renders s t s' \<longleftrightarrow> screen_of s' = t \<and> vga_inv s' \<and> keeps_rest s s'"

lemma vga_text_putchar_settle: "vga_text_putchar c s = update_hardware_cursor (settle (place_char c s))"
  by (simp add: vga_text_putchar_def settle_def scroll_if_below_def Let_def)

lemma screen_newline_col [simp]: "screen_newline b (t\<lparr>col := k\<rparr>) = screen_newline b t"
  by (simp add: screen_newline_def cong: if_cong)

lemma settle_inside: "vga_inv s \<Longrightarrow> settle s = s"
  by (auto simp: vga_inv_def settle_def scroll_if_below_def not_le [symmetric])

lemma renders_newline:
  assumes "vga_inv s"
  shows "renders s (screen_newline (make_entry 0x20 (current_color s)) (screen_of s))
    (scroll_if_below (s\<lparr>cursor_x := 0, cursor_y := cursor_y s + 1\<rparr>))"
  using newline_refines [of s] assms by (auto simp: renders_def vga_inv_def keeps_rest_def)

lemma renders_advance:
  fixes s t :: "'a vga_st_scheme"
  assumes "vga_inv s" and t: "screen_of t = g\<lparr>col := k\<rparr>" "keeps_rest s t" "cursor_y t = cursor_y s"
    and k: "unat (cursor_x t) = k"
  shows "renders s (screen_advance (make_entry 0x20 (current_color s)) k g) (settle t)"
proof -
  have y: "cursor_y t < 25" using assms(1) t(3) by (simp add: vga_inv_def)
  have c: "current_color t = current_color s" and b: "vga_buffer t = VGA_MEMORY"
    using t(2) assms(1) by (simp_all add: keeps_rest_def vga_inv_def)
  show ?thesis
  proof (cases "k < 80")
    case True
    then have "cursor_x t < 80" using k by (simp add: word_less_nat_alt)
    then have "vga_inv t" using y b by (simp add: vga_inv_def)
    then show ?thesis using True t by (simp add: renders_def screen_advance_def settle_inside)
  next
    case False
    then have u: "settle t = scroll_if_below (t\<lparr>cursor_x := 0, cursor_y := cursor_y t + 1\<rparr>)"
      using k by (simp add: settle_def word_le_nat_alt)
    note n = newline_refines [OF y, folded u]
    have "vga_buffer (settle t) = VGA_MEMORY" using n(2) b by (simp add: keeps_rest_def)
    then have "vga_inv (settle t)" using n(3,4) by (simp add: vga_inv_def)
    moreover have "screen_of (settle t) = screen_newline (make_entry 0x20 (current_color s)) g"
      by (simp only: n(1) t(1) c screen_newline_col)
    ultimately show ?thesis
      using False keeps_rest_trans [OF t(2) n(2)] by (simp add: renders_def screen_advance_def)
  qed
qed

lemma renders_put:
  assumes "vga_inv s" "unat x < 80"
  shows "screen_of (vga_text_putchar_at c x (cursor_y s) s)
      = put_cell (unat (cursor_y s)) (unat x) (make_entry c (current_color s)) (screen_of s)"
    and "keeps_rest s (vga_text_putchar_at c x (cursor_y s) s)"
    and "cursor_y (vga_text_putchar_at c x (cursor_y s) s) = cursor_y s"
    and "cursor_x (vga_text_putchar_at c x (cursor_y s) s) = cursor_x s"
proof -
  have i: "unat (cursor_y s) < 25" using unat_bounds [OF assms(1)] by simp
  have "vga_text_putchar_at c x (cursor_y s) s =
      set_cell (unat (cursor_y s) * 80 + unat x) (make_entry c (current_color s)) s"
    using i assms(2) by (simp add: vga_text_putchar_at_def word_le_nat_alt)
  then show "screen_of (vga_text_putchar_at c x (cursor_y s) s)
      = put_cell (unat (cursor_y s)) (unat x) (make_entry c (current_color s)) (screen_of s)"
    and "keeps_rest s (vga_text_putchar_at c x (cursor_y s) s)"
    and "cursor_y (vga_text_putchar_at c x (cursor_y s) s) = cursor_y s"
    and "cursor_x (vga_text_putchar_at c x (cursor_y s) s) = cursor_x s"
    using screen_of_set_cell [OF i assms(2)] keeps_rest_redraws [OF redraws_set_cell [OF screen_index [OF i assms(2)]]]
    by simp_all
qed

lemma screen_of_col: "screen_of (s\<lparr>cursor_x := x\<rparr>) = (screen_of s)\<lparr>col := unat x\<rparr>"
  using screen_of_cong [of "s\<lparr>cursor_x := x\<rparr>" s] by (simp add: screen_of_def cong: if_cong)

lemma settle_place_char:
  assumes "vga_inv s"
  shows "renders s (screen_putchar (current_color s) c (screen_of s)) (settle (place_char c s))"
proof -
  note x = unat_bounds [OF assms]
  have inside: "renders s t (settle u)" if "renders s t u" for t and u :: "'a vga_st_scheme"
    using that by (simp add: renders_def settle_inside)
  consider (nl) "c = 0x0A" | (cr) "c = 0x0D" | (tab) "c = 0x09" | (bs) "c = 0x08"
    | (pr) "c \<notin> {0x0A, 0x0D, 0x09, 0x08}" "printable c" | (other) "c \<notin> {0x0A, 0x0D, 0x09, 0x08}" "\<not> printable c"
    by blast
  then show ?thesis
  proof cases
    case nl
    then show ?thesis using renders_newline [OF assms] by (simp add: place_char_def settle_def screen_putchar_def)
  next
    case cr
    have "renders s ((screen_of s)\<lparr>col := 0\<rparr>) (s\<lparr>cursor_x := 0\<rparr>)"
      using assms by (simp add: renders_def screen_of_col vga_inv_def keeps_rest_def)
    then show ?thesis using inside cr by (simp add: place_char_def screen_putchar_def)
  next
    case tab
    have "unat (cursor_x s + 8 AND NOT 7) = (unat (cursor_x s) div 8 + 1) * 8"
      using assms by (intro unat_tab_stop) (simp add: vga_inv_def)
    then have "renders s (screen_advance (make_entry 0x20 (current_color s)) ((unat (cursor_x s) div 8 + 1) * 8) (screen_of s))
        (settle (s\<lparr>cursor_x := (cursor_x s + 8) AND NOT 7\<rparr>))"
      by (intro renders_advance [OF assms]) (simp_all add: screen_of_col keeps_rest_def)
    then show ?thesis using tab by (simp add: place_char_def screen_putchar_def screen_of_def)
  next
    case bs
    show ?thesis
    proof (cases "cursor_x s = 0")
      case True
      have "renders s (screen_of s) s" using assms by (simp add: renders_def keeps_rest_def)
      then show ?thesis using inside True bs by (simp add: place_char_def screen_putchar_def screen_of_def)
    next
      case False
      have u: "unat (cursor_x s - 1) = unat (cursor_x s) - 1" using False by (simp add: unat_minus_one)
      define t where "t = s\<lparr>cursor_x := cursor_x s - 1\<rparr>"
      define p where "p = vga_text_putchar_at 0x20 (cursor_x t) (cursor_y t) t"
      have less: "cursor_x s - 1 < 80" using x u by (simp add: word_less_nat_alt)
      then have t: "vga_inv t" "keeps_rest s t" "screen_of t = (screen_of s)\<lparr>col := unat (cursor_x s) - 1\<rparr>"
        using assms u by (simp_all add: t_def vga_inv_def keeps_rest_def screen_of_col)
      have less': "unat (cursor_x t) < 80" using t(1) by (simp add: vga_inv_def word_less_nat_alt)
      note p = renders_put [OF t(1) less', of "0x20", folded p_def]
      have "renders s ((put_cell (unat (cursor_y s)) (unat (cursor_x s) - 1) (make_entry 0x20 (current_color s)) (screen_of s))
          \<lparr>col := unat (cursor_x s) - 1\<rparr>) p"
        using p t keeps_rest_trans [OF t(2) p(2)] less
        by (simp add: renders_def vga_inv_def keeps_rest_def put_cell_def t_def u)
      moreover have "place_char c s = p"
        using bs False by (simp add: place_char_def p_def t_def word_greater_zero_iff)
      ultimately show ?thesis using inside bs False
        by (simp add: screen_putchar_def) (simp add: screen_of_def unat_eq_zero)
    qed
  next
    case pr
    define p where "p = vga_text_putchar_at c (cursor_x s) (cursor_y s) s"
    note p = renders_put [OF assms x(1), of c, folded p_def]
    have u: "unat (cursor_x s + 1) = unat (cursor_x s) + 1"
      using unat_Suc_less [of "cursor_x s" 80] assms by (simp add: vga_inv_def)
    have "renders s (screen_advance (make_entry 0x20 (current_color s)) (unat (cursor_x s) + 1)
        (put_cell (unat (cursor_y s)) (unat (cursor_x s)) (make_entry c (current_color s)) (screen_of s)))
        (settle (p\<lparr>cursor_x := cursor_x p + 1\<rparr>))"
      using p u by (intro renders_advance [OF assms]) (simp_all add: screen_of_col)
    moreover have "place_char c s = p\<lparr>cursor_x := cursor_x p + 1\<rparr>"
      using pr by (simp add: place_char_def p_def Let_def)
    ultimately show ?thesis
      using pr by (simp add: screen_putchar_def printable_unsigned) (simp add: screen_of_def)
  next
    case other
    have "renders s (screen_of s) s" using assms by (simp add: renders_def keeps_rest_def)
    moreover have "place_char c s = s" using other by (simp add: place_char_def)
    moreover have "screen_putchar (current_color s) c (screen_of s) = screen_of s"
      using other unfolding printable_unsigned by (simp only: screen_putchar_def Let_def insert_iff empty_iff) simp
    ultimately show ?thesis using inside by simp
  qed
qed

lemma screen_of_update_hardware_cursor [simp]: "screen_of (update_hardware_cursor s) = screen_of s"
  using get_cell_cong [of "update_hardware_cursor s" s] by (simp add: screen_of_def cong: if_cong)

lemma renders_update_hardware_cursor: "renders s t u \<Longrightarrow> renders s t (update_hardware_cursor u)"
  using keeps_rest_trans [OF _ keeps_rest_update_hardware_cursor, of s u] by (simp add: renders_def vga_inv_def)

lemma vga_text_putchar_refines:
  "vga_inv s \<Longrightarrow> renders s (screen_putchar (current_color s) c (screen_of s)) (vga_text_putchar c s)"
  unfolding vga_text_putchar_settle by (intro renders_update_hardware_cursor settle_place_char)

lemma vga_text_write_refines:
  "vga_inv s \<Longrightarrow> renders s (fold (screen_putchar (current_color s)) str (screen_of s)) (vga_text_write str s)"
proof (induction str arbitrary: s)
  case Nil
  then show ?case by (simp add: renders_def vga_text_write_def keeps_rest_def)
next
  case (Cons c str)
  note c = vga_text_putchar_refines [OF Cons.prems, of c]
  then have "vga_inv (vga_text_putchar c s)" by (simp add: renders_def)
  note IH = Cons.IH [OF this]
  have w: "vga_text_write (c # str) s = vga_text_write str (vga_text_putchar c s)"
    by (simp add: vga_text_write_def)
  have k: "keeps_rest s (vga_text_putchar c s)"
    and r: "screen_of (vga_text_putchar c s) = screen_putchar (current_color s) c (screen_of s)"
    using c by (simp_all add: renders_def)
  have col: "current_color (vga_text_putchar c s) = current_color s" using k by (simp add: keeps_rest_def)
  show ?case
    using IH keeps_rest_trans [OF k] unfolding w renders_def col r fold.simps o_apply by blast
qed

lemma vga_text_clear_blank:
  fixes s :: "'a vga_st_scheme"
  assumes "vga_buffer s = VGA_MEMORY"
  defines "t \<equiv> vga_text_clear s"
  shows "vga_inv t" and "keeps_rest s t" and "i < 2000 \<Longrightarrow> get_cell t i = make_entry 0x20 (current_color s)"
proof -
  let ?b = "make_entry 0x20 (current_color s)"
  let ?f = "fold (\<lambda>y. fold (\<lambda>x. set_cell (y * 80 + x) ?b) [0..<80]) [0..<25] s"
  have t: "t = update_hardware_cursor (?f\<lparr>cursor_x := 0, cursor_y := 0\<rparr>)"
    by (simp add: t_def vga_text_clear_def Let_def)
  note r = redraws_clear [of ?b s]
  have k: "keeps_rest s ?f" by (rule keeps_rest_redraws [OF r])
  then show "vga_inv t" using assms(1) by (simp add: t vga_inv_def keeps_rest_def)
  have "keeps_rest s (?f\<lparr>cursor_x := 0, cursor_y := 0\<rparr>)" using k by simp
  then show "keeps_rest s t" unfolding t by (rule keeps_rest_trans [OF _ keeps_rest_update_hardware_cursor])
  have "get_cell t = get_cell ?f" by (rule get_cell_cong) (simp_all add: t)
  then show "get_cell t i = ?b" if "i < 2000" using redraws_get [OF r that] by simp
qed

lemma vga_text_init_inv:
  assumes "\<not> vga_initialized s"
  shows "vga_inv (snd (vga_text_init s))"
  using assms vga_text_clear_blank(1) [of "s\<lparr>vga_buffer := VGA_MEMORY, cursor_x := 0, cursor_y := 0,
      current_color := make_color VGA_COLOR_LIGHT_GREY VGA_COLOR_BLACK, vga_initialized := True\<rparr>"]
  by (simp add: vga_text_init_def vga_text_cursor_enable_def vga_inv_def Let_def)

text \<open>
  The sign extension in \<^verbatim>\<open>make_entry\<close>: a byte above 127, which
  \<^verbatim>\<open>vga_text_putchar_at\<close> and \<^verbatim>\<open>vga_text_write_at\<close> let through, replaces the
  colour by white on white, blinking.
\<close>

lemma make_entry_sign_extends: "make_entry 0xE9 (make_color VGA_COLOR_LIGHT_GREY VGA_COLOR_BLACK) = 0xFFE9"
  by (simp add: make_entry_def make_color_def)

text \<open>The four port writes that set the hardware cursor to a cell.\<close>

definition cursor_writes :: "nat \<Rightarrow> io_write list" where
  "cursor_writes pos = [OutB VGA_CTRL_REG 0x0F, OutB VGA_DATA_REG (of_nat (pos mod 256)),
     OutB VGA_CTRL_REG 0x0E, OutB VGA_DATA_REG (of_nat (pos div 256))]"

lemma update_hardware_cursor_log:
  assumes "vga_inv s" "hal_set s"
  shows "port_log (update_hardware_cursor s) = port_log s @ cursor_writes (unat (cursor_y s) * 80 + unat (cursor_x s))"
proof -
  define pos where "pos = cursor_y s * 80 + cursor_x s"
  have u: "unat pos = unat (cursor_y s) * 80 + unat (cursor_x s)"
    using unat_bounds [OF assms(1)] by (simp add: pos_def unat_word_ariths)
  have m: "(255 :: u16) = mask 8" by (simp add: mask_eq_exp_minus_1)
  have "unat pos < 2000" using u unat_bounds [OF assms(1)] by simp
  then have d: "unat pos div 256 < 256" by simp
  have lo: "ucast (pos AND 255) = (of_nat (unat pos mod 256) :: u8)"
    unfolding m take_bit_eq_mask [symmetric]
    by (simp add: word_unat_eq_iff unsigned_ucast_eq unsigned_take_bit_eq take_bit_eq_mod unsigned_of_nat unat_mod)
  have hi: "ucast (drop_bit 8 pos AND 255) = (of_nat (unat pos div 256) :: u8)"
    unfolding m take_bit_eq_mask [symmetric]
    by (simp add: word_unat_eq_iff unsigned_ucast_eq unsigned_take_bit_eq unsigned_drop_bit_eq
      take_bit_eq_mod drop_bit_eq_div unsigned_of_nat unat_mod unat_div)
  show ?thesis
    using assms(2) lo hi by (simp add: update_hardware_cursor_def Let_def cursor_writes_def pos_def [symmetric] u [symmetric])
qed

text \<open>
  C25: writing any bytes to the text screen is what an ideal 80 by 25 terminal
  does with them (printing, newline, carriage return, tab stops, backspace, line
  wrap and scrolling); the cursor stays on the screen, no memory outside the
  2000 cells of the text buffer changes, and the hardware cursor is left at the
  cursor position.
\<close>

theorem vga_text_write_correct:
  fixes s :: "'a vga_st_scheme" and str :: "u8 list"
  assumes "vga_inv s"
  defines "s' \<equiv> vga_text_write str s"
  shows "screen_of s' = fold (screen_putchar (current_color s)) str (screen_of s)
    \<and> vga_inv s' \<and> current_color s' = current_color s
    \<and> (\<forall>a. (\<forall>i < 2000. a \<noteq> VGA_MEMORY + 2 * of_nat i) \<longrightarrow> vga_cells s' a = vga_cells s a)
    \<and> (hal_set s \<and> str \<noteq> [] \<longrightarrow> (\<exists>pre. port_log s' = pre @ cursor_writes (row (screen_of s') * 80 + col (screen_of s'))))"
proof -
  have r: "renders s (fold (screen_putchar (current_color s)) str (screen_of s)) s'"
    unfolding s'_def by (rule vga_text_write_refines [OF assms(1)])
  have off: "\<forall>a. (\<forall>i < 2000. a \<noteq> VGA_MEMORY + 2 * of_nat i) \<longrightarrow> vga_cells s' a = vga_cells s a"
    using r assms(1) by (auto simp: renders_def keeps_rest_def on_screen_def cell_addr_def vga_inv_def)
  have "\<exists>pre. port_log s' = pre @ cursor_writes (row (screen_of s') * 80 + col (screen_of s'))"
    if h: "hal_set s" "str \<noteq> []"
  proof -
    obtain xs c where str: "str = xs @ [c]" using h(2) by (metis append_butlast_last_id)
    define t where "t = vga_text_write xs s"
    have t: "vga_inv t" "hal_set t"
      using vga_text_write_refines [OF assms(1), of xs] h(1) by (auto simp: t_def renders_def keeps_rest_def)
    define u where "u = settle (place_char c t)"
    have u: "vga_inv u" "hal_set u"
      using settle_place_char [OF t(1), of c] t(2) by (simp_all add: u_def renders_def keeps_rest_def)
    have "s' = update_hardware_cursor u"
      by (simp add: s'_def str vga_text_write_def t_def u_def vga_text_putchar_settle)
    then show ?thesis using update_hardware_cursor_log [OF u] by (auto simp: screen_of_def)
  qed
  then show ?thesis using r off by (auto simp: renders_def keeps_rest_def)
qed

definition sample_vga :: vga_st where
  "sample_vga = \<lparr>hal_set = True, port_in = (\<lambda>_ _. 0), io_time = 0, port_log = [], vga_buffer = VGA_MEMORY,
     cursor_x = 79, cursor_y = 0, current_color = 7, vga_initialized = True, vga_cells = (\<lambda>_. 0)\<rparr>"

theorem vga_text_write_correct_witness:
  "row (screen_of (vga_text_write [0x41] sample_vga)) = 1
   \<and> col (screen_of (vga_text_write [0x41] sample_vga)) = 0
   \<and> grid (screen_of (vga_text_write [0x41] sample_vga)) 0 79 = 0x741
   \<and> vga_cells (vga_text_write [0x41] sample_vga) 0xB9000 = 0"
proof -
  have "vga_inv sample_vga" by (simp add: vga_inv_def sample_vga_def)
  note c = vga_text_write_correct [OF this, of "[0x41]"]
  have far: "\<forall>i < 2000. (0xB9000 :: u32) \<noteq> VGA_MEMORY + 2 * of_nat i"
  proof (intro allI impI)
    fix i :: nat assume "i < 2000"
    then have "unat (VGA_MEMORY + 2 * of_nat i) = 753664 + 2 * i"
      by (simp add: unat_word_ariths unsigned_of_nat take_bit_eq_mod)
    then show "(0xB9000 :: u32) \<noteq> VGA_MEMORY + 2 * of_nat i" using \<open>i < 2000\<close> by auto
  qed
  then have "vga_cells (vga_text_write [0x41] sample_vga) 0xB9000 = vga_cells sample_vga 0xB9000"
    using c by blast
  moreover have "screen_of (vga_text_write [0x41] sample_vga) = screen_putchar 7 0x41 (screen_of sample_vga)"
    using c by (simp add: sample_vga_def)
  ultimately show ?thesis
    by (simp add: screen_putchar_def screen_of_def sample_vga_def screen_advance_def put_cell_def
      screen_newline_def make_entry_def)
qed

end
