(* ===== verification/Serial.thy ===== *)
theory Serial
  imports Port_Io
begin

text \<open>
  The serial driver \<^verbatim>\<open>drivers/serial/uart.c\<close>. A \<^verbatim>\<open>struct serial_port*\<close> is an optional
  value (\<open>None\<close> for \<^verbatim>\<open>NULL\<close>). \<^verbatim>\<open>serial_putchar\<close> polls the line status register until
  the transmitter is empty, so it returns only if the device gets there: \<open>None\<close> is
  the call that never returns.
\<close>

section \<open>Data\<close>

abbreviation SERIAL_COM1 :: u16 where "SERIAL_COM1 \<equiv> 0x3F8"

abbreviation UART_DATA :: u16 where "UART_DATA \<equiv> 0"
abbreviation UART_INT_ENABLE :: u16 where "UART_INT_ENABLE \<equiv> 1"
abbreviation UART_FIFO_CTRL :: u16 where "UART_FIFO_CTRL \<equiv> 2"
abbreviation UART_LINE_CTRL :: u16 where "UART_LINE_CTRL \<equiv> 3"
abbreviation UART_MODEM_CTRL :: u16 where "UART_MODEM_CTRL \<equiv> 4"
abbreviation UART_LINE_STATUS :: u16 where "UART_LINE_STATUS \<equiv> 5"

abbreviation UART_LSR_DATA_READY :: u8 where "UART_LSR_DATA_READY \<equiv> 0x01"
abbreviation UART_LSR_TRANSMIT_EMPTY :: u8 where "UART_LSR_TRANSMIT_EMPTY \<equiv> 0x20"
abbreviation UART_LCR_DLAB :: u8 where "UART_LCR_DLAB \<equiv> 0x80"
abbreviation UART_LCR_8BITS :: u8 where "UART_LCR_8BITS \<equiv> 0x03"
abbreviation UART_BAUD_115200 :: u8 where "UART_BAUD_115200 \<equiv> 1"

record serial_config =
  sc_port :: u16
  sc_baud_rate :: u32
  sc_data_bits :: u8
  sc_stop_bits :: u8
  sc_parity :: bool

record serial_port =
  sp_port :: u16
  sp_initialized :: bool


section \<open>Operations\<close>

definition serial_init ::
  "serial_port option \<Rightarrow> u16 \<Rightarrow> 'a io_st_scheme \<Rightarrow> int \<times> serial_port option \<times> 'a io_st_scheme" where
  "serial_init serial port s =
     (case serial of
        None \<Rightarrow> (- 1, None, s)
      | Some sp \<Rightarrow>
        let sp = sp\<lparr>sp_port := port\<rparr>;
            s = io_outb (port + UART_INT_ENABLE) 0x00 s;
            s = io_outb (port + UART_LINE_CTRL) UART_LCR_DLAB s;
            s = io_outb (port + UART_DATA) UART_BAUD_115200 s;
            s = io_outb (port + UART_INT_ENABLE) 0x00 s;
            s = io_outb (port + UART_LINE_CTRL) UART_LCR_8BITS s;
            s = io_outb (port + UART_FIFO_CTRL) (0x01 OR 0x02 OR 0x04) s;
            s = io_outb (port + UART_MODEM_CTRL) (0x01 OR 0x02 OR 0x08) s
        in (0, Some (sp\<lparr>sp_initialized := True\<rparr>), s))"

definition serial_init_config ::
  "serial_port option \<Rightarrow> serial_config option \<Rightarrow> 'a io_st_scheme \<Rightarrow> int \<times> serial_port option \<times> 'a io_st_scheme" where
  "serial_init_config serial config s =
     (case config of
        None \<Rightarrow> (- 1, serial, s)
      | Some cfg \<Rightarrow> if serial = None then (- 1, serial, s) else serial_init serial (sc_port cfg) s)"

definition serial_transmit_empty :: "serial_port option \<Rightarrow> 'a io_st_scheme \<Rightarrow> bool \<times> 'a io_st_scheme" where
  "serial_transmit_empty serial s =
     (case serial of
        None \<Rightarrow> (False, s)
      | Some sp \<Rightarrow>
        if \<not> sp_initialized sp then (False, s)
        else let (status, s) = io_inb (sp_port sp + UART_LINE_STATUS) s
             in (status AND UART_LSR_TRANSMIT_EMPTY \<noteq> 0, s))"

text \<open>The busy wait of \<^verbatim>\<open>serial_putchar\<close>.\<close>

partial_function (option) serial_wait :: "serial_port option \<Rightarrow> 'a io_st_scheme \<Rightarrow> 'a io_st_scheme option" where
  "serial_wait serial s =
     (if fst (serial_transmit_empty serial s) then Some (snd (serial_transmit_empty serial s))
      else serial_wait serial (snd (serial_transmit_empty serial s)))"

definition serial_putchar :: "serial_port option \<Rightarrow> u8 \<Rightarrow> 'a io_st_scheme \<Rightarrow> 'a io_st_scheme option" where
  "serial_putchar serial c s =
     (case serial of
        None \<Rightarrow> Some s
      | Some sp \<Rightarrow>
        if \<not> sp_initialized sp then Some s
        else map_option (io_outb (sp_port sp + UART_DATA) c) (serial_wait serial s))"

fun serial_write_loop :: "serial_port option \<Rightarrow> u8 list \<Rightarrow> 'a io_st_scheme \<Rightarrow> 'a io_st_scheme option" where
  "serial_write_loop serial [] s = Some s"
| "serial_write_loop serial (c # str) s =
     Option.bind (if c = 0x0A then serial_putchar serial 0x0D s else Some s)
       (\<lambda>s. Option.bind (serial_putchar serial c s) (serial_write_loop serial str))"

definition serial_write :: "serial_port option \<Rightarrow> u8 list option \<Rightarrow> 'a io_st_scheme \<Rightarrow> 'a io_st_scheme option" where
  "serial_write serial str s =
     (case (serial, str) of (Some _, Some bytes) \<Rightarrow> serial_write_loop serial bytes s | _ \<Rightarrow> Some s)"

definition serial_data_available :: "serial_port option \<Rightarrow> 'a io_st_scheme \<Rightarrow> bool \<times> 'a io_st_scheme" where
  "serial_data_available serial s =
     (case serial of
        None \<Rightarrow> (False, s)
      | Some sp \<Rightarrow>
        if \<not> sp_initialized sp then (False, s)
        else let (status, s) = io_inb (sp_port sp + UART_LINE_STATUS) s
             in (status AND UART_LSR_DATA_READY \<noteq> 0, s))"

definition serial_getchar :: "serial_port option \<Rightarrow> 'a io_st_scheme \<Rightarrow> int \<times> 'a io_st_scheme" where
  "serial_getchar serial s =
     (case serial of
        None \<Rightarrow> (- 1, s)
      | Some sp \<Rightarrow>
        if \<not> sp_initialized sp then (- 1, s)
        else
          let (available, s) = serial_data_available serial s
          in if \<not> available then (- 1, s)
             else let (c, s) = io_inb (sp_port sp + UART_DATA) s in (uint c, s))"


section \<open>Waiting for the transmitter\<close>

text \<open>The device reports an empty transmitter at moment \<open>t\<close>.\<close>

definition ready_at :: "serial_port \<Rightarrow> 'a io_st_scheme \<Rightarrow> nat \<Rightarrow> bool" where
  "ready_at sp s t \<longleftrightarrow> bit (port_in s t (sp_port sp + UART_LINE_STATUS)) 5"

lemma ready_at_cong [simp]:
  "ready_at sp (s\<lparr>port_log := l\<rparr>) = ready_at sp s" "ready_at sp (s\<lparr>io_time := t\<rparr>) = ready_at sp s"
  by (simp_all add: ready_at_def fun_eq_iff)

lemma serial_transmit_empty_ready:
  assumes "sp_initialized sp"
  shows "serial_transmit_empty (Some sp) s = (ready_at sp s (io_time s), s\<lparr>io_time := io_time s + 1\<rparr>)"
proof -
  have "(0x20 :: u8) = 2 ^ 5" by simp
  then have "ucast w AND (0x20 :: u8) \<noteq> 0 \<longleftrightarrow> bit w 5" for w :: u32
    by (simp only: and_shifted_one_eq_0) (simp add: bit_simps)
  then show ?thesis
    using assms by (simp add: serial_transmit_empty_def io_inb_def ready_at_def)
qed

lemma serial_wait_first:
  assumes "sp_initialized sp" and "ready_at sp s (io_time s + n)" and "\<forall>k < n. \<not> ready_at sp s (io_time s + k)"
  shows "serial_wait (Some sp) s = Some (s\<lparr>io_time := io_time s + n + 1\<rparr>)"
  using assms
proof (induction n arbitrary: s)
  case 0
  then show ?case by (subst serial_wait.simps) (simp add: serial_transmit_empty_ready)
next
  case (Suc n)
  let ?s = "s\<lparr>io_time := io_time s + 1\<rparr>"
  have "\<not> ready_at sp s (io_time s)" using Suc.prems(3) by force
  moreover have "serial_wait (Some sp) ?s = Some (?s\<lparr>io_time := io_time ?s + n + 1\<rparr>)"
    using Suc.prems by (intro Suc.IH) (auto dest: spec [of _ "Suc k" for k])
  ultimately show ?case
    using Suc.prems(1) by (subst serial_wait.simps) (simp add: serial_transmit_empty_ready)
qed

lemma serial_wait_returns:
  assumes "sp_initialized sp" and "t \<ge> io_time s" and "ready_at sp s t"
  shows "\<exists>n. serial_wait (Some sp) s = Some (s\<lparr>io_time := n\<rparr>)"
proof -
  define n where "n = (LEAST n. ready_at sp s (io_time s + n))"
  have "ready_at sp s (io_time s + (t - io_time s))" using assms by simp
  then have "ready_at sp s (io_time s + n)" "\<forall>k < n. \<not> ready_at sp s (io_time s + k)"
    unfolding n_def by (rule LeastI, blast dest: not_less_Least)
  from serial_wait_first [OF assms(1) this] show ?thesis by blast
qed

lemma serial_putchar_returns:
  assumes "sp_initialized sp" and "\<forall>t. \<exists>u \<ge> t. ready_at sp s u"
  shows "\<exists>n. serial_putchar (Some sp) c s = Some (s\<lparr>io_time := n, port_log := port_log s @ [OutB (sp_port sp) c]\<rparr>)"
proof -
  obtain t where "t \<ge> io_time s" "ready_at sp s t" using assms(2) by blast
  from serial_wait_returns [OF assms(1) this] show ?thesis
    using assms(1) by (auto simp: serial_putchar_def io_outb_def log_write_def)
qed

text \<open>What goes over the line: every line feed is preceded by a carriage return.\<close>

definition crlf :: "u8 list \<Rightarrow> u8 list" where
  "crlf str = concat (map (\<lambda>c. if c = 0x0A then [0x0D, 0x0A] else [c]) str)"

lemma crlf_Cons: "crlf (c # str) = (if c = 0x0A then [0x0D, 0x0A] else [c]) @ crlf str"
  by (simp add: crlf_def)

lemma serial_write_loop_returns:
  assumes "sp_initialized sp" and "\<forall>t. \<exists>u \<ge> t. ready_at sp s u"
  shows "\<exists>n. serial_write_loop (Some sp) str s =
    Some (s\<lparr>io_time := n, port_log := port_log s @ map (OutB (sp_port sp)) (crlf str)\<rparr>)"
  using assms(2)
proof (induction str arbitrary: s)
  case Nil
  then show ?case by (auto simp: crlf_def intro!: exI [of _ "io_time s"])
next
  case (Cons c str)
  let ?s1 = "\<lambda>n. s\<lparr>io_time := n, port_log := port_log s @ map (OutB (sp_port sp)) (if c = 0x0A then [0x0D] else [])\<rparr>"
  obtain n1 where s1: "(if c = 0x0A then serial_putchar (Some sp) 0x0D s else Some s) = Some (?s1 n1)"
  proof (cases "c = 0x0A")
    case True
    then show ?thesis using serial_putchar_returns [OF assms(1) Cons.prems, of "0x0D"] that by auto
  next
    case False
    then show ?thesis using that [of "io_time s"] by simp
  qed
  let ?s2 = "\<lambda>n. s\<lparr>io_time := n, port_log := port_log s @ map (OutB (sp_port sp)) (if c = 0x0A then [0x0D, 0x0A] else [c])\<rparr>"
  obtain n2 where s2: "serial_putchar (Some sp) c (?s1 n1) = Some (?s2 n2)"
    using serial_putchar_returns [OF assms(1), of "?s1 n1" c] Cons.prems by (cases "c = 0x0A") auto
  obtain n3 where "serial_write_loop (Some sp) str (?s2 n2) =
      Some (?s2 n2\<lparr>io_time := n3, port_log := port_log (?s2 n2) @ map (OutB (sp_port sp)) (crlf str)\<rparr>)"
    using Cons.IH [of "?s2 n2"] Cons.prems by auto
  then show ?case using s1 s2 by (auto simp: crlf_Cons)
qed

text \<open>
  on an initialised port whose transmitter becomes empty again and again,
  \<^verbatim>\<open>serial_write\<close> returns after sending exactly the given bytes in order, each line
  feed preceded by a carriage return.
\<close>

theorem serial_write_correct:
  assumes "sp_initialized sp"
    and "\<forall>t. \<exists>u \<ge> t. bit (port_in s u (sp_port sp + UART_LINE_STATUS)) 5"
  shows "\<exists>s'. serial_write (Some sp) (Some str) s = Some s'
    \<and> port_log s' = port_log s @ map (OutB (sp_port sp)) (crlf str)"
  using serial_write_loop_returns [of sp s str] assms
  by (auto simp: serial_write_def ready_at_def fun_eq_iff)

theorem serial_write_correct_witness:
  "\<exists>s'. serial_write (Some \<lparr>sp_port = SERIAL_COM1, sp_initialized = True\<rparr>) (Some [0x41, 0x0A])
       \<lparr>hal_set = True, port_in = (\<lambda>t _. if t mod 3 = 2 then 0x60 else 0), io_time = 0, port_log = []\<rparr> = Some s'
     \<and> port_log s' = [OutB 0x3F8 0x41, OutB 0x3F8 0x0D, OutB 0x3F8 0x0A]"
proof -
  have b: "bit (0x60 :: u32) 5" by simp
  have "\<exists>u \<ge> t. (if u mod 3 = 2 then bit (0x60 :: u32) 5 else bit (0 :: u32) 5)" for t :: nat
  proof -
    have "(3 * t + 2) mod 3 = 2" by presburger
    then show ?thesis using b by (intro exI [of _ "3 * t + 2"]) simp
  qed
  then show ?thesis
    using serial_write_correct [of "\<lparr>sp_port = SERIAL_COM1, sp_initialized = True\<rparr>"
      "\<lparr>hal_set = True, port_in = (\<lambda>t _. if t mod 3 = 2 then 0x60 else 0), io_time = 0, port_log = []\<rparr>" "[0x41, 0x0A]"]
    by (simp add: crlf_def if_distrib [of "\<lambda>w. bit w 5"] cong: if_cong)
qed


end
