(* ===== verification/Console.thy ===== *)
theory Console
  imports Vga_Text Serial
begin

text \<open>
  The console multiplexer \<^verbatim>\<open>core/console.c\<close> and its two backends,
  \<^verbatim>\<open>drivers/vga/vga_console.c\<close> and \<^verbatim>\<open>drivers/serial/serial_console.c\<close>, with the
  driver selection and the helpers at the top of \<^verbatim>\<open>drivers/vga/vga.c\<close>. A backend is
  known by its address; its function pointers are a table \<open>ops\<close> that does not
  change, and its \<^verbatim>\<open>enabled\<close> flag is state. An operation that may not return has
  the result \<open>None\<close> then.
\<close>

section \<open>Data\<close>

abbreviation MAX_CONSOLE_BACKENDS :: u32 where "MAX_CONSOLE_BACKENDS \<equiv> 4"

text \<open>The function pointers of \<^verbatim>\<open>struct console_backend\<close>; \<open>None\<close> is \<^verbatim>\<open>NULL\<close>.\<close>

record 's backend_ops =
  init_op :: "('s \<Rightarrow> (int \<times> 's) option) option"
  putchar_op :: "(u8 \<Rightarrow> 's \<Rightarrow> 's option) option"
  write_op :: "(u8 list \<Rightarrow> 's \<Rightarrow> 's option) option"
  set_color_op :: "(vga_color \<Rightarrow> vga_color \<Rightarrow> 's \<Rightarrow> 's option) option"
  clear_op :: "('s \<Rightarrow> 's option) option"

text \<open>\<open>vga_set\<close> says that the global pointer \<^verbatim>\<open>vga\<close> has been set.\<close>

record console_st = vga_st +
  vga_set :: bool
  com1 :: serial_port
  backends :: "addr list"
  backend_count :: u32
  backend_enabled :: "addr \<Rightarrow> bool"

type_synonym ops_table = "addr \<Rightarrow> console_st backend_ops"


section \<open>The multiplexer\<close>

definition console_init :: "console_st \<Rightarrow> console_st" where
  "console_init s =
     (let s = s\<lparr>backend_count := 0\<rparr>
      in fold (\<lambda>i s. s\<lparr>backends := (backends s)[i := 0]\<rparr>) [0..<4] s)"

text \<open>The call of \<^verbatim>\<open>backend->init\<close>, if there is one.\<close>

definition run_init :: "console_st backend_ops \<Rightarrow> console_st \<Rightarrow> (int \<times> console_st) option" where
  "run_init b s = (case init_op b of None \<Rightarrow> Some (0, s) | Some init \<Rightarrow> init s)"

definition console_register :: "ops_table \<Rightarrow> addr \<Rightarrow> console_st \<Rightarrow> (int \<times> console_st) option" where
  "console_register ops backend s =
     (if backend = 0 then Some (- 1, s)
      else if backend_count s \<ge> MAX_CONSOLE_BACKENDS then Some (- 1, s)
      else
        Option.bind (run_init (ops backend) s) (\<lambda>(r, s).
          if r \<noteq> 0 then Some (- 1, s)
          else Some (0, s\<lparr>backends := (backends s)[unat (backend_count s) := backend],
            backend_count := backend_count s + 1,
            backend_enabled := (backend_enabled s)(backend := True)\<rparr>)))"

text \<open>The loop of \<^verbatim>\<open>console_unregister\<close> from index \<open>i\<close>, with the indices left to look at.\<close>

fun unregister_loop :: "addr \<Rightarrow> nat list \<Rightarrow> console_st \<Rightarrow> int \<times> console_st" where
  "unregister_loop backend [] s = (- 1, s)"
| "unregister_loop backend (i # js) s =
     (if backends s ! i = backend then
        let s = fold (\<lambda>j s. s\<lparr>backends := (backends s)[j := backends s ! (j + 1)]\<rparr>)
                  [i..<unat (backend_count s - 1)] s;
            s = s\<lparr>backend_count := backend_count s - 1\<rparr>
        in (0, s\<lparr>backends := (backends s)[unat (backend_count s) := 0]\<rparr>)
      else unregister_loop backend js s)"

definition console_unregister :: "addr \<Rightarrow> console_st \<Rightarrow> int \<times> console_st" where
  "console_unregister backend s =
     (if backend = 0 then (- 1, s) else unregister_loop backend [0..<unat (backend_count s)] s)"

definition console_enable :: "addr \<Rightarrow> bool \<Rightarrow> console_st \<Rightarrow> console_st" where
  "console_enable backend enable s =
     (if backend \<noteq> 0 then s\<lparr>backend_enabled := (backend_enabled s)(backend := enable)\<rparr> else s)"

text \<open>The loop shared by the output functions: call \<open>f\<close> of every enabled backend that has it.\<close>

fun for_backends :: "(addr \<Rightarrow> (console_st \<Rightarrow> console_st option) option) \<Rightarrow> nat list \<Rightarrow> console_st \<Rightarrow> console_st option" where
  "for_backends f [] s = Some s"
| "for_backends f (i # js) s =
     Option.bind
       (if backends s ! i \<noteq> 0 \<and> backend_enabled s (backends s ! i) then
          (case f (backends s ! i) of Some call \<Rightarrow> call s | None \<Rightarrow> Some s)
        else Some s)
       (for_backends f js)"

definition console_putchar :: "ops_table \<Rightarrow> u8 \<Rightarrow> console_st \<Rightarrow> console_st option" where
  "console_putchar ops c s =
     for_backends (\<lambda>b. map_option (\<lambda>f. f c) (putchar_op (ops b))) [0..<unat (backend_count s)] s"

definition console_write :: "ops_table \<Rightarrow> u8 list \<Rightarrow> console_st \<Rightarrow> console_st option" where
  "console_write ops str s =
     for_backends (\<lambda>b. map_option (\<lambda>f. f str) (write_op (ops b))) [0..<unat (backend_count s)] s"

definition console_set_color :: "ops_table \<Rightarrow> vga_color \<Rightarrow> vga_color \<Rightarrow> console_st \<Rightarrow> console_st option" where
  "console_set_color ops fg bg s =
     for_backends (\<lambda>b. map_option (\<lambda>f. f fg bg) (set_color_op (ops b))) [0..<unat (backend_count s)] s"

definition console_clear :: "ops_table \<Rightarrow> console_st \<Rightarrow> console_st option" where
  "console_clear ops s = for_backends (\<lambda>b. clear_op (ops b)) [0..<unat (backend_count s)] s"


section \<open>The screen backend\<close>

abbreviation ENODEV :: int where "ENODEV \<equiv> 19"

text \<open>\<^verbatim>\<open>vga_text_get_driver\<close> returns the address of a static table, which is never \<^verbatim>\<open>NULL\<close>.\<close>

definition vga_subsystem_init :: "console_st \<Rightarrow> int \<times> console_st" where
  "vga_subsystem_init s = vga_text_init (s\<lparr>vga_set := True\<rparr>)"

definition vga_clear :: "console_st \<Rightarrow> console_st" where
  "vga_clear s = (if vga_set s then vga_text_clear s else s)"

definition vga_putchar :: "u8 \<Rightarrow> console_st \<Rightarrow> console_st" where
  "vga_putchar c s = (if vga_set s then vga_text_putchar c s else s)"

text \<open>The string is given by its bytes up to the terminator.\<close>

definition vga_write :: "u8 list option \<Rightarrow> console_st \<Rightarrow> console_st" where
  "vga_write str s =
     (case str of None \<Rightarrow> s | Some bytes \<Rightarrow> if vga_set s then vga_text_write bytes s else s)"

definition vga_set_color :: "vga_color \<Rightarrow> vga_color \<Rightarrow> console_st \<Rightarrow> console_st" where
  "vga_set_color fg bg s = (if vga_set s then vga_text_set_color fg bg s else s)"

definition vga_console_init :: "console_st \<Rightarrow> int \<times> console_st" where
  "vga_console_init s = (if vga_set s then 0 else - 1, s)"

definition vga_console_putchar :: "u8 \<Rightarrow> console_st \<Rightarrow> console_st" where
  "vga_console_putchar c s = (if vga_set s then vga_text_putchar c s else s)"

definition vga_console_write :: "u8 list \<Rightarrow> console_st \<Rightarrow> console_st" where
  "vga_console_write str s = (if vga_set s then vga_text_write str s else s)"

definition vga_console_set_color :: "vga_color \<Rightarrow> vga_color \<Rightarrow> console_st \<Rightarrow> console_st" where
  "vga_console_set_color fg bg s = (if vga_set s then vga_text_set_color fg bg s else s)"

definition vga_console_clear :: "console_st \<Rightarrow> console_st" where
  "vga_console_clear s = (if vga_set s then vga_text_clear s else s)"

definition vga_console :: "console_st backend_ops" where
  "vga_console = \<lparr>init_op = Some (\<lambda>s. Some (vga_console_init s)),
     putchar_op = Some (\<lambda>c s. Some (vga_console_putchar c s)),
     write_op = Some (\<lambda>str s. Some (vga_console_write str s)),
     set_color_op = Some (\<lambda>fg bg s. Some (vga_console_set_color fg bg s)),
     clear_op = Some (\<lambda>s. Some (vga_console_clear s))\<rparr>"


section \<open>The serial backend\<close>

definition serial_console_init :: "console_st \<Rightarrow> int \<times> console_st" where
  "serial_console_init s =
     (case serial_init (Some (com1 s)) SERIAL_COM1 s of
        (r, Some sp, s) \<Rightarrow> (r, s\<lparr>com1 := sp\<rparr>)
      | (r, None, s) \<Rightarrow> (r, s))"

definition serial_console_putchar :: "u8 \<Rightarrow> console_st \<Rightarrow> console_st option" where
  "serial_console_putchar c s = serial_putchar (Some (com1 s)) c s"

definition serial_console_write :: "u8 list \<Rightarrow> console_st \<Rightarrow> console_st option" where
  "serial_console_write str s = serial_write (Some (com1 s)) (Some str) s"

definition serial_console :: "console_st backend_ops" where
  "serial_console = \<lparr>init_op = Some (\<lambda>s. Some (serial_console_init s)),
     putchar_op = Some serial_console_putchar,
     write_op = Some serial_console_write,
     set_color_op = None,
     clear_op = None\<rparr>"

text \<open>
  The table of the kernel: the two static backends at the addresses the linker
  gave them; nothing else is a backend.
\<close>

definition kernel_backends :: "addr \<Rightarrow> addr \<Rightarrow> ops_table" where
  "kernel_backends vga_addr serial_addr b =
     (if b = vga_addr then vga_console
      else if b = serial_addr then serial_console
      else \<lparr>init_op = None, putchar_op = None, write_op = None, set_color_op = None, clear_op = None\<rparr>)"


section \<open>The list of backends\<close>

definition registered :: "console_st \<Rightarrow> addr list" where
  "registered s = take (unat (backend_count s)) (backends s)"

definition console_inv :: "console_st \<Rightarrow> bool" where
  "console_inv s \<longleftrightarrow> length (backends s) = 4 \<and> backend_count s \<le> 4 \<and> 0 \<notin> set (registered s)
     \<and> set (drop (unat (backend_count s)) (backends s)) \<subseteq> {0}"

text \<open>Moving entries down by one, on the list and on the state.\<close>

definition shift_down :: "nat \<Rightarrow> nat \<Rightarrow> addr list \<Rightarrow> addr list" where
  "shift_down i m xs = fold (\<lambda>j xs. xs[j := xs ! Suc j]) [i..<m] xs"

lemma shift_down_nth:
  "i \<le> m \<Longrightarrow> m < length xs \<Longrightarrow> length (shift_down i m xs) = length xs
    \<and> (\<forall>k < length xs. shift_down i m xs ! k = (if i \<le> k \<and> k < m then xs ! (k + 1) else xs ! k))"
proof (induction m)
  case 0
  then show ?case by (simp add: shift_down_def)
next
  case (Suc m)
  show ?case
  proof (cases "i = Suc m")
    case True
    then show ?thesis by (auto simp: shift_down_def)
  next
    case False
    then have le: "i \<le> m" using Suc.prems by simp
    have "shift_down i (Suc m) xs = (shift_down i m xs)[m := shift_down i m xs ! (m + 1)]"
      using le by (simp add: shift_down_def)
    then show ?thesis using Suc.IH [OF le] Suc.prems le by (auto simp: nth_list_update less_Suc_eq)
  qed
qed

lemma shift_down_eq:
  assumes "i \<le> m" "m < length xs"
  shows "(shift_down i m xs)[m := z] = take i xs @ drop (i + 1) (take (m + 1) xs) @ z # drop (m + 1) xs"
proof (rule nth_equalityI)
  show "length ((shift_down i m xs)[m := z])
      = length (take i xs @ drop (i + 1) (take (m + 1) xs) @ z # drop (m + 1) xs)"
    using shift_down_nth [OF assms] assms by simp
  fix k assume "k < length ((shift_down i m xs)[m := z])"
  then show "(shift_down i m xs)[m := z] ! k
      = (take i xs @ drop (i + 1) (take (m + 1) xs) @ z # drop (m + 1) xs) ! k"
    using shift_down_nth [OF assms] assms by (auto simp: nth_list_update nth_append min_def nth_Cons' not_less)
qed

lemma fold_backends:
  "fold (\<lambda>j s. s\<lparr>backends := (backends s)[j := backends s ! Suc j]\<rparr>) js s =
     s\<lparr>backends := fold (\<lambda>j xs. xs[j := xs ! Suc j]) js (backends s)\<rparr>"
  by (induction js arbitrary: s) simp_all

lemma unregister_loop_result:
  fixes s :: console_st
  defines "xs \<equiv> backends s" and "n \<equiv> unat (backend_count s)"
  assumes "k \<le> n" and "n \<le> length xs" and "b \<notin> set (take k xs)"
  shows "unregister_loop b [k..<n] s =
    (if b \<in> set (take n xs)
     then (0, s\<lparr>backends := remove1 b (take n xs) @ 0 # drop n xs, backend_count := backend_count s - 1\<rparr>)
     else (- 1, s))"
  using assms(3-5)
proof (induction "n - k" arbitrary: k)
  case 0
  then show ?case by simp
next
  case (Suc d)
  then have k: "k < n" by simp
  then have upt: "[k..<n] = k # [Suc k..<n]" by (rule upt_conv_Cons)
  have n1: "unat (backend_count s - 1) = n - 1"
    using k by (simp add: n_def unat_minus_one word_unat_eq_iff [of "backend_count s" 0])
  show ?case
  proof (cases "xs ! k = b")
    case True
    have split: "take n xs = take k xs @ b # drop (k + 1) (take n xs)"
      using id_take_nth_drop [of k "take n xs"] True k Suc.prems by (simp add: min_def)
    have "remove1 b (take n xs) = take k xs @ drop (k + 1) (take n xs)"
      by (subst split) (simp add: remove1_append Suc.prems del: append_take_drop_id)
    moreover have "(shift_down k (n - 1) xs)[n - 1 := 0] = take k xs @ drop (k + 1) (take n xs) @ 0 # drop n xs"
      using shift_down_eq [of k "n - 1" xs 0] k Suc.prems by simp
    moreover have "b \<in> set (take n xs)" by (subst split) simp
    ultimately show ?thesis
      using True by (simp add: upt xs_def [symmetric] fold_backends n1 shift_down_def [symmetric] Let_def)
  next
    case False
    have "b \<notin> set (take (Suc k) xs)" using False k Suc.prems by (simp add: take_Suc_conv_app_nth)
    then have "unregister_loop b [Suc k..<n] s =
      (if b \<in> set (take n xs)
       then (0, s\<lparr>backends := remove1 b (take n xs) @ 0 # drop n xs, backend_count := backend_count s - 1\<rparr>)
       else (- 1, s))"
      using Suc k by (intro Suc.hyps(1)) auto
    then show ?thesis using False by (simp add: upt xs_def)
  qed
qed

lemma console_init_empty:
  "length (backends s) = 4 \<Longrightarrow> console_inv (console_init s) \<and> registered (console_init s) = []"
  by (auto simp: console_init_def console_inv_def registered_def length_Suc_conv numeral_eq_Suc)

text \<open>
  \<^verbatim>\<open>console_unregister\<close> of a registered backend returns 0 and removes exactly
  its first entry, closing the gap and keeping the order of the others; for any
  other backend it returns -1 and changes nothing. The array stays well formed.
\<close>

theorem console_unregister_correct:
  assumes "console_inv s" and "backend \<noteq> 0"
  shows "console_inv (snd (console_unregister backend s))
    \<and> registered (snd (console_unregister backend s)) = remove1 backend (registered s)
    \<and> fst (console_unregister backend s) = (if backend \<in> set (registered s) then 0 else - 1)
    \<and> (backend \<notin> set (registered s) \<longrightarrow> snd (console_unregister backend s) = s)"
proof -
  let ?n = "unat (backend_count s)"
  have n: "?n \<le> length (backends s)" "length (backends s) = 4" "0 \<notin> set (registered s)"
      "set (drop ?n (backends s)) \<subseteq> {0}"
    using assms(1) by (simp_all add: console_inv_def word_le_nat_alt)
  have r: "console_unregister backend s =
    (if backend \<in> set (registered s)
     then (0, s\<lparr>backends := remove1 backend (registered s) @ 0 # drop ?n (backends s), backend_count := backend_count s - 1\<rparr>)
     else (- 1, s))"
    using unregister_loop_result [of 0 s backend] n assms(2) by (simp add: console_unregister_def registered_def)
  show ?thesis
  proof (cases "backend \<in> set (registered s)")
    case False
    then show ?thesis using assms(1) by (simp add: r remove1_idem)
  next
    case True
    then have "?n \<noteq> 0" by (metis registered_def take0 empty_iff list.set(1))
    then have n1: "unat (backend_count s - 1) = ?n - 1" by (simp add: unat_minus_one unat_eq_zero)
    have len: "length (remove1 backend (registered s)) = ?n - 1"
      using True n(1) by (simp add: length_remove1) (simp add: registered_def)
    have "0 \<notin> set (remove1 backend (registered s))" using n(3) notin_set_remove1 by fast
    then show ?thesis
      using True n n1 len \<open>?n \<noteq> 0\<close> by (simp add: r console_inv_def registered_def word_le_nat_alt)
  qed
qed

abbreviation sample_console :: console_st where
  "sample_console \<equiv> \<lparr>hal_set = True, port_in = (\<lambda>_ _. 0x60), io_time = 0, port_log = [], vga_buffer = VGA_MEMORY,
     cursor_x = 0, cursor_y = 0, current_color = 7, vga_initialized = True, vga_cells = (\<lambda>_. 0), vga_set = True,
     com1 = \<lparr>sp_port = SERIAL_COM1, sp_initialized = True\<rparr>, backends = [0x5000, 0x6000, 0, 0],
     backend_count = 2, backend_enabled = (\<lambda>_. True)\<rparr>"

theorem console_unregister_correct_witness:
  "registered (snd (console_unregister 0x5000 sample_console)) = [0x6000]
   \<and> fst (console_unregister 0x5000 sample_console) = 0"
proof -
  have "console_inv sample_console" "registered sample_console = [0x5000, 0x6000]"
    by (simp_all add: console_inv_def registered_def)
  then show ?thesis using console_unregister_correct [of sample_console "0x5000"] by simp
qed


section \<open>Output to both backends\<close>

text \<open>The bytes a log sends to a port.\<close>

fun sent :: "u16 \<Rightarrow> io_write list \<Rightarrow> u8 list" where
  "sent p [] = []"
| "sent p (OutB q v # ws) = (if q = p then v # sent p ws else sent p ws)"
| "sent p (w # ws) = sent p ws"

lemma sent_append [simp]: "sent p (ws @ ws') = sent p ws @ sent p ws'"
  by (induction p ws rule: sent.induct) simp_all

lemma sent_map_OutB [simp]: "sent p (map (OutB p) vs) = vs"
  by (induction vs) simp_all

lemma sent_other: "set ws \<subseteq> range (OutB q) \<union> range (OutB r) \<Longrightarrow> p \<noteq> q \<Longrightarrow> p \<noteq> r \<Longrightarrow> sent p ws = []"
  by (induction p ws rule: sent.induct) auto

text \<open>The screen driver leaves the rest of the console state alone.\<close>

lemma keeps_rest_console:
  fixes s t :: console_st
  assumes "keeps_rest s t"
  shows "vga_set t = vga_set s" "com1 t = com1 s" "backends t = backends s"
    "backend_count t = backend_count s" "backend_enabled t = backend_enabled s"
  using assms by (cases s; cases t; simp add: keeps_rest_def)+

text \<open>The console as the kernel sets it up: the screen first, the serial line second.\<close>

definition console_ready :: "addr \<Rightarrow> addr \<Rightarrow> console_st \<Rightarrow> bool" where
  "console_ready va sa s \<longleftrightarrow> console_inv s \<and> registered s = [va, sa] \<and> va \<noteq> sa
     \<and> backend_enabled s va \<and> backend_enabled s sa \<and> vga_set s \<and> vga_inv s
     \<and> com1 s = \<lparr>sp_port = SERIAL_COM1, sp_initialized = True\<rparr>"

lemma console_ready_two:
  assumes "console_ready va sa s"
  shows "[0..<unat (backend_count s)] = [0, 1]" "backends s ! 0 = va" "backends s ! 1 = sa" "va \<noteq> 0" "sa \<noteq> 0"
proof -
  let ?n = "unat (backend_count s)"
  have r: "take ?n (backends s) = [va, sa]" and l: "?n \<le> length (backends s)" "0 \<notin> {va, sa}"
    using assms by (auto simp: console_ready_def console_inv_def registered_def word_le_nat_alt)
  have "length (take ?n (backends s)) = 2" using r by simp
  then have n: "?n = 2" using l by simp
  then show "[0..<unat (backend_count s)] = [0, 1]" by (simp add: upt_rec)
  show "backends s ! 0 = va" "backends s ! 1 = sa"
    using arg_cong [OF r, of "\<lambda>xs. xs ! 0"] arg_cong [OF r, of "\<lambda>xs. xs ! 1"] n by simp_all
  show "va \<noteq> 0" "sa \<noteq> 0" using l by auto
qed

lemma kernel_backends_simps [simp]:
  "kernel_backends va sa va = vga_console" "va \<noteq> sa \<Longrightarrow> kernel_backends va sa sa = serial_console"
  by (simp_all add: kernel_backends_def)

definition serial_line_ready :: "console_st \<Rightarrow> bool" where
  "serial_line_ready s \<longleftrightarrow> (\<forall>t. \<exists>u \<ge> t. bit (port_in s u (SERIAL_COM1 + UART_LINE_STATUS)) 5)"

lemma console_ready_keeps:
  "keeps_rest s t \<Longrightarrow> vga_inv t \<Longrightarrow> console_ready va sa s \<Longrightarrow> console_ready va sa (t\<lparr>io_time := n, port_log := l\<rparr>)"
  using keeps_rest_console [of s t]
  by (auto simp: console_ready_def console_inv_def registered_def vga_inv_def)

lemma screen_of_io [simp]: "screen_of (s\<lparr>io_time := n, port_log := l\<rparr>) = screen_of s"
  using screen_of_cong [of "s\<lparr>io_time := n, port_log := l\<rparr>" s] by (simp add: screen_of_def cong: if_cong)

text \<open>What one call of the multiplexer leaves when the screen gets \<open>str\<close> and the line gets \<open>line\<close>.\<close>

definition shows_and_sends :: "addr \<Rightarrow> addr \<Rightarrow> u8 list \<Rightarrow> u8 list \<Rightarrow> console_st \<Rightarrow> console_st \<Rightarrow> bool" where
  "shows_and_sends va sa str line s s' \<longleftrightarrow>
     screen_of s' = fold (screen_putchar (current_color s)) str (screen_of s)
     \<and> sent SERIAL_COM1 (port_log s') = sent SERIAL_COM1 (port_log s) @ line
     \<and> console_ready va sa s' \<and> port_in s' = port_in s \<and> current_color s' = current_color s"

lemma both_backends:
  assumes "console_ready va sa s"
    and v: "f va = Some g" "g s = Some (vga_text_write str s)"
    and w: "f sa = Some call"
      "\<And>t. com1 t = com1 s \<Longrightarrow> port_in t = port_in s \<Longrightarrow>
        \<exists>n. call t = Some (t\<lparr>io_time := n, port_log := port_log t @ map (OutB SERIAL_COM1) line\<rparr>)"
  shows "\<exists>s'. for_backends f [0..<unat (backend_count s)] s = Some s' \<and> shows_and_sends va sa str line s s'"
proof -
  note two = console_ready_two [OF assms(1)]
  let ?t = "vga_text_write str s"
  have inv: "vga_inv s" and en: "backend_enabled s va" "backend_enabled s sa"
    using assms(1) by (simp_all add: console_ready_def)
  note r = vga_text_write_refines [OF inv, of str]
  then have k: "keeps_rest s ?t" and t: "vga_inv ?t"
      "screen_of ?t = fold (screen_putchar (current_color s)) str (screen_of s)"
    by (simp_all add: renders_def)
  note c = keeps_rest_console [OF k]
  obtain n where n: "call ?t = Some (?t\<lparr>io_time := n, port_log := port_log ?t @ map (OutB SERIAL_COM1) line\<rparr>)"
    using w(2) [of ?t] c k by (auto simp: keeps_rest_def)
  let ?u = "?t\<lparr>io_time := n, port_log := port_log ?t @ map (OutB SERIAL_COM1) line\<rparr>"
  have "for_backends f [0..<unat (backend_count s)] s = Some ?u"
    using two v w(1) en n c by simp
  moreover have "sent SERIAL_COM1 (port_log ?t) = sent SERIAL_COM1 (port_log s)"
    using k by (auto simp: keeps_rest_def sent_other)
  ultimately show ?thesis
    using console_ready_keeps [OF k t(1) assms(1)] t k
    by (auto simp: shows_and_sends_def keeps_rest_def)
qed


lemma console_ready_devices:
  assumes "console_ready va sa s"
  shows "va \<noteq> sa" "vga_set s" "com1 s = \<lparr>sp_port = SERIAL_COM1, sp_initialized = True\<rparr>"
  using assms by (simp_all add: console_ready_def)

lemma console_write_both:
  assumes "console_ready va sa s" and "serial_line_ready s"
  shows "\<exists>s'. console_write (kernel_backends va sa) str s = Some s' \<and> shows_and_sends va sa str (crlf str) s s'"
proof -
  note d = console_ready_devices [OF assms(1)]
  have line: "\<exists>n. serial_console_write str t
      = Some (t\<lparr>io_time := n, port_log := port_log t @ map (OutB SERIAL_COM1) (crlf str)\<rparr>)"
    if "com1 t = com1 s" "port_in t = port_in s" for t
    using serial_write_loop_returns [of "com1 t" t str] that d assms(2)
    by (simp add: serial_console_write_def serial_write_def serial_line_ready_def ready_at_def)
  show ?thesis
    unfolding console_write_def
    by (rule both_backends [OF assms(1), where g = "\<lambda>s. Some (vga_console_write str s)" and call = "serial_console_write str"])
      (use d line in \<open>simp_all add: vga_console_def serial_console_def vga_console_write_def\<close>)
qed

lemma console_putchar_both:
  assumes "console_ready va sa s" and "serial_line_ready s"
  shows "\<exists>s'. console_putchar (kernel_backends va sa) c s = Some s' \<and> shows_and_sends va sa [c] [c] s s'"
proof -
  note d = console_ready_devices [OF assms(1)]
  have line: "\<exists>n. serial_console_putchar c t
      = Some (t\<lparr>io_time := n, port_log := port_log t @ map (OutB SERIAL_COM1) [c]\<rparr>)"
    if "com1 t = com1 s" "port_in t = port_in s" for t
    using serial_putchar_returns [of "com1 t" t c] that d assms(2)
    by (simp add: serial_console_putchar_def serial_line_ready_def ready_at_def)
  show ?thesis
    unfolding console_putchar_def
    by (rule both_backends [OF assms(1), where g = "\<lambda>s. Some (vga_console_putchar c s)" and call = "serial_console_putchar c"])
      (use d line in \<open>simp_all add: vga_console_def serial_console_def vga_console_putchar_def vga_text_write_def\<close>)
qed

text \<open>The kernel's own order of calls brings the console up.\<close>

definition console_boot :: "addr \<Rightarrow> addr \<Rightarrow> console_st \<Rightarrow> console_st option" where
  "console_boot va sa s =
     (let s = snd (vga_subsystem_init s);
          s = console_init s
      in Option.bind (console_register (kernel_backends va sa) va s) (\<lambda>(_, s).
           map_option snd (console_register (kernel_backends va sa) sa s)))"

definition blank_screen :: "u8 \<Rightarrow> screen" where
  "blank_screen color = \<lparr>grid = (\<lambda>r c. if r < 25 \<and> c < 80 then make_entry 0x20 color else 0), row = 0, col = 0\<rparr>"

lemma screen_of_clear:
  assumes "vga_buffer s = VGA_MEMORY"
  shows "screen_of (vga_text_clear s) = blank_screen (current_color s)"
proof -
  have "cursor_x (vga_text_clear s) = 0" "cursor_y (vga_text_clear s) = 0"
    by (simp_all add: vga_text_clear_def Let_def)
  then show ?thesis
    using vga_text_clear_blank(3) [OF assms] screen_index
    by (simp add: screen_of_def blank_screen_def fun_eq_iff)
qed

lemma vga_subsystem_init_ready:
  fixes s :: console_st
  assumes "\<not> vga_initialized s"
  defines "t \<equiv> snd (vga_subsystem_init s)"
  shows "vga_inv t" "vga_set t" "screen_of t = blank_screen 7" "current_color t = 7"
    "backends t = backends s" "port_in t = port_in s"
proof -
  define u where "u = s\<lparr>vga_set := True, vga_buffer := VGA_MEMORY, cursor_x := 0, cursor_y := 0,
    current_color := 7, vga_initialized := True\<rparr>"
  have b: "vga_buffer u = VGA_MEMORY" by (simp add: u_def)
  have t: "t = vga_text_cursor_enable True (vga_text_clear u)"
    using assms(1) by (simp add: t_def vga_subsystem_init_def vga_text_init_def u_def make_color_def Let_def)
  note clear = vga_text_clear_blank [OF b]
  note c = keeps_rest_console [OF clear(2)]
  have "screen_of t = screen_of (vga_text_clear u)"
    using screen_of_cong [of t "vga_text_clear u"]
    by (simp add: t vga_text_cursor_enable_def) (simp add: screen_of_def cong: if_cong)
  then show "screen_of t = blank_screen 7"
    using screen_of_clear [OF b] by (simp add: u_def)
  have io: "com1 (io_outb p v x) = com1 x \<and> backends (io_outb p v x) = backends x \<and> vga_set (io_outb p v x) = vga_set x"
    for p v and x :: console_st
    by (simp add: io_outb_def log_write_def)
  show "vga_inv t" "vga_set t" "current_color t = 7" "backends t = backends s" "port_in t = port_in s"
    using clear c by (simp_all add: t vga_text_cursor_enable_def vga_inv_def keeps_rest_def u_def io)
qed

lemma console_init_fields:
  "length (backends s) = 4 \<Longrightarrow> console_init s = s\<lparr>backend_count := 0, backends := [0, 0, 0, 0]\<rparr>"
proof -
  have "fold (\<lambda>i s. s\<lparr>backends := (backends s)[i := 0]\<rparr>) js t = t\<lparr>backends := fold (\<lambda>i xs. xs[i := 0]) js (backends t)\<rparr>"
    for js and t :: console_st
    by (induction js arbitrary: t) simp_all
  moreover assume "length (backends s) = 4"
  then obtain a b c d where "backends s = [a, b, c, d]" by (auto simp: length_Suc_conv numeral_eq_Suc)
  moreover have "[0..<4] = [0, 1, 2, 3 :: nat]" by (simp add: upt_rec)
  ultimately show ?thesis by (simp add: console_init_def)
qed

lemma serial_console_init_fields:
  "\<exists>n l. serial_console_init s =
     (0, s\<lparr>io_time := n, port_log := l, com1 := \<lparr>sp_port = SERIAL_COM1, sp_initialized = True\<rparr>\<rparr>)"
proof -
  have c: "sp\<lparr>sp_port := SERIAL_COM1, sp_initialized := True\<rparr> = \<lparr>sp_port = SERIAL_COM1, sp_initialized = True\<rparr>"
    for sp :: serial_port
    by (cases sp) simp
  show ?thesis
    by (simp add: serial_console_init_def serial_init_def io_outb_def log_write_def Let_def c) (intro exI, rule refl)
qed

lemma console_boot_ready:
  assumes "va \<noteq> sa" "va \<noteq> 0" "sa \<noteq> 0" and "length (backends s) = 4" and "\<not> vga_initialized s"
  shows "\<exists>t. console_boot va sa s = Some t \<and> console_ready va sa t \<and> screen_of t = blank_screen 7
    \<and> current_color t = 7 \<and> port_in t = port_in s"
proof -
  define u where "u = snd (vga_subsystem_init s)"
  note u = vga_subsystem_init_ready [OF assms(5), folded u_def]
  let ?u1 = "u\<lparr>backend_count := 1, backends := [va, 0, 0, 0], backend_enabled := (backend_enabled u)(va := True)\<rparr>"
  have "console_init u = u\<lparr>backend_count := 0, backends := [0, 0, 0, 0]\<rparr>"
    using console_init_fields [of u] u(5) assms(4) by simp
  then have "console_register (kernel_backends va sa) va (console_init u) = Some (0, ?u1)"
    using assms u(2) by (simp add: console_register_def run_init_def vga_console_def vga_console_init_def)
  moreover obtain n l where i: "serial_console_init ?u1 =
      (0, ?u1\<lparr>io_time := n, port_log := l, com1 := \<lparr>sp_port = SERIAL_COM1, sp_initialized = True\<rparr>\<rparr>)"
    using serial_console_init_fields by blast
  let ?u2 = "u\<lparr>io_time := n, port_log := l, com1 := \<lparr>sp_port = SERIAL_COM1, sp_initialized = True\<rparr>,
    backend_count := 2, backends := [va, sa, 0, 0], backend_enabled := (backend_enabled u)(va := True, sa := True)\<rparr>"
  have "\<not> (4 :: u32) \<le> 1" by (simp add: word_le_nat_alt)
  then have "console_register (kernel_backends va sa) sa ?u1 = Some (0, ?u2)"
    using assms i by (simp add: console_register_def run_init_def serial_console_def)
  ultimately have boot: "console_boot va sa s = Some ?u2"
    by (simp add: console_boot_def Let_def u_def [symmetric])
  have "screen_of ?u2 = screen_of u"
    using screen_of_cong [of ?u2 u] by simp (simp add: screen_of_def cong: if_cong)
  moreover have "console_ready va sa ?u2"
    using assms u(1,2) by (simp add: console_ready_def console_inv_def registered_def vga_inv_def)
  ultimately show ?thesis using boot u by auto
qed

text \<open>
  after the kernel's console setup, if the serial transmitter becomes empty
  again and again, a write to the console returns, shows the text on the blank
  screen as a terminal would and sends it over the serial line with carriage
  returns added.
\<close>

theorem console_output_correct:
  assumes "va \<noteq> sa" "va \<noteq> 0" "sa \<noteq> 0" and "length (backends s) = 4" and "\<not> vga_initialized s"
    and "\<forall>t. \<exists>u \<ge> t. bit (port_in s u 0x3FD) 5"
  shows "\<exists>s1 s2. console_boot va sa s = Some s1 \<and> console_write (kernel_backends va sa) str s1 = Some s2
    \<and> screen_of s2 = fold (screen_putchar 7) str (blank_screen 7)
    \<and> sent SERIAL_COM1 (port_log s2) = sent SERIAL_COM1 (port_log s1) @ crlf str"
proof -
  obtain t where t: "console_boot va sa s = Some t" "console_ready va sa t" "screen_of t = blank_screen 7"
      "current_color t = 7" "port_in t = port_in s"
    using console_boot_ready [OF assms(1-5)] by blast
  have "serial_line_ready t" using assms(6) t(5) by (simp add: serial_line_ready_def)
  from console_write_both [OF t(2) this, of str] show ?thesis
    using t by (auto simp: shows_and_sends_def)
qed

theorem console_output_correct_witness:
  "\<exists>s1 s2. console_boot 0x5000 0x6000 (sample_console\<lparr>vga_initialized := False\<rparr>) = Some s1
    \<and> console_write (kernel_backends 0x5000 0x6000) [0x48, 0x0A] s1 = Some s2
    \<and> row (screen_of s2) = 1 \<and> grid (screen_of s2) 0 0 = 0x748
    \<and> sent SERIAL_COM1 (port_log s2) = sent SERIAL_COM1 (port_log s1) @ [0x48, 0x0D, 0x0A]"
proof -
  let ?s = "sample_console\<lparr>vga_initialized := False\<rparr>"
  have "bit (0x60 :: u32) 5" by simp
  then have "\<forall>t. \<exists>u \<ge> t. bit (port_in ?s u 0x3FD) 5" by auto
  then obtain s1 s2 where s: "console_boot 0x5000 0x6000 ?s = Some s1"
      "console_write (kernel_backends 0x5000 0x6000) [0x48, 0x0A] s1 = Some s2"
      "screen_of s2 = fold (screen_putchar 7) [0x48, 0x0A] (blank_screen 7)"
      "sent SERIAL_COM1 (port_log s2) = sent SERIAL_COM1 (port_log s1) @ crlf [0x48, 0x0A]"
    using console_output_correct [of "0x5000" "0x6000" ?s "[0x48, 0x0A]"] by auto
  have "screen_of s2 = screen_putchar 7 0x0A (screen_putchar 7 0x48 (blank_screen 7))" using s(3) by simp
  then have "row (screen_of s2) = 1" "grid (screen_of s2) 0 0 = 0x748"
    by (simp_all add: screen_putchar_def screen_advance_def screen_newline_def put_cell_def blank_screen_def make_entry_def)
  then show ?thesis using s by (auto simp: crlf_def)
qed

end
