(* ===== verification/Kprintf.thy ===== *)
theory Kprintf
  imports Console Klib_String "HOL-Library.Signed_Division"
begin

text \<open>
  The number printers and \<^verbatim>\<open>kprintf\<close> of \<^verbatim>\<open>drivers/vga/vga.c\<close>. A buffer is the list of
  the bytes written to it. The format is the list of bytes of its array, with the
  terminator; the variable arguments are the 32-bit words on the stack; strings
  are read from memory. A call that reads past the format or the arguments, or
  that waits forever, has no result (\<open>None\<close>).
\<close>

section \<open>Number printers\<close>

definition digit_table :: "u8 list" where
  "digit_table = map of_char ''0123456789abcdefghijklmnopqrstuvwxyz''"

text \<open>The table of \<^verbatim>\<open>itoa\<close>, symmetric around index 35 for negative remainders.\<close>

definition signed_digit_table :: "u8 list" where
  "signed_digit_table =
     map of_char ''zyxwvutsrqponmlkjihgfedcba9876543210123456789abcdefghijklmnopqrstuvwxyz''"

text \<open>The loop that reverses the digits in place, with the indices of the two pointers.\<close>

function reverse_loop :: "nat \<Rightarrow> nat \<Rightarrow> 'a list \<Rightarrow> 'a list" where
  "reverse_loop ptr1 ptr buf =
     (if ptr1 < ptr then
        let tmp_char = buf ! ptr;
            buf = buf[ptr := buf ! ptr1];
            buf = buf[ptr1 := tmp_char]
        in reverse_loop (ptr1 + 1) (ptr - 1) buf
      else buf)"
  by pat_completeness auto
termination by (relation "measure (\<lambda>(ptr1, ptr, buf). ptr - ptr1)") auto

text \<open>
  The digit loops. They run for bases from 2 to 36 only, which the callers check;
  with a smaller base the loop would not end, and these functions stop at once.
\<close>

lemma abs_sdiv: "b > 0 \<Longrightarrow> \<bar>v sdiv b\<bar> = \<bar>v\<bar> div (b :: int)"
  by (cases "v = 0") (simp_all add: signed_divide_int_def abs_mult pos_imp_zdiv_nonneg_iff)

function itoa_loop :: "int \<Rightarrow> int \<Rightarrow> u8 list \<times> int" where
  "itoa_loop value base =
     (if base < 2 then ([], value)
      else
        let tmp_value = value;
            value = value sdiv base;
            c = signed_digit_table ! nat (35 + (tmp_value - value * base))
        in if value \<noteq> 0 then let (cs, last_tmp) = itoa_loop value base in (c # cs, last_tmp)
           else ([c], tmp_value))"
  by pat_completeness auto
termination
proof (relation "measure (\<lambda>(v, b). nat \<bar>v\<bar>)", goal_cases)
  case (2 v b t x c)
  then have "v \<noteq> 0" by auto
  then have "\<bar>v\<bar> div b < \<bar>v\<bar>" using 2(1) by (intro int_div_less_self) auto
  then show ?case using 2 \<open>v \<noteq> 0\<close> by (simp add: abs_sdiv)
qed simp

definition itoa :: "int \<Rightarrow> int \<Rightarrow> nat \<times> u8 list" where
  "itoa value base =
     (if base < 2 \<or> base > 36 then (0, [0])
      else
        let (cs, tmp_value) = itoa_loop value base;
            cs = (if tmp_value < 0 \<and> base = 10 then cs @ [of_char CHR ''-''] else cs);
            len = length cs
        in (len, reverse_loop 0 (len - 1) (cs @ [0])))"

function utoa_loop :: "'w::len word \<Rightarrow> 'w word \<Rightarrow> u8 list" where
  "utoa_loop value base =
     (if unat base < 2 then []
      else
        let tmp_value = value;
            value = value div base;
            c = digit_table ! unat (tmp_value - value * base)
        in if value \<noteq> 0 then c # utoa_loop value base else [c])"
  by pat_completeness auto
termination
proof (relation "measure (\<lambda>(v, b). unat v)", goal_cases)
  case (2 v b t x c)
  then have "unat (v div b) \<noteq> 0" by (simp add: unat_eq_zero)
  then have "unat v \<noteq> 0" by (metis div_0 unat_div unat_0)
  moreover have "unat b \<ge> 2" using 2(1) by simp
  ultimately show ?case using 2 by (simp add: unat_div)
qed simp

definition utoa :: "u32 \<Rightarrow> int \<Rightarrow> nat \<times> u8 list" where
  "utoa value base =
     (if base < 2 \<or> base > 36 then (0, [0])
      else
        let cs = utoa_loop value (of_int base);
            len = length cs
        in (len, reverse_loop 0 (len - 1) (cs @ [0])))"

definition utoa64 :: "u64 \<Rightarrow> int \<Rightarrow> nat \<times> u8 list" where
  "utoa64 value base =
     (if base < 2 \<or> base > 36 then (0, [0])
      else if value = 0 then (1, [of_char CHR ''0'', 0])
      else
        let cs = utoa_loop value (of_int base);
            len = length cs
        in (len, reverse_loop 0 (len - 1) (cs @ [0])))"

definition itoa64 :: "u64 \<Rightarrow> int \<Rightarrow> nat \<times> u8 list" where
  "itoa64 value base =
     (if sint value < 0 then
        let (len, buf) = utoa64 (- value) base
        in (len + 1, of_char CHR ''-'' # buf)
      else utoa64 value base)"


section \<open>Reference printing\<close>

text \<open>The digits of a number, least significant first, and its text in a base.\<close>

function nat_digits :: "nat \<Rightarrow> nat \<Rightarrow> u8 list" where
  "nat_digits b n = digit_table ! (n mod b) # (if 2 \<le> b \<and> n div b \<noteq> 0 then nat_digits b (n div b) else [])"
  by pat_completeness auto
termination
proof (relation "measure snd", goal_cases)
  case (2 b n)
  then have "0 < n" by (cases n) auto
  then show ?case using 2 by simp
qed simp

declare nat_digits.simps [simp del]

definition show_nat :: "nat \<Rightarrow> nat \<Rightarrow> u8 list" where
  "show_nat b n = rev (nat_digits b n)"

definition show_int :: "int \<Rightarrow> u8 list" where
  "show_int k = (if k < 0 then of_char CHR ''-'' # show_nat 10 (nat (- k)) else show_nat 10 (nat k))"

text \<open>Reading a text back: the value of a digit, and of a text most significant digit first.\<close>

definition digit_value :: "u8 \<Rightarrow> nat" where
  "digit_value c = (if c \<le> 0x39 then unat c - 0x30 else unat c - 0x57)"

definition read_nat :: "nat \<Rightarrow> u8 list \<Rightarrow> nat" where
  "read_nat b ds = foldl (\<lambda>a d. a * b + digit_value d) 0 ds"

lemma length_digit_table: "length digit_table = 36"
  by (simp add: digit_table_def)

lemma digit_table_value: "d < 36 \<Longrightarrow> digit_value (digit_table ! d) = d"
proof -
  have "map digit_value digit_table = [0..<36]"
    by (simp add: digit_table_def digit_value_def upt_conv_Cons)
  moreover assume "d < 36"
  ultimately show ?thesis
    using nth_map [of d digit_table digit_value] by (simp add: length_digit_table)
qed

text \<open>The symmetric table holds the digit of the absolute value of the remainder.\<close>

lemma signed_digit_table_abs:
  assumes "\<bar>r\<bar> < 36"
  shows "signed_digit_table ! nat (35 + r) = digit_table ! nat \<bar>r\<bar>"
proof -
  have t: "signed_digit_table = rev (tl digit_table) @ digit_table"
    by (simp add: signed_digit_table_def digit_table_def)
  have l: "length (tl digit_table) = 35" by (simp add: length_digit_table)
  show ?thesis
  proof (cases "r < 0")
    case True
    then have "nat (35 + r) < 35" "35 - Suc (nat (35 + r)) = nat (- r) - 1" "nat (- r) \<noteq> 0" "nat (- r) < 36"
      using assms by (auto simp: nat_diff_distrib)
    then show ?thesis
      using True by (simp add: t nth_append l rev_nth nth_tl length_digit_table)
  next
    case False
    then have "nat (35 + r) = 35 + nat r" by simp
    then show ?thesis using False l by (simp add: t nth_append length_digit_table)
  qed
qed

lemma digits_value:
  assumes "2 \<le> b" "b \<le> 36"
  shows "foldr (\<lambda>d a. a * b + digit_value d) (nat_digits b n) 0 = n"
proof (induction n rule: less_induct)
  case (less n)
  have d: "digit_value (digit_table ! (n mod b)) = n mod b"
    using assms by (intro digit_table_value less_le_trans [OF mod_less_divisor]) simp_all
  show ?case
  proof (cases "n div b = 0")
    case True
    then show ?thesis using assms d by (simp add: nat_digits.simps [of b n] div_eq_0_iff)
  next
    case False
    then have "n div b < n" using assms by (metis One_nat_def Suc_le_lessD div_0 div_less_dividend gr0I numeral_2_eq_2)
    from less.IH [OF this] show ?thesis
      using assms False d by (subst nat_digits.simps) simp
  qed
qed

text \<open>Printing loses nothing.\<close>

lemma read_show_nat: "2 \<le> b \<Longrightarrow> b \<le> 36 \<Longrightarrow> read_nat b (show_nat b n) = n"
  by (simp add: read_nat_def show_nat_def foldl_conv_foldr digits_value)


section \<open>The printers agree with the reference\<close>

declare reverse_loop.simps [simp del] itoa_loop.simps [simp del] utoa_loop.simps [simp del]

lemma reverse_loop_nth:
  "hi < length xs \<Longrightarrow> length (reverse_loop lo hi xs) = length xs
    \<and> (\<forall>k < length xs. reverse_loop lo hi xs ! k = (if lo \<le> k \<and> k \<le> hi then xs ! (lo + hi - k) else xs ! k))"
proof (induction lo hi xs rule: reverse_loop.induct)
  case (1 lo hi xs)
  show ?case
  proof (cases "lo < hi")
    case False
    have "xs ! (lo + hi - k) = xs ! k" if "lo \<le> k" "k \<le> hi" for k
    proof -
      have "lo + hi - k = k" using that False by simp
      then show ?thesis by simp
    qed
    then show ?thesis using False by (auto simp: reverse_loop.simps [of lo hi xs])
  next
    case True
    let ?ys = "xs[hi := xs ! lo, lo := xs ! hi]"
    have r: "reverse_loop lo hi xs = reverse_loop (lo + 1) (hi - 1) ?ys"
      using True by (subst reverse_loop.simps) (simp add: Let_def)
    have IH: "length (reverse_loop (lo + 1) (hi - 1) ?ys) = length ?ys
      \<and> (\<forall>k < length ?ys. reverse_loop (lo + 1) (hi - 1) ?ys ! k =
          (if lo + 1 \<le> k \<and> k \<le> hi - 1 then ?ys ! (lo + 1 + (hi - 1) - k) else ?ys ! k))"
      using True 1(2) by (intro 1(1)) auto
    have "reverse_loop lo hi xs ! k = (if lo \<le> k \<and> k \<le> hi then xs ! (lo + hi - k) else xs ! k)"
      if k: "k < length xs" for k
    proof -
      have s: "lo + 1 + (hi - 1) - k = lo + hi - k" using True by simp
      consider "lo + 1 \<le> k \<and> k \<le> hi - 1" | "k = lo" | "k = hi" | "k < lo \<or> hi < k"
        using True by linarith
      then show ?thesis
      proof cases
        case 1
        then have "lo + hi - k \<noteq> lo" "lo + hi - k \<noteq> hi" "lo \<le> k" "k \<le> hi" using True by auto
        then show ?thesis using 1 IH k True s by (simp add: r nth_list_update)
      qed (use IH k True 1(2) s in \<open>auto simp: r nth_list_update\<close>)
    qed
    then show ?thesis using IH r by simp
  qed
qed

text \<open>Reversing in place is list reversal, and leaves the terminator.\<close>

lemma reverse_loop_rev:
  assumes "cs \<noteq> []"
  shows "reverse_loop 0 (length cs - 1) (cs @ [z]) = rev cs @ [z]"
proof (rule nth_equalityI)
  have h: "length cs - 1 < length (cs @ [z])" using assms by simp
  note r = reverse_loop_nth [OF h, of 0]
  show "length (reverse_loop 0 (length cs - 1) (cs @ [z])) = length (rev cs @ [z])" using r by simp
  fix k assume "k < length (reverse_loop 0 (length cs - 1) (cs @ [z]))"
  then show "reverse_loop 0 (length cs - 1) (cs @ [z]) ! k = (rev cs @ [z]) ! k"
    using r assms by (auto simp: nth_append rev_nth less_Suc_eq)
qed

lemma utoa_loop_digits: "2 \<le> unat base \<Longrightarrow> utoa_loop v base = nat_digits (unat base) (unat v)"
proof (induction v base rule: utoa_loop.induct)
  case (1 v base)
  have "unat (v - v div base * base) = unat v mod unat base"
    by (simp add: minus_div_mult_eq_mod unat_mod)
  moreover have "v div base = 0 \<longleftrightarrow> unat v div unat base = 0"
    by (metis unat_div unat_eq_zero)
  ultimately show ?case
    using 1 by (subst utoa_loop.simps, subst nat_digits.simps) (simp add: Let_def unat_div)
qed

lemma itoa_loop_digits:
  "2 \<le> base \<Longrightarrow> base \<le> 36 \<Longrightarrow> fst (itoa_loop v base) = nat_digits (nat base) (nat \<bar>v\<bar>)
    \<and> (snd (itoa_loop v base) < 0 \<longleftrightarrow> v < 0)"
proof (induction v base rule: itoa_loop.induct)
  case (1 v base)
  let ?q = "v sdiv base"
  have q: "\<bar>?q\<bar> = \<bar>v\<bar> div base" using 1(2) by (simp add: abs_sdiv)
  have m: "\<bar>v - ?q * base\<bar> = \<bar>v\<bar> mod base"
    using 1(2) by (cases "v = 0") (simp_all add: minus_sdiv_mult_eq_smod smod_int_alt_def abs_mult abs_sgn_eq)
  have "\<bar>v\<bar> mod base < base" using 1(2) by (intro pos_mod_bound) simp
  then have r: "\<bar>v - ?q * base\<bar> < 36" using m 1(3) by linarith
  have d: "signed_digit_table ! nat (35 + (v - ?q * base)) = digit_table ! (nat \<bar>v\<bar> mod nat base)"
    using signed_digit_table_abs [OF r] 1(2) unfolding m by (simp add: nat_mod_distrib)
  have n: "nat \<bar>v\<bar> div nat base = nat \<bar>?q\<bar>"
    using 1(2) by (simp add: q nat_div_distrib)
  show ?case
  proof (cases "?q = 0")
    case True
    then show ?thesis using 1(2) d n
      by (subst itoa_loop.simps, subst (2) itoa_loop.simps, subst nat_digits.simps) (simp add: Let_def)
  next
    case False
    have "sgn ?q = sgn v" using sgn_sdiv_eq_sgn_mult [OF False] 1(2) by (simp add: sgn_mult)
    then have neg: "?q < 0 \<longleftrightarrow> v < 0" by (metis sgn_less)
    have "fst (itoa_loop ?q base) = nat_digits (nat base) (nat \<bar>?q\<bar>) \<and> (snd (itoa_loop ?q base) < 0 \<longleftrightarrow> ?q < 0)"
      using 1 False by auto
    moreover have "2 \<le> nat base" using 1(2) by simp
    ultimately show ?thesis using 1(2) d n False neg
      by (subst itoa_loop.simps, subst (2) itoa_loop.simps, subst nat_digits.simps)
        (simp add: Let_def split_beta)
  qed
qed

lemma nat_digits_not_Nil [simp]: "nat_digits b n \<noteq> []"
  by (subst nat_digits.simps) simp

lemma digit_table_not_minus: "d < 36 \<Longrightarrow> digit_table ! d \<noteq> of_char CHR ''-''"
proof -
  have "of_char CHR ''-'' \<notin> set digit_table" by (simp add: digit_table_def)
  moreover assume "d < 36"
  then have "digit_table ! d \<in> set digit_table" by (intro nth_mem) (simp add: length_digit_table)
  ultimately show ?thesis by metis
qed

lemma digit_table_0: "digit_table ! 0 = of_char CHR ''0''"
  by (simp add: digit_table_def)

lemma nat_digits_last:
  assumes "2 \<le> b" "b \<le> 36"
  shows "last (nat_digits b n) \<noteq> of_char CHR ''-'' \<and> (last (nat_digits b n) = of_char CHR ''0'' \<longrightarrow> n = 0)"
proof (induction n rule: less_induct)
  case (less n)
  show ?case
  proof (cases "n div b = 0")
    case True
    then have n: "n < b" using assms by (simp add: div_eq_0_iff)
    have "n = 0" if "digit_table ! n = of_char CHR ''0''"
      using digit_table_value [of n] digit_table_value [of 0] that n assms by (simp add: digit_table_0)
    then show ?thesis
      using True n assms digit_table_not_minus [of n] by (subst (1 2) nat_digits.simps) auto
  next
    case False
    then have "0 < n" by (cases n) auto
    then have "n div b < n" using assms by simp
    from less.IH [OF this] show ?thesis
      using assms False by (subst (1 2) nat_digits.simps) (simp del: div_eq_0_iff)
  qed
qed

lemma nat_digits_length: "2 \<le> b \<Longrightarrow> n < b ^ Suc k \<Longrightarrow> length (nat_digits b n) \<le> Suc k"
proof (induction k arbitrary: n)
  case 0
  then show ?case by (subst nat_digits.simps) simp
next
  case (Suc k)
  have "n div b < b ^ Suc k"
    using Suc.prems by (simp add: less_mult_imp_div_less mult.commute)
  then show ?case using Suc.IH [of "n div b"] Suc.prems(1) by (subst nat_digits.simps) simp
qed

lemma show_nat_length: "2 \<le> b \<Longrightarrow> n < b ^ Suc k \<Longrightarrow> length (show_nat b n) \<le> Suc k"
  by (simp add: show_nat_def nat_digits_length)

lemma show_nat_hd:
  assumes "2 \<le> b" "b \<le> 36"
  shows "show_nat b n \<noteq> []" "hd (show_nat b n) \<noteq> of_char CHR ''-''" "hd (show_nat b n) = of_char CHR ''0'' \<Longrightarrow> n = 0"
  using nat_digits_last [OF assms, of n] by (simp_all add: show_nat_def hd_rev)

lemma utoa_show:
  assumes "2 \<le> base" "base \<le> 36"
  shows "utoa v base = (length (show_nat (nat base) (unat v)), show_nat (nat base) (unat v) @ [0])"
proof -
  have u: "unat (of_int base :: u32) = nat base"
    using assms by (simp add: unsigned_of_int take_bit_eq_mod) 
  have "utoa_loop v (of_int base) = nat_digits (nat base) (unat v)"
    using assms utoa_loop_digits [of "of_int base" v] by (simp add: u)
  then show ?thesis
    using assms reverse_loop_rev [of "nat_digits (nat base) (unat v)" 0] by (simp add: utoa_def show_nat_def Let_def)
qed

lemma utoa64_show:
  assumes "2 \<le> base" "base \<le> 36"
  shows "utoa64 v base = (length (show_nat (nat base) (unat v)), show_nat (nat base) (unat v) @ [0])"
proof (cases "v = 0")
  case True
  have "nat_digits (nat base) 0 = [of_char CHR ''0'']" by (subst nat_digits.simps) (simp add: digit_table_0)
  then show ?thesis using True assms by (simp add: utoa64_def show_nat_def)
next
  case False
  have u: "unat (of_int base :: u64) = nat base"
    using assms by (simp add: unsigned_of_int take_bit_eq_mod)
  have "utoa_loop v (of_int base) = nat_digits (nat base) (unat v)"
    using assms utoa_loop_digits [of "of_int base" v] by (simp add: u)
  then show ?thesis
    using assms False reverse_loop_rev [of "nat_digits (nat base) (unat v)" 0] by (simp add: utoa64_def show_nat_def Let_def)
qed

lemma itoa_show: "itoa v 10 = (length (show_int v), show_int v @ [0])"
proof -
  obtain cs t where l: "itoa_loop v 10 = (cs, t)" by fastforce
  then have cs: "cs = nat_digits 10 (nat \<bar>v\<bar>)" and t: "t < 0 \<longleftrightarrow> v < 0"
    using itoa_loop_digits [of 10 v] by simp_all
  have "(if t < 0 then cs @ [of_char CHR ''-''] else cs) = rev (show_int v)"
    using t by (simp add: cs show_int_def show_nat_def)
  moreover have "show_int v \<noteq> []" by (simp add: show_int_def show_nat_def)
  ultimately show ?thesis
    using reverse_loop_rev [of "rev (show_int v)" 0] by (simp add: itoa_def l Let_def)
qed

lemma sint_u64_bounds: "- 9223372036854775808 \<le> sint (v :: u64)" "sint v < 9223372036854775808"
  using sint_greater_eq [of v] sint_less [of v] by simp_all

lemma unat_of_sint: "0 \<le> k \<Longrightarrow> k \<le> 9223372036854775808 \<Longrightarrow> unat (of_int k :: u64) = nat k"
  by (simp add: unsigned_of_int take_bit_eq_mod)

lemma itoa64_show: "itoa64 v 10 = (length (show_int (sint v)), show_int (sint v) @ [0])"
proof (cases "sint v < 0")
  case True
  have "of_int (- sint v) = - v" by simp
  then have "unat (- v) = nat (- sint v)"
    using unat_of_sint [of "- sint v"] True sint_u64_bounds [of v] by simp
  then show ?thesis
    using True by (simp add: itoa64_def utoa64_show show_int_def)
next
  case False
  have "of_int (sint v) = v" by simp
  then have "unat v = nat (sint v)"
    using unat_of_sint [of "sint v"] False sint_u64_bounds [of v] by simp
  then show ?thesis using False by (simp add: itoa64_def utoa64_show show_int_def)
qed

text \<open>
  in every base from 2 to 36, \<^verbatim>\<open>utoa\<close> and \<^verbatim>\<open>utoa64\<close> return the length of a
  terminated text that reads back as the number and has no leading zero (but for
  the number 0); in bases 10 and 16 text and terminator fit the 32 bytes of the
  buffer of \<^verbatim>\<open>kprintf\<close>.
\<close>

theorem utoa_correct:
  fixes v :: u32 and w :: u64 and base :: int
  assumes "2 \<le> base" and "base \<le> 36"
  shows "\<exists>t t'. utoa v base = (length t, t @ [0]) \<and> utoa64 w base = (length t', t' @ [0])
    \<and> read_nat (nat base) t = unat v \<and> read_nat (nat base) t' = unat w
    \<and> t \<noteq> [] \<and> (hd t = of_char CHR ''0'' \<longrightarrow> v = 0) \<and> t' \<noteq> [] \<and> (hd t' = of_char CHR ''0'' \<longrightarrow> w = 0)
    \<and> (base \<in> {10, 16} \<longrightarrow> length t < 32 \<and> length t' < 32)"
proof (intro exI conjI impI)
  have b: "2 \<le> nat base" "nat base \<le> 36" using assms by auto
  show "utoa v base = (length (show_nat (nat base) (unat v)), show_nat (nat base) (unat v) @ [0])"
    and "utoa64 w base = (length (show_nat (nat base) (unat w)), show_nat (nat base) (unat w) @ [0])"
    by (rule utoa_show [OF assms], rule utoa64_show [OF assms])
  show "read_nat (nat base) (show_nat (nat base) (unat v)) = unat v"
    and "read_nat (nat base) (show_nat (nat base) (unat w)) = unat w"
    using read_show_nat [OF b] by simp_all
  show "show_nat (nat base) (unat v) \<noteq> []" "show_nat (nat base) (unat w) \<noteq> []"
    using show_nat_hd [OF b] by simp_all
  show "v = 0" if "hd (show_nat (nat base) (unat v)) = of_char CHR ''0''"
    using show_nat_hd(3) [OF b that] by (simp add: unat_eq_zero)
  show "w = 0" if "hd (show_nat (nat base) (unat w)) = of_char CHR ''0''"
    using show_nat_hd(3) [OF b that] by (simp add: unat_eq_zero)
  assume "base \<in> {10, 16}"
  then have "10 \<le> nat base" by auto
  then have "(10 :: nat) ^ Suc 20 \<le> nat base ^ Suc 20" by (rule power_mono) simp
  moreover have "unat v < 10 ^ Suc 20" "unat w < 10 ^ Suc 20"
  proof -
    have "unat v < 2 ^ 32" "unat w < 2 ^ 64"
      using unsigned_less [of v] unsigned_less [of w] by simp_all
    then show "unat v < 10 ^ Suc 20" "unat w < 10 ^ Suc 20" by simp_all
  qed
  ultimately have "unat v < nat base ^ Suc 20" "unat w < nat base ^ Suc 20" by linarith+
  then have "length (show_nat (nat base) (unat v)) \<le> Suc 20" "length (show_nat (nat base) (unat w)) \<le> Suc 20"
    using show_nat_length [OF b(1)] by blast+
  then show "length (show_nat (nat base) (unat v)) < 32" "length (show_nat (nat base) (unat w)) < 32"
    by simp_all
qed

theorem utoa_correct_witness:
  "\<exists>t t'. utoa 0xBEEF 16 = (length t, t @ [0]) \<and> utoa64 0 16 = (length t', t' @ [0])
     \<and> read_nat 16 t = 0xBEEF \<and> length t < 32"
  using utoa_correct [of 16 "0xBEEF" 0] by force

text \<open>Reading a signed decimal text back.\<close>

definition read_int :: "u8 list \<Rightarrow> int" where
  "read_int t = (if t \<noteq> [] \<and> hd t = of_char CHR ''-'' then - int (read_nat 10 (tl t)) else int (read_nat 10 t))"

lemma read_show_int: "read_int (show_int k) = k"
  using show_nat_hd [of 10 "nat k"] read_show_nat [of 10 "nat k"] read_show_nat [of 10 "nat (- k)"]
  by (simp add: read_int_def show_int_def)

lemma show_int_length: "\<bar>k\<bar> < 10 ^ Suc 20 \<Longrightarrow> length (show_int k) \<le> 22"
proof -
  assume k: "\<bar>k\<bar> < 10 ^ Suc 20"
  then have n: "nat k < 10 ^ Suc 20" "nat (- k) < 10 ^ Suc 20" by auto
  have "length (show_nat 10 (nat k)) \<le> Suc 20" "length (show_nat 10 (nat (- k))) \<le> Suc 20"
    by (rule show_nat_length [OF _ n(1)], simp, rule show_nat_length [OF _ n(2)], simp)
  then show ?thesis by (simp add: show_int_def)
qed

text \<open>
  in base 10, \<^verbatim>\<open>itoa\<close> and \<^verbatim>\<open>itoa64\<close> return the length of a terminated text that
  reads back as the signed number, the most negative ones included, and the text
  and its terminator fit the 32 bytes of the buffer of \<^verbatim>\<open>kprintf\<close>.
\<close>

theorem itoa_correct:
  fixes v :: u32 and w :: u64
  shows "\<exists>t t'. itoa (sint v) 10 = (length t, t @ [0]) \<and> itoa64 w 10 = (length t', t' @ [0])
    \<and> read_int t = sint v \<and> read_int t' = sint w \<and> length t < 32 \<and> length t' < 32"
proof (intro exI conjI)
  show "itoa (sint v) 10 = (length (show_int (sint v)), show_int (sint v) @ [0])" by (rule itoa_show)
  show "itoa64 w 10 = (length (show_int (sint w)), show_int (sint w) @ [0])" by (rule itoa64_show)
  show "read_int (show_int (sint v)) = sint v" "read_int (show_int (sint w)) = sint w"
    by (rule read_show_int)+
  have "\<bar>sint v\<bar> < 10 ^ Suc 20" using sint_greater_eq [of v] sint_less [of v] by simp
  moreover have "\<bar>sint w\<bar> < 10 ^ Suc 20" using sint_u64_bounds [of w] by simp
  ultimately show "length (show_int (sint v)) < 32" "length (show_int (sint w)) < 32"
    using show_int_length by fastforce+
qed


section \<open>kprintf\<close>

text \<open>The calls of the console that a conversion makes, in order.\<close>

datatype console_call = Putchar u8 | Write "u8 list"

fun run_call :: "ops_table \<Rightarrow> console_call \<Rightarrow> console_st \<Rightarrow> console_st option" where
  "run_call ops (Putchar c) s = console_putchar ops c s"
| "run_call ops (Write str) s = console_write ops str s"

fun run_calls :: "ops_table \<Rightarrow> console_call list \<Rightarrow> console_st \<Rightarrow> console_st option" where
  "run_calls ops [] s = Some s"
| "run_calls ops (c # cs) s = Option.bind (run_call ops c s) (run_calls ops cs)"

text \<open>The next argument word, and two words as a 64-bit value, the low one first.\<close>

fun va_arg32 :: "u32 list \<Rightarrow> (u32 \<times> u32 list) option" where
  "va_arg32 (a # args) = Some (a, args)"
| "va_arg32 [] = None"

fun va_arg64 :: "u32 list \<Rightarrow> (u64 \<times> u32 list) option" where
  "va_arg64 (lo # hi # args) = Some (ucast lo OR push_bit 32 (ucast hi), args)"
| "va_arg64 _ = None"

datatype length_mod = NoMod | LongMod | LongLongMod

fun parse_zero :: "u8 list \<Rightarrow> bool \<times> u8 list" where
  "parse_zero (c # fmt) = (if c = of_char CHR ''0'' then (True, fmt) else (False, c # fmt))"
| "parse_zero [] = (False, [])"

fun parse_width :: "u32 \<Rightarrow> u8 list \<Rightarrow> u32 \<times> u8 list" where
  "parse_width width (c # fmt) =
     (if of_char CHR ''0'' \<le> c \<and> c \<le> of_char CHR ''9''
      then parse_width (width * 10 + (ucast c - 0x30)) fmt
      else (width, c # fmt))"
| "parse_width width [] = (width, [])"

fun parse_length :: "u8 list \<Rightarrow> length_mod \<times> u8 list" where
  "parse_length (c # d # fmt) =
     (if c = of_char CHR ''l'' then (if d = of_char CHR ''l'' then (LongLongMod, fmt) else (LongMod, d # fmt))
      else (NoMod, c # d # fmt))"
| "parse_length fmt = (NoMod, fmt)"

text \<open>The padding loop and the write shared by the numeric conversions, with the characters counted.\<close>

definition put_number :: "bool \<Rightarrow> u32 \<Rightarrow> nat \<times> u8 list \<Rightarrow> console_call list \<times> u32" where
  "put_number zero_pad width r =
     (let (len, buf) = r;
          pad = (if zero_pad \<and> sint width > int len then nat (sint width) - len else 0)
      in (replicate pad (Putchar (of_char CHR ''0'')) @ [Write (take len buf)], of_nat pad + of_nat len))"

definition conv_signed :: "length_mod \<Rightarrow> u32 list \<Rightarrow> ((nat \<times> u8 list) \<times> u32 list) option" where
  "conv_signed lm args =
     (if lm = LongLongMod then map_option (\<lambda>(v, args). (itoa64 v 10, args)) (va_arg64 args)
      else map_option (\<lambda>(v, args). (itoa (sint v) 10, args)) (va_arg32 args))"

definition conv_unsigned :: "length_mod \<Rightarrow> int \<Rightarrow> u32 list \<Rightarrow> ((nat \<times> u8 list) \<times> u32 list) option" where
  "conv_unsigned lm base args =
     (if lm = LongLongMod then map_option (\<lambda>(v, args). (utoa64 v base, args)) (va_arg64 args)
      else map_option (\<lambda>(v, args). (utoa v base, args)) (va_arg32 args))"

definition string_bytes :: "mem \<Rightarrow> addr \<Rightarrow> u8 list option" where
  "string_bytes m p =
     (if p = 0 then Some (map of_char ''(null)'')
      else map_option (\<lambda>len. map (\<lambda>i. m (index_addr p i)) [0..<unat len]) (strlen m p))"

text \<open>The switch on the conversion character.\<close>

definition convert :: "mem \<Rightarrow> bool \<Rightarrow> u32 \<Rightarrow> length_mod \<Rightarrow> u8 \<Rightarrow> u32 list \<Rightarrow>
    (console_call list \<times> u32 \<times> u32 list) option" where
  "convert m zero_pad width lm c args =
     (if c = of_char CHR ''d'' \<or> c = of_char CHR ''i'' then
        map_option (\<lambda>(r, args). let (calls, n) = put_number zero_pad width r in (calls, n, args)) (conv_signed lm args)
      else if c = of_char CHR ''u'' then
        map_option (\<lambda>(r, args). let (calls, n) = put_number zero_pad width r in (calls, n, args)) (conv_unsigned lm 10 args)
      else if c = of_char CHR ''x'' \<or> c = of_char CHR ''X'' then
        map_option (\<lambda>(r, args). let (calls, n) = put_number zero_pad width r in (calls, n, args)) (conv_unsigned lm 16 args)
      else if c = of_char CHR ''p'' then
        map_option (\<lambda>(ptr, args).
          let (len, buf) = utoa ptr 16
          in (Write (map of_char ''0x'') # replicate (8 - len) (Putchar (of_char CHR ''0'')) @ [Write (take len buf)],
              of_nat (8 - len) + of_nat len + 2, args)) (va_arg32 args)
      else if c = of_char CHR ''s'' then
        Option.bind (va_arg32 args) (\<lambda>(p, args).
          map_option (\<lambda>str. ([Write str], of_nat (length str), args)) (string_bytes m p))
      else if c = of_char CHR ''c'' then
        map_option (\<lambda>(v, args). ([Putchar (ucast v)], 1, args)) (va_arg32 args)
      else if c = of_char CHR ''%'' then Some ([Putchar (of_char CHR ''%'')], 1, args)
      else Some ([Putchar (of_char CHR ''%''), Putchar c], 2, args))"

definition parse_spec :: "u8 list \<Rightarrow> (bool \<times> u32 \<times> length_mod) \<times> u8 list" where
  "parse_spec fmt =
     (let (zero_pad, fmt) = parse_zero fmt;
          (width, fmt) = parse_width 0 fmt;
          (lm, fmt) = parse_length fmt
      in ((zero_pad, width, lm), fmt))"

lemma parse_spec_length: "length (snd (parse_spec fmt)) \<le> length fmt"
proof -
  have z: "length (snd (parse_zero fmt)) \<le> length fmt" by (cases fmt) auto
  have w: "length (snd (parse_width w fmt)) \<le> length fmt" for w fmt
    by (induction w fmt rule: parse_width.induct) auto
  have l: "length (snd (parse_length fmt)) \<le> length fmt" for fmt
    by (cases fmt rule: parse_length.cases) auto
  show ?thesis
    using le_trans [OF l le_trans [OF w z]] by (simp add: parse_spec_def split_beta Let_def)
qed

function kprintf_loop :: "ops_table \<Rightarrow> mem \<Rightarrow> u8 list \<Rightarrow> u32 list \<Rightarrow> u32 \<Rightarrow> console_st \<Rightarrow> (u32 \<times> console_st) option" where
  "kprintf_loop ops m [] args written s = None"
| "kprintf_loop ops m (c # fmt) args written s =
     (if c = 0 then Some (written, s)
      else if c = of_char CHR ''%'' then
        (case parse_spec fmt of
           (_, []) \<Rightarrow> None
         | ((zero_pad, width, lm), k # fmt') \<Rightarrow>
           Option.bind (convert m zero_pad width lm k args) (\<lambda>(calls, n, args').
             Option.bind (run_calls ops calls s) (kprintf_loop ops m fmt' args' (written + n))))
      else Option.bind (console_putchar ops c s) (kprintf_loop ops m fmt args (written + 1)))"
  by pat_completeness auto
termination
proof (relation "measure (\<lambda>(ops, m, fmt, args, written, s). length fmt)", goal_cases)
  case (2 ops m c fmt)
  then show ?case using parse_spec_length [of fmt] by (cases "parse_spec fmt") auto
qed simp_all

text \<open>\<^verbatim>\<open>kprintf\<close>; the result is an \<^verbatim>\<open>int\<close>, -1 when no display driver is set.\<close>

definition kprintf :: "ops_table \<Rightarrow> mem \<Rightarrow> u8 list \<Rightarrow> u32 list \<Rightarrow> console_st \<Rightarrow> (u32 \<times> console_st) option" where
  "kprintf ops m format args s =
     (if \<not> vga_set s then Some (- 1, s) else kprintf_loop ops m format args 0 s)"


section \<open>Formats and their text\<close>

text \<open>
  A format as a list of items: literal bytes and conversions with their
  arguments. \<open>HexPad d\<close> is \<^verbatim>\<open>%0dx\<close> and \<open>LHexPad d\<close>
  is \<^verbatim>\<open>%0dlx\<close>, with one digit of width.
\<close>

datatype item = Lit u8 | SDec u32 | UDec u32 | UDec64 u64 | Hex u32 | HexPad nat u32 | LHexPad nat u32 | Ptr u32 | Str addr | Chr u32 | Percent

fun item_format :: "item \<Rightarrow> u8 list" where
  "item_format (Lit c) = [c]"
| "item_format (SDec v) = map of_char ''%d''"
| "item_format (UDec v) = map of_char ''%u''"
| "item_format (UDec64 v) = map of_char ''%llu''"
| "item_format (Hex v) = map of_char ''%x''"
| "item_format (HexPad d v) = map of_char ''%0'' @ [of_nat (0x30 + d), of_char CHR ''x'']"
| "item_format (LHexPad d v) = map of_char ''%0'' @ [of_nat (0x30 + d), of_char CHR ''l'', of_char CHR ''x'']"
| "item_format (Ptr v) = map of_char ''%p''"
| "item_format (Str p) = map of_char ''%s''"
| "item_format (Chr v) = map of_char ''%c''"
| "item_format Percent = map of_char ''%%''"

fun item_args :: "item \<Rightarrow> u32 list" where
  "item_args (SDec v) = [v]"
| "item_args (UDec v) = [v]"
| "item_args (UDec64 v) = [ucast v, ucast (drop_bit 32 v)]"
| "item_args (Hex v) = [v]"
| "item_args (HexPad d v) = [v]"
| "item_args (LHexPad d v) = [v]"
| "item_args (Ptr v) = [v]"
| "item_args (Str p) = [p]"
| "item_args (Chr v) = [v]"
| "item_args _ = []"

definition pad_to :: "nat \<Rightarrow> u8 list \<Rightarrow> u8 list" where
  "pad_to d t = replicate (d - length t) (of_char CHR ''0'') @ t"

text \<open>The text an item stands for; \<open>str\<close> gives the strings in memory.\<close>

fun item_text :: "(addr \<Rightarrow> u8 list) \<Rightarrow> item \<Rightarrow> u8 list" where
  "item_text str (Lit c) = [c]"
| "item_text str (SDec v) = show_int (sint v)"
| "item_text str (UDec v) = show_nat 10 (unat v)"
| "item_text str (UDec64 v) = show_nat 10 (unat v)"
| "item_text str (Hex v) = show_nat 16 (unat v)"
| "item_text str (HexPad d v) = pad_to d (show_nat 16 (unat v))"
| "item_text str (LHexPad d v) = pad_to d (show_nat 16 (unat v))"
| "item_text str (Ptr v) = map of_char ''0x'' @ pad_to 8 (show_nat 16 (unat v))"
| "item_text str (Str p) = (if p = 0 then map of_char ''(null)'' else str p)"
| "item_text str (Chr v) = [ucast v]"
| "item_text str Percent = [of_char CHR ''%'']"

fun item_ok :: "mem \<Rightarrow> (addr \<Rightarrow> u8 list) \<Rightarrow> item \<Rightarrow> bool" where
  "item_ok m str (Lit c) = (c \<noteq> 0 \<and> c \<noteq> of_char CHR ''%'')"
| "item_ok m str (HexPad d v) = (1 \<le> d \<and> d \<le> 9)"
| "item_ok m str (LHexPad d v) = (1 \<le> d \<and> d \<le> 9)"
| "item_ok m str (Str p) = (p = 0 \<or> c_string m p (str p))"
| "item_ok m str _ = True"

text \<open>The calls of the console for an item.\<close>

fun item_calls :: "(addr \<Rightarrow> u8 list) \<Rightarrow> item \<Rightarrow> console_call list" where
  "item_calls str (Lit c) = [Putchar c]"
| "item_calls str (HexPad d v) =
     replicate (d - length (show_nat 16 (unat v))) (Putchar (of_char CHR ''0'')) @ [Write (show_nat 16 (unat v))]"
| "item_calls str (LHexPad d v) =
     replicate (d - length (show_nat 16 (unat v))) (Putchar (of_char CHR ''0'')) @ [Write (show_nat 16 (unat v))]"
| "item_calls str (Ptr v) = Write (map of_char ''0x'') #
     replicate (8 - length (show_nat 16 (unat v))) (Putchar (of_char CHR ''0'')) @ [Write (show_nat 16 (unat v))]"
| "item_calls str (Chr v) = [Putchar (ucast v)]"
| "item_calls str Percent = [Putchar (of_char CHR ''%'')]"
| "item_calls str i = [Write (item_text str i)]"

fun call_text :: "console_call \<Rightarrow> u8 list" where
  "call_text (Putchar c) = [c]"
| "call_text (Write t) = t"

text \<open>What the serial line gets: a carriage return is added inside written strings only.\<close>

fun call_line :: "console_call \<Rightarrow> u8 list" where
  "call_line (Putchar c) = [c]"
| "call_line (Write t) = crlf t"

lemma calls_text: "concat (map call_text (item_calls str i)) = item_text str i"
proof -
  have "concat (replicate n [c]) = replicate n c" for n and c :: u8 by (induction n) simp_all
  then show ?thesis by (cases i) (simp_all add: pad_to_def map_replicate)
qed

lemma string_bytes_c_string: "c_string m p xs \<Longrightarrow> p \<noteq> 0 \<Longrightarrow> string_bytes m p = Some xs"
proof -
  assume c: "c_string m p xs" "p \<noteq> 0"
  then have "length xs < 4294967296" by (simp add: c_string_def)
  then have "unat (of_nat (length xs) :: u32) = length xs" by (simp add: unsigned_of_nat take_bit_eq_mod)
  moreover have "map (\<lambda>i. m (index_addr p i)) [0..<length xs] = xs"
    using c by (intro nth_equalityI) (simp_all add: c_string_def)
  ultimately show ?thesis using c by (simp add: string_bytes_def strlen_c_string)
qed

lemma ucast_join: "ucast (ucast v :: u32) OR push_bit 32 (ucast (ucast (drop_bit 32 v) :: u32)) = (v :: u64)"
  by (rule bit_word_eqI) (auto simp: bit_simps)

declare kprintf_loop.simps [simp del]

lemma kprintf_loop_literal:
  "c \<noteq> 0 \<Longrightarrow> c \<noteq> of_char CHR ''%'' \<Longrightarrow> kprintf_loop ops m (c # fmt) args w s =
     Option.bind (console_putchar ops c s) (kprintf_loop ops m fmt args (w + 1))"
  by (simp add: kprintf_loop.simps)

lemma kprintf_loop_conversion:
  assumes "parse_spec rest = ((z, wd, lm), k # fmt)" and "convert m z wd lm k args = Some (calls, n, args')"
  shows "kprintf_loop ops m (of_char CHR ''%'' # rest) args w s =
    Option.bind (run_calls ops calls s) (kprintf_loop ops m fmt args' (w + n))"
  using assms by (simp add: kprintf_loop.simps)

lemma put_number_plain: "put_number False wd (length t, t @ [0]) = ([Write t], of_nat (length t))"
  by (simp add: put_number_def)

lemma put_number_padded:
  assumes "d \<le> 9"
  shows "put_number True (of_nat d) (length t, t @ [0]) =
    (replicate (d - length t) (Putchar (of_char CHR ''0'')) @ [Write t], of_nat (length (pad_to d t)))"
proof -
  have "sint (of_nat d :: u32) = int d"
    using assms by (simp add: signed_of_nat signed_take_bit_int_eq_self)
  then show ?thesis by (auto simp: put_number_def pad_to_def)
qed

lemma hexpad_spec:
  assumes "1 \<le> d" "d \<le> 9"
  shows "parse_spec (of_char CHR ''0'' # of_nat (0x30 + d) # of_char CHR ''x'' # fmt) =
    ((True, of_nat d, NoMod), of_char CHR ''x'' # fmt)"
    "parse_spec (of_char CHR ''0'' # of_nat (0x30 + d) # of_char CHR ''l'' # of_char CHR ''x'' # fmt) =
    ((True, of_nat d, LongMod), of_char CHR ''x'' # fmt)"
proof -
  have "d \<in> {1, 2, 3, 4, 5, 6, 7, 8, 9}" using assms by auto
  moreover have "parse_length (of_char CHR ''x'' # fmt) = (NoMod, of_char CHR ''x'' # fmt)" for fmt
    by (cases fmt) simp_all
  ultimately show "parse_spec (of_char CHR ''0'' # of_nat (0x30 + d) # of_char CHR ''x'' # fmt) =
      ((True, of_nat d, NoMod), of_char CHR ''x'' # fmt)"
    "parse_spec (of_char CHR ''0'' # of_nat (0x30 + d) # of_char CHR ''l'' # of_char CHR ''x'' # fmt) =
      ((True, of_nat d, LongMod), of_char CHR ''x'' # fmt)"
    by (auto simp: parse_spec_def)
qed

lemma plain_spec:
  assumes "c \<in> {of_char CHR ''d'', of_char CHR ''u'', of_char CHR ''x'', of_char CHR ''p'', of_char CHR ''s'',
    of_char CHR ''c'', of_char CHR ''%''}"
  shows "parse_spec (c # fmt) = ((False, 0, NoMod), c # fmt)"
proof -
  have "c \<noteq> of_char CHR ''0''" "\<not> (of_char CHR ''0'' \<le> c \<and> c \<le> of_char CHR ''9'')" "c \<noteq> of_char CHR ''l''"
    using assms by auto
  moreover have "parse_length (c # fmt) = (NoMod, c # fmt)" using calculation by (cases fmt) simp_all
  ultimately show ?thesis by (auto simp: parse_spec_def)
qed

text \<open>One item of the format: its calls are made and its text is counted.\<close>

lemma kprintf_loop_item:
  assumes "item_ok m str i"
  shows "kprintf_loop ops m (item_format i @ fmt) (item_args i @ args) w s =
    Option.bind (run_calls ops (item_calls str i) s) (kprintf_loop ops m fmt args (w + of_nat (length (item_text str i))))"
proof -
  let ?prints = "\<lambda>rest. kprintf_loop ops m (of_char CHR ''%'' # rest) (item_args i @ args) w s =
    Option.bind (run_calls ops (item_calls str i) s) (kprintf_loop ops m fmt args (w + of_nat (length (item_text str i))))"
  have conv: "?prints rest"
    if "parse_spec rest = ((z, wd, lm), k # fmt)"
      "convert m z wd lm k (item_args i @ args) = Some (item_calls str i, of_nat (length (item_text str i)), args)"
    for rest z wd lm k
    by (rule kprintf_loop_conversion [OF that])
  note number = convert_def conv_signed_def conv_unsigned_def itoa_show utoa_show utoa64_show put_number_plain
  show ?thesis
  proof (cases i)
    case (Lit c)
    then show ?thesis using assms by (simp add: kprintf_loop_literal)
  next
    case (SDec v)
    have "?prints (of_char CHR ''d'' # fmt)" by (rule conv [OF plain_spec]) (simp_all add: SDec number)
    then show ?thesis by (simp add: SDec)
  next
    case (UDec v)
    have "?prints (of_char CHR ''u'' # fmt)" by (rule conv [OF plain_spec]) (simp_all add: UDec number)
    then show ?thesis by (simp add: UDec)
  next
    case (UDec64 v)
    have spec: "parse_spec (of_char CHR ''l'' # of_char CHR ''l'' # of_char CHR ''u'' # fmt) =
        ((False, 0, LongLongMod), of_char CHR ''u'' # fmt)"
      by (simp add: parse_spec_def)
    have "?prints (of_char CHR ''l'' # of_char CHR ''l'' # of_char CHR ''u'' # fmt)"
      by (rule conv [OF spec]) (simp add: UDec64 number ucast_join)
    then show ?thesis by (simp add: UDec64)
  next
    case (Hex v)
    have "?prints (of_char CHR ''x'' # fmt)" by (rule conv [OF plain_spec]) (simp_all add: Hex number)
    then show ?thesis by (simp add: Hex)
  next
    case (HexPad d v)
    then have d: "1 \<le> d" "d \<le> 9" using assms by simp_all
    have "?prints (of_char CHR ''0'' # of_nat (0x30 + d) # of_char CHR ''x'' # fmt)"
      by (rule conv [OF hexpad_spec(1) [OF d]]) (simp add: HexPad number put_number_padded [OF d(2)])
    then show ?thesis by (simp add: HexPad)
  next
    case (LHexPad d v)
    then have d: "1 \<le> d" "d \<le> 9" using assms by simp_all
    have "?prints (of_char CHR ''0'' # of_nat (0x30 + d) # of_char CHR ''l'' # of_char CHR ''x'' # fmt)"
      by (rule conv [OF hexpad_spec(2) [OF d]]) (simp add: LHexPad number put_number_padded [OF d(2)])
    then show ?thesis by (simp add: LHexPad)
  next
    case (Ptr v)
    have "?prints (of_char CHR ''p'' # fmt)" by (rule conv [OF plain_spec]) (simp_all add: Ptr number pad_to_def)
    then show ?thesis by (simp add: Ptr)
  next
    case (Str p)
    have "string_bytes m p = Some (item_text str i)"
      using assms Str string_bytes_c_string [of m p "str p"] by (cases "p = 0") (simp_all add: string_bytes_def)
    then have "?prints (of_char CHR ''s'' # fmt)" by (intro conv [OF plain_spec]) (simp_all add: Str convert_def)
    then show ?thesis by (simp add: Str)
  next
    case (Chr v)
    have "?prints (of_char CHR ''c'' # fmt)" by (rule conv [OF plain_spec]) (simp_all add: Chr convert_def)
    then show ?thesis by (simp add: Chr)
  next
    case Percent
    have "?prints (of_char CHR ''%'' # fmt)" by (rule conv [OF plain_spec]) (simp_all add: Percent convert_def)
    then show ?thesis by (simp add: Percent)
  qed
qed

definition format_of :: "item list \<Rightarrow> u8 list" where
  "format_of js = concat (map item_format js) @ [0]"

lemma run_calls_append: "run_calls ops (cs @ ds) s = Option.bind (run_calls ops cs s) (run_calls ops ds)"
proof (induction cs arbitrary: s)
  case (Cons c cs)
  then show ?case by (cases "run_call ops c s") simp_all
qed simp

lemma kprintf_loop_items:
  "\<forall>i \<in> set js. item_ok m str i \<Longrightarrow> kprintf_loop ops m (format_of js) (concat (map item_args js)) w s =
     map_option (\<lambda>s'. (w + of_nat (length (concat (map (item_text str) js))), s'))
       (run_calls ops (concat (map (item_calls str) js)) s)"
proof (induction js arbitrary: w s)
  case Nil
  then show ?case by (simp add: format_of_def kprintf_loop.simps)
next
  case (Cons i js)
  have f: "format_of (i # js) = item_format i @ format_of js" by (simp add: format_of_def)
  have ok: "item_ok m str i" using Cons.prems by simp
  show ?case
    using kprintf_loop_item [OF ok, of ops "format_of js" "concat (map item_args js)" w s] Cons.IH Cons.prems
    by (cases "run_calls ops (item_calls str i) s") (simp_all add: f run_calls_append add.assoc)
qed

lemma shows_and_sends_trans:
  "shows_and_sends va sa t l s s' \<Longrightarrow> shows_and_sends va sa t' l' s' s'' \<Longrightarrow>
     shows_and_sends va sa (t @ t') (l @ l') s s''"
  by (simp add: shows_and_sends_def)

lemma run_call_both:
  assumes "console_ready va sa s" "serial_line_ready s"
  shows "\<exists>s'. run_call (kernel_backends va sa) c s = Some s' \<and> shows_and_sends va sa (call_text c) (call_line c) s s'"
  using console_putchar_both [OF assms] console_write_both [OF assms] by (cases c) simp_all

lemma run_calls_both:
  "console_ready va sa s \<Longrightarrow> serial_line_ready s \<Longrightarrow>
     \<exists>s'. run_calls (kernel_backends va sa) cs s = Some s'
       \<and> shows_and_sends va sa (concat (map call_text cs)) (concat (map call_line cs)) s s'"
proof (induction cs arbitrary: s)
  case Nil
  then show ?case by (simp add: shows_and_sends_def)
next
  case (Cons c cs)
  obtain s' where s': "run_call (kernel_backends va sa) c s = Some s'"
      "shows_and_sends va sa (call_text c) (call_line c) s s'"
    using run_call_both [OF Cons.prems] by blast
  then have "console_ready va sa s'" "serial_line_ready s'"
    using Cons.prems(2) by (simp_all add: shows_and_sends_def serial_line_ready_def)
  from Cons.IH [OF this] s' show ?case
    by (auto intro: shows_and_sends_trans)
qed

lemma items_call_text: "concat (map call_text (concat (map (item_calls str) js))) = concat (map (item_text str) js)"
  by (induction js) (simp_all add: calls_text)

lemma kprintf_both:
  assumes "console_ready va sa s" and "serial_line_ready s" and "\<forall>i \<in> set js. item_ok m str i"
  shows "\<exists>s'. kprintf (kernel_backends va sa) m (format_of js) (concat (map item_args js)) s
      = Some (of_nat (length (concat (map (item_text str) js))), s')
    \<and> shows_and_sends va sa (concat (map (item_text str) js)) (concat (map call_line (concat (map (item_calls str) js)))) s s'"
proof -
  have "vga_set s" using assms(1) by (simp add: console_ready_def)
  then show ?thesis
    using run_calls_both [OF assms(1,2), of "concat (map (item_calls str) js)"] assms(3)
    by (auto simp: kprintf_def kprintf_loop_items items_call_text)
qed

text \<open>
  C24: on the kernel's console, with a serial line that keeps accepting bytes,
  \<^verbatim>\<open>kprintf\<close> of any format of literals and the conversions \<^verbatim>\<open>%d %u %llu %x %0Nx %0Nlx %p %s
  %c %%\<close> with matching arguments returns the length of the text the format stands
  for, shows that text on the screen, and sends it over the serial line call by
  call: strings and numbers with carriage returns added, single characters of
  the format as they are (a line feed in the format goes out bare).
\<close>

theorem kprintf_correct:
  assumes "console_ready va sa s" and "serial_line_ready s"
    and "\<forall>i \<in> set js. item_ok m str i"
  shows "\<exists>s'. kprintf (kernel_backends va sa) m (format_of js) (concat (map item_args js)) s
      = Some (of_nat (length (concat (map (item_text str) js))), s')
    \<and> screen_of s' = fold (screen_putchar (current_color s)) (concat (map (item_text str) js)) (screen_of s)
    \<and> sent SERIAL_COM1 (port_log s') =
        sent SERIAL_COM1 (port_log s) @ concat (map call_line (concat (map (item_calls str) js)))"
  using kprintf_both [OF assms] by (auto simp: shows_and_sends_def)

theorem kprintf_correct_witness:
  "\<exists>s'. kprintf (kernel_backends 0x5000 0x6000) (\<lambda>_. 0) (map of_char ''v%d%%'' @ [0x0A, 0]) [- 5] sample_console
      = Some (5, s')
    \<and> sent SERIAL_COM1 (port_log s') = map of_char ''v-5%'' @ [0x0A]"
proof -
  have r: "console_ready 0x5000 0x6000 sample_console"
    by (simp add: console_ready_def console_inv_def registered_def vga_inv_def)
  have l: "serial_line_ready sample_console" by (auto simp: serial_line_ready_def)
  have neg: "sint (- 5 :: u32) = - 5" by simp
  have d: "nat_digits 10 5 = [of_char CHR ''5'']"
    by (subst nat_digits.simps) (simp add: digit_table_def)
  have t: "show_int (- 5) = map of_char ''-5''"
    by (simp add: show_int_def show_nat_def d)
  let ?js = "[Lit (of_char CHR ''v''), SDec (- 5), Percent, Lit 0x0A]"
  have "\<forall>i \<in> set ?js. item_ok (\<lambda>_. 0) (\<lambda>_. []) i" by simp
  from kprintf_correct [OF r l this] show ?thesis
    by (simp add: format_of_def neg t crlf_def) blast
qed

text \<open>
  A format that ends in a percent sign: the switch consumes the terminator as the
  conversion character and the loop reads on behind the format.
\<close>

lemma kprintf_trailing_percent_overruns:
  assumes "vga_set s"
  shows "kprintf ops m (map of_char ''%'' @ [0]) args s = None"
proof -
  have "kprintf_loop ops m (of_char CHR ''%'' # [0]) args 0 s =
      Option.bind (run_calls ops [Putchar (of_char CHR ''%''), Putchar 0] s) (kprintf_loop ops m [] args (0 + 2))"
    by (rule kprintf_loop_conversion [where z = False and wd = 0 and lm = NoMod and k = 0])
      (simp_all add: parse_spec_def convert_def)
  then show ?thesis
    using assms by (simp add: kprintf_def kprintf_loop.simps(1) [abs_def] bind_eq_None_conv)
qed

end
