(* ===== verification/Messages.thy ===== *)
theory Messages
  imports Kprintf
begin

text \<open>
  Sequences of calls of \<^verbatim>\<open>kprintf\<close>, as the boot code and the panics make them: their formats as
  items, and what both backends show of them; and the changes of colour and the clearing
  of the screen between them.
\<close>

section \<open>Calls\<close>

abbreviation NL :: char where "NL \<equiv> CHR 0x0A"

text \<open>The bytes of a format, with the terminator.\<close>

definition c_text :: "string \<Rightarrow> u8 list" where
  "c_text x = map of_char x @ [0]"

text \<open>Calls of \<^verbatim>\<open>kprintf\<close> one after the other.\<close>

fun kprintf_all :: "ops_table \<Rightarrow> mem \<Rightarrow> (u8 list \<times> u32 list) list \<Rightarrow> console_st \<Rightarrow> console_st option" where
  "kprintf_all ops m [] c = Some c"
| "kprintf_all ops m ((fmt, args) # calls) c =
     Option.bind (kprintf ops m fmt args c) (\<lambda>(_, c). kprintf_all ops m calls c)"


section \<open>Messages as text\<close>

text \<open>A format as items; the text of a message is that of its items.\<close>

definition lits :: "string \<Rightarrow> item list" where
  "lits x = map (\<lambda>c. Lit (of_char c)) x"

definition message_call :: "item list \<Rightarrow> u8 list \<times> u32 list" where
  "message_call js = (format_of js, concat (map item_args js))"

definition message_text :: "(addr \<Rightarrow> u8 list) \<Rightarrow> item list list \<Rightarrow> u8 list" where
  "message_text str jss = concat (map (item_text str) (concat jss))"

text \<open>An item that both backends show in the same way: no line feed inside a string argument.\<close>

fun item_plain :: "(addr \<Rightarrow> u8 list) \<Rightarrow> item \<Rightarrow> bool" where
  "item_plain str (Str p) = (0x0A \<notin> set (str p))"
| "item_plain str _ = True"

lemma crlf_id: "0x0A \<notin> set t \<Longrightarrow> crlf t = t"
  by (induction t) (auto simp: crlf_Cons, simp add: crlf_def)

lemma nat_digits_set: "0 < b \<Longrightarrow> b \<le> 36 \<Longrightarrow> set (nat_digits b n) \<subseteq> set digit_table"
proof (induction b n rule: nat_digits.induct)
  case (1 b n)
  have "n mod b < length digit_table"
    using less_le_trans [OF mod_less_divisor [of b n]] 1(2,3) by (simp add: length_digit_table)
  then show ?case using 1 by (subst nat_digits.simps) auto
qed

lemma show_nat_plain: "0 < b \<Longrightarrow> b \<le> 36 \<Longrightarrow> crlf (show_nat b n) = show_nat b n"
proof (rule crlf_id)
  have "0x0A \<notin> set digit_table" by (simp add: digit_table_def)
  moreover assume "0 < b" "b \<le> 36"
  ultimately show "0x0A \<notin> set (show_nat b n)" using nat_digits_set [of b n] by (auto simp: show_nat_def)
qed

lemma show_int_plain: "crlf (show_int k) = show_int k"
  using show_nat_plain [of 10] by (simp add: show_int_def crlf_Cons)

lemma item_plain_line: "item_plain str i \<Longrightarrow> concat (map call_line (item_calls str i)) = item_text str i"
proof -
  have "concat (replicate n [c]) = replicate n c" for n and c :: u8 by (induction n) simp_all
  moreover have "crlf (map of_char ''0x'') = map of_char ''0x''" "crlf (map of_char ''(null)'') = map of_char ''(null)''"
    by (simp_all add: crlf_id)
  moreover assume "item_plain str i"
  ultimately show ?thesis
    by (cases i) (simp_all add: show_nat_plain show_int_plain pad_to_def map_replicate crlf_id)
qed

lemma items_plain_line:
  "\<forall>i \<in> set js. item_plain str i \<Longrightarrow>
     concat (map call_line (concat (map (item_calls str) js))) = concat (map (item_text str) js)"
  by (induction js) (simp_all add: item_plain_line)

lemma kprintf_all_both:
  assumes "console_ready va sa c" and "serial_line_ready c"
    and "\<forall>js \<in> set jss. \<forall>i \<in> set js. item_ok m str i \<and> item_plain str i"
  shows "\<exists>c'. kprintf_all (kernel_backends va sa) m (map message_call jss) c = Some c' \<and>
    shows_and_sends va sa (message_text str jss) (message_text str jss) c c'"
  using assms
proof (induction jss arbitrary: c)
  case Nil
  then show ?case by (simp add: shows_and_sends_def message_text_def)
next
  case (Cons js jss)
  have ok: "\<forall>i \<in> set js. item_ok m str i" and plain: "\<forall>i \<in> set js. item_plain str i" using Cons.prems(3) by auto
  obtain c1 n where c1: "kprintf (kernel_backends va sa) m (format_of js) (concat (map item_args js)) c = Some (n, c1)"
      "shows_and_sends va sa (concat (map (item_text str) js)) (concat (map (item_text str) js)) c c1"
    using kprintf_both [OF Cons.prems(1,2) ok] items_plain_line [OF plain] by auto
  then have "console_ready va sa c1" "serial_line_ready c1"
    using Cons.prems(2) by (simp_all add: shows_and_sends_def serial_line_ready_def)
  from Cons.IH [OF this] Cons.prems(3) obtain c2 where
    c2: "kprintf_all (kernel_backends va sa) m (map message_call jss) c1 = Some c2"
      "shows_and_sends va sa (message_text str jss) (message_text str jss) c1 c2" by auto
  have "message_text str (js # jss) = concat (map (item_text str) js) @ message_text str jss"
    by (simp add: message_text_def)
  then show ?case using c1(1) c2(1) shows_and_sends_trans [OF c1(2) c2(2)] by (simp add: message_call_def [of js])
qed

lemmas message_simps = message_call_def format_of_def lits_def c_text_def

section \<open>Colour and clearing\<close>

lemma set_color_ready:
  assumes "console_ready va sa c"
  shows "console_ready va sa (vga_text_set_color fg bg c)" "screen_of (vga_text_set_color fg bg c) = screen_of c"
    "current_color (vga_text_set_color fg bg c) = make_color fg bg" "port_in (vga_text_set_color fg bg c) = port_in c"
    "port_log (vga_text_set_color fg bg c) = port_log c"
proof -
  let ?t = "vga_text_set_color fg bg c"
  show "console_ready va sa ?t"
    using assms by (auto simp: vga_text_set_color_def console_ready_def console_inv_def registered_def vga_inv_def)
  show "screen_of ?t = screen_of c"
    using screen_of_cong [of ?t c] by (simp add: vga_text_set_color_def) (simp add: screen_of_def cong: if_cong)
qed (simp_all add: vga_text_set_color_def)

lemma clear_ready:
  assumes "console_ready va sa c"
  shows "console_ready va sa (vga_text_clear c)" "screen_of (vga_text_clear c) = blank_screen (current_color c)"
    "current_color (vga_text_clear c) = current_color c" "port_in (vga_text_clear c) = port_in c"
    "sent SERIAL_COM1 (port_log (vga_text_clear c)) = sent SERIAL_COM1 (port_log c)"
proof -
  have b: "vga_buffer c = VGA_MEMORY" using assms(1) by (simp add: console_ready_def vga_inv_def)
  note blank = vga_text_clear_blank [OF b]
  show "screen_of (vga_text_clear c) = blank_screen (current_color c)" by (rule screen_of_clear [OF b])
  show "current_color (vga_text_clear c) = current_color c" "port_in (vga_text_clear c) = port_in c"
    using blank(2) by (simp_all add: keeps_rest_def)
  show "sent SERIAL_COM1 (port_log (vga_text_clear c)) = sent SERIAL_COM1 (port_log c)"
    using blank(2) by (auto simp: keeps_rest_def sent_other)
  show "console_ready va sa (vga_text_clear c)"
    using assms(1) blank(1) keeps_rest_console [OF blank(2)] by (auto simp: console_ready_def console_inv_def registered_def)
qed

section \<open>String constants in a sample memory\<close>

text \<open>The string constants are in memory, none at the null address.\<close>

definition literals_at :: "(string \<Rightarrow> addr) \<Rightarrow> string list \<Rightarrow> mem \<Rightarrow> bool" where
  "literals_at lit xs m \<longleftrightarrow> (\<forall>x \<in> set xs. lit x \<noteq> 0 \<and> c_string m (lit x) (map of_char x))"

text \<open>A layout with a block of 64 bytes for each string, from 0x10000.\<close>

definition literal_addr :: "string list \<Rightarrow> string \<Rightarrow> addr" where
  "literal_addr xs x = 0x10000 + of_nat (64 * length (takeWhile (\<lambda>y. y \<noteq> x) xs))"

definition literal_block :: "string list \<Rightarrow> mem" where
  "literal_block xs a =
     (let n = unat (a - 0x10000)
      in if n div 64 < length xs \<and> n mod 64 < length (xs ! (n div 64)) then of_char (xs ! (n div 64) ! (n mod 64)) else 0)"

lemma literal_block_at:
  assumes "\<forall>x \<in> set xs. length x < 64 \<and> 0 \<notin> set (map of_char x :: u8 list)" and "length xs < 1000"
  shows "literals_at (literal_addr xs) xs (literal_block xs)"
  unfolding literals_at_def
proof
  fix x assume x: "x \<in> set xs"
  define k where "k = length (takeWhile (\<lambda>y. y \<noteq> x) xs)"
  have k: "k < length xs" unfolding k_def using x by (induction xs) auto
  then have xk: "xs ! k = x" using nth_length_takeWhile [of "\<lambda>y. y \<noteq> x" xs] by (simp add: k_def)
  have l: "length x < 64" "0 \<notin> set (map of_char x :: u8 list)" using assms(1) x by auto
  have u: "unat (of_nat (64 * k + i) :: addr) = 64 * k + i" if "i < 64" for i
    using that k assms(2) by (simp add: unsigned_of_nat take_bit_eq_mod del: of_nat_add of_nat_mult)
  have at: "literal_block xs (index_addr (literal_addr xs x) i) = (if i < length x then of_char (x ! i) else 0)" if "i < 64" for i
  proof -
    have "index_addr (literal_addr xs x) i - 0x10000 = of_nat (64 * k + i)" by (simp add: index_addr_def literal_addr_def k_def)
    then show ?thesis using u [OF that] that k xk by (simp add: literal_block_def)
  qed
  have "of_char (x ! i) \<noteq> (0 :: u8)" if "i < length x" for i using l(2) that nth_mem by fastforce
  then have "c_string (literal_block xs) (literal_addr xs x) (map of_char x)" using at l by (simp add: c_string_def)
  moreover have "literal_addr xs x \<noteq> 0"
  proof
    assume "literal_addr xs x = 0"
    then have "unat (of_nat (64 * k + 0x10000) :: addr) = 0" by (simp add: literal_addr_def k_def add.commute)
    then show False using k assms(2) by (simp add: unsigned_of_nat take_bit_eq_mod del: of_nat_add of_nat_mult)
  qed
  ultimately show "literal_addr xs x \<noteq> 0 \<and> c_string (literal_block xs) (literal_addr xs x) (map of_char x)" by blast
qed

end
