(* ===== verification/Boot_Console.thy ===== *)
theory Boot_Console
  imports Messages Boot
begin

text \<open>
  The console side of the first half of \<^verbatim>\<open>kmain\<close>: the set-up of screen and serial line, the
  check of the segment registers that \<^verbatim>\<open>gdt_verify\<close> of \<^verbatim>\<open>arch/x86/gdt.c\<close> prints, and the
  banner. The kernel state is read only, for the registers and the CPU number; \<open>lit\<close> gives the
  addresses of the string constants.
\<close>

section \<open>Definitions\<close>

text \<open>What \<^verbatim>\<open>gdt_verify\<close> prints; the registers are read as 16-bit values and printed as integers.\<close>

definition verdict :: "(string \<Rightarrow> addr) \<Rightarrow> u16 \<Rightarrow> u16 \<Rightarrow> addr" where
  "verdict lit actual expected = (if actual = expected then lit ''OK'' else lit ''FAIL'')"

definition gdt_verify_calls :: "addr \<Rightarrow> (string \<Rightarrow> addr) \<Rightarrow> 'z cpu_st_scheme \<Rightarrow> (u8 list \<times> u32 list) list" where
  "gdt_verify_calls tss_addr lit s =
     (let cs = ucast (ctx_cs (regs s)); ds = ucast (ctx_ds (regs s)); ss = ucast (ctx_ss (regs s)); tr = task_reg s
      in [(c_text (''[GDT] GDT verification:'' @ [NL]), []),
          (c_text (''[GDT]   CS = 0x%04x (expected 0x%04x) %s'' @ [NL]),
             [ucast cs, GDT_KERNEL_CODE_SEL, verdict lit cs (ucast GDT_KERNEL_CODE_SEL)]),
          (c_text (''[GDT]   DS = 0x%04x (expected 0x%04x) %s'' @ [NL]),
             [ucast ds, GDT_KERNEL_DATA_SEL, verdict lit ds (ucast GDT_KERNEL_DATA_SEL)]),
          (c_text (''[GDT]   SS = 0x%04x (expected 0x%04x) %s'' @ [NL]),
             [ucast ss, GDT_KERNEL_DATA_SEL, verdict lit ss (ucast GDT_KERNEL_DATA_SEL)]),
          (c_text (''[GDT]   TR = 0x%04x (expected 0x%04x) %s'' @ [NL]),
             [ucast tr, ucast GDT_TSS_SEL, verdict lit tr GDT_TSS_SEL]),
          (c_text (''[GDT] TSS base: 0x%08lx, limit: %u bytes, ESP0: 0x%08lx'' @ [NL]),
             [tss_addr, of_nat sizeof_tss, tss_esp0 (tss s)]),
          (if gdt_verify s then (c_text (''[GDT] All segment registers correct!'' @ [NL]), [])
           else (c_text (''[GDT] ERROR: Segment register mismatch!'' @ [NL]), []))])"

text \<open>\<^verbatim>\<open>this_cpu()->cpu_id\<close>.\<close>

definition this_cpu_id :: "'z timer_st_scheme \<Rightarrow> u32" where
  "this_cpu_id s = pc_cpu_id (per_cpu (percpu s) ! unat cpu_id)"

definition kmain_console ::
  "linkage \<Rightarrow> addr \<Rightarrow> addr \<Rightarrow> (string \<Rightarrow> addr) \<Rightarrow> 'z timer_st_scheme \<Rightarrow> console_st \<Rightarrow> console_st option" where
  "kmain_console lk va sa lit s c =
     (let print = kprintf_all (kernel_backends va sa) (memory s)
      in Option.bind (console_boot va sa c) (\<lambda>c.
         Option.bind (print (gdt_verify_calls (l_tss lk) lit s) c) (\<lambda>c.
         Option.bind (print [(c_text [NL], [])] c) (\<lambda>c.
         let c = vga_clear c;
             c = vga_set_color VGA_COLOR_LIGHT_GREEN VGA_COLOR_BLACK c
         in Option.bind (print [(c_text (''AionCore v%d.%d.%d'' @ [NL]), [0, 1, 0])] c) (\<lambda>c.
         let c = vga_set_color VGA_COLOR_LIGHT_CYAN VGA_COLOR_BLACK c
         in Option.bind (print [(c_text (''RT Microkernel - Phase 3'' @ [NL]), [])] c) (\<lambda>c.
         let c = vga_set_color VGA_COLOR_WHITE VGA_COLOR_BLACK c
         in print [(c_text [NL], []),
              (c_text (''[OK] HAL initialized (x86 architecture)'' @ [NL]), []),
              (c_text (''[OK] Per-CPU data initialized (CPU #%u)'' @ [NL]), [this_cpu_id s]),
              (c_text (''[OK] VGA text driver loaded'' @ [NL]), []),
              (c_text (''[OK] IDT initialized (exceptions + IRQs)'' @ [NL]), [])] c))))))"


section \<open>Properties\<close>

text \<open>Printing between two changes of colour, in the colour that is set.\<close>

lemma print_calls:
  assumes "console_ready va sa c" and "serial_line_ready c" and "calls = map message_call jss"
    and "\<forall>js \<in> set jss. \<forall>i \<in> set js. item_ok m str i \<and> item_plain str i" and "t = message_text str jss"
  shows "\<exists>c'. kprintf_all (kernel_backends va sa) m calls c = Some c' \<and> console_ready va sa c' \<and> serial_line_ready c' \<and>
    current_color c' = current_color c \<and> screen_of c' = fold (screen_putchar (current_color c)) t (screen_of c) \<and>
    sent SERIAL_COM1 (port_log c') = sent SERIAL_COM1 (port_log c) @ t"
  using kprintf_all_both [OF assms(1,2,4)] assms(2,3,5) by (auto simp: shows_and_sends_def serial_line_ready_def)

definition prints :: "addr \<Rightarrow> addr \<Rightarrow> u8 \<Rightarrow> u8 list \<Rightarrow> console_st \<Rightarrow> console_st \<Rightarrow> bool" where
  "prints va sa color t c c' \<longleftrightarrow> console_ready va sa c' \<and> serial_line_ready c' \<and>
     screen_of c' = fold (screen_putchar color) t (screen_of c) \<and>
     sent SERIAL_COM1 (port_log c') = sent SERIAL_COM1 (port_log c) @ t"

lemma print_in:
  assumes "console_ready va sa c" and "serial_line_ready c" and "calls = map message_call jss"
    and "\<forall>js \<in> set jss. \<forall>i \<in> set js. item_ok m str i \<and> item_plain str i" and "t = message_text str jss"
    and "color = make_color fg bg"
  shows "\<exists>c'. kprintf_all (kernel_backends va sa) m calls (vga_set_color fg bg c) = Some c' \<and> prints va sa color t c c'"
proof -
  have c1: "vga_set_color fg bg c = vga_text_set_color fg bg c" using assms(1) by (simp add: vga_set_color_def console_ready_def)
  note s = set_color_ready [OF assms(1), of fg bg]
  have "serial_line_ready (vga_text_set_color fg bg c)" using assms(2) s(4) by (simp add: serial_line_ready_def)
  from print_calls [OF s(1) this assms(3-5)] show ?thesis using s assms(6) by (auto simp: prints_def c1)
qed

definition gdt_report :: "addr \<Rightarrow> u8 list" where
  "gdt_report tss_addr = map of_char (
     ''[GDT] GDT verification:'' @ [NL] @
     ''[GDT]   CS = 0x0008 (expected 0x0008) OK'' @ [NL] @
     ''[GDT]   DS = 0x0010 (expected 0x0010) OK'' @ [NL] @
     ''[GDT]   SS = 0x0010 (expected 0x0010) OK'' @ [NL] @
     ''[GDT]   TR = 0x0028 (expected 0x0028) OK'' @ [NL] @
     ''[GDT] TSS base: 0x'') @ pad_to 8 (show_nat 16 (unat tss_addr)) @
   map of_char ('', limit: 104 bytes, ESP0: 0x00000000'' @ [NL] @
     ''[GDT] All segment registers correct!'' @ [NL])"

definition gdt_items :: "addr \<Rightarrow> addr \<Rightarrow> item list list" where
  "gdt_items ok tss_addr =
     [lits (''[GDT] GDT verification:'' @ [NL]),
      lits ''[GDT]   CS = 0x'' @ HexPad 4 8 # lits '' (expected 0x'' @ HexPad 4 8 # lits '') '' @ Str ok # lits [NL],
      lits ''[GDT]   DS = 0x'' @ HexPad 4 16 # lits '' (expected 0x'' @ HexPad 4 16 # lits '') '' @ Str ok # lits [NL],
      lits ''[GDT]   SS = 0x'' @ HexPad 4 16 # lits '' (expected 0x'' @ HexPad 4 16 # lits '') '' @ Str ok # lits [NL],
      lits ''[GDT]   TR = 0x'' @ HexPad 4 40 # lits '' (expected 0x'' @ HexPad 4 40 # lits '') '' @ Str ok # lits [NL],
      lits ''[GDT] TSS base: 0x'' @ LHexPad 8 tss_addr # lits '', limit: '' @ UDec 104 # lits '' bytes, ESP0: 0x'' @
        LHexPad 8 0 # lits [NL],
      lits (''[GDT] All segment registers correct!'' @ [NL])]"

text \<open>The numbers of the report in text.\<close>

lemma show_nat_samples:
  "show_nat 16 8 = map of_char ''8''" "show_nat 16 16 = map of_char ''10''" "show_nat 16 40 = map of_char ''28''"
  "show_nat 10 104 = map of_char ''104''" "show_nat 16 0 = map of_char ''0''" "show_nat 10 0 = map of_char ''0''"
  "show_nat 10 1 = map of_char ''1''"
  by (simp_all add: show_nat_def nat_digits.simps digit_table_def)

lemma pad_samples:
  "pad_to 4 (show_nat 16 8) = map of_char ''0008''" "pad_to 4 (show_nat 16 16) = map of_char ''0010''"
  "pad_to 4 (show_nat 16 40) = map of_char ''0028''" "pad_to 8 (show_nat 16 0) = map of_char ''00000000''"
  unfolding show_nat_samples by (simp_all add: pad_to_def eval_nat_numeral)

lemma gdt_items_text:
  assumes "ok \<noteq> 0"
  shows "message_text (\<lambda>_. map of_char ''OK'') (gdt_items ok a) = gdt_report a"
  using assms by (simp add: message_text_def gdt_items_def gdt_report_def lits_def show_nat_samples(4) pad_samples)

text \<open>The state \<^verbatim>\<open>kmain\<close> is in when it sets up the console.\<close>

definition before_console :: "linkage \<Rightarrow> 'z timer_st_scheme \<Rightarrow> 'z timer_st_scheme" where
  "before_console lk s = (hal_x86_init lk s)\<lparr>percpu := percpu_init (percpu (hal_x86_init lk s))\<rparr>"

lemma before_console_fields:
  fixes s :: "'z timer_st_scheme" and lk :: linkage
  assumes "per_cpu (percpu s) \<noteq> []"
  defines "s' \<equiv> before_console lk s"
  shows "ctx_cs (regs s') = 8" "ctx_ds (regs s') = 16" "ctx_ss (regs s') = 16" "task_reg s' = 40" "tss_esp0 (tss s') = 0"
    "memory s' = memory s" "this_cpu_id s' = 0"
proof -
  define s1 where "s1 = gdt_init (l_tss lk) (l_gdt lk) (s\<lparr>ports := (ports s)\<lparr>hal_set := True\<rparr>\<rparr>)"
  have h: "hal_x86_init lk s = idt_init (l_stubs lk) (l_idt lk) s1" by (simp add: hal_x86_init_def cpu_init_def s1_def)
  have "sched_st.truncate (idt_init (l_stubs lk) (l_idt lk) s1) = sched_st.truncate s1"
    using idt_init_spec [of "l_stubs lk" "l_idt lk" s1] by blast
  then have "regs s' = regs s1" "task_reg s' = task_reg s1" "tss s' = tss s1" "memory s' = memory s1"
    by (simp_all add: s'_def before_console_def h sched_st.truncate_def)
  then show "ctx_cs (regs s') = 8" "ctx_ds (regs s') = 16" "ctx_ss (regs s') = 16" "task_reg s' = 40" "tss_esp0 (tss s') = 0"
    "memory s' = memory s"
    by (simp_all add: s1_def gdt_init_def Let_def set_gdt_def gdt_flush_def tss_flush_def)
  show "this_cpu_id s' = 0"
    using percpu_init_boot(1) [OF assms(1)] by (simp add: s'_def before_console_def this_cpu_id_def hal_x86_init_percpu cpu_id_def)
qed

lemma gdt_verify_calls_boot:
  assumes "per_cpu (percpu s) \<noteq> []"
  shows "gdt_verify_calls a lit (before_console lk s) = map message_call (gdt_items (lit ''OK'') a)"
proof -
  note f = before_console_fields [OF assms, of lk]
  have "gdt_verify (before_console lk s)" by (simp add: gdt_verify_def f)
  then show ?thesis by (simp add: gdt_verify_calls_def Let_def f verdict_def gdt_items_def message_simps)
qed

definition version_text :: "u8 list" where
  "version_text = map of_char (''AionCore v0.1.0'' @ [NL])"

definition title_text :: "u8 list" where
  "title_text = map of_char (''RT Microkernel - Phase 3'' @ [NL])"

definition status_text :: "u8 list" where
  "status_text = map of_char ([NL] @
     ''[OK] HAL initialized (x86 architecture)'' @ [NL] @
     ''[OK] Per-CPU data initialized (CPU #0)'' @ [NL] @
     ''[OK] VGA text driver loaded'' @ [NL] @
     ''[OK] IDT initialized (exceptions + IRQs)'' @ [NL])"

lemma print_version:
  assumes "console_ready va sa c" and "serial_line_ready c"
  shows "\<exists>c'. kprintf_all (kernel_backends va sa) m [(c_text (''AionCore v%d.%d.%d'' @ [NL]), [0, 1, 0])]
    (vga_set_color VGA_COLOR_LIGHT_GREEN VGA_COLOR_BLACK c) = Some c' \<and> prints va sa 0x0A version_text c c'"
  by (rule print_in [OF assms, of _ "[lits ''AionCore v'' @ SDec 0 # lits ''.'' @ SDec 1 # lits ''.'' @ SDec 0 # lits [NL]]"
        _ "\<lambda>_. []"])
    (simp_all add: message_simps message_text_def make_color_def version_text_def show_int_def show_nat_samples
      show_nat_samples(7) [unfolded One_nat_def])

lemma print_title:
  assumes "console_ready va sa c" and "serial_line_ready c"
  shows "\<exists>c'. kprintf_all (kernel_backends va sa) m [(c_text (''RT Microkernel - Phase 3'' @ [NL]), [])]
    (vga_set_color VGA_COLOR_LIGHT_CYAN VGA_COLOR_BLACK c) = Some c' \<and> prints va sa 0x0B title_text c c'"
  by (rule print_in [OF assms, of _ "[lits (''RT Microkernel - Phase 3'' @ [NL])]" _ "\<lambda>_. []"])
    (simp_all add: message_simps message_text_def make_color_def title_text_def)

lemma print_status:
  assumes "console_ready va sa c" and "serial_line_ready c"
  shows "\<exists>c'. kprintf_all (kernel_backends va sa) m [(c_text [NL], []),
        (c_text (''[OK] HAL initialized (x86 architecture)'' @ [NL]), []),
        (c_text (''[OK] Per-CPU data initialized (CPU #%u)'' @ [NL]), [0]),
        (c_text (''[OK] VGA text driver loaded'' @ [NL]), []),
        (c_text (''[OK] IDT initialized (exceptions + IRQs)'' @ [NL]), [])]
    (vga_set_color VGA_COLOR_WHITE VGA_COLOR_BLACK c) = Some c' \<and> prints va sa 0x0F status_text c c'"
  by (rule print_in [OF assms, of _ "[lits [NL], lits (''[OK] HAL initialized (x86 architecture)'' @ [NL]),
        lits ''[OK] Per-CPU data initialized (CPU #'' @ UDec 0 # lits ('')'' @ [NL]),
        lits (''[OK] VGA text driver loaded'' @ [NL]), lits (''[OK] IDT initialized (exceptions + IRQs)'' @ [NL])]" _ "\<lambda>_. []"])
    (simp_all add: message_simps message_text_def make_color_def status_text_def show_nat_samples)

text \<open>The part up to the clearing: the report goes to the serial line only.\<close>

lemma print_gdt_report:
  fixes s :: "'z timer_st_scheme"
  assumes "console_ready va sa c" and "serial_line_ready c" and "per_cpu (percpu s) \<noteq> []"
    and "literals_at lit [''OK'', ''FAIL''] (memory s)"
  shows "\<exists>c1 c2. kprintf_all (kernel_backends va sa) (memory s) (gdt_verify_calls a lit (before_console lk s)) c = Some c1 \<and>
    kprintf_all (kernel_backends va sa) (memory s) [(c_text [NL], [])] c1 = Some c2 \<and>
    console_ready va sa (vga_clear c2) \<and> serial_line_ready (vga_clear c2) \<and> screen_of (vga_clear c2) = blank_screen (current_color c) \<and>
    sent SERIAL_COM1 (port_log (vga_clear c2)) = sent SERIAL_COM1 (port_log c) @ gdt_report a @ map of_char [NL]"
proof -
  let ?str = "\<lambda>_ :: addr. map of_char ''OK'' :: u8 list"
  have ok: "lit ''OK'' \<noteq> 0" "c_string (memory s) (lit ''OK'') (map of_char ''OK'')"
    using assms(4) by (simp_all add: literals_at_def)
  have items: "\<forall>js \<in> set (gdt_items (lit ''OK'') a). \<forall>i \<in> set js. item_ok (memory s) ?str i \<and> item_plain ?str i"
    using ok by (simp add: gdt_items_def lits_def)
  obtain c1 where c1: "kprintf_all (kernel_backends va sa) (memory s) (gdt_verify_calls a lit (before_console lk s)) c = Some c1"
      "console_ready va sa c1" "serial_line_ready c1" "current_color c1 = current_color c"
      "sent SERIAL_COM1 (port_log c1) = sent SERIAL_COM1 (port_log c) @ gdt_report a"
    using print_calls [OF assms(1,2) gdt_verify_calls_boot [OF assms(3), of a lit lk] items gdt_items_text [OF ok(1), of a, symmetric]] by blast
  have "\<forall>js \<in> set [lits [NL]]. \<forall>i \<in> set js. item_ok (memory s) ?str i \<and> item_plain ?str i" by (simp add: lits_def)
  moreover have "[(c_text [NL], [])] = map message_call [lits [NL]]" by (simp add: message_simps)
  moreover have "map of_char [NL] = message_text ?str [lits [NL]]" by (simp add: message_text_def lits_def)
  ultimately obtain c2 where c2: "kprintf_all (kernel_backends va sa) (memory s) [(c_text [NL], [])] c1 = Some c2"
      "console_ready va sa c2" "serial_line_ready c2" "current_color c2 = current_color c"
      "sent SERIAL_COM1 (port_log c2) = sent SERIAL_COM1 (port_log c1) @ map of_char [NL]"
    using print_calls [OF c1(2,3)] c1(4) by metis
  have "vga_clear c2 = vga_text_clear c2" using c2(2) by (simp add: vga_clear_def console_ready_def)
  note c3 = clear_ready [OF c2(2), folded this]
  have "serial_line_ready (vga_clear c2)" using c2(3) c3(4) by (simp add: serial_line_ready_def)
  then show ?thesis using c1 c2 c3 by (intro exI [of _ c1] exI [of _ c2]) simp
qed

text \<open>
  C38: the boot messages. On the state in which \<^verbatim>\<open>kmain\<close> sets up the console, with a serial line
  that keeps accepting bytes, the console part of \<^verbatim>\<open>kmain\<close> returns; the serial line has got the
  report of \<^verbatim>\<open>gdt_verify\<close> with every register correct and all lines of the banner; the
  screen shows, from its top, the banner alone, the version in light green, the title in
  light cyan and the status lines in white, on black.
\<close>

theorem boot_banner:
  fixes s :: "'z timer_st_scheme"
  assumes "va \<noteq> sa" "va \<noteq> 0" "sa \<noteq> 0" and "length (backends c) = 4" and "\<not> vga_initialized c"
    and "\<forall>t. \<exists>u \<ge> t. bit (port_in c u 0x3FD) 5" and "per_cpu (percpu s) \<noteq> []"
    and "literals_at lit [''OK'', ''FAIL''] (memory s)"
  shows "\<exists>c0 c'. console_boot va sa c = Some c0 \<and> kmain_console lk va sa lit (before_console lk s) c = Some c' \<and>
    screen_of c' = fold (screen_putchar 0x0F) status_text (fold (screen_putchar 0x0B) title_text
      (fold (screen_putchar 0x0A) version_text (blank_screen 0x07))) \<and>
    sent SERIAL_COM1 (port_log c') = sent SERIAL_COM1 (port_log c0) @ gdt_report (l_tss lk) @ map of_char [NL] @
      version_text @ title_text @ status_text"
proof -
  let ?s = "before_console lk s"
  note f = before_console_fields [OF assms(7), of lk]
  obtain c0 where c0: "console_boot va sa c = Some c0" "console_ready va sa c0" "current_color c0 = 7" "port_in c0 = port_in c"
    using console_boot_ready [OF assms(1-5)] by blast
  have l0: "serial_line_ready c0" using assms(6) c0(4) by (simp add: serial_line_ready_def)
  obtain c1 c2 where c1: "kprintf_all (kernel_backends va sa) (memory s) (gdt_verify_calls (l_tss lk) lit ?s) c0 = Some c1"
      "kprintf_all (kernel_backends va sa) (memory s) [(c_text [NL], [])] c1 = Some c2"
      "console_ready va sa (vga_clear c2)" "serial_line_ready (vga_clear c2)" "screen_of (vga_clear c2) = blank_screen 7"
      "sent SERIAL_COM1 (port_log (vga_clear c2)) = sent SERIAL_COM1 (port_log c0) @ gdt_report (l_tss lk) @ map of_char [NL]"
    using print_gdt_report [OF c0(2) l0 assms(7,8), of "l_tss lk" lk] c0(3) by auto
  obtain c3 where c3: "kprintf_all (kernel_backends va sa) (memory s) [(c_text (''AionCore v%d.%d.%d'' @ [NL]), [0, 1, 0])]
      (vga_set_color VGA_COLOR_LIGHT_GREEN VGA_COLOR_BLACK (vga_clear c2)) = Some c3" "prints va sa 0x0A version_text (vga_clear c2) c3"
    using print_version [OF c1(3,4)] by blast
  have r3: "console_ready va sa c3" "serial_line_ready c3" using c3(2) by (simp_all add: prints_def)
  obtain c4 where c4: "kprintf_all (kernel_backends va sa) (memory s) [(c_text (''RT Microkernel - Phase 3'' @ [NL]), [])]
      (vga_set_color VGA_COLOR_LIGHT_CYAN VGA_COLOR_BLACK c3) = Some c4" "prints va sa 0x0B title_text c3 c4"
    using print_title [OF r3] by blast
  have r4: "console_ready va sa c4" "serial_line_ready c4" using c4(2) by (simp_all add: prints_def)
  obtain c5 where c5: "kprintf_all (kernel_backends va sa) (memory s) [(c_text [NL], []),
        (c_text (''[OK] HAL initialized (x86 architecture)'' @ [NL]), []),
        (c_text (''[OK] Per-CPU data initialized (CPU #%u)'' @ [NL]), [0]),
        (c_text (''[OK] VGA text driver loaded'' @ [NL]), []),
        (c_text (''[OK] IDT initialized (exceptions + IRQs)'' @ [NL]), [])]
      (vga_set_color VGA_COLOR_WHITE VGA_COLOR_BLACK c4) = Some c5" "prints va sa 0x0F status_text c4 c5"
    using print_status [OF r4] by blast
  have "kmain_console lk va sa lit ?s c = Some c5"
    unfolding kmain_console_def Let_def f(6,7) c0(1) bind.bind_lunit c1(1,2) c3(1) c4(1) c5(1) ..
  then show ?thesis using c0(1) c1(5,6) c3(2) c4(2) c5(2) by (simp add: prints_def)
qed

text \<open>The sample machine of \<open>Boot\<close>, with the two string constants in memory.\<close>

definition sample_messages :: timer_st where
  "sample_messages = sample_timer\<lparr>memory := literal_block [''OK'', ''FAIL'']\<rparr>"

theorem boot_banner_witness:
  "\<exists>c0 c'. console_boot 0x5000 0x6000 (sample_console\<lparr>vga_initialized := False\<rparr>) = Some c0 \<and>
    kmain_console sample_linkage 0x5000 0x6000 (literal_addr [''OK'', ''FAIL'']) (before_console sample_linkage sample_messages)
      (sample_console\<lparr>vga_initialized := False\<rparr>) = Some c' \<and>
    sent SERIAL_COM1 (port_log c') = sent SERIAL_COM1 (port_log c0) @ gdt_report 0x104000 @ map of_char [NL] @
      version_text @ title_text @ status_text"
proof -
  let ?c = "sample_console\<lparr>vga_initialized := False\<rparr>"
  have "bit (0x60 :: u32) 5" by simp
  then have line: "\<forall>t. \<exists>u \<ge> t. bit (port_in ?c u 0x3FD) 5" by auto
  have c: "(0x5000 :: addr) \<noteq> 0x6000" "(0x5000 :: addr) \<noteq> 0" "(0x6000 :: addr) \<noteq> 0" "length (backends ?c) = 4" "\<not> vga_initialized ?c"
    by simp_all
  have p: "per_cpu (percpu sample_messages) \<noteq> []" by (simp add: sample_messages_def sample_timer_def sched_st.extend_def sample_percpu_def)
  have l: "literals_at (literal_addr [''OK'', ''FAIL'']) [''OK'', ''FAIL''] (memory sample_messages)"
    using literal_block_at [of "[''OK'', ''FAIL'']"] by (simp add: sample_messages_def)
  have "l_tss sample_linkage = 0x104000" by (simp add: sample_linkage_def)
  with boot_banner [OF c line p l, of sample_linkage] show ?thesis by metis
qed

end
