(* ===== verification/Console_Ops.thy ===== *)
theory Console_Ops
  imports Console
begin

text \<open>
  The contract between the console multiplexer and its backends. The multiplexer calls
  whatever functions a table of backends has; the locale states what it needs of them: on
  a well-formed device state every function returns, keeps the device state well formed
  and leaves the multiplexer's own variables alone. Under this contract every operation
  of the multiplexer returns and keeps its array of backends well formed. The kernel's
  two backends meet the contract.
\<close>

section \<open>The contract\<close>

definition same_mux :: "console_st \<Rightarrow> console_st \<Rightarrow> bool" where
  "same_mux s s' \<longleftrightarrow> backends s' = backends s \<and> backend_count s' = backend_count s \<and> backend_enabled s' = backend_enabled s"

lemma same_mux_refl [simp]: "same_mux s s"
  by (simp add: same_mux_def)

lemma same_mux_trans: "same_mux s t \<Longrightarrow> same_mux t u \<Longrightarrow> same_mux s u"
  by (simp add: same_mux_def)

lemma same_mux_inv: "same_mux s s' \<Longrightarrow> console_inv s' = console_inv s"
  by (simp add: same_mux_def console_inv_def registered_def)

lemma register_inv:
  assumes "console_inv t" and "backend_count t < 4" and "b \<noteq> 0"
  shows "console_inv (t\<lparr>backends := (backends t)[unat (backend_count t) := b], backend_count := backend_count t + 1,
    backend_enabled := e\<rparr>)"
proof -
  let ?n = "unat (backend_count t)"
  have n: "?n < 4" using assms(2) by (simp add: word_less_nat_alt)
  then have n1: "unat (backend_count t + 1) = Suc ?n" by (simp add: unat_word_ariths)
  have len: "length (backends t) = 4" using assms(1) by (simp add: console_inv_def)
  then have "take (Suc ?n) ((backends t)[?n := b]) = take ?n (backends t) @ [b]"
    using n by (simp add: take_Suc_conv_app_nth)
  moreover have "set (drop (Suc ?n) ((backends t)[?n := b])) \<subseteq> set (drop ?n (backends t))"
    using n len by (simp add: set_drop_subset_set_drop)
  ultimately show ?thesis
    using assms n1 n len by (auto simp: console_inv_def registered_def word_le_nat_alt)
qed

lemma unregister_frame:
  assumes "console_inv s"
  shows "\<exists>xs n. snd (console_unregister b s) = s\<lparr>backends := xs, backend_count := n, backend_enabled := backend_enabled s\<rparr>"
    "console_inv (snd (console_unregister b s))"
proof -
  have unchanged: "\<exists>xs n. s = s\<lparr>backends := xs, backend_count := n\<rparr>"
    by (intro exI [of _ "backends s"] exI [of _ "backend_count s"]) simp
  have "unat (backend_count s) \<le> length (backends s)" using assms by (simp add: console_inv_def word_le_nat_alt)
  then show "\<exists>xs n. snd (console_unregister b s) = s\<lparr>backends := xs, backend_count := n, backend_enabled := backend_enabled s\<rparr>"
    using unregister_loop_result [of 0 s b] unchanged by (auto simp: console_unregister_def)
  show "console_inv (snd (console_unregister b s))"
    using console_unregister_correct [OF assms, of b] assms by (cases "b = 0") (simp_all add: console_unregister_def)
qed

datatype console_op =
    Register addr | Unregister addr | Enable addr bool | PutByte u8 | WriteText "u8 list" | SetColor vga_color vga_color | ClearAll

fun run_op :: "ops_table \<Rightarrow> console_op \<Rightarrow> console_st \<Rightarrow> console_st option" where
  "run_op ops (Register b) s = map_option snd (console_register ops b s)"
| "run_op ops (Unregister b) s = Some (snd (console_unregister b s))"
| "run_op ops (Enable b e) s = Some (console_enable b e s)"
| "run_op ops (PutByte c) s = console_putchar ops c s"
| "run_op ops (WriteText str) s = console_write ops str s"
| "run_op ops (SetColor fg bg) s = console_set_color ops fg bg s"
| "run_op ops ClearAll s = console_clear ops s"

fun run_ops :: "ops_table \<Rightarrow> console_op list \<Rightarrow> console_st \<Rightarrow> console_st option" where
  "run_ops ops [] s = Some s"
| "run_ops ops (x # xs) s = Option.bind (run_op ops x s) (run_ops ops xs)"

locale backend_table =
  fixes ops :: ops_table and dev :: "console_st \<Rightarrow> bool"
  assumes init_ok: "dev s \<Longrightarrow> init_op (ops b) = Some f \<Longrightarrow> \<exists>r s'. f s = Some (r, s') \<and> dev s' \<and> same_mux s s'"
    and putchar_ok: "dev s \<Longrightarrow> putchar_op (ops b) = Some g \<Longrightarrow> \<exists>s'. g c s = Some s' \<and> dev s' \<and> same_mux s s'"
    and write_ok: "dev s \<Longrightarrow> write_op (ops b) = Some w \<Longrightarrow> \<exists>s'. w str s = Some s' \<and> dev s' \<and> same_mux s s'"
    and set_color_ok: "dev s \<Longrightarrow> set_color_op (ops b) = Some h \<Longrightarrow> \<exists>s'. h fg bg s = Some s' \<and> dev s' \<and> same_mux s s'"
    and clear_ok: "dev s \<Longrightarrow> clear_op (ops b) = Some k \<Longrightarrow> \<exists>s'. k s = Some s' \<and> dev s' \<and> same_mux s s'"
    and dev_mux: "dev (s\<lparr>backends := xs, backend_count := n, backend_enabled := e\<rparr>) = dev s"
begin

lemma for_backends_total:
  assumes "\<And>b f s. call b = Some f \<Longrightarrow> dev s \<Longrightarrow> \<exists>s'. f s = Some s' \<and> dev s' \<and> same_mux s s'"
  shows "dev s \<Longrightarrow> \<exists>s'. for_backends call js s = Some s' \<and> dev s' \<and> same_mux s s'"
proof (induction js arbitrary: s)
  case Nil
  then show ?case by simp
next
  case (Cons i js)
  let ?b = "backends s ! i"
  obtain t where t: "(if ?b \<noteq> 0 \<and> backend_enabled s ?b then (case call ?b of Some f \<Rightarrow> f s | None \<Rightarrow> Some s) else Some s) = Some t"
      "dev t" "same_mux s t"
  proof (cases "?b \<noteq> 0 \<and> backend_enabled s ?b \<and> call ?b \<noteq> None")
    case True
    then obtain f where f: "call ?b = Some f" by auto
    from assms [OF this Cons.prems] obtain t where "f s = Some t" "dev t" "same_mux s t" by blast
    with f True show thesis by (intro that [of t]) simp_all
  next
    case False
    with Cons.prems show thesis by (intro that [of s]) (auto split: option.splits)
  qed
  obtain u where "for_backends call js t = Some u" "dev u" "same_mux t u" using Cons.IH [OF t(2)] by blast
  then show ?case using t(1) same_mux_trans [OF t(3)] by auto
qed

lemma output_total:
  assumes "dev s"
  shows "\<exists>s'. console_putchar ops c s = Some s' \<and> dev s' \<and> same_mux s s'"
    "\<exists>s'. console_write ops str s = Some s' \<and> dev s' \<and> same_mux s s'"
    "\<exists>s'. console_set_color ops fg bg s = Some s' \<and> dev s' \<and> same_mux s s'"
    "\<exists>s'. console_clear ops s = Some s' \<and> dev s' \<and> same_mux s s'"
proof -
  show "\<exists>s'. console_putchar ops c s = Some s' \<and> dev s' \<and> same_mux s s'"
    unfolding console_putchar_def by (rule for_backends_total [OF _ assms]) (auto dest: putchar_ok)
  show "\<exists>s'. console_write ops str s = Some s' \<and> dev s' \<and> same_mux s s'"
    unfolding console_write_def by (rule for_backends_total [OF _ assms]) (auto dest: write_ok)
  show "\<exists>s'. console_set_color ops fg bg s = Some s' \<and> dev s' \<and> same_mux s s'"
    unfolding console_set_color_def by (rule for_backends_total [OF _ assms]) (auto dest: set_color_ok)
  show "\<exists>s'. console_clear ops s = Some s' \<and> dev s' \<and> same_mux s s'"
    unfolding console_clear_def by (rule for_backends_total [OF _ assms]) (auto dest: clear_ok)
qed

lemma register_total:
  assumes "dev s" and "console_inv s"
  shows "\<exists>r s'. console_register ops b s = Some (r, s') \<and> dev s' \<and> console_inv s'"
proof (cases "b = 0 \<or> backend_count s \<ge> MAX_CONSOLE_BACKENDS")
  case True
  then show ?thesis using assms by (auto simp: console_register_def)
next
  case False
  obtain r t where t: "run_init (ops b) s = Some (r, t)" "dev t" "same_mux s t"
    using assms(1) init_ok [OF assms(1), of b] by (cases "init_op (ops b)") (simp_all add: run_init_def, blast)
  show ?thesis
  proof (cases "r = 0")
    case True
    let ?u = "t\<lparr>backends := (backends t)[unat (backend_count t) := b], backend_count := backend_count t + 1,
      backend_enabled := (backend_enabled t)(b := True)\<rparr>"
    have inv: "console_inv t" using same_mux_inv [OF t(3)] assms(2) by simp
    have "backend_count t < 4" using False t(3) by (simp add: same_mux_def not_le)
    then have "console_inv ?u" by (rule register_inv [OF inv]) (use False in simp)
    moreover have "dev ?u" using t(2) by (simp add: dev_mux)
    ultimately show ?thesis using True False t(1) by (auto simp: console_register_def)
  next
    case False
    then show ?thesis
      using \<open>\<not> (b = 0 \<or> backend_count s \<ge> MAX_CONSOLE_BACKENDS)\<close> t same_mux_inv [OF t(3)] assms(2) by (simp add: console_register_def)
  qed
qed

lemma run_op_total:
  assumes "dev s" and "console_inv s"
  shows "\<exists>s'. run_op ops x s = Some s' \<and> dev s' \<and> console_inv s'"
proof (cases x)
  case (Register b)
  then show ?thesis using register_total [OF assms, of b] by auto
next
  case (Unregister b)
  have "dev (snd (console_unregister b s))" "console_inv (snd (console_unregister b s))"
    using assms dev_mux unregister_frame [OF assms(2), of b] by metis+
  then show ?thesis by (simp add: Unregister)
next
  case (Enable b e)
  have "dev (console_enable b e s)" using assms(1) dev_mux [where s = s and xs = "backends s" and n = "backend_count s"] by (simp add: console_enable_def)
  moreover have "console_inv (console_enable b e s)" using assms(2) by (simp add: console_enable_def console_inv_def registered_def)
  ultimately show ?thesis by (simp add: Enable)
qed (use output_total [OF assms(1)] same_mux_inv assms(2) in fastforce)+

lemma run_ops_total: "dev s \<Longrightarrow> console_inv s \<Longrightarrow> \<exists>s'. run_ops ops xs s = Some s' \<and> dev s' \<and> console_inv s'"
proof (induction xs arbitrary: s)
  case Nil
  then show ?case by simp
next
  case (Cons x xs)
  obtain t where "run_op ops x s = Some t" "dev t" "console_inv t" using run_op_total [OF Cons.prems] by blast
  with Cons.IH show ?case by simp
qed

end


section \<open>The kernel's backends\<close>

definition devices_ok :: "console_st \<Rightarrow> bool" where
  "devices_ok s \<longleftrightarrow> vga_inv s \<and> serial_line_ready s \<and> (sp_initialized (com1 s) \<longrightarrow> sp_port (com1 s) = SERIAL_COM1)"

lemma screen_keeps_devices:
  "keeps_rest s t \<Longrightarrow> vga_inv t \<Longrightarrow> devices_ok s \<Longrightarrow> devices_ok t \<and> same_mux s t"
  using keeps_rest_console [of s t] by (auto simp: devices_ok_def same_mux_def serial_line_ready_def keeps_rest_def)

lemma line_keeps_devices:
  "devices_ok s \<Longrightarrow> devices_ok (s\<lparr>io_time := n, port_log := l\<rparr>) \<and> same_mux s (s\<lparr>io_time := n, port_log := l\<rparr>)"
  by (simp add: devices_ok_def same_mux_def serial_line_ready_def vga_inv_def)

lemma vga_backend_ok:
  assumes "devices_ok s"
  shows "devices_ok (vga_console_putchar c s) \<and> same_mux s (vga_console_putchar c s)"
    "devices_ok (vga_console_write str s) \<and> same_mux s (vga_console_write str s)"
    "devices_ok (vga_console_set_color fg bg s) \<and> same_mux s (vga_console_set_color fg bg s)"
    "devices_ok (vga_console_clear s) \<and> same_mux s (vga_console_clear s)"
proof -
  have inv: "vga_inv s" using assms by (simp add: devices_ok_def)
  have wr: "devices_ok (vga_text_write str s) \<and> same_mux s (vga_text_write str s)" for str
    using vga_text_write_refines [OF inv, of str] screen_keeps_devices assms by (auto simp: renders_def)
  show "devices_ok (vga_console_putchar c s) \<and> same_mux s (vga_console_putchar c s)"
    using wr [of "[c]"] assms by (simp add: vga_console_putchar_def vga_text_write_def)
  show "devices_ok (vga_console_write str s) \<and> same_mux s (vga_console_write str s)"
    using wr assms by (simp add: vga_console_write_def)
  show "devices_ok (vga_console_set_color fg bg s) \<and> same_mux s (vga_console_set_color fg bg s)"
    using assms by (simp add: vga_console_set_color_def vga_text_set_color_def devices_ok_def same_mux_def serial_line_ready_def vga_inv_def)
  have "vga_buffer s = VGA_MEMORY" using inv by (simp add: vga_inv_def)
  from vga_text_clear_blank(1,2) [OF this] show "devices_ok (vga_console_clear s) \<and> same_mux s (vga_console_clear s)"
    using screen_keeps_devices assms by (auto simp: vga_console_clear_def)
qed

lemma serial_line_loops:
  assumes "devices_ok s"
  shows "\<exists>s'. serial_console_putchar c s = Some s' \<and> devices_ok s' \<and> same_mux s s'"
    "\<exists>s'. serial_console_write str s = Some s' \<and> devices_ok s' \<and> same_mux s s'"
proof -
  have ready: "\<forall>t. \<exists>u \<ge> t. ready_at (com1 s) s u" if "sp_initialized (com1 s)"
    using assms that by (simp add: devices_ok_def serial_line_ready_def ready_at_def)
  show "\<exists>s'. serial_console_putchar c s = Some s' \<and> devices_ok s' \<and> same_mux s s'"
  proof (cases "sp_initialized (com1 s)")
    case True
    from serial_putchar_returns [OF True ready [OF True], of c] show ?thesis
      using line_keeps_devices [OF assms] by (auto simp: serial_console_putchar_def)
  qed (use assms in \<open>simp add: serial_console_putchar_def serial_putchar_def\<close>)
  show "\<exists>s'. serial_console_write str s = Some s' \<and> devices_ok s' \<and> same_mux s s'"
  proof (cases "sp_initialized (com1 s)")
    case True
    from serial_write_loop_returns [OF True ready [OF True], of str] show ?thesis
      using line_keeps_devices [OF assms] by (auto simp: serial_console_write_def serial_write_def)
  next
    case False
    then have "serial_putchar (Some (com1 s)) c t = Some t" for c and t :: console_st by (simp add: serial_putchar_def)
    then have "serial_write_loop (Some (com1 s)) str t = Some t" for t :: console_st by (induction str arbitrary: t) simp_all
    then show ?thesis using assms by (simp add: serial_console_write_def serial_write_def)
  qed
qed

lemma serial_init_ok: "devices_ok s \<Longrightarrow> \<exists>r s'. serial_console_init s = (r, s') \<and> devices_ok s' \<and> same_mux s s'"
  using serial_console_init_fields [of s]
  by (auto simp: devices_ok_def same_mux_def serial_line_ready_def vga_inv_def)

interpretation kernel_console: backend_table "kernel_backends va sa" devices_ok
proof
  fix s b f assume "devices_ok s" "init_op (kernel_backends va sa b) = Some f"
  then show "\<exists>r s'. f s = Some (r, s') \<and> devices_ok s' \<and> same_mux s s'"
    using serial_init_ok [of s]
    by (auto simp: kernel_backends_def vga_console_def serial_console_def vga_console_init_def split: if_splits)
next
  fix s b g c assume "devices_ok s" "putchar_op (kernel_backends va sa b) = Some g"
  then show "\<exists>s'. g c s = Some s' \<and> devices_ok s' \<and> same_mux s s'"
    using vga_backend_ok(1) [of s c] serial_line_loops(1) [of s c]
    by (auto simp: kernel_backends_def vga_console_def serial_console_def split: if_splits)
next
  fix s b w str assume "devices_ok s" "write_op (kernel_backends va sa b) = Some w"
  then show "\<exists>s'. w str s = Some s' \<and> devices_ok s' \<and> same_mux s s'"
    using vga_backend_ok(2) [of s str] serial_line_loops(2) [of s str]
    by (auto simp: kernel_backends_def vga_console_def serial_console_def split: if_splits)
next
  fix s b h fg bg assume "devices_ok s" "set_color_op (kernel_backends va sa b) = Some h"
  then show "\<exists>s'. h fg bg s = Some s' \<and> devices_ok s' \<and> same_mux s s'"
    using vga_backend_ok(3) [of s fg bg]
    by (auto simp: kernel_backends_def vga_console_def serial_console_def split: if_splits)
next
  fix s b k assume "devices_ok s" "clear_op (kernel_backends va sa b) = Some k"
  then show "\<exists>s'. k s = Some s' \<and> devices_ok s' \<and> same_mux s s'"
    using vga_backend_ok(4) [of s]
    by (auto simp: kernel_backends_def vga_console_def serial_console_def split: if_splits)
next
  fix s xs n e show "devices_ok (s\<lparr>backends := xs, backend_count := n, backend_enabled := e\<rparr>) = devices_ok s"
    by (simp add: devices_ok_def serial_line_ready_def vga_inv_def)
qed



end
