(* ===== verification/Entry.thy ===== *)
theory Entry
  imports Idt Syscall
begin

text \<open>
  The assembly entry points of the kernel: \<^verbatim>\<open>arch/x86/syscall.s\<close>, \<^verbatim>\<open>idt_asm.s\<close>, \<^verbatim>\<open>boot.s\<close> and the user
  program \<^verbatim>\<open>user_test.s\<close>, on a register file with all registers of the processor and memory
  addressed directly (the stacks lie in pages that are mapped to themselves). A C function
  that is called is a parameter; what the stubs rely on is the calling convention
  (\<open>c_function\<close>): it returns to its caller and leaves the stack above its arguments alone.
\<close>

section \<open>The processor\<close>

record x86 =
  r_eax :: u32
  r_ecx :: u32
  r_edx :: u32
  r_ebx :: u32
  r_esp :: u32
  r_ebp :: u32
  r_esi :: u32
  r_edi :: u32
  r_eip :: u32
  r_eflags :: u32
  r_cs :: u16
  r_ss :: u16
  r_ds :: u16
  r_es :: u16
  r_fs :: u16
  r_gs :: u16
  mm :: mem

definition pushl :: "u32 \<Rightarrow> x86 \<Rightarrow> x86" where
  "pushl v s = s\<lparr>r_esp := r_esp s - 4, mm := write32 (r_esp s - 4) v (mm s)\<rparr>"

definition popl :: "(u32 \<Rightarrow> x86 \<Rightarrow> x86) \<Rightarrow> x86 \<Rightarrow> x86" where
  "popl f s = f (read32 (mm s) (r_esp s)) (s\<lparr>r_esp := r_esp s + 4\<rparr>)"

definition addl_esp :: "u32 \<Rightarrow> x86 \<Rightarrow> x86" where
  "addl_esp n s = s\<lparr>r_esp := r_esp s + n\<rparr>"

text \<open>The word at an offset from the stack pointer.\<close>

definition stack_word :: "u32 \<Rightarrow> x86 \<Rightarrow> u32" where
  "stack_word n s = read32 (mm s) (r_esp s + n)"

definition pushal :: "x86 \<Rightarrow> x86" where
  "pushal s =
     pushl (r_edi s) (pushl (r_esi s) (pushl (r_ebp s) (pushl (r_esp s)
       (pushl (r_ebx s) (pushl (r_edx s) (pushl (r_ecx s) (pushl (r_eax s) s)))))))"

text \<open>\<^verbatim>\<open>popal\<close> skips the saved stack pointer.\<close>

definition popal :: "x86 \<Rightarrow> x86" where
  "popal s =
     (let s = popl (\<lambda>v s. s\<lparr>r_edi := v\<rparr>) s;
          s = popl (\<lambda>v s. s\<lparr>r_esi := v\<rparr>) s;
          s = popl (\<lambda>v s. s\<lparr>r_ebp := v\<rparr>) s;
          s = addl_esp 4 s;
          s = popl (\<lambda>v s. s\<lparr>r_ebx := v\<rparr>) s;
          s = popl (\<lambda>v s. s\<lparr>r_edx := v\<rparr>) s;
          s = popl (\<lambda>v s. s\<lparr>r_ecx := v\<rparr>) s
      in popl (\<lambda>v s. s\<lparr>r_eax := v\<rparr>) s)"

definition load_kernel_segments :: "x86 \<Rightarrow> x86" where
  "load_kernel_segments s = s\<lparr>r_ds := 0x10, r_es := 0x10, r_fs := 0x10, r_gs := 0x10\<rparr>"

text \<open>
  An interrupt through an interrupt gate into the kernel's code segment: from an outer
  ring the stack is switched to the one in the task state segment. Some exceptions push an
  error code.
\<close>

record gate_entry =
  g_esp0 :: u32
  g_ss0 :: u16
  g_offset :: u32

definition cpu_interrupt :: "gate_entry \<Rightarrow> u32 option \<Rightarrow> x86 \<Rightarrow> x86" where
  "cpu_interrupt g err s =
     (let t = (if r_cs s AND 3 = 3
               then pushl (r_esp s) (pushl (ucast (r_ss s)) (s\<lparr>r_esp := g_esp0 g, r_ss := g_ss0 g\<rparr>))
               else s);
          t = pushl (r_eip s) (pushl (ucast (r_cs s)) (pushl (r_eflags s) t));
          t = t\<lparr>r_eflags := r_eflags s AND NOT IF_FLAG, r_cs := 0x08, r_eip := g_offset g\<rparr>
      in case err of None \<Rightarrow> t | Some code \<Rightarrow> pushl code t)"

text \<open>A return to an outer ring takes the stack pointer and the stack segment from the stack, too.\<close>

definition iret :: "x86 \<Rightarrow> x86" where
  "iret s =
     (let s = popl (\<lambda>v s. s\<lparr>r_eip := v\<rparr>) s;
          s = popl (\<lambda>v s. s\<lparr>r_cs := ucast v\<rparr>) s;
          s = popl (\<lambda>v s. s\<lparr>r_eflags := v\<rparr>) s
      in if r_cs s AND 3 = 3 then s\<lparr>r_esp := stack_word 0 s, r_ss := ucast (stack_word 4 s)\<rparr> else s)"


section \<open>The system call entry\<close>

text \<open>\<^verbatim>\<open>syscall_entry_int80\<close> up to the kernel's segments, up to the call, and after it.\<close>

definition syscall_save :: "x86 \<Rightarrow> x86" where
  "syscall_save s =
     (let s = pushal s;
          s = pushl (ucast (r_ds s)) s;
          s = pushl (ucast (r_es s)) s;
          s = pushl (ucast (r_fs s)) s;
          s = pushl (ucast (r_gs s)) s;
          s = s\<lparr>r_eax := (r_eax s AND NOT 0xFFFF) OR 0x10\<rparr>
      in load_kernel_segments s)"

definition syscall_push_args :: "x86 \<Rightarrow> x86" where
  "syscall_push_args s =
     (let s = s\<lparr>r_eax := stack_word 44 s, r_ebx := stack_word 32 s, r_ecx := stack_word 40 s, r_edx := stack_word 36 s,
            r_esi := stack_word 20 s, r_edi := stack_word 16 s\<rparr>
      in pushl (r_eax s) (pushl (r_ebx s) (pushl (r_ecx s) (pushl (r_edx s) (pushl (r_esi s) (pushl (r_edi s) s))))))"

definition syscall_leave :: "x86 \<Rightarrow> x86" where
  "syscall_leave s =
     (let s = addl_esp 24 s;
          s = s\<lparr>mm := write32 (r_esp s + 44) (r_eax s) (mm s)\<rparr>;
          s = popl (\<lambda>v s. s\<lparr>r_gs := ucast v\<rparr>) s;
          s = popl (\<lambda>v s. s\<lparr>r_fs := ucast v\<rparr>) s;
          s = popl (\<lambda>v s. s\<lparr>r_es := ucast v\<rparr>) s;
          s = popl (\<lambda>v s. s\<lparr>r_ds := ucast v\<rparr>) s
      in iret (popal s))"

text \<open>The call pushes the return address, which the function takes off again.\<close>

definition syscall_entry_int80 :: "(x86 \<Rightarrow> x86) \<Rightarrow> addr \<Rightarrow> x86 \<Rightarrow> x86" where
  "syscall_entry_int80 handler ret s = syscall_leave (handler (pushl ret (syscall_push_args (syscall_save s))))"


text \<open>
  \<^verbatim>\<open>syscall_int80\<close>, by which C code in the kernel makes a system call; \<open>sys\<close> is the effect of
  \<^verbatim>\<open>int $0x80\<close>.
\<close>

definition syscall_int80 :: "(x86 \<Rightarrow> x86) \<Rightarrow> x86 \<Rightarrow> x86" where
  "syscall_int80 sys s =
     (let s = pushl (r_ebp s) (pushl (r_edi s) (pushl (r_esi s) (pushl (r_ebx s) s)));
          s = s\<lparr>r_eax := stack_word 20 s\<rparr>;
          s = s\<lparr>r_ebx := stack_word 24 s\<rparr>;
          s = s\<lparr>r_ecx := stack_word 28 s\<rparr>;
          s = s\<lparr>r_edx := stack_word 32 s\<rparr>;
          s = s\<lparr>r_esi := stack_word 36 s\<rparr>;
          s = s\<lparr>r_edi := stack_word 40 s\<rparr>;
          s = sys s;
          s = popl (\<lambda>v s. s\<lparr>r_ebp := v\<rparr>) s;
          s = popl (\<lambda>v s. s\<lparr>r_edi := v\<rparr>) s;
          s = popl (\<lambda>v s. s\<lparr>r_esi := v\<rparr>) s;
          s = popl (\<lambda>v s. s\<lparr>r_ebx := v\<rparr>) s
      in popl (\<lambda>v s. s\<lparr>r_eip := v\<rparr>) s)"


section \<open>The interrupt stubs\<close>

text \<open>The exceptions for which the stub leaves the place of the error code to the processor.\<close>

definition error_vectors :: "u32 set" where
  "error_vectors = {8, 10, 11, 12, 13, 14, 17, 30}"

definition stub_push :: "u32 \<Rightarrow> x86 \<Rightarrow> x86" where
  "stub_push n s = (if n \<in> error_vectors then pushl n s else pushl n (pushl 0 s))"

text \<open>\<^verbatim>\<open>isr_common_stub\<close> and \<^verbatim>\<open>irq_common_stub\<close>, which differ in the function they call only.\<close>

definition stub_save :: "x86 \<Rightarrow> x86" where
  "stub_save s =
     (let s = pushl (r_ebx s) (pushl (r_edx s) (pushl (r_ecx s) (pushl (r_eax s) s)));
          s = s\<lparr>r_eax := r_esp s\<rparr>;
          s = s\<lparr>r_eax := r_eax s + 24\<rparr>;
          s = pushl (r_eax s) s;
          s = pushl (r_edi s) (pushl (r_esi s) (pushl (r_ebp s) s));
          s = s\<lparr>r_eax := (r_eax s AND NOT 0xFFFF) OR ucast (r_ds s)\<rparr>;
          s = pushl (r_eax s) s;
          s = s\<lparr>r_eax := (r_eax s AND NOT 0xFFFF) OR 0x10\<rparr>
      in load_kernel_segments s)"

definition stub_leave :: "x86 \<Rightarrow> x86" where
  "stub_leave s =
     (let s = addl_esp 4 s;
          s = popl (\<lambda>v s. s\<lparr>r_eax := v\<rparr>) s;
          s = s\<lparr>r_ds := ucast (r_eax s), r_es := ucast (r_eax s), r_fs := ucast (r_eax s), r_gs := ucast (r_eax s)\<rparr>;
          s = popal s;
          s = addl_esp 8 s
      in iret s)"

definition common_stub :: "(x86 \<Rightarrow> x86) \<Rightarrow> addr \<Rightarrow> x86 \<Rightarrow> x86" where
  "common_stub handler ret s =
     (let s = stub_save s;
          s = pushl (r_esp s) s
      in stub_leave (handler (pushl ret s)))"


section \<open>Start and user program\<close>

text \<open>\<^verbatim>\<open>_start\<close> up to the first instruction of \<^verbatim>\<open>kmain\<close>.\<close>

definition start :: "addr \<Rightarrow> addr \<Rightarrow> x86 \<Rightarrow> x86" where
  "start stack_top ret s =
     (let s = s\<lparr>r_esp := stack_top\<rparr>;
          s = s\<lparr>r_ebp := stack_top\<rparr>;
          s = popl (\<lambda>v s. s\<lparr>r_eflags := v\<rparr>) (pushl 0 s);
          s = pushl (r_ebx s) s;
          s = pushl (r_eax s) s
      in pushl ret s)"

text \<open>
  \<^verbatim>\<open>user_test.s\<close>: \<open>sys\<close> is the effect of \<^verbatim>\<open>int $0x80\<close>. The result is the list of requests made, each
  with its number and first argument; the last one, to exit, does not come cont.
\<close>

partial_function (option) yield_loop :: "(x86 \<Rightarrow> x86) \<Rightarrow> x86 \<Rightarrow> ((u32 \<times> u32) list \<times> x86) option" where
  "yield_loop sys s =
     (let s = s\<lparr>r_eax := 2\<rparr>;
          request = (r_eax s, r_ebx s);
          s = sys s;
          s = s\<lparr>r_ecx := r_ecx s - 1\<rparr>
      in if r_ecx s \<noteq> 0 then Option.bind (yield_loop sys s) (\<lambda>(rs, s). Some (request # rs, s)) else Some ([request], s))"

definition user_test :: "(x86 \<Rightarrow> x86) \<Rightarrow> x86 \<Rightarrow> (u32 \<times> u32) list option" where
  "user_test sys s =
     (let s = s\<lparr>r_eax := 3, r_ebx := 0, r_ecx := 0, r_edx := 0, r_esi := 0, r_edi := 0\<rparr>;
          getpid = (r_eax s, r_ebx s);
          s = sys s;
          s = s\<lparr>r_ecx := 5\<rparr>
      in map_option (\<lambda>(yields, s).
           let s = s\<lparr>r_eax := 1, r_ebx := 42\<rparr> in getpid # yields @ [(r_eax s, r_ebx s)]) (yield_loop sys s))"


section \<open>The stack as a list\<close>

text \<open>The words from the stack pointer on, the top first.\<close>

definition stk :: "x86 \<Rightarrow> u32 list \<Rightarrow> bool" where
  "stk s vs \<longleftrightarrow> unat (r_esp s) mod 4 = 0 \<and> length vs < 1000 \<and>
     (\<forall>i < length vs. read32 (mm s) (r_esp s + 4 * of_nat i) = vs ! i)"

text \<open>A C function with \<open>n\<close> words of arguments, called with the return address on top of them.\<close>

definition c_function :: "nat \<Rightarrow> (x86 \<Rightarrow> x86) \<Rightarrow> bool" where
  "c_function n f \<longleftrightarrow> (\<forall>s ret args vs. stk s (ret # args @ vs) \<and> length args = n \<longrightarrow>
     r_esp (f s) = r_esp s + 4 \<and> r_ss (f s) = r_ss s \<and> (\<exists>args'. length args' = n \<and> stk (f s) (args' @ vs)))"

lemma c_functionD:
  "c_function n f \<Longrightarrow> stk s (ret # args @ vs) \<Longrightarrow> length args = n \<Longrightarrow>
   r_esp (f s) = r_esp s + 4 \<and> r_ss (f s) = r_ss s \<and> (\<exists>args'. length args' = n \<and> stk (f s) (args' @ vs))"
  unfolding c_function_def by blast

lemma aligned_offset:
  assumes "unat (a :: addr) mod 4 = 0"
  shows "unat (a + 4 * of_nat i) mod 4 = 0" "unat (a - 4) mod 4 = 0" "unat (a + 4) mod 4 = 0"
proof -
  have dvd: "(4 :: nat) dvd 2 ^ 32" by simp
  have add: "unat (a + b) mod 4 = 0" if "unat b mod 4 = 0" for b :: addr
  proof -
    have "unat (a + b) mod 4 = (unat a + unat b) mod 4" using dvd by (simp add: unat_word_ariths mod_mod_cancel)
    also have "\<dots> = 0" using that assms by presburger
    finally show ?thesis .
  qed
  have "unat (4 * of_nat i :: addr) mod 4 = 0" using dvd by (simp add: unat_word_ariths mod_mod_cancel)
  then show "unat (a + 4 * of_nat i) mod 4 = 0" by (rule add)
  show "unat (a - 4) mod 4 = 0" "unat (a + 4) mod 4 = 0" using add [of "- 4"] add [of 4] by simp_all
qed

lemma offset_inj: "i < 1000 \<Longrightarrow> j < 1000 \<Longrightarrow> (a :: addr) + 4 * of_nat i = a + 4 * of_nat j \<Longrightarrow> i = j"
proof -
  assume "i < 1000" "j < 1000" "a + 4 * of_nat i = a + 4 * of_nat j"
  then have "unat (of_nat (4 * i) :: addr) = unat (of_nat (4 * j) :: addr)" by simp
  with \<open>i < 1000\<close> \<open>j < 1000\<close> show "i = j" by (simp add: unsigned_of_nat take_bit_eq_mod del: of_nat_mult)
qed

lemma stk_push:
  assumes "stk s vs" and "length vs < 999" and "v = v'"
  shows "stk (pushl v s) (v' # vs)"
proof -
  have al: "unat (r_esp s - 4) mod 4 = 0" using assms(1) aligned_offset(2) by (simp add: stk_def)
  have "read32 (write32 (r_esp s - 4) v (mm s)) (r_esp s - 4 + 4 * of_nat (Suc i)) = vs ! i" if "i < length vs" for i
  proof -
    have "r_esp s - 4 + 4 * of_nat (Suc i) \<noteq> r_esp s - 4"
      using offset_inj [of "Suc i" 0 "r_esp s - 4"] that assms(2) by auto
    from read32_write32_other [OF al aligned_offset(1) [OF al] this [symmetric]]
    have "read32 (write32 (r_esp s - 4) v (mm s)) (r_esp s - 4 + 4 * of_nat (Suc i)) = read32 (mm s) (r_esp s - 4 + 4 * of_nat (Suc i))" .
    also have "r_esp s - 4 + 4 * of_nat (Suc i) = r_esp s + 4 * of_nat i" by (simp add: algebra_simps)
    finally show ?thesis using assms(1) that by (simp add: stk_def)
  qed
  then show ?thesis using al assms(2,3) by (auto simp: stk_def pushl_def nth_Cons split: nat.split)
qed

lemma stk_word: "stk s vs \<Longrightarrow> i < length vs \<Longrightarrow> stack_word (4 * of_nat i) s = vs ! i"
  by (simp add: stk_def stack_word_def)

lemma stk_drop: "stk s (us @ vs) \<Longrightarrow> stk (s\<lparr>r_esp := r_esp s + 4 * of_nat (length us)\<rparr>) vs"
proof -
  assume s: "stk s (us @ vs)"
  have "read32 (mm s) (r_esp s + 4 * of_nat (length us) + 4 * of_nat i) = vs ! i" if "i < length vs" for i
  proof -
    have "r_esp s + 4 * of_nat (length us) + 4 * of_nat i = r_esp s + 4 * of_nat (length us + i)" by (simp add: algebra_simps)
    moreover have "read32 (mm s) (r_esp s + 4 * of_nat (length us + i)) = vs ! i"
      using s that by (simp add: stk_def nth_append del: of_nat_add)
    ultimately show ?thesis by (simp only:)
  qed
  then show ?thesis using s aligned_offset(1) [of "r_esp s"] by (simp add: stk_def)
qed

lemma stk_cong: "r_esp s' = r_esp s \<Longrightarrow> mm s' = mm s \<Longrightarrow> stk s' vs = stk s vs"
  by (simp add: stk_def)

text \<open>Registers across a push.\<close>

lemma pushl_simps [simp]:
  "r_eax (pushl v s) = r_eax s" "r_ecx (pushl v s) = r_ecx s" "r_edx (pushl v s) = r_edx s" "r_ebx (pushl v s) = r_ebx s"
  "r_esp (pushl v s) = r_esp s - 4" "r_ebp (pushl v s) = r_ebp s" "r_esi (pushl v s) = r_esi s" "r_edi (pushl v s) = r_edi s"
  "r_eip (pushl v s) = r_eip s" "r_eflags (pushl v s) = r_eflags s" "r_cs (pushl v s) = r_cs s" "r_ss (pushl v s) = r_ss s"
  "r_ds (pushl v s) = r_ds s" "r_es (pushl v s) = r_es s" "r_fs (pushl v s) = r_fs s" "r_gs (pushl v s) = r_gs s"
  by (simp_all add: pushl_def)

lemma stk_upd [simp]:
  "stk (s\<lparr>r_eax := a\<rparr>) vs = stk s vs" "stk (s\<lparr>r_ebx := a\<rparr>) vs = stk s vs" "stk (s\<lparr>r_ecx := a\<rparr>) vs = stk s vs"
  "stk (s\<lparr>r_edx := a\<rparr>) vs = stk s vs" "stk (s\<lparr>r_esi := a\<rparr>) vs = stk s vs" "stk (s\<lparr>r_edi := a\<rparr>) vs = stk s vs"
  "stk (s\<lparr>r_ebp := a\<rparr>) vs = stk s vs" "stk (s\<lparr>r_eip := a\<rparr>) vs = stk s vs" "stk (s\<lparr>r_eflags := a\<rparr>) vs = stk s vs"
  "stk (s\<lparr>r_cs := b\<rparr>) vs = stk s vs" "stk (s\<lparr>r_ss := b\<rparr>) vs = stk s vs" "stk (s\<lparr>r_ds := b\<rparr>) vs = stk s vs"
  "stk (s\<lparr>r_es := b\<rparr>) vs = stk s vs" "stk (s\<lparr>r_fs := b\<rparr>) vs = stk s vs" "stk (s\<lparr>r_gs := b\<rparr>) vs = stk s vs"
  by (simp_all add: stk_def)

section \<open>Entry from the interrupted code\<close>

text \<open>What the processor leaves on the stack, and the stack pointer it starts from.\<close>

definition trap_words :: "x86 \<Rightarrow> u32 list" where
  "trap_words s = [r_eip s, ucast (r_cs s), r_eflags s] @ (if r_cs s AND 3 = 3 then [r_esp s, ucast (r_ss s)] else [])"

definition trap_base :: "gate_entry \<Rightarrow> x86 \<Rightarrow> u32" where
  "trap_base g s = (if r_cs s AND 3 = 3 then g_esp0 g else r_esp s)"

lemma cpu_interrupt_stk:
  assumes "unat (trap_base g s) mod 4 = 0"
  shows "stk (cpu_interrupt g None s) (trap_words s)"
    "cpu_interrupt g (Some e) s = pushl e (cpu_interrupt g None s)"
    "r_esp (cpu_interrupt g None s) = trap_base g s - 4 * of_nat (length (trap_words s))"
proof -
  have "stk (s\<lparr>r_esp := trap_base g s\<rparr>) []" using assms by (simp add: stk_def)
  then show "stk (cpu_interrupt g None s) (trap_words s)"
    by (auto simp: cpu_interrupt_def trap_words_def trap_base_def Let_def intro!: stk_push)
  show "cpu_interrupt g (Some e) s = pushl e (cpu_interrupt g None s)" by (simp add: cpu_interrupt_def Let_def)
  show "r_esp (cpu_interrupt g None s) = trap_base g s - 4 * of_nat (length (trap_words s))"
    by (simp add: cpu_interrupt_def trap_words_def trap_base_def Let_def)
qed

text \<open>In ring 0 the interrupted code's stack is used: its words stay where they are.\<close>

lemma cpu_interrupt_ring0:
  assumes "stk s vs" and "length vs < 900" and "r_cs s AND 3 \<noteq> 3"
  shows "stk (cpu_interrupt g None s) (trap_words s @ vs)" "unat (trap_base g s) mod 4 = 0"
  using assms by (auto simp: cpu_interrupt_def trap_words_def trap_base_def Let_def intro!: stk_push) (simp add: stk_def)

lemma cpu_interrupt_ss: "r_cs s AND 3 \<noteq> 3 \<Longrightarrow> r_ss (cpu_interrupt g None s) = r_ss s"
  by (simp add: cpu_interrupt_def Let_def)

lemma cpu_interrupt_regs:
  "r_eax (cpu_interrupt g None s) = r_eax s" "r_ecx (cpu_interrupt g None s) = r_ecx s" "r_edx (cpu_interrupt g None s) = r_edx s"
  "r_ebx (cpu_interrupt g None s) = r_ebx s" "r_ebp (cpu_interrupt g None s) = r_ebp s" "r_esi (cpu_interrupt g None s) = r_esi s"
  "r_edi (cpu_interrupt g None s) = r_edi s" "r_ds (cpu_interrupt g None s) = r_ds s" "r_es (cpu_interrupt g None s) = r_es s"
  "r_fs (cpu_interrupt g None s) = r_fs s" "r_gs (cpu_interrupt g None s) = r_gs s" "r_cs (cpu_interrupt g None s) = 8"
  "r_eflags (cpu_interrupt g None s) = r_eflags s AND NOT IF_FLAG"
  by (simp_all add: cpu_interrupt_def Let_def)

section \<open>Restoring\<close>

lemma stk_nth: "stk s vs \<Longrightarrow> i < length vs \<Longrightarrow> read32 (mm s) (r_esp s + 4 * of_nat i) = vs ! i"
  by (simp add: stk_def)

lemma stk_store:
  assumes "stk s vs" and "i < length vs"
  shows "stk (s\<lparr>mm := write32 (r_esp s + 4 * of_nat i) v (mm s)\<rparr>) (vs[i := v])"
proof -
  have al: "unat (r_esp s) mod 4 = 0" and len: "length vs < 1000" using assms(1) by (simp_all add: stk_def)
  have "read32 (write32 (r_esp s + 4 * of_nat i) v (mm s)) (r_esp s + 4 * of_nat j) = vs[i := v] ! j" if "j < length vs" for j
  proof (cases "i = j")
    case False
    then have "r_esp s + 4 * of_nat i \<noteq> r_esp s + 4 * of_nat j" using offset_inj [of i j "r_esp s"] that assms(2) len by auto
    from read32_write32_other [OF aligned_offset(1) [OF al] aligned_offset(1) [OF al] this]
    show ?thesis using False stk_nth [OF assms(1) that] by simp
  qed (use that in simp)
  then show ?thesis using al len by (simp add: stk_def)
qed

lemma stk_addl: "stk s (us @ vs) \<Longrightarrow> n = 4 * of_nat (length us) \<Longrightarrow> stk (addl_esp n s) vs"
  using stk_drop by (simp add: addl_esp_def)

lemma popal_result:
  assumes "stk s (edi # esi # ebp # x # ebx # edx # ecx # eax # vs)"
  shows "popal s = s\<lparr>r_eax := eax, r_ecx := ecx, r_edx := edx, r_ebx := ebx, r_ebp := ebp, r_esi := esi, r_edi := edi,
      r_esp := r_esp s + 32\<rparr>" "stk (popal s) vs"
proof -
  note w = stk_nth [OF assms]
  have v: "read32 (mm s) (r_esp s) = edi" "read32 (mm s) (r_esp s + 4) = esi" "read32 (mm s) (r_esp s + 8) = ebp"
    "read32 (mm s) (r_esp s + 16) = ebx" "read32 (mm s) (r_esp s + 20) = edx" "read32 (mm s) (r_esp s + 24) = ecx"
    "read32 (mm s) (r_esp s + 28) = eax"
    using w [of 0] w [of 1] w [of 2] w [of 4] w [of 5] w [of 6] w [of 7] by simp_all
  show p: "popal s = s\<lparr>r_eax := eax, r_ecx := ecx, r_edx := edx, r_ebx := ebx, r_ebp := ebp, r_esi := esi, r_edi := edi,
      r_esp := r_esp s + 32\<rparr>"
    by (simp add: popal_def popl_def addl_esp_def Let_def add.assoc v)
  have "stk (s\<lparr>r_esp := r_esp s + 32\<rparr>) vs"
    using stk_drop [of s "[edi, esi, ebp, x, ebx, edx, ecx, eax]" vs] assms by simp
  then show "stk (popal s) vs" unfolding p by (simp add: stk_def)
qed

lemma iret_result:
  assumes "stk s (trap_words u @ vs)"
  shows "iret s = s\<lparr>r_eip := r_eip u, r_cs := r_cs u, r_eflags := r_eflags u,
      r_esp := if r_cs u AND 3 = 3 then r_esp u else r_esp s + 12, r_ss := if r_cs u AND 3 = 3 then r_ss u else r_ss s\<rparr>"
proof -
  note w = stk_nth [OF assms]
  have c: "(ucast (ucast (b :: u16) :: u32) :: u16) = b" for b by (rule bit_word_eqI) (simp add: bit_simps)
  have v: "read32 (mm s) (r_esp s) = r_eip u" "read32 (mm s) (r_esp s + 4) = ucast (r_cs u)" "read32 (mm s) (r_esp s + 8) = r_eflags u"
    using w [of 0] w [of 1] w [of 2] by (simp_all add: trap_words_def)
  have v2: "read32 (mm s) (r_esp s + 12) = r_esp u" "read32 (mm s) (r_esp s + 16) = ucast (r_ss u)" if "r_cs u AND 3 = 3"
    using w [of 3] w [of 4] that by (simp_all add: trap_words_def)
  show ?thesis
    by (simp add: iret_def popl_def stack_word_def Let_def add.assoc v v2 c)
qed

lemma iret_stk:
  assumes "stk s (trap_words u @ vs)" and "r_cs u AND 3 \<noteq> 3"
  shows "stk (iret s) vs"
  using stk_drop [of s "trap_words u" vs] assms unfolding iret_result [OF assms(1)] by (simp add: stk_def trap_words_def)

text \<open>
  The words the system call entry saves, and the arguments of the handler, which it takes from
  the saved words.
\<close>

definition saved_words :: "x86 \<Rightarrow> u32 list" where
  "saved_words s = [ucast (r_gs s), ucast (r_fs s), ucast (r_es s), ucast (r_ds s), r_edi s, r_esi s, r_ebp s, r_esp s,
     r_ebx s, r_edx s, r_ecx s, r_eax s]"

lemma syscall_save_stk:
  assumes "stk s vs" and "length vs < 900"
  shows "stk (syscall_save s) (saved_words s @ vs)" "r_esp (syscall_save s) = r_esp s - 48"
    "r_ds (syscall_save s) = 0x10" "r_es (syscall_save s) = 0x10" "r_fs (syscall_save s) = 0x10" "r_gs (syscall_save s) = 0x10"
    "r_cs (syscall_save s) = r_cs s" "r_ss (syscall_save s) = r_ss s" "r_eflags (syscall_save s) = r_eflags s"
  using assms
  by (auto simp: syscall_save_def pushal_def load_kernel_segments_def saved_words_def Let_def intro!: stk_push)

lemma syscall_args_stk:
  assumes "stk t (saved_words s @ vs)" and "length vs < 900"
  shows "stk (syscall_push_args t) ([r_eax s, r_ebx s, r_ecx s, r_edx s, r_esi s, r_edi s] @ saved_words s @ vs)"
    "r_esp (syscall_push_args t) = r_esp t - 24" "r_ds (syscall_push_args t) = r_ds t" "r_es (syscall_push_args t) = r_es t"
    "r_fs (syscall_push_args t) = r_fs t" "r_gs (syscall_push_args t) = r_gs t" "r_cs (syscall_push_args t) = r_cs t"
    "r_ss (syscall_push_args t) = r_ss t" "r_eflags (syscall_push_args t) = r_eflags t"
proof -
  note w = stk_word [OF assms(1)]
  have v: "stack_word 44 t = r_eax s" "stack_word 32 t = r_ebx s" "stack_word 40 t = r_ecx s" "stack_word 36 t = r_edx s"
    "stack_word 20 t = r_esi s" "stack_word 16 t = r_edi s"
    using w [of 11] w [of 8] w [of 10] w [of 9] w [of 5] w [of 4] by (simp_all add: saved_words_def)
  have "length (saved_words s @ vs) < 950" using assms(2) by (simp add: saved_words_def)
  then show "stk (syscall_push_args t) ([r_eax s, r_ebx s, r_ecx s, r_edx s, r_esi s, r_edi s] @ saved_words s @ vs)"
    using assms(1) by (auto simp: syscall_push_args_def v intro!: stk_push)
qed (simp_all add: syscall_push_args_def)

lemma selector_roundtrip [simp]: "(ucast (ucast (b :: u16) :: u32) :: u16) = b"
  by (rule bit_word_eqI) (simp add: bit_simps)

lemma pop_segments:
  assumes "stk s (gs # fs # es # ds # vs)"
  shows "popl (\<lambda>v s. s\<lparr>r_ds := ucast v\<rparr>) (popl (\<lambda>v s. s\<lparr>r_es := ucast v\<rparr>)
      (popl (\<lambda>v s. s\<lparr>r_fs := ucast v\<rparr>) (popl (\<lambda>v s. s\<lparr>r_gs := ucast v\<rparr>) s))) =
    s\<lparr>r_gs := ucast gs, r_fs := ucast fs, r_es := ucast es, r_ds := ucast ds, r_esp := r_esp s + 16\<rparr>"
    "stk (s\<lparr>r_gs := ucast gs, r_fs := ucast fs, r_es := ucast es, r_ds := ucast ds, r_esp := r_esp s + 16\<rparr>) vs"
proof -
  note w = stk_nth [OF assms]
  have v: "read32 (mm s) (r_esp s) = gs" "read32 (mm s) (r_esp s + 4) = fs" "read32 (mm s) (r_esp s + 8) = es"
    "read32 (mm s) (r_esp s + 12) = ds"
    using w [of 0] w [of 1] w [of 2] w [of 3] by simp_all
  show "popl (\<lambda>v s. s\<lparr>r_ds := ucast v\<rparr>) (popl (\<lambda>v s. s\<lparr>r_es := ucast v\<rparr>)
      (popl (\<lambda>v s. s\<lparr>r_fs := ucast v\<rparr>) (popl (\<lambda>v s. s\<lparr>r_gs := ucast v\<rparr>) s))) =
    s\<lparr>r_gs := ucast gs, r_fs := ucast fs, r_es := ucast es, r_ds := ucast ds, r_esp := r_esp s + 16\<rparr>"
    by (simp add: popl_def add.assoc v)
  show "stk (s\<lparr>r_gs := ucast gs, r_fs := ucast fs, r_es := ucast es, r_ds := ucast ds, r_esp := r_esp s + 16\<rparr>) vs"
    using stk_drop [of s "[gs, fs, es, ds]" vs] assms by (simp add: stk_def)
qed

lemma syscall_leave_result:
  assumes "stk s (args @ saved_words p @ trap_words u @ vs)" and "length args = 6"
  shows "\<exists>m. syscall_leave s = s\<lparr>r_ecx := r_ecx p, r_edx := r_edx p, r_ebx := r_ebx p, r_ebp := r_ebp p, r_esi := r_esi p,
    r_edi := r_edi p, r_ds := r_ds p, r_es := r_es p, r_fs := r_fs p, r_gs := r_gs p, r_eip := r_eip u, r_cs := r_cs u,
    r_eflags := r_eflags u, r_esp := if r_cs u AND 3 = 3 then r_esp u else r_esp s + 84,
    r_ss := if r_cs u AND 3 = 3 then r_ss u else r_ss s, mm := m\<rparr>"
    "r_cs u AND 3 \<noteq> 3 \<Longrightarrow> stk (syscall_leave s) vs"
proof -
  define t where "t = addl_esp 24 s"
  have "stk t (saved_words p @ trap_words u @ vs)" unfolding t_def by (rule stk_addl [OF assms(1)]) (simp add: assms(2))
  from stk_store [OF this, of 11 "r_eax t"]
  have st: "stk (t\<lparr>mm := write32 (r_esp t + 44) (r_eax t) (mm t)\<rparr>)
      (ucast (r_gs p) # ucast (r_fs p) # ucast (r_es p) # ucast (r_ds p) # r_edi p # r_esi p # r_ebp p # r_esp p #
       r_ebx p # r_edx p # r_ecx p # r_eax t # trap_words u @ vs)" by (simp add: saved_words_def)
  note g = pop_segments [OF st]
  note a = popal_result [OF g(2)]
  note i = iret_result [OF a(2), unfolded a(1)]
  show "\<exists>m. syscall_leave s = s\<lparr>r_ecx := r_ecx p, r_edx := r_edx p, r_ebx := r_ebx p, r_ebp := r_ebp p, r_esi := r_esi p,
    r_edi := r_edi p, r_ds := r_ds p, r_es := r_es p, r_fs := r_fs p, r_gs := r_gs p, r_eip := r_eip u, r_cs := r_cs u,
    r_eflags := r_eflags u, r_esp := if r_cs u AND 3 = 3 then r_esp u else r_esp s + 84,
    r_ss := if r_cs u AND 3 = 3 then r_ss u else r_ss s, mm := m\<rparr>"
    unfolding syscall_leave_def Let_def t_def [symmetric] g(1) a(1) i
    by (intro exI [of _ "write32 (r_esp t + 44) (r_eax t) (mm t)"]) (simp add: t_def addl_esp_def add.assoc)
  show "stk (syscall_leave s) vs" if "r_cs u AND 3 \<noteq> 3"
    using iret_stk [OF a(2) that] unfolding syscall_leave_def Let_def t_def [symmetric] g(1) .
qed

lemma syscall_gate_on_stack:
  assumes "c_function 6 handler" and "unat (trap_base g s) mod 4 = 0"
    and "stk (cpu_interrupt g None s) (trap_words s @ vs)" and "length vs < 800"
  shows "\<exists>t m. syscall_entry_int80 handler ret (cpu_interrupt g None s) = s\<lparr>r_eax := r_eax (handler t), mm := m\<rparr> \<and>
    stack_word 0 t = ret \<and> [stack_word 4 t, stack_word 8 t, stack_word 12 t, stack_word 16 t, stack_word 20 t, stack_word 24 t] =
      [r_eax s, r_ebx s, r_ecx s, r_edx s, r_esi s, r_edi s] \<and>
    [r_ds t, r_es t, r_fs t, r_gs t] = [0x10, 0x10, 0x10, 0x10] \<and> \<not> bit (r_eflags t) 9 \<and>
    (r_cs s AND 3 \<noteq> 3 \<longrightarrow> stk (s\<lparr>r_eax := r_eax (handler t), mm := m\<rparr>) vs)"
proof -
  define s0 where "s0 = cpu_interrupt g None s"
  note s0 = assms(3) [folded s0_def] cpu_interrupt_stk(3) [OF assms(2), folded s0_def]
  note r0 = cpu_interrupt_regs [of g s, folded s0_def]
  have len: "length (trap_words s @ vs) < 900" using assms(4) by (simp add: trap_words_def)
  note s1 = syscall_save_stk [OF s0(1) len]
  note s2 = syscall_args_stk [OF s1(1) len]
  define t where "t = pushl ret (syscall_push_args (syscall_save s0))"
  let ?args = "[r_eax s0, r_ebx s0, r_ecx s0, r_edx s0, r_esi s0, r_edi s0]"
  have t: "stk t (ret # ?args @ saved_words s0 @ trap_words s @ vs)"
    unfolding t_def by (rule stk_push [OF s2(1)]) (use assms(4) in \<open>simp_all add: saved_words_def trap_words_def\<close>)
  have "r_esp t = trap_base g s - 4 * of_nat (length (trap_words s)) - 76" by (simp add: t_def s1 s2 s0)
  moreover obtain args' where h: "r_esp (handler t) = r_esp t + 4" "r_ss (handler t) = r_ss t" "length args' = 6"
      "stk (handler t) (args' @ saved_words s0 @ trap_words s @ vs)"
    using c_functionD [OF assms(1) t] by auto
  ultimately have esp: "r_cs s AND 3 \<noteq> 3 \<Longrightarrow> r_esp (handler t) + 84 = r_esp s"
    by (simp add: trap_base_def trap_words_def)
  have "r_ss t = r_ss s0" by (simp add: t_def s2 s1)
  then have ss: "r_cs s AND 3 \<noteq> 3 \<Longrightarrow> r_ss (handler t) = r_ss s"
    using cpu_interrupt_ss [of s g] h(2) by (simp add: s0_def)
  obtain m where m: "syscall_leave (handler t) = (handler t)\<lparr>r_ecx := r_ecx s0, r_edx := r_edx s0, r_ebx := r_ebx s0,
      r_ebp := r_ebp s0, r_esi := r_esi s0, r_edi := r_edi s0, r_ds := r_ds s0, r_es := r_es s0, r_fs := r_fs s0,
      r_gs := r_gs s0, r_eip := r_eip s, r_cs := r_cs s, r_eflags := r_eflags s,
      r_esp := if r_cs s AND 3 = 3 then r_esp s else r_esp (handler t) + 84,
      r_ss := if r_cs s AND 3 = 3 then r_ss s else r_ss (handler t), mm := m\<rparr>"
    using syscall_leave_result(1) [OF h(4,3)] by blast
  have l: "syscall_leave (handler t) = s\<lparr>r_eax := r_eax (handler t), mm := m\<rparr>"
    unfolding m by (rule x86.equality) (use esp ss r0 in simp_all)
  then have "syscall_entry_int80 handler ret s0 = s\<lparr>r_eax := r_eax (handler t), mm := m\<rparr>"
    by (simp add: syscall_entry_int80_def t_def)
  moreover have "r_cs s AND 3 \<noteq> 3 \<longrightarrow> stk (s\<lparr>r_eax := r_eax (handler t), mm := m\<rparr>) vs"
    using syscall_leave_result(2) [OF h(4,3)] unfolding l by blast
  moreover note w = stk_word [OF t]
  have "stack_word 0 t = ret" "[stack_word 4 t, stack_word 8 t, stack_word 12 t, stack_word 16 t, stack_word 20 t, stack_word 24 t] =
      [r_eax s, r_ebx s, r_ecx s, r_edx s, r_esi s, r_edi s]"
    using w [of 0] w [of 1] w [of 2] w [of 3] w [of 4] w [of 5] w [of 6] by (simp_all add: r0)
  moreover have "[r_ds t, r_es t, r_fs t, r_gs t] = [0x10, 0x10, 0x10, 0x10]" by (simp add: t_def s2 s1)
  moreover have "\<not> bit (r_eflags t) 9" by (simp add: t_def s2 s1 r0 bit_simps)
  ultimately show ?thesis unfolding s0_def by blast
qed

lemma syscall_gate:
  assumes "c_function 6 handler" and "unat (trap_base g s) mod 4 = 0"
  shows "\<exists>t m. syscall_entry_int80 handler ret (cpu_interrupt g None s) = s\<lparr>r_eax := r_eax (handler t), mm := m\<rparr> \<and>
    stack_word 0 t = ret \<and> [stack_word 4 t, stack_word 8 t, stack_word 12 t, stack_word 16 t, stack_word 20 t, stack_word 24 t] =
      [r_eax s, r_ebx s, r_ecx s, r_edx s, r_esi s, r_edi s] \<and>
    [r_ds t, r_es t, r_fs t, r_gs t] = [0x10, 0x10, 0x10, 0x10] \<and> \<not> bit (r_eflags t) 9"
proof -
  have "stk (cpu_interrupt g None s) (trap_words s @ [])" using cpu_interrupt_stk(1) [OF assms(2)] by simp
  moreover have "length ([] :: u32 list) < 800" by simp
  ultimately show ?thesis using syscall_gate_on_stack [OF assms, of "[]" ret] by blast
qed

text \<open>
  C30: the system call gate is transparent. With a handler that keeps the calling convention, a
  system call from ring 3 (on the kernel stack of the task state segment) or from ring 0 enters
  the handler with the call number and the five arguments from \<^verbatim>\<open>eax\<close>, \<^verbatim>\<open>ebx\<close>, \<^verbatim>\<open>ecx\<close>, \<^verbatim>\<open>edx\<close>,
  \<^verbatim>\<open>esi\<close> and \<^verbatim>\<open>edi\<close>, with the kernel's data segments and interrupts off; it returns behind the
  instruction with every register of the caller as it was, stack pointer, flags and segments
  included, but for the result in \<^verbatim>\<open>eax\<close>.
\<close>

theorem syscall_gate_transparent:
  assumes "c_function 6 handler" and "unat (trap_base g s) mod 4 = 0"
  shows "\<exists>t m. syscall_entry_int80 handler ret (cpu_interrupt g None s) = s\<lparr>r_eax := r_eax (handler t), mm := m\<rparr> \<and>
    stack_word 0 t = ret \<and> [stack_word 4 t, stack_word 8 t, stack_word 12 t, stack_word 16 t, stack_word 20 t, stack_word 24 t] =
      [r_eax s, r_ebx s, r_ecx s, r_edx s, r_esi s, r_edi s] \<and>
    [r_ds t, r_es t, r_fs t, r_gs t] = [0x10, 0x10, 0x10, 0x10] \<and> \<not> bit (r_eflags t) 9"
  by (rule syscall_gate [OF assms])


section \<open>The interrupt stubs restore\<close>

text \<open>The structure at an address, as the C code reads it.\<close>

definition frame_at :: "mem \<Rightarrow> addr \<Rightarrow> interrupt_frame" where
  "frame_at m p = \<lparr>f_ds = read32 m p, f_edi = read32 m (p + 4), f_esi = read32 m (p + 8), f_ebp = read32 m (p + 12),
     f_esp = read32 m (p + 16), f_ebx = read32 m (p + 20), f_edx = read32 m (p + 24), f_ecx = read32 m (p + 28),
     f_eax = read32 m (p + 32), int_no = read32 m (p + 36), err_code = read32 m (p + 40), f_eip = read32 m (p + 44),
     f_cs = read32 m (p + 48), f_eflags = read32 m (p + 52), f_useresp = read32 m (p + 56), f_ss = read32 m (p + 60)\<rparr>"

definition ds_word :: "x86 \<Rightarrow> u32" where
  "ds_word s = ((8 + r_esp s) AND NOT 0xFFFF) OR ucast (r_ds s)"

lemma ds_word_low: "ucast (ds_word s) = r_ds s"
proof -
  have m: "(0xFFFF :: u32) = mask 16" by (simp add: mask_eq_exp_minus_1)
  show ?thesis unfolding ds_word_def m by (intro bit_word_eqI) (auto simp: bit_simps simp del: mask_numeral)
qed

definition frame_words :: "x86 \<Rightarrow> u32 list" where
  "frame_words s = [ds_word s, r_edi s, r_esi s, r_ebp s, r_esp s + 8, r_ebx s, r_edx s, r_ecx s, r_eax s]"

lemma stub_save_stk:
  assumes "stk s vs" and "length vs < 900"
  shows "stk (stub_save s) (frame_words s @ vs)" "r_esp (stub_save s) = r_esp s - 36"
    "r_ds (stub_save s) = 0x10" "r_es (stub_save s) = 0x10" "r_fs (stub_save s) = 0x10" "r_gs (stub_save s) = 0x10"
    "r_ss (stub_save s) = r_ss s" "r_eflags (stub_save s) = r_eflags s"
  using assms
  by (auto simp: stub_save_def load_kernel_segments_def frame_words_def ds_word_def Let_def intro!: stk_push)

lemma stub_leave_result:
  assumes "stk s (a # frame_words p @ n # e # trap_words u)"
  shows "stub_leave s = s\<lparr>r_eax := r_eax p, r_ecx := r_ecx p, r_edx := r_edx p, r_ebx := r_ebx p, r_ebp := r_ebp p,
    r_esi := r_esi p, r_edi := r_edi p, r_ds := r_ds p, r_es := r_ds p, r_fs := r_ds p, r_gs := r_ds p, r_eip := r_eip u,
    r_cs := r_cs u, r_eflags := r_eflags u, r_esp := if r_cs u AND 3 = 3 then r_esp u else r_esp s + 60,
    r_ss := if r_cs u AND 3 = 3 then r_ss u else r_ss s\<rparr>"
proof -
  define t where "t = addl_esp 4 s"
  have st: "stk t (ds_word p # r_edi p # r_esi p # r_ebp p # (r_esp p + 8) # r_ebx p # r_edx p # r_ecx p # r_eax p # n # e # trap_words u)"
    using stk_addl [of s "[a]" _ 4] assms by (simp add: t_def frame_words_def)
  have v: "read32 (mm t) (r_esp t) = ds_word p" using stk_nth [OF st, of 0] by simp
  define t1 where "t1 = t\<lparr>r_esp := r_esp t + 4, r_eax := ds_word p, r_ds := r_ds p, r_es := r_ds p, r_fs := r_ds p, r_gs := r_ds p\<rparr>"
  have "stk t1 (r_edi p # r_esi p # r_ebp p # (r_esp p + 8) # r_ebx p # r_edx p # r_ecx p # r_eax p # n # e # trap_words u)"
    using stk_drop [of t "[ds_word p]" "r_edi p # r_esi p # r_ebp p # (r_esp p + 8) # r_ebx p # r_edx p # r_ecx p # r_eax p # n # e # trap_words u"] st
    by (simp add: t1_def)
  note a = popal_result [OF this]
  have "stk (addl_esp 8 (popal t1)) (trap_words u)" using stk_addl [of "popal t1" "[n, e]" "trap_words u" 8] a(2) by simp
  then have "stk (addl_esp 8 (popal t1)) (trap_words u @ [])" by simp
  note i = iret_result [OF this]
  have "stub_leave s = iret (addl_esp 8 (popal t1))"
    by (simp add: stub_leave_def Let_def t_def [symmetric] popl_def v ds_word_low t1_def)
  then show ?thesis unfolding i unfolding a(1) by (simp add: t1_def t_def addl_esp_def add.assoc)
qed

lemma stub_entry:
  assumes "n \<in> error_vectors \<longleftrightarrow> err \<noteq> None"
  shows "stub_push n (cpu_interrupt g err s) = pushl n (pushl (case err of None \<Rightarrow> 0 | Some e \<Rightarrow> e) (cpu_interrupt g None s))"
  using assms by (cases err) (simp_all add: stub_push_def cpu_interrupt_def Let_def)

text \<open>The state at the first instruction of the C handler: the pointer it gets, and the structure there.\<close>

lemma stub_frame:
  assumes "stk t (ret # p # frame_words u @ n # e # trap_words s)" and "p = r_esp t + 8"
  shows "let f = frame_at (mm t) (stack_word 4 t) in
    [f_edi f, f_esi f, f_ebp f, f_ebx f, f_edx f, f_ecx f, f_eax f, int_no f, err_code f, f_eip f, f_cs f, f_eflags f] =
    [r_edi u, r_esi u, r_ebp u, r_ebx u, r_edx u, r_ecx u, r_eax u, n, e, r_eip s, ucast (r_cs s), r_eflags s] \<and>
    ucast (f_ds f) = r_ds u \<and> (r_cs s AND 3 = 3 \<longrightarrow> f_useresp f = r_esp s \<and> f_ss f = ucast (r_ss s))"
proof -
  have p: "stack_word 4 t = p" using stk_word [OF assms(1), of 1] by simp
  have "stk (t\<lparr>r_esp := r_esp t + 8\<rparr>) (frame_words u @ n # e # trap_words s)"
    using stk_drop [of t "[ret, p]"] assms(1) by simp
  from stk_nth [OF this] have w: "read32 (mm t) (p + 4 * of_nat i) = (frame_words u @ n # e # trap_words s) ! i"
    if "i < 14 \<or> i < 16 \<and> r_cs s AND 3 = 3" for i
    using that assms(2) by (auto simp: frame_words_def trap_words_def)
  have a: "read32 (mm t) p = ds_word u" "read32 (mm t) (p + 4) = r_edi u" "read32 (mm t) (p + 8) = r_esi u"
    "read32 (mm t) (p + 12) = r_ebp u" "read32 (mm t) (p + 20) = r_ebx u" "read32 (mm t) (p + 24) = r_edx u"
    "read32 (mm t) (p + 28) = r_ecx u" "read32 (mm t) (p + 32) = r_eax u"
    using w [of 0] w [of 1] w [of 2] w [of 3] w [of 5] w [of 6] w [of 7] w [of 8] by (simp_all add: frame_words_def)
  have b: "read32 (mm t) (p + 36) = n" "read32 (mm t) (p + 40) = e" "read32 (mm t) (p + 44) = r_eip s"
    "read32 (mm t) (p + 48) = ucast (r_cs s)" "read32 (mm t) (p + 52) = r_eflags s"
    using w [of 9] w [of 10] w [of 11] w [of 12] w [of 13] by (simp_all add: frame_words_def trap_words_def)
  have c: "read32 (mm t) (p + 56) = r_esp s" "read32 (mm t) (p + 60) = ucast (r_ss s)" if "r_cs s AND 3 = 3"
    using w [of 14] w [of 15] that by (simp_all add: frame_words_def trap_words_def)
  show ?thesis using a b c by (simp add: frame_at_def p ds_word_low)
qed

text \<open>
  C32: the interrupt stubs hand over and restore. For every vector, with the error code pushed
  by the processor exactly where the stubs expect it, and a handler that keeps the calling
  convention, an interrupt of code in ring 3 or ring 0 calls the handler with a pointer to a
  structure that holds the vector, the error code (or 0) and the registers of the interrupted
  code, with the kernel's data segments and interrupts off. When the handler has returned, the
  interrupted code goes on with all its registers as they were, except that \<^verbatim>\<open>es\<close>, \<^verbatim>\<open>fs\<close> and
  \<^verbatim>\<open>gs\<close> get the value of \<^verbatim>\<open>ds\<close>.
\<close>

theorem interrupt_stub_restores:
  assumes "c_function 1 handler" and "unat (trap_base g s) mod 4 = 0" and "n \<in> error_vectors \<longleftrightarrow> err \<noteq> None"
  shows "\<exists>t. common_stub handler ret (stub_push n (cpu_interrupt g err s)) =
      s\<lparr>r_es := r_ds s, r_fs := r_ds s, r_gs := r_ds s, mm := mm (handler t)\<rparr> \<and>
    (let f = frame_at (mm t) (stack_word 4 t) in
      [f_edi f, f_esi f, f_ebp f, f_ebx f, f_edx f, f_ecx f, f_eax f, int_no f, err_code f, f_eip f, f_cs f, f_eflags f] =
      [r_edi s, r_esi s, r_ebp s, r_ebx s, r_edx s, r_ecx s, r_eax s, n, (case err of None \<Rightarrow> 0 | Some e \<Rightarrow> e),
       r_eip s, ucast (r_cs s), r_eflags s] \<and>
      ucast (f_ds f) = r_ds s \<and> (r_cs s AND 3 = 3 \<longrightarrow> f_useresp f = r_esp s \<and> f_ss f = ucast (r_ss s))) \<and>
    [r_ds t, r_es t, r_fs t, r_gs t] = [0x10, 0x10, 0x10, 0x10] \<and> \<not> bit (r_eflags t) 9"
proof -
  define e where "e = (case err of None \<Rightarrow> 0 | Some e \<Rightarrow> e)"
  define s0 where "s0 = cpu_interrupt g None s"
  note s0 = cpu_interrupt_stk(1,3) [OF assms(2), folded s0_def]
  note r0 = cpu_interrupt_regs [of g s, folded s0_def]
  define u where "u = pushl n (pushl e s0)"
  have u: "stk u (n # e # trap_words s)"
    unfolding u_def using s0(1) by (intro stk_push) (simp_all add: trap_words_def)
  have len: "length (n # e # trap_words s) < 900" by (simp add: trap_words_def)
  note s1 = stub_save_stk [OF u len]
  define t where "t = pushl ret (pushl (r_esp (stub_save u)) (stub_save u))"
  have t: "stk t (ret # (r_esp t + 8) # frame_words u @ n # e # trap_words s)"
    unfolding t_def using s1(1) by (intro stk_push) (simp_all add: frame_words_def trap_words_def)
  obtain a where h: "r_esp (handler t) = r_esp t + 4" "r_ss (handler t) = r_ss t"
      "stk (handler t) (a # frame_words u @ n # e # trap_words s)"
    using c_functionD [OF assms(1), of t ret "[r_esp t + 8]" "frame_words u @ n # e # trap_words s"] t
    by (auto simp: length_Suc_conv)
  have "r_esp t = r_esp u - 44" "r_esp u = trap_base g s - 4 * of_nat (length (trap_words s)) - 8"
    by (simp add: t_def s1) (simp add: u_def s0)
  then have esp: "r_cs s AND 3 \<noteq> 3 \<Longrightarrow> r_esp (handler t) + 60 = r_esp s" by (simp add: h(1) trap_base_def trap_words_def)
  have "r_ss t = r_ss u" "r_ss u = r_ss s0" by (simp add: t_def s1) (simp add: u_def)
  then have ss: "r_cs s AND 3 \<noteq> 3 \<Longrightarrow> r_ss (handler t) = r_ss s" using cpu_interrupt_ss [of s g] h(2) by (simp add: s0_def)
  have "stub_leave (handler t) = s\<lparr>r_es := r_ds s, r_fs := r_ds s, r_gs := r_ds s, mm := mm (handler t)\<rparr>"
    unfolding stub_leave_result [OF h(3)] by (rule x86.equality) (use esp ss r0 in \<open>simp_all add: u_def\<close>)
  then have "common_stub handler ret (stub_push n (cpu_interrupt g err s)) =
      s\<lparr>r_es := r_ds s, r_fs := r_ds s, r_gs := r_ds s, mm := mm (handler t)\<rparr>"
    by (simp add: common_stub_def Let_def stub_entry [OF assms(3)] e_def [symmetric] s0_def [symmetric] u_def [symmetric] t_def)
  moreover note stub_frame [OF t refl]
  moreover have "[r_ds t, r_es t, r_fs t, r_gs t] = [0x10, 0x10, 0x10, 0x10]" by (simp add: t_def s1)
  moreover have "\<not> bit (r_eflags t) 9" by (simp add: t_def s1) (simp add: u_def r0 bit_simps)
  ultimately show ?thesis unfolding e_def [symmetric] by (intro exI [of _ t]) (simp add: u_def r0)
qed

section \<open>Start and user program\<close>

text \<open>\<^verbatim>\<open>kmain\<close> starts with the values of the boot loader as its arguments, all flags clear.\<close>

lemma start_calls_kmain:
  assumes "unat stack_top mod 4 = 0"
  shows "stk (start stack_top ret s) [ret, r_eax s, r_ebx s]" "r_eflags (start stack_top ret s) = 0"
    "r_ebp (start stack_top ret s) = stack_top"
proof -
  define t where "t = popl (\<lambda>v s. s\<lparr>r_eflags := v\<rparr>) (pushl 0 (s\<lparr>r_esp := stack_top, r_ebp := stack_top\<rparr>))"
  have t: "t = (pushl 0 (s\<lparr>r_esp := stack_top, r_ebp := stack_top\<rparr>))\<lparr>r_esp := stack_top, r_eflags := 0\<rparr>"
    by (simp add: t_def popl_def pushl_def)
  have st: "start stack_top ret s = pushl ret (pushl (r_eax t) (pushl (r_ebx t) t))" by (simp add: start_def t_def Let_def)
  have "stk t []" using assms by (simp add: t stk_def)
  then show "stk (start stack_top ret s) [ret, r_eax s, r_ebx s]" unfolding st by (intro stk_push) (simp_all add: t)
  show "r_eflags (start stack_top ret s) = 0" "r_ebp (start stack_top ret s) = stack_top" unfolding st by (simp_all add: t)
qed

text \<open>A system call as the user program sees it.\<close>

definition int80 :: "(x86 \<Rightarrow> x86) \<Rightarrow> addr \<Rightarrow> gate_entry \<Rightarrow> x86 \<Rightarrow> x86" where
  "int80 handler ret g s = syscall_entry_int80 handler ret (cpu_interrupt g None s)"

lemma int80_keeps:
  assumes "c_function 6 handler" and "unat (g_esp0 g) mod 4 = 0" and "r_cs s AND 3 = 3"
  shows "\<exists>v m. int80 handler ret g s = s\<lparr>r_eax := v, mm := m\<rparr>"
proof -
  have "unat (trap_base g s) mod 4 = 0" using assms(2,3) by (simp add: trap_base_def)
  from syscall_gate [OF assms(1) this, of ret] show ?thesis unfolding int80_def by blast
qed

section \<open>System calls of the kernel's own code\<close>

lemma pop_callee_saved:
  assumes "stk s (bp # di # si # bx # ret # vs)"
  shows "popl (\<lambda>v s. s\<lparr>r_eip := v\<rparr>) (popl (\<lambda>v s. s\<lparr>r_ebx := v\<rparr>) (popl (\<lambda>v s. s\<lparr>r_esi := v\<rparr>)
      (popl (\<lambda>v s. s\<lparr>r_edi := v\<rparr>) (popl (\<lambda>v s. s\<lparr>r_ebp := v\<rparr>) s)))) =
    s\<lparr>r_ebp := bp, r_edi := di, r_esi := si, r_ebx := bx, r_eip := ret, r_esp := r_esp s + 20\<rparr>"
    "stk (s\<lparr>r_esp := r_esp s + 20\<rparr>) vs"
proof -
  note w = stk_nth [OF assms]
  have v: "read32 (mm s) (r_esp s) = bp" "read32 (mm s) (r_esp s + 4) = di" "read32 (mm s) (r_esp s + 8) = si"
    "read32 (mm s) (r_esp s + 12) = bx" "read32 (mm s) (r_esp s + 16) = ret"
    using w [of 0] w [of 1] w [of 2] w [of 3] w [of 4] by simp_all
  show "popl (\<lambda>v s. s\<lparr>r_eip := v\<rparr>) (popl (\<lambda>v s. s\<lparr>r_ebx := v\<rparr>) (popl (\<lambda>v s. s\<lparr>r_esi := v\<rparr>)
      (popl (\<lambda>v s. s\<lparr>r_edi := v\<rparr>) (popl (\<lambda>v s. s\<lparr>r_ebp := v\<rparr>) s)))) =
    s\<lparr>r_ebp := bp, r_edi := di, r_esi := si, r_ebx := bx, r_eip := ret, r_esp := r_esp s + 20\<rparr>"
    by (simp add: popl_def add.assoc v)
  show "stk (s\<lparr>r_esp := r_esp s + 20\<rparr>) vs" using stk_drop [of s "[bp, di, si, bx, ret]" vs] assms by simp
qed

lemma syscall_int80_spec:
  assumes "c_function 6 handler" and "r_cs s AND 3 \<noteq> 3"
    and "stk s (ret # num # a0 # a1 # a2 # a3 # a4 # vs)" and "length vs < 700"
  shows "\<exists>t m. syscall_int80 (int80 handler cont g) s =
      s\<lparr>r_eax := r_eax (handler t), r_ecx := a1, r_edx := a2, r_eip := ret, r_esp := r_esp s + 4, mm := m\<rparr> \<and>
    [stack_word 4 t, stack_word 8 t, stack_word 12 t, stack_word 16 t, stack_word 20 t, stack_word 24 t] = [num, a0, a1, a2, a3, a4] \<and>
    \<not> bit (r_eflags t) 9 \<and> stk (s\<lparr>r_esp := r_esp s + 4, mm := m\<rparr>) (num # a0 # a1 # a2 # a3 # a4 # vs)"
proof -
  define u where "u = pushl (r_ebp s) (pushl (r_edi s) (pushl (r_esi s) (pushl (r_ebx s) s)))"
  let ?args = "num # a0 # a1 # a2 # a3 # a4 # vs"
  let ?ws = "r_ebp s # r_edi s # r_esi s # r_ebx s # ret # ?args"
  have u: "stk u ?ws" unfolding u_def using assms(3,4) by (intro stk_push) simp_all
  note w = stk_word [OF u]
  have v: "stack_word 20 u = num" "stack_word 24 u = a0" "stack_word 28 u = a1" "stack_word 32 u = a2" "stack_word 36 u = a3"
    "stack_word 40 u = a4"
    using w [of 5] w [of 6] w [of 7] w [of 8] w [of 9] w [of 10] by simp_all
  define u1 where "u1 = u\<lparr>r_eax := num, r_ebx := a0, r_ecx := a1, r_edx := a2, r_esi := a3, r_edi := a4\<rparr>"
  have u1: "stk u1 ?ws" "r_cs u1 AND 3 \<noteq> 3" using u assms(2) by (simp_all add: u1_def) (simp add: u_def)
  have len: "length ?ws < 800" using assms(4) by simp
  then have "length ?ws < 900" by simp
  note i = cpu_interrupt_ring0 [OF u1(1) this u1(2), of g]
  obtain t m where t: "int80 handler cont g u1 = u1\<lparr>r_eax := r_eax (handler t), mm := m\<rparr>"
      "[stack_word 4 t, stack_word 8 t, stack_word 12 t, stack_word 16 t, stack_word 20 t, stack_word 24 t] =
        [r_eax u1, r_ebx u1, r_ecx u1, r_edx u1, r_esi u1, r_edi u1]" "\<not> bit (r_eflags t) 9"
      "stk (u1\<lparr>r_eax := r_eax (handler t), mm := m\<rparr>) ?ws"
    using syscall_gate_on_stack [OF assms(1) i(2,1) len, of cont] u1(2) unfolding int80_def by blast
  note p = pop_callee_saved [OF t(4)]
  have "syscall_int80 (int80 handler cont g) s = popl (\<lambda>v s. s\<lparr>r_eip := v\<rparr>) (popl (\<lambda>v s. s\<lparr>r_ebx := v\<rparr>) (popl (\<lambda>v s. s\<lparr>r_esi := v\<rparr>)
      (popl (\<lambda>v s. s\<lparr>r_edi := v\<rparr>) (popl (\<lambda>v s. s\<lparr>r_ebp := v\<rparr>) (int80 handler cont g u1)))))"
    using v by (simp add: syscall_int80_def Let_def u_def [symmetric] u1_def stack_word_def)
  also have "\<dots> = s\<lparr>r_eax := r_eax (handler t), r_ecx := a1, r_edx := a2, r_eip := ret, r_esp := r_esp s + 4, mm := m\<rparr>"
    unfolding t(1) p(1) by (rule x86.equality) (simp_all add: u1_def u_def)
  finally have "syscall_int80 (int80 handler cont g) s =
      s\<lparr>r_eax := r_eax (handler t), r_ecx := a1, r_edx := a2, r_eip := ret, r_esp := r_esp s + 4, mm := m\<rparr>" .
  moreover have "stk (s\<lparr>r_esp := r_esp s + 4, mm := m\<rparr>) ?args"
    by (rule stk_cong [THEN iffD2, OF _ _ p(2)]) (simp_all add: u1_def u_def)
  ultimately show ?thesis using t(2,3) by (intro exI [of _ t] exI [of _ m]) (simp add: u1_def)
qed

text \<open>
  C31: a system call of the kernel's own code. Called in ring 0 from C with a call number and five
  arguments, \<^verbatim>\<open>syscall_int80\<close> makes the call through the gate, on the caller's stack: the
  handler gets exactly these six values, with interrupts off, and its result is returned to
  the caller with the stack as the caller left it and every register the calling convention
  protects intact (\<^verbatim>\<open>ebx\<close>, \<^verbatim>\<open>esi\<close>, \<^verbatim>\<open>edi\<close>, \<^verbatim>\<open>ebp\<close>, the flags and the segments).
\<close>

theorem syscall_int80_keeps_convention:
  assumes "c_function 6 handler" and "r_cs s AND 3 \<noteq> 3"
    and "stk s (ret # num # a0 # a1 # a2 # a3 # a4 # vs)" and "length vs < 700"
  shows "\<exists>t m. syscall_int80 (int80 handler cont g) s =
      s\<lparr>r_eax := r_eax (handler t), r_ecx := a1, r_edx := a2, r_eip := ret, r_esp := r_esp s + 4, mm := m\<rparr> \<and>
    [stack_word 4 t, stack_word 8 t, stack_word 12 t, stack_word 16 t, stack_word 20 t, stack_word 24 t] = [num, a0, a1, a2, a3, a4] \<and>
    \<not> bit (r_eflags t) 9 \<and> stk (s\<lparr>r_esp := r_esp s + 4, mm := m\<rparr>) (num # a0 # a1 # a2 # a3 # a4 # vs)"
  by (rule syscall_int80_spec [OF assms])


section \<open>The user program\<close>

lemma yield_loop_requests:
  assumes "\<And>s. r_cs s AND 3 = 3 \<Longrightarrow> \<exists>v m. sys s = s\<lparr>r_eax := v, mm := m\<rparr>"
  shows "r_cs s AND 3 = 3 \<Longrightarrow> r_ecx s = of_nat (Suc k) \<Longrightarrow> k < 1000 \<Longrightarrow>
    \<exists>s'. yield_loop sys s = Some (replicate (Suc k) (2, r_ebx s), s')"
proof (induction k arbitrary: s)
  case 0
  obtain v m where "sys (s\<lparr>r_eax := 2\<rparr>) = s\<lparr>r_eax := v, mm := m\<rparr>" using assms [of "s\<lparr>r_eax := 2\<rparr>"] 0(1) by auto
  then show ?case using 0(2) by (subst yield_loop.simps) (simp add: Let_def)
next
  case (Suc k)
  obtain v m where v: "sys (s\<lparr>r_eax := 2\<rparr>) = s\<lparr>r_eax := v, mm := m\<rparr>" using assms [of "s\<lparr>r_eax := 2\<rparr>"] Suc.prems(1) by auto
  let ?t = "s\<lparr>r_eax := v, mm := m, r_ecx := of_nat (Suc k)\<rparr>"
  obtain s' where "yield_loop sys ?t = Some (replicate (Suc k) (2, r_ebx s), s')"
    using Suc.IH [of ?t] Suc.prems by auto
  moreover have "(of_nat (Suc k) :: u32) \<noteq> 0"
  proof
    assume "(of_nat (Suc k) :: u32) = 0"
    then have "unat (of_nat (Suc k) :: u32) = 0" by simp
    then show False using Suc.prems(3) by (simp add: unsigned_of_nat take_bit_eq_mod del: of_nat_Suc)
  qed
  moreover have "r_ecx s - 1 = of_nat (Suc k)" using Suc.prems(2) by simp
  moreover from calculation(2,3) have "r_ecx s \<noteq> 1" by (metis diff_self)
  ultimately show ?case by (subst yield_loop.simps) (simp add: Let_def v del: of_nat_Suc)
qed

text \<open>
  C33: the user program through the gate. Run in ring 3, with system calls that go through the
  gate to a handler that keeps the calling convention, \<^verbatim>\<open>user_test\<close> asks for its task number,
  yields five times and asks to exit with code 42: the loop counter in \<^verbatim>\<open>ecx\<close> survives every call,
  whatever the handler does to the registers.
\<close>

theorem user_test_requests:
  assumes "c_function 6 handler" and "unat (g_esp0 g) mod 4 = 0" and "r_cs s AND 3 = 3"
  shows "user_test (int80 handler ret g) s =
    Some [(SYS_GETPID, 0), (SYS_YIELD, 0), (SYS_YIELD, 0), (SYS_YIELD, 0), (SYS_YIELD, 0), (SYS_YIELD, 0), (SYS_EXIT, 42)]"
proof -
  let ?sys = "int80 handler ret g"
  let ?s0 = "s\<lparr>r_eax := 3, r_ebx := 0, r_ecx := 0, r_edx := 0, r_esi := 0, r_edi := 0\<rparr>"
  obtain v m where v: "?sys ?s0 = ?s0\<lparr>r_eax := v, mm := m\<rparr>" using int80_keeps [OF assms(1,2), of ?s0 ret] assms(3) by auto
  let ?s1 = "?s0\<lparr>r_eax := v, mm := m, r_ecx := 5\<rparr>"
  obtain s' where "yield_loop ?sys ?s1 = Some (replicate (Suc 4) (2, 0), s')"
    using yield_loop_requests [of ?sys ?s1 4] int80_keeps [OF assms(1,2)] assms(3) by auto
  then show ?thesis by (simp add: user_test_def Let_def v eval_nat_numeral)
qed

text \<open>A handler that clobbers what the convention lets it clobber, and returns 7.\<close>

definition sample_handler :: "x86 \<Rightarrow> x86" where
  "sample_handler s = s\<lparr>r_eax := 7, r_ecx := 0, r_edx := 0, r_esp := r_esp s + 4\<rparr>"

lemma sample_handler_ok: "c_function n sample_handler"
proof -
  have "stk (sample_handler s) (args @ vs)" if "stk s (ret # args @ vs)" for s ret args vs
    using stk_drop [of s "[ret]" "args @ vs"] that by (simp add: sample_handler_def stk_def)
  then show ?thesis unfolding c_function_def by (auto simp: sample_handler_def)
qed

definition sample_user :: x86 where
  "sample_user = \<lparr>r_eax = 3, r_ecx = 11, r_edx = 12, r_ebx = 13, r_esp = 0xBFFFFFF0, r_ebp = 14, r_esi = 15, r_edi = 16,
     r_eip = 0x400000, r_eflags = 0x202, r_cs = 0x1B, r_ss = 0x23, r_ds = 0x23, r_es = 0x23, r_fs = 0x23, r_gs = 0x23, mm = (\<lambda>_. 0)\<rparr>"

definition sample_gate :: gate_entry where
  "sample_gate = \<lparr>g_esp0 = 0x5000, g_ss0 = 0x10, g_offset = 0x130000\<rparr>"

lemma sample_gate_ok: "unat (trap_base sample_gate sample_user) mod 4 = 0" "unat (g_esp0 sample_gate) mod 4 = 0" "r_cs sample_user AND 3 = 3"
  by (simp_all add: trap_base_def sample_gate_def sample_user_def)

theorem syscall_gate_transparent_witness:
  "\<exists>m. syscall_entry_int80 sample_handler 0x130040 (cpu_interrupt sample_gate None sample_user) = sample_user\<lparr>r_eax := 7, mm := m\<rparr>"
  using syscall_gate_transparent [OF sample_handler_ok sample_gate_ok(1), of "0x130040"] by (auto simp: sample_handler_def)

theorem interrupt_stub_restores_witness:
  "\<exists>m. common_stub sample_handler 0x120040 (stub_push 14 (cpu_interrupt sample_gate (Some 6) sample_user)) = sample_user\<lparr>mm := m\<rparr>"
proof -
  have "14 \<in> error_vectors \<longleftrightarrow> Some (6 :: u32) \<noteq> None" by (simp add: error_vectors_def)
  from interrupt_stub_restores [OF sample_handler_ok sample_gate_ok(1) this, of "0x120040"] show ?thesis
    by (auto simp: sample_user_def)
qed

theorem user_test_requests_witness:
  "user_test (int80 sample_handler 0x130040 sample_gate) sample_user =
    Some [(3, 0), (2, 0), (2, 0), (2, 0), (2, 0), (2, 0), (1, 42)]"
  using user_test_requests [OF sample_handler_ok sample_gate_ok(2,3)] by simp

theorem syscall_int80_keeps_convention_witness:
  "\<exists>m. syscall_int80 (int80 sample_handler 0x130040 sample_gate) (sample_user\<lparr>r_cs := 8, r_ss := 0x10\<rparr>) =
     sample_user\<lparr>r_cs := 8, r_ss := 0x10, r_eax := 7, r_ecx := 0, r_edx := 0, r_eip := 0, r_esp := 0xBFFFFFF4, mm := m\<rparr>"
proof -
  let ?s = "sample_user\<lparr>r_cs := 8, r_ss := 0x10\<rparr>"
  have "read32 (\<lambda>_. 0) a = 0" for a by (simp add: read32_def)
  then have "stk ?s (0 # 0 # 0 # 0 # 0 # 0 # 0 # [])" by (auto simp: stk_def sample_user_def nth_Cons split: nat.split)
  moreover have "r_cs ?s AND 3 \<noteq> 3" "length ([] :: u32 list) < 700" by simp_all
  ultimately obtain t m where "syscall_int80 (int80 sample_handler 0x130040 sample_gate) ?s =
      ?s\<lparr>r_eax := r_eax (sample_handler t), r_ecx := 0, r_edx := 0, r_eip := 0, r_esp := r_esp ?s + 4, mm := m\<rparr>"
    using syscall_int80_keeps_convention [OF sample_handler_ok, of ?s 0 0 0 0 0 0 0 "[]" "0x130040" sample_gate] by blast
  then show ?thesis by (intro exI [of _ m]) (simp add: sample_handler_def, simp add: sample_user_def)
qed

end
