(* ===== verification/Panic.thy ===== *)
theory Panic
  imports Messages Timer
begin

text \<open>
  The ways the kernel stops: \<^verbatim>\<open>kernel_panic\<close> of \<^verbatim>\<open>core/init.c\<close>, the panic of a failed
  assertion in \<^verbatim>\<open>include/kernel/assert.h\<close>, \<^verbatim>\<open>panic_handler\<close> of \<^verbatim>\<open>arch/x86/hal.c\<close>, and the report
  that \<^verbatim>\<open>isr_handler\<close> of \<^verbatim>\<open>arch/x86/idt.c\<close> prints before it. The state is that of the kernel
  and that of the console. These functions do not return: their result is the state in
  which the final loop of halts stays for ever, and \<open>None\<close> is a message that never ends.
  String constants are given by their addresses.
\<close>

section \<open>Definitions\<close>

type_synonym 'z panic_st = "'z irq_st_scheme \<times> console_st"

definition kernel_panic :: "ops_table \<Rightarrow> addr \<Rightarrow> 'z panic_st \<Rightarrow> 'z panic_st option" where
  "kernel_panic ops message = (\<lambda>(s, c).
     let s = (if hal_set (ports s) then snd (irq_disable s) else s)
     in if vga_set c then
          let c = vga_text_set_color VGA_COLOR_WHITE VGA_COLOR_RED c;
              c = vga_text_clear c
          in map_option (Pair s) (kprintf_all ops (memory s)
               [(c_text (''*** KERNEL PANIC ***'' @ [NL, NL]), []),
                (c_text (''%s'' @ [NL]), [message]),
                (c_text (NL # ''System halted.''), [])] c)
        else Some (s, c))"

definition panic_handler :: "ops_table \<Rightarrow> addr \<Rightarrow> 'z panic_st \<Rightarrow> 'z panic_st option" where
  "panic_handler ops message = (\<lambda>(s, c). kernel_panic ops message (snd (irq_disable s), c))"

text \<open>The panic of the assertion macros; \<^verbatim>\<open>line\<close> is an \<^verbatim>\<open>int\<close>.\<close>

definition kernel_panic_assert :: "ops_table \<Rightarrow> addr \<Rightarrow> u32 \<Rightarrow> addr \<Rightarrow> addr \<Rightarrow> 'z panic_st \<Rightarrow> 'z panic_st option" where
  "kernel_panic_assert ops file line func expr = (\<lambda>(s, c).
     let s = snd (irq_disable s)
     in map_option (Pair s) (kprintf_all ops (memory s)
          [(c_text [NL, NL], []),
           (c_text (''========================================'' @ [NL]), []),
           (c_text (''  KERNEL PANIC - ASSERTION FAILED'' @ [NL]), []),
           (c_text (''========================================'' @ [NL]), []),
           (c_text (''File: %s:%d'' @ [NL]), [file, line]),
           (c_text (''Function: %s'' @ [NL]), [func]),
           (c_text (''Expression: %s'' @ [NL]), [expr]),
           (c_text (''========================================'' @ [NL]), [])] c))"

definition exception_messages :: "string list" where
  "exception_messages = [''Division By Zero'', ''Debug'', ''Non Maskable Interrupt'', ''Breakpoint'', ''Overflow'',
     ''Bound Range Exceeded'', ''Invalid Opcode'', ''Device Not Available'', ''Double Fault'',
     ''Coprocessor Segment Overrun'', ''Invalid TSS'', ''Segment Not Present'', ''Stack-Segment Fault'',
     ''General Protection Fault'', ''Page Fault'', ''Reserved'', ''x87 Floating-Point Exception'',
     ''Alignment Check'', ''Machine Check'', ''SIMD Floating-Point Exception'', ''Virtualization Exception'',
     ''Reserved'', ''Reserved'', ''Reserved'', ''Reserved'', ''Reserved'', ''Reserved'', ''Reserved'', ''Reserved'',
     ''Reserved'', ''Security Exception'', ''Reserved'']"

text \<open>
  The end of \<^verbatim>\<open>isr_handler\<close> for an exception without a handler; \<open>lit\<close> gives the addresses
  of the string constants.
\<close>

definition isr_panic :: "ops_table \<Rightarrow> (string \<Rightarrow> addr) \<Rightarrow> interrupt_frame \<Rightarrow> 'z panic_st \<Rightarrow> 'z panic_st option" where
  "isr_panic ops lit frame = (\<lambda>(s, c).
     Option.bind (kprintf_all ops (memory s)
       [(c_text (NL # ''*** EXCEPTION: %s ***'' @ [NL]), [lit (exception_messages ! unat (int_no frame))]),
        (c_text (''INT=%u ERR=%u'' @ [NL]), [int_no frame, err_code frame]),
        (c_text (''EIP=%08x CS=%04x EFLAGS=%08x'' @ [NL]), [f_eip frame, f_cs frame, f_eflags frame]),
        (c_text (''EAX=%08x EBX=%08x ECX=%08x EDX=%08x'' @ [NL]), [f_eax frame, f_ebx frame, f_ecx frame, f_edx frame]),
        (c_text (''ESP=%08x EBP=%08x ESI=%08x EDI=%08x'' @ [NL]), [f_esp frame, f_ebp frame, f_esi frame, f_edi frame])] c)
     (\<lambda>c. kernel_panic ops (lit ''Unhandled exception'') (s, c)))"



section \<open>Properties\<close>

definition panic_text :: "u8 list \<Rightarrow> u8 list" where
  "panic_text msg = map of_char (''*** KERNEL PANIC ***'' @ [NL, NL]) @ msg @ map of_char ([NL, NL] @ ''System halted.'')"

lemma kernel_panic_spec:
  assumes "console_ready va sa c" and "serial_line_ready c" and "hal_set (ports s)"
    and "message \<noteq> 0" and "c_string (memory s) message msg" and "0x0A \<notin> set msg"
  shows "\<exists>c'. kernel_panic (kernel_backends va sa) message (s, c) = Some (snd (irq_disable s), c') \<and>
    screen_of c' = fold (screen_putchar 0x4F) (panic_text msg) (blank_screen 0x4F) \<and>
    sent SERIAL_COM1 (port_log c') = sent SERIAL_COM1 (port_log c) @ panic_text msg"
proof -
  define c1 where "c1 = vga_text_clear (vga_text_set_color VGA_COLOR_WHITE VGA_COLOR_RED c)"
  note col = set_color_ready [OF assms(1), of VGA_COLOR_WHITE VGA_COLOR_RED]
  have wr: "make_color VGA_COLOR_WHITE VGA_COLOR_RED = 0x4F" by (simp add: make_color_def)
  note c1 = clear_ready [OF col(1), folded c1_def, unfolded col wr]
  define jss where "jss = [lits (''*** KERNEL PANIC ***'' @ [NL, NL]), Str message # lits [NL], lits (NL # ''System halted.'')]"
  have jss: "map message_call jss = [(c_text (''*** KERNEL PANIC ***'' @ [NL, NL]), []), (c_text (''%s'' @ [NL]), [message]),
      (c_text (NL # ''System halted.''), [])]"
    by (simp add: jss_def message_simps)
  let ?str = "\<lambda>_. msg"
  have t: "message_text ?str jss = panic_text msg"
    using assms(4) by (simp add: jss_def message_text_def panic_text_def lits_def)
  have "\<forall>js \<in> set jss. \<forall>i \<in> set js. item_ok (memory s) ?str i \<and> item_plain ?str i"
    using assms(5,6) by (simp add: jss_def lits_def)
  moreover have "serial_line_ready c1" using assms(2) c1(4) by (simp add: serial_line_ready_def)
  ultimately obtain c' where c': "kprintf_all (kernel_backends va sa) (memory s) (map message_call jss) c1 = Some c'"
      "shows_and_sends va sa (panic_text msg) (panic_text msg) c1 c'"
    using kprintf_all_both [OF c1(1)] t by metis
  have "vga_set c" "memory (snd (irq_disable s)) = memory s"
    using assms(1) by (simp_all add: console_ready_def irq_disable_def)
  then have "kernel_panic (kernel_backends va sa) message (s, c) = Some (snd (irq_disable s), c')"
    using assms(3) c'(1) by (simp add: kernel_panic_def Let_def c1_def [symmetric] jss)
  then show ?thesis using c'(2) c1 by (simp add: shows_and_sends_def)
qed

text \<open>
  A failed assertion: interrupts are disabled and the report goes to both backends, below
  what is on the screen; on a console that is not set up, nothing is printed.
\<close>

definition rule_text :: string where
  "rule_text = ''========================================'' @ [NL]"

definition assertion_items :: "addr \<Rightarrow> u32 \<Rightarrow> addr \<Rightarrow> addr \<Rightarrow> item list list" where
  "assertion_items file line func expr =
     [lits [NL, NL], lits rule_text, lits (''  KERNEL PANIC - ASSERTION FAILED'' @ [NL]), lits rule_text,
      lits ''File: '' @ Str file # lits '':'' @ SDec line # lits [NL],
      lits ''Function: '' @ Str func # lits [NL], lits ''Expression: '' @ Str expr # lits [NL], lits rule_text]"

lemma kernel_panic_assert_spec:
  assumes "console_ready va sa c" and "serial_line_ready c"
    and "\<forall>p \<in> {file, func, expr}. p \<noteq> 0 \<and> c_string (memory s) p (str p) \<and> 0x0A \<notin> set (str p)"
  shows "\<exists>c'. kernel_panic_assert (kernel_backends va sa) file line func expr (s, c) = Some (snd (irq_disable s), c') \<and>
    shows_and_sends va sa (message_text str (assertion_items file line func expr))
      (message_text str (assertion_items file line func expr)) c c'"
proof -
  have ok: "\<forall>js \<in> set (assertion_items file line func expr). \<forall>i \<in> set js. item_ok (memory s) str i \<and> item_plain str i"
    using assms(3) by (simp add: assertion_items_def lits_def rule_text_def)
  have "memory (snd (irq_disable s)) = memory s" by (simp add: irq_disable_def)
  moreover have "map message_call (assertion_items file line func expr) =
      [(c_text [NL, NL], []), (c_text rule_text, []), (c_text (''  KERNEL PANIC - ASSERTION FAILED'' @ [NL]), []),
       (c_text rule_text, []), (c_text (''File: %s:%d'' @ [NL]), [file, line]), (c_text (''Function: %s'' @ [NL]), [func]),
       (c_text (''Expression: %s'' @ [NL]), [expr]), (c_text rule_text, [])]"
    by (simp add: assertion_items_def message_simps rule_text_def)
  ultimately show ?thesis
    using kprintf_all_both [OF assms(1,2) ok] unfolding kernel_panic_assert_def rule_text_def [symmetric] Let_def by fastforce
qed

lemma kernel_panic_assert_silent:
  "\<not> vga_set c \<Longrightarrow> kernel_panic_assert ops file line func expr (s, c) = Some (snd (irq_disable s), c)"
  by (simp add: kernel_panic_assert_def kprintf_def)

text \<open>The report of an exception, line by line.\<close>

definition hex_text :: "nat \<Rightarrow> u32 \<Rightarrow> u8 list" where
  "hex_text d v = pad_to d (show_nat 16 (unat v))"

definition exception_text :: "interrupt_frame \<Rightarrow> u8 list" where
  "exception_text frame =
     map of_char (NL # ''*** EXCEPTION: '' @ exception_messages ! unat (int_no frame) @ '' ***'' @ [NL]) @
     map of_char ''INT='' @ show_nat 10 (unat (int_no frame)) @
     map of_char '' ERR='' @ show_nat 10 (unat (err_code frame)) @ map of_char [NL] @
     map of_char ''EIP='' @ hex_text 8 (f_eip frame) @ map of_char '' CS='' @ hex_text 4 (f_cs frame) @
     map of_char '' EFLAGS='' @ hex_text 8 (f_eflags frame) @ map of_char [NL] @
     map of_char ''EAX='' @ hex_text 8 (f_eax frame) @ map of_char '' EBX='' @ hex_text 8 (f_ebx frame) @
     map of_char '' ECX='' @ hex_text 8 (f_ecx frame) @ map of_char '' EDX='' @ hex_text 8 (f_edx frame) @ map of_char [NL] @
     map of_char ''ESP='' @ hex_text 8 (f_esp frame) @ map of_char '' EBP='' @ hex_text 8 (f_ebp frame) @
     map of_char '' ESI='' @ hex_text 8 (f_esi frame) @ map of_char '' EDI='' @ hex_text 8 (f_edi frame) @ map of_char [NL]"

definition exception_items :: "addr \<Rightarrow> interrupt_frame \<Rightarrow> item list list" where
  "exception_items name frame =
     [lits (NL # ''*** EXCEPTION: '') @ Str name # lits ('' ***'' @ [NL]),
      lits ''INT='' @ UDec (int_no frame) # lits '' ERR='' @ UDec (err_code frame) # lits [NL],
      lits ''EIP='' @ HexPad 8 (f_eip frame) # lits '' CS='' @ HexPad 4 (f_cs frame) #
        lits '' EFLAGS='' @ HexPad 8 (f_eflags frame) # lits [NL],
      lits ''EAX='' @ HexPad 8 (f_eax frame) # lits '' EBX='' @ HexPad 8 (f_ebx frame) #
        lits '' ECX='' @ HexPad 8 (f_ecx frame) # lits '' EDX='' @ HexPad 8 (f_edx frame) # lits [NL],
      lits ''ESP='' @ HexPad 8 (f_esp frame) # lits '' EBP='' @ HexPad 8 (f_ebp frame) #
        lits '' ESI='' @ HexPad 8 (f_esi frame) # lits '' EDI='' @ HexPad 8 (f_edi frame) # lits [NL]]"

lemma exception_messages_plain:
  "\<forall>x \<in> set exception_messages. (0x0A :: u8) \<notin> set (map of_char x)" "length exception_messages = 32"
  by (simp_all add: exception_messages_def)

lemma isr_report:
  assumes "console_ready va sa c" and "serial_line_ready c" and "int_no frame < 32"
    and "literals_at lit (''Unhandled exception'' # exception_messages) (memory s)"
  shows "\<exists>c1. isr_panic (kernel_backends va sa) lit frame (s, c) =
      kernel_panic (kernel_backends va sa) (lit ''Unhandled exception'') (s, c1) \<and>
    shows_and_sends va sa (exception_text frame) (exception_text frame) c c1"
proof -
  define x where "x = exception_messages ! unat (int_no frame)"
  have "unat (int_no frame) < length exception_messages"
    using assms(3) by (simp add: word_less_nat_alt exception_messages_plain(2))
  then have mem: "x \<in> set exception_messages" by (simp add: x_def)
  then have x: "lit x \<noteq> 0" "c_string (memory s) (lit x) (map of_char x)" using assms(4) by (auto simp: literals_at_def)
  have nl: "0x0A \<notin> set (map of_char x :: u8 list)" using exception_messages_plain(1) mem by blast
  let ?str = "\<lambda>_. map of_char x"
  have ok: "\<forall>js \<in> set (exception_items (lit x) frame). \<forall>i \<in> set js. item_ok (memory s) ?str i \<and> item_plain ?str i"
    using x(2) nl by (simp add: exception_items_def lits_def)
  have "message_text ?str (exception_items (lit x) frame) = exception_text frame"
    using x(1) by (simp add: exception_items_def message_text_def lits_def exception_text_def hex_text_def x_def [symmetric])
  moreover have "isr_panic (kernel_backends va sa) lit frame (s, c) =
      Option.bind (kprintf_all (kernel_backends va sa) (memory s) (map message_call (exception_items (lit x) frame)) c)
        (\<lambda>c. kernel_panic (kernel_backends va sa) (lit ''Unhandled exception'') (s, c))"
    by (simp add: isr_panic_def x_def exception_items_def message_simps)
  ultimately show ?thesis using kprintf_all_both [OF assms(1,2) ok] by auto
qed

lemma unhandled_exception_spec:
  assumes "console_ready va sa c" and "serial_line_ready c" and "hal_set (ports s)"
    and "int_no frame < 32" and "interrupt_handlers s (ucast (int_no frame)) = 0"
    and "literals_at lit (''Unhandled exception'' # exception_messages) (memory s)"
  shows "isr_handler call frame s = Inl (AssertFailed ''Unhandled exception'') \<and>
    (\<exists>s' c'. isr_panic (kernel_backends va sa) lit frame (s, c) = Some (s', c') \<and>
      \<not> bit (ctx_eflags (regs s')) 9 \<and> s' = s\<lparr>regs := (regs s)\<lparr>ctx_eflags := ctx_eflags (regs s')\<rparr>\<rparr> \<and>
      screen_of c' = fold (screen_putchar 0x4F) (panic_text (map of_char ''Unhandled exception'')) (blank_screen 0x4F) \<and>
      sent SERIAL_COM1 (port_log c') = sent SERIAL_COM1 (port_log c) @ exception_text frame @
        panic_text (map of_char ''Unhandled exception''))"
proof
  have n: "\<not> int_no frame \<ge> 256" using assms(4) by (simp add: word_le_nat_alt word_less_nat_alt)
  then show "isr_handler call frame s = Inl (AssertFailed ''Unhandled exception'')"
    using assms(4,5) by (simp add: isr_handler_def not_le)
  obtain c1 where c1: "isr_panic (kernel_backends va sa) lit frame (s, c) =
      kernel_panic (kernel_backends va sa) (lit ''Unhandled exception'') (s, c1)"
      "shows_and_sends va sa (exception_text frame) (exception_text frame) c c1"
    using isr_report [OF assms(1,2,4,6)] by blast
  then have r: "console_ready va sa c1" "serial_line_ready c1"
    using assms(2) by (simp_all add: shows_and_sends_def serial_line_ready_def)
  have m: "lit ''Unhandled exception'' \<noteq> 0" "c_string (memory s) (lit ''Unhandled exception'') (map of_char ''Unhandled exception'')"
    using assms(6) by (simp_all add: literals_at_def)
  have "\<not> bit (ctx_eflags (regs (snd (irq_disable s)))) 9" by (simp add: irq_disable_def bit_simps)
  moreover have "snd (irq_disable s) = s\<lparr>regs := (regs s)\<lparr>ctx_eflags := ctx_eflags (regs (snd (irq_disable s)))\<rparr>\<rparr>"
    by (simp add: irq_disable_def)
  ultimately show "\<exists>s' c'. isr_panic (kernel_backends va sa) lit frame (s, c) = Some (s', c') \<and>
      \<not> bit (ctx_eflags (regs s')) 9 \<and> s' = s\<lparr>regs := (regs s)\<lparr>ctx_eflags := ctx_eflags (regs s')\<rparr>\<rparr> \<and>
      screen_of c' = fold (screen_putchar 0x4F) (panic_text (map of_char ''Unhandled exception'')) (blank_screen 0x4F) \<and>
      sent SERIAL_COM1 (port_log c') = sent SERIAL_COM1 (port_log c) @ exception_text frame @
        panic_text (map of_char ''Unhandled exception'')"
    using kernel_panic_spec [OF r assms(3) m] c1 by (fastforce simp: shows_and_sends_def)
qed

text \<open>
  C35: an exception for which no handler is registered stops the kernel with its report. On the
  kernel's console, with a serial line that keeps accepting bytes and the string constants
  in memory, \<^verbatim>\<open>isr_handler\<close> ends in the panic with interrupts disabled and the rest of the
  kernel state as it was; the serial line has received the name of the exception, all
  registers of the frame and the panic message. The screen shows the panic message alone,
  white on red: the panic clears the screen, so the report just printed is lost there.
\<close>

theorem unhandled_exception_stops:
  assumes "console_ready va sa c" and "serial_line_ready c" and "hal_set (ports s)"
    and "int_no frame < 32" and "interrupt_handlers s (ucast (int_no frame)) = 0"
    and "literals_at lit (''Unhandled exception'' # exception_messages) (memory s)"
  shows "isr_handler call frame s = Inl (AssertFailed ''Unhandled exception'') \<and>
    (\<exists>s' c'. isr_panic (kernel_backends va sa) lit frame (s, c) = Some (s', c') \<and>
      \<not> bit (ctx_eflags (regs s')) 9 \<and> s' = s\<lparr>regs := (regs s)\<lparr>ctx_eflags := ctx_eflags (regs s')\<rparr>\<rparr> \<and>
      screen_of c' = fold (screen_putchar 0x4F) (panic_text (map of_char ''Unhandled exception'')) (blank_screen 0x4F) \<and>
      sent SERIAL_COM1 (port_log c') = sent SERIAL_COM1 (port_log c) @ exception_text frame @
        panic_text (map of_char ''Unhandled exception''))"
  using unhandled_exception_spec [OF assms, of call] .

text \<open>A page fault at 0x1234 in the kernel's code.\<close>

definition sample_fault :: interrupt_frame where
  "sample_fault = timer_frame\<lparr>int_no := 14, err_code := 2, f_eip := 0x1234\<rparr>"

definition sample_panic :: timer_st where
  "sample_panic = sample_timer\<lparr>memory := literal_block (''Unhandled exception'' # exception_messages),
     ports := \<lparr>hal_set = True, port_in = (\<lambda>_ _. 0), io_time = 0, port_log = []\<rparr>, interrupt_handlers := (\<lambda>_. 0)\<rparr>"

lemma sample_console_ready: "console_ready 0x5000 0x6000 sample_console" "serial_line_ready sample_console"
  by (simp_all add: console_ready_def console_inv_def registered_def vga_inv_def) (auto simp: serial_line_ready_def)

lemma sample_panic_literals:
  "literals_at (literal_addr (''Unhandled exception'' # exception_messages)) (''Unhandled exception'' # exception_messages)
     (memory sample_panic)"
proof -
  have "\<forall>x \<in> set (''Unhandled exception'' # exception_messages). length x < 64 \<and> 0 \<notin> set (map of_char x :: u8 list)"
    by (simp add: exception_messages_def)
  then show ?thesis
    using literal_block_at [of "''Unhandled exception'' # exception_messages"]
    by (simp add: sample_panic_def exception_messages_plain(2))
qed

theorem unhandled_exception_stops_witness:
  "\<exists>s' c'. isr_panic (kernel_backends 0x5000 0x6000) (literal_addr (''Unhandled exception'' # exception_messages))
      sample_fault (sample_panic, sample_console) = Some (s', c') \<and> \<not> bit (ctx_eflags (regs s')) 9 \<and>
    sent SERIAL_COM1 (port_log c') = exception_text sample_fault @ panic_text (map of_char ''Unhandled exception'')"
proof -
  have h: "hal_set (ports sample_panic)" "int_no sample_fault < 32" "interrupt_handlers sample_panic (ucast (int_no sample_fault)) = 0"
    by (simp_all add: sample_panic_def sample_fault_def)
  have "sent SERIAL_COM1 (port_log sample_console) = []" by simp
  with conjunct2 [OF unhandled_exception_stops [OF sample_console_ready h sample_panic_literals]] show ?thesis by (metis append_Nil)
qed

end
