(* ===== verification/Tlb.thy ===== *)
theory Tlb
  imports Paging
begin

text \<open>
  The translation lookaside buffer. The processor may keep the translation of any page it has
  walked and may use it for as long as it is not invalidated, whatever the page tables say by then;
  \<^verbatim>\<open>invlpg\<close> invalidates one page, a load of \<^verbatim>\<open>cr3\<close> all of them (the kernel has no global
  pages). The operations of \<^verbatim>\<open>arch/x86/mmu.c\<close> are run on a processor with such a buffer, with
  the operands of \<^verbatim>\<open>invlpg\<close> they log; added are the functions of \<^verbatim>\<open>mmu.c\<close> and \<^verbatim>\<open>hal.c\<close>
  whose only effect is on the buffer. The result is that no access ever uses a stale
  translation.
\<close>

section \<open>Definitions\<close>

text \<open>The cached page and flags of a virtual page.\<close>

type_synonym tlb = "addr \<rightharpoonup> addr \<times> u32"
type_synonym 'z tlb_st = "tlb \<times> 'z mmu_st_scheme"

text \<open>The walk of the page tables from \<^verbatim>\<open>cr3\<close>, and the translation an access uses.\<close>

definition walk :: "'z mmu_st_scheme \<Rightarrow> addr \<Rightarrow> (addr \<times> u32) option" where
  "walk s v =
     (let pde = get_entry s (PAGE_FRAME (cr3 s)) (PD_INDEX v) in
      if pde AND PDE_PRESENT = 0 then None
      else
        let pte = get_entry s (PAGE_FRAME pde) (PT_INDEX v) in
        if pte AND PTE_PRESENT = 0 then None else Some (PAGE_FRAME pte, pte AND 4095))"

definition tlb_lookup :: "'z tlb_st \<Rightarrow> addr \<Rightarrow> (addr \<times> u32) option" where
  "tlb_lookup = (\<lambda>(t, s) v. case t (PAGE_ALIGN_DOWN v) of None \<Rightarrow> walk s v | Some e \<Rightarrow> Some e)"

definition invlpg :: "addr \<Rightarrow> tlb \<Rightarrow> tlb" where
  "invlpg v t = t(PAGE_ALIGN_DOWN v := None)"

definition load_cr3 :: "u32 \<Rightarrow> 'z tlb_st \<Rightarrow> 'z tlb_st" where
  "load_cr3 x = (\<lambda>(t, s). (Map.empty, s\<lparr>cr3 := x\<rparr>))"

text \<open>The buffer after an operation of the kernel: the pages it passed to \<^verbatim>\<open>invlpg\<close> are gone.\<close>

definition flushed_since :: "'z mmu_st_scheme \<Rightarrow> 'z mmu_st_scheme \<Rightarrow> addr list" where
  "flushed_since s s' = rev (take (length (tlb_flushed s') - length (tlb_flushed s)) (tlb_flushed s'))"

definition tlb_after :: "'z mmu_st_scheme \<Rightarrow> 'z mmu_st_scheme \<Rightarrow> tlb \<Rightarrow> tlb" where
  "tlb_after s s' = fold invlpg (flushed_since s s')"

definition tlb_map_page :: "pt_ptr \<Rightarrow> addr \<Rightarrow> addr \<Rightarrow> u32 \<Rightarrow> 'z tlb_st \<Rightarrow> fault + addr \<times> 'z tlb_st" where
  "tlb_map_page pt phys virt flags = (\<lambda>(t, s).
     andthen (mmu_map_page pt phys virt flags s) (\<lambda>(r, s'). Inr (r, (tlb_after s s' t, s'))))"

definition tlb_unmap_page :: "pt_ptr \<Rightarrow> addr \<Rightarrow> 'z tlb_st \<Rightarrow> 'z tlb_st" where
  "tlb_unmap_page pt virt = (\<lambda>(t, s). let s' = mmu_unmap_page pt virt s in (tlb_after s s' t, s'))"

definition tlb_switch :: "pt_ptr \<Rightarrow> 'z tlb_st \<Rightarrow> 'z tlb_st" where
  "tlb_switch pt = (\<lambda>(t, s). if pt = NullPt then (t, s) else load_cr3 (pd_phys (pt_storage s)) (t, s))"

definition flush_tlb_all :: "'z tlb_st \<Rightarrow> 'z tlb_st" where
  "flush_tlb_all = (\<lambda>(t, s). load_cr3 (cr3 s) (t, s))"

definition hal_mmu_flush_tlb :: "addr \<Rightarrow> 'z tlb_st \<Rightarrow> 'z tlb_st" where
  "hal_mmu_flush_tlb virt = (\<lambda>(t, s). (invlpg virt t, flush_tlb_single virt s))"

definition hal_mmu_flush_tlb_all :: "'z tlb_st \<Rightarrow> 'z tlb_st" where
  "hal_mmu_flush_tlb_all = (\<lambda>(t, s). load_cr3 (cr3 s) (t, s))"

text \<open>
  A processor and its buffer at work: the processor caches the translation of a page or drops
  one, memory outside the page tables is written, and the kernel calls the functions above.
\<close>

inductive tlb_step :: "'z tlb_st \<Rightarrow> 'z tlb_st \<Rightarrow> bool" where
  fill: "walk s v = Some e \<Longrightarrow> tlb_step (t, s) (t(PAGE_ALIGN_DOWN v \<mapsto> e), s)"
| evict: "tlb_step (t, s) (t(v := None), s)"
| store: "PAGE_ALIGN_DOWN a \<notin> owned_pages s \<Longrightarrow> tlb_step (t, s) (t, s\<lparr>memory := (memory s)(a := b)\<rparr>)"
| map: "page_aligned phys \<Longrightarrow> page_aligned virt \<Longrightarrow>
    tlb_map_page PtStorage phys virt flags (t, s) = Inr (r, ts) \<Longrightarrow> tlb_step (t, s) ts"
| unmap: "page_aligned virt \<Longrightarrow> tlb_step (t, s) (tlb_unmap_page PtStorage virt (t, s))"
| switch: "tlb_step ts (tlb_switch pt ts)"
| flush: "tlb_step ts (hal_mmu_flush_tlb virt ts)"
| flush_all: "tlb_step ts (flush_tlb_all ts)"
| hal_flush_all: "tlb_step ts (hal_mmu_flush_tlb_all ts)"

inductive_cases tlb_stepE: "tlb_step ts ts'"


section \<open>Lemmas\<close>

text \<open>Well-formed page tables that the processor uses, and a buffer that agrees with them.\<close>

definition tlb_inv :: "u32 set \<Rightarrow> 'z tlb_st \<Rightarrow> bool" where
  "tlb_inv M = (\<lambda>(t, s). mmu_inv M s \<and> cr3 s = page_directory (pt_storage s) \<and>
     (\<forall>v e. t (PAGE_ALIGN_DOWN v) = Some e \<longrightarrow> translate s v = Some e))"

lemma walk_translate:
  assumes "mmu_inv M s" and "cr3 s = page_directory (pt_storage s)"
  shows "walk s = translate s"
proof -
  have "PAGE_FRAME (cr3 s) = page_directory (pt_storage s)"
    using assms(2) mmu_inv_pd [OF assms(1)] by (simp add: PAGE_FRAME_eq)
  then show ?thesis by (simp add: fun_eq_iff walk_def translate_def Let_def)
qed

lemma tlb_lookup_translate: "tlb_inv M ts \<Longrightarrow> tlb_lookup ts v = translate (snd ts) v"
  by (cases ts) (auto simp: tlb_inv_def tlb_lookup_def walk_translate split: option.split)

lemma translate_same_page: "PAGE_ALIGN_DOWN v = PAGE_ALIGN_DOWN w \<Longrightarrow> translate s v = translate s w"
  using same_page_iff [of v w] by (simp add: translate_def Let_def)

lemma tlb_inv_weaken:
  assumes "tlb_inv M (t, s)" and "\<And>p e. t' p = Some e \<Longrightarrow> t p = Some e"
  shows "tlb_inv M (t', s)"
  using assms by (auto simp: tlb_inv_def)

lemma tlb_inv_load:
  assumes "tlb_inv M (t, s)" and "x = page_directory (pt_storage s)"
  shows "tlb_inv M (load_cr3 x (t, s))"
  using assms by (auto simp: tlb_inv_def load_cr3_def mmu_inv_def table_slots_def table_page_def [abs_def])

lemma tlb_inv_roots:
  "tlb_inv M (t, s) \<Longrightarrow> cr3 s = page_directory (pt_storage s) \<and> pd_phys (pt_storage s) = page_directory (pt_storage s)"
  by (simp add: tlb_inv_def mmu_inv_def)

lemma flush_tlb_cr3: "cr3 (flush_tlb_single v s) = cr3 s"
  by (simp add: flush_tlb_single_def)

text \<open>Every change of a translation is followed by the invalidation of its page.\<close>

lemma ensure_table_log:
  "ensure_table pd i s = Inr (ok, s') \<Longrightarrow> tlb_flushed s' = tlb_flushed s \<and> cr3 s' = cr3 s \<and> pt_storage s' = pt_storage s"
  by (auto simp: ensure_table_def andthen_eq_Inr frame_simps split: if_splits dest: pmm_alloc_page_mmu)

lemma mmu_map_page_log:
  assumes "mmu_map_page PtStorage phys virt flags s = Inr (r, s')"
  shows "cr3 s' = cr3 s" "pt_storage s' = pt_storage s"
    "tlb_flushed s' = virt # tlb_flushed s \<or> ensure_table (page_directory (pt_storage s)) (PD_INDEX virt) s = Inr (False, s') \<or> s' = s"
proof -
  consider "s' = s" | "ensure_table (page_directory (pt_storage s)) (PD_INDEX virt) s = Inr (False, s')"
    | s1 b i x where "ensure_table (page_directory (pt_storage s)) (PD_INDEX virt) s = Inr (True, s1)"
      "s' = flush_tlb_single virt (set_entry b i x s1)"
  proof (cases "page_aligned phys \<and> page_aligned virt")
    case True
    with assms obtain ok s1 where "ensure_table (page_directory (pt_storage s)) (PD_INDEX virt) s = Inr (ok, s1)"
      by (auto simp: mmu_map_page_def andthen_eq_Inr Let_def)
    with True assms that(2,3) show ?thesis by (cases ok) (auto simp: mmu_map_page_def Let_def)
  next
    case False
    with assms that(1) show ?thesis by (auto simp: mmu_map_page_def)
  qed
  then have "cr3 s' = cr3 s \<and> pt_storage s' = pt_storage s \<and> (tlb_flushed s' = virt # tlb_flushed s \<or>
      ensure_table (page_directory (pt_storage s)) (PD_INDEX virt) s = Inr (False, s') \<or> s' = s)"
  proof cases
    case 2
    then show ?thesis using ensure_table_log by blast
  next
    case (3 s1 b i x)
    then show ?thesis using ensure_table_log [OF 3(1)] by (simp add: flush_tlb_single_def)
  qed simp
  then show "cr3 s' = cr3 s" "pt_storage s' = pt_storage s"
    "tlb_flushed s' = virt # tlb_flushed s \<or> ensure_table (page_directory (pt_storage s)) (PD_INDEX virt) s = Inr (False, s') \<or> s' = s"
    by blast+
qed

lemma mmu_map_page_flushes:
  assumes inv: "mmu_inv M s" and al: "page_aligned phys" "page_aligned virt"
    and m: "mmu_map_page PtStorage phys virt flags s = Inr (r, s')"
  shows "s' = s \<or> (mmu_inv M s' \<and> tlb_flushed s' = virt # tlb_flushed s \<and>
    (\<forall>v. PAGE_ALIGN_DOWN v \<noteq> virt \<longrightarrow> translate s' v = translate s v))"
proof (cases "PD_INDEX virt \<in> table_slots s \<or> 0 < page_budget s")
  case True
  have "ensure_table (page_directory (pt_storage s)) (PD_INDEX virt) s \<noteq> Inr (False, s')"
  proof (cases "PD_INDEX virt \<in> table_slots s")
    case True
    then show ?thesis by (simp add: ensure_table_present)
  next
    case False
    with True have "avail_pages s \<noteq> {}" by auto
    from ensure_table_alloc [OF inv False _ this] show ?thesis by auto
  qed
  then show ?thesis using mmu_map_page_log(3) [OF m] mmu_map_page_spec [OF inv al True, of flags] m by auto
next
  case False
  then show ?thesis using mmu_map_page_full [OF inv, of virt phys flags] m by simp
qed

lemma mmu_unmap_page_log:
  "cr3 (mmu_unmap_page pt virt s) = cr3 s" "pt_storage (mmu_unmap_page pt virt s) = pt_storage s"
  "mmu_unmap_page pt virt s = s \<or> tlb_flushed (mmu_unmap_page pt virt s) = virt # tlb_flushed s"
  by (simp_all add: mmu_unmap_page_def Let_def flush_tlb_single_def)

lemma tlb_after_simps:
  "tlb_after s s t = t" "tlb_flushed s' = virt # tlb_flushed s \<Longrightarrow> tlb_after s s' t = invlpg virt t"
  by (simp_all add: tlb_after_def flushed_since_def)

text \<open>An operation that changes the translation of one page and invalidates it keeps the agreement.\<close>

lemma tlb_inv_change:
  assumes "tlb_inv M (t, s)" and "mmu_inv M s'" and "cr3 s' = cr3 s" and "pt_storage s' = pt_storage s"
    and "page_aligned virt" and "\<And>v. PAGE_ALIGN_DOWN v \<noteq> virt \<Longrightarrow> translate s' v = translate s v"
  shows "tlb_inv M (invlpg virt t, s')"
  using assms by (auto simp: tlb_inv_def invlpg_def)

lemma tlb_step_inv:
  assumes "tlb_step ts ts'" and "tlb_inv M ts"
  shows "tlb_inv M ts'"
  using assms
proof (induction rule: tlb_step.induct)
  case (fill s v e t)
  then have "walk s = translate s" by (auto simp: tlb_inv_def intro: walk_translate)
  with fill.hyps have "translate s v = Some e" by simp
  then have "translate s w = Some e" if "PAGE_ALIGN_DOWN w = PAGE_ALIGN_DOWN v" for w
    using translate_same_page [OF that, of s] by simp
  then show ?case using fill.prems by (simp add: tlb_inv_def)
next
  case (evict t s v)
  then show ?case by (rule tlb_inv_weaken) (simp split: if_splits)
next
  case (store a s t b)
  let ?s = "s\<lparr>memory := (memory s)(a := b)\<rparr>"
  have inv: "mmu_inv M s" using store.prems by (simp add: tlb_inv_def)
  have "mmu_inv M ?s" "translate ?s = translate s"
    using store.hyps inv by (intro mmu_state_cong [OF inv]; auto simp: mmu_inv_def)+
  then show ?case using store.prems by (simp add: tlb_inv_def)
next
  case (map phys virt flags t s r ts)
  then obtain s' where s': "mmu_map_page PtStorage phys virt flags s = Inr (r, s')" "ts = (tlb_after s s' t, s')"
    by (auto simp: tlb_map_page_def andthen_eq_Inr)
  have inv: "mmu_inv M s" using map.prems by (simp add: tlb_inv_def)
  from mmu_map_page_flushes [OF inv map.hyps(1,2) s'(1)] show ?case
    using map.prems tlb_inv_change [OF map.prems _ mmu_map_page_log(1,2) [OF s'(1)] map.hyps(2)] s'(2)
    by (auto simp: tlb_after_simps)
next
  case (unmap virt t s)
  then have "mmu_inv M s" by (simp add: tlb_inv_def)
  note u = mmu_unmap_page_spec [OF this unmap.hyps]
  from mmu_unmap_page_log(3) [of PtStorage virt s] show ?case
    using unmap.prems tlb_inv_change [OF unmap.prems u(1) mmu_unmap_page_log(1,2) unmap.hyps] u(2)
    by (auto simp: tlb_unmap_page_def Let_def tlb_after_simps)
next
  case (switch ts pt)
  then show ?case by (cases ts) (auto simp: tlb_inv_load tlb_inv_roots tlb_switch_def)
next
  case (flush ts virt)
  then show ?case by (cases ts) (auto simp: tlb_inv_def hal_mmu_flush_tlb_def invlpg_def flush_tlb_cr3)
next
  case (flush_all ts)
  then show ?case by (cases ts) (auto simp: tlb_inv_load tlb_inv_roots flush_tlb_all_def)
next
  case (hal_flush_all ts)
  then show ?case by (cases ts) (auto simp: tlb_inv_load tlb_inv_roots hal_mmu_flush_tlb_all_def)
qed

section \<open>Properties\<close>

text \<open>
  C14: no access uses a stale translation. On well-formed page tables that the processor uses, and
  starting with an empty buffer, the processor may cache and drop translations at any moment
  while the kernel maps and unmaps pages, switches the address space, invalidates, and writes memory
  outside the page tables: the page tables stay well-formed, and every address is translated as the
  page tables say at that moment, cached or not.
\<close>

theorem tlb_never_stale:
  assumes "mmu_inv M s" and "cr3 s = page_directory (pt_storage s)" and "tlb_step\<^sup>*\<^sup>* (Map.empty, s) (t', s')"
  shows "mmu_inv M s' \<and> (\<forall>v. tlb_lookup (t', s') v = translate s' v)"
proof -
  have "tlb_inv M (Map.empty, s)" using assms(1,2) by (simp add: tlb_inv_def)
  with assms(3) have "tlb_inv M (t', s')" by (induction rule: rtranclp_induct) (auto intro: tlb_step_inv)
  then show ?thesis using tlb_lookup_translate [of M "(t', s')"] by (simp add: tlb_inv_def)
qed

text \<open>A page is mapped, cached and unmapped: the next access to it faults.\<close>

definition sample_paging :: mmu_st where
  "sample_paging = sample_mmu\<lparr>cr0 := 0x80000011, cr3 := 0x8000\<rparr>"

lemma sample_paging_inv: "mmu_inv sample_frames sample_paging" "cr3 sample_paging = page_directory (pt_storage sample_paging)"
  "free_set sample_paging \<noteq> {}"
  using sample_mmu_inv sample_mmu_avail
  by (simp_all add: sample_paging_def mmu_inv_def table_slots_def table_page_def [abs_def])
    (simp add: sample_mmu_def)

theorem tlb_never_stale_witness:
  "\<exists>t1 t2 s1 s2. tlb_step\<^sup>*\<^sup>* (Map.empty, sample_paging) (t1, s1) \<and> t1 0x400000 = Some (0xB8000, 3) \<and>
     tlb_step (t1, s1) (t2, s2) \<and> tlb_lookup (t2, s2) 0x400123 = None"
proof -
  have al: "page_aligned 0xB8000" "page_aligned 0x400000" "PAGE_ALIGN_DOWN 0x400123 = 0x400000"
    by (simp_all add: page_aligned_def PAGE_ALIGN_DOWN_def)
  have "PD_INDEX 0x400000 \<in> table_slots sample_paging \<or> 0 < page_budget sample_paging"
    using sample_paging_inv(3) by (simp add: card_gt_0_iff avail_pages_def)
  from mmu_map_page_spec [OF sample_paging_inv(1) al(1,2) this, of 3] obtain s1 where
    s1: "mmu_map_page PtStorage 0xB8000 0x400000 3 sample_paging = Inr (0x400000, s1)" "mmu_inv sample_frames s1"
      "translate s1 0x400123 = Some (0xB8000, 3)"
    using al(3) by (auto simp: visible_def flags_to_x86_def)
  define t where "t = tlb_after sample_paging s1 Map.empty"
  have m: "tlb_step (Map.empty, sample_paging) (t, s1)"
    using s1(1) by (intro tlb_step.map [OF al(1,2), where r = "0x400000" and flags = 3]) (simp add: tlb_map_page_def t_def)
  have "walk s1 = translate s1"
    using mmu_map_page_log(1,2) [OF s1(1)] sample_paging_inv(2) by (intro walk_translate [OF s1(2)]) simp
  then have "tlb_step (t, s1) (t(0x400000 \<mapsto> (0xB8000, 3)), s1)" using tlb_step.fill [of s1 "0x400123"] s1(3) al(3) by simp
  then have run: "tlb_step\<^sup>*\<^sup>* (Map.empty, sample_paging) (t(0x400000 \<mapsto> (0xB8000, 3)), s1)"
    by (rule rtranclp.rtrancl_into_rtrancl [OF r_into_rtranclp [of tlb_step, OF m]])
  obtain t2 s2 where s2: "tlb_unmap_page PtStorage 0x400000 (t(0x400000 \<mapsto> (0xB8000, 3)), s1) = (t2, s2)" by fastforce
  then have u: "tlb_step (t(0x400000 \<mapsto> (0xB8000, 3)), s1) (t2, s2)" using tlb_step.unmap [OF al(2)] by metis
  have "translate s2 0x400123 = None"
    using s2 mmu_unmap_page_spec(2) [OF s1(2) al(2)] al(3) by (auto simp: tlb_unmap_page_def Let_def)
  moreover have "tlb_lookup (t2, s2) 0x400123 = translate s2 0x400123"
    using tlb_never_stale [OF sample_paging_inv(1,2) rtranclp.rtrancl_into_rtrancl [OF run u]] by blast
  ultimately show ?thesis using run u by (intro exI [of _ "t(0x400000 \<mapsto> (0xB8000, 3))"] exI [of _ t2] exI [of _ s1] exI [of _ s2]) simp
qed

end
