(* ===== verification/Hal.thy ===== *)
theory Hal
  imports Boot Panic Tlb
begin

text \<open>
  The hardware abstraction layer as the rest of the kernel sees it: \<^verbatim>\<open>struct hal_ops\<close> of
  \<^verbatim>\<open>include/kernel/hal.h\<close> as a record of operations on the whole machine, and \<^verbatim>\<open>x86_hal\<close> of
  \<^verbatim>\<open>arch/x86/hal.c\<close> as its value. The entries that the components call are modelled with them;
  here are the rest: halting, shutting down, rebooting, and the entries without work on this
  port. The contract \<open>hal_interface\<close> is what the kernel's critical sections rely on. Also
  here is the loop of the idle thread (\<^verbatim>\<open>core/task.c\<close>), which is nothing but calls of this
  layer.
\<close>

section \<open>Halting\<close>

text \<open>
  \<^verbatim>\<open>hlt\<close> waits for an interrupt and goes on after its handler, which is the
  parameter \<open>wake\<close>. With interrupts disabled it waits for ever (\<open>None\<close>).
\<close>

definition cpu_halt :: "('z cpu_st_scheme \<Rightarrow> 'z cpu_st_scheme) \<Rightarrow> 'z cpu_st_scheme \<Rightarrow> 'z cpu_st_scheme option" where
  "cpu_halt wake s = (if bit (ctx_eflags (regs s)) 9 then Some (wake s) else None)"

partial_function (option) system_shutdown ::
  "('z cpu_st_scheme \<Rightarrow> 'z cpu_st_scheme) \<Rightarrow> 'z cpu_st_scheme \<Rightarrow> 'z cpu_st_scheme option" where
  "system_shutdown wake s = Option.bind (cpu_halt wake s) (system_shutdown wake)"

text \<open>One round of the idle thread and its loop; the message at its start is left out.\<close>

definition idle_round :: "('z cpu_st_scheme \<Rightarrow> 'z cpu_st_scheme) \<Rightarrow> 'z cpu_st_scheme \<Rightarrow> 'z cpu_st_scheme option" where
  "idle_round wake s = cpu_halt wake (irq_enable s)"

partial_function (option) idle_thread_entry ::
  "('z cpu_st_scheme \<Rightarrow> 'z cpu_st_scheme) \<Rightarrow> 'z cpu_st_scheme \<Rightarrow> 'z cpu_st_scheme option" where
  "idle_thread_entry wake s = Option.bind (idle_round wake s) (idle_thread_entry wake)"

text \<open>Neither loop returns.\<close>

lemma system_shutdown_never_returns: "system_shutdown wake s = None"
proof -
  have "system_shutdown wake s = Some y \<Longrightarrow> False" for y
    by (erule system_shutdown.raw_induct [rotated]) (auto simp: bind_eq_Some_conv)
  then show ?thesis by (cases "system_shutdown wake s") auto
qed

lemma idle_thread_never_returns: "idle_thread_entry wake s = None"
proof -
  have "idle_thread_entry wake s = Some y \<Longrightarrow> False" for y
    by (erule idle_thread_entry.raw_induct [rotated]) (auto simp: bind_eq_Some_conv)
  then show ?thesis by (cases "idle_thread_entry wake s") auto
qed

text \<open>
  The idle thread never sleeps through an interrupt: each round enables them first and comes
  back, in whatever state the interrupt flag was left.
\<close>

fun idle_rounds :: "nat \<Rightarrow> ('z cpu_st_scheme \<Rightarrow> 'z cpu_st_scheme) \<Rightarrow> 'z cpu_st_scheme \<Rightarrow> 'z cpu_st_scheme option" where
  "idle_rounds 0 wake s = Some s"
| "idle_rounds (Suc n) wake s = Option.bind (idle_round wake s) (idle_rounds n wake)"

lemma idle_round_wakes: "idle_round wake s = Some (wake (irq_enable s))"
  by (simp add: idle_round_def cpu_halt_def irq_enable_def bit_or_iff)

lemma idle_rounds_wake: "idle_rounds n wake s = Some (((wake \<circ> irq_enable) ^^ n) s)"
  by (induction n arbitrary: s) (simp_all add: idle_round_wakes funpow_swap1)


section \<open>Rebooting\<close>

text \<open>
  What the processor does with a vector: it enters the gate, if that is one for interrupts and
  present; otherwise it raises a general protection fault or a segment-not-present
  fault with the vector in the error code; if that has no usable gate either, a double
  fault; and at last it resets.
\<close>

datatype delivery = Enters u8 u32 addr | Reset

definition gate_type_ok :: "idt_entry \<Rightarrow> bool" where
  "gate_type_ok e \<longleftrightarrow> type_attr e AND 0x1F = 0x0E \<or> type_attr e AND 0x1F = 0x0F"

definition deliver_fault :: "(u8 \<Rightarrow> idt_entry) \<Rightarrow> u8 \<Rightarrow> u32 \<Rightarrow> delivery" where
  "deliver_fault tbl v err =
     (if gate_type_ok (tbl v) \<and> gate_present (tbl v) then Enters v err (gate_offset (tbl v))
      else if gate_type_ok (tbl 8) \<and> gate_present (tbl 8) then Enters 8 0 (gate_offset (tbl 8))
      else Reset)"

definition deliver :: "(u8 \<Rightarrow> idt_entry) \<Rightarrow> u8 \<Rightarrow> delivery" where
  "deliver tbl v =
     (let err = ucast v * 8 + 2 in
      if \<not> gate_type_ok (tbl v) then deliver_fault tbl 13 err
      else if \<not> gate_present (tbl v) then deliver_fault tbl 11 err
      else Enters v 0 (gate_offset (tbl v)))"

text \<open>
  \<^verbatim>\<open>system_reboot\<close> with the interrupt that follows if the keyboard controller did not
  reset the machine.
\<close>

definition hal_system_reboot :: "'z irq_st_scheme \<Rightarrow> delivery \<times> 'z irq_st_scheme" where
  "hal_system_reboot s = (let s = outb 0x64 0xFE s in (deliver (idt s) 0xFF, s))"


section \<open>The table\<close>

definition hal_mmu_init :: "'m \<Rightarrow> 'm" where
  "hal_mmu_init m = m"

definition hal_mmu_unmap :: "addr \<Rightarrow> 'm \<Rightarrow> 'm" where
  "hal_mmu_unmap virt m = m"

definition mmio_unmap :: "addr \<Rightarrow> u32 \<Rightarrow> 'm \<Rightarrow> 'm" where
  "mmio_unmap virt sz m = m"

definition smp_send_ipi :: "u32 \<Rightarrow> u8 \<Rightarrow> 'm \<Rightarrow> 'm" where
  "smp_send_ipi cpu vector m = m"

definition smp_broadcast_ipi :: "u8 \<Rightarrow> 'm \<Rightarrow> 'm" where
  "smp_broadcast_ipi vector m = m"

definition hal_timer_read_tsc :: "'z timer_st_scheme \<Rightarrow> u64" where
  "hal_timer_read_tsc s = timer_read_tsc s"

definition hal_timer_read_us :: "'z timer_st_scheme \<Rightarrow> fault + u64" where
  "hal_timer_read_us s = timer_read_us s"

record 'm hal_ops =
  op_cpu_init :: "'m \<Rightarrow> 'm"
  op_cpu_id :: "'m \<Rightarrow> u32"
  op_cpu_halt :: "'m \<Rightarrow> 'm option"
  op_cpu_features :: "'m \<Rightarrow> u32"
  op_irq_enable :: "'m \<Rightarrow> 'm"
  op_irq_disable :: "'m \<Rightarrow> u32 \<times> 'm"
  op_irq_restore :: "u32 \<Rightarrow> 'm \<Rightarrow> 'm"
  op_irq_register :: "u8 \<Rightarrow> addr \<Rightarrow> 'm \<Rightarrow> int \<times> 'm"
  op_irq_unregister :: "u8 \<Rightarrow> 'm \<Rightarrow> 'm"
  op_mmu_init :: "'m \<Rightarrow> 'm"
  op_mmu_map :: "addr \<Rightarrow> addr \<Rightarrow> u32 \<Rightarrow> 'm \<Rightarrow> addr"
  op_mmu_unmap :: "addr \<Rightarrow> 'm \<Rightarrow> 'm"
  op_mmu_flush_tlb :: "addr \<Rightarrow> 'm \<Rightarrow> 'm"
  op_mmu_flush_tlb_all :: "'m \<Rightarrow> 'm"
  op_io_inb :: "u16 \<Rightarrow> 'm \<Rightarrow> u8 \<times> 'm"
  op_io_inw :: "u16 \<Rightarrow> 'm \<Rightarrow> u16 \<times> 'm"
  op_io_inl :: "u16 \<Rightarrow> 'm \<Rightarrow> u32 \<times> 'm"
  op_io_outb :: "u16 \<Rightarrow> u8 \<Rightarrow> 'm \<Rightarrow> 'm"
  op_io_outw :: "u16 \<Rightarrow> u16 \<Rightarrow> 'm \<Rightarrow> 'm"
  op_io_outl :: "u16 \<Rightarrow> u32 \<Rightarrow> 'm \<Rightarrow> 'm"
  op_mmio_map :: "addr \<Rightarrow> u32 \<Rightarrow> 'm \<Rightarrow> addr"
  op_mmio_unmap :: "addr \<Rightarrow> u32 \<Rightarrow> 'm \<Rightarrow> 'm"
  op_smp_num_cpus :: "'m \<Rightarrow> u32"
  op_smp_send_ipi :: "u32 \<Rightarrow> u8 \<Rightarrow> 'm \<Rightarrow> 'm"
  op_smp_broadcast_ipi :: "u8 \<Rightarrow> 'm \<Rightarrow> 'm"
  op_smp_boot_cpu :: "u32 \<Rightarrow> addr \<Rightarrow> 'm \<Rightarrow> int"
  op_timer_read_tsc :: "'m \<Rightarrow> u64"
  op_timer_read_us :: "'m \<Rightarrow> fault + u64"
  op_timer_init :: "u32 \<Rightarrow> 'm \<Rightarrow> (fault + 'm) option"
  op_system_reboot :: "'m \<Rightarrow> delivery \<times> 'm"
  op_system_shutdown :: "'m \<Rightarrow> 'm option"
  op_panic :: "addr \<Rightarrow> 'm \<Rightarrow> 'm option"

text \<open>The machine: the translation buffer, the kernel state and the console.\<close>

type_synonym 'z machine = "tlb \<times> 'z timer_st_scheme \<times> console_st"

definition kernel_of :: "'z machine \<Rightarrow> 'z timer_st_scheme" where
  "kernel_of m = fst (snd m)"

definition with_kernel :: "'z machine \<Rightarrow> 'z timer_st_scheme \<Rightarrow> 'z machine" where
  "with_kernel m s = (fst m, s, snd (snd m))"

definition with_ports :: "'z machine \<Rightarrow> io_st \<Rightarrow> 'z machine" where
  "with_ports m p = with_kernel m ((kernel_of m)\<lparr>ports := p\<rparr>)"

definition with_tlb :: "'z machine \<Rightarrow> tlb \<times> 'z timer_st_scheme \<Rightarrow> 'z machine" where
  "with_tlb m ts = (fst ts, snd ts, snd (snd m))"

definition x86_hal :: "linkage \<Rightarrow> ops_table \<Rightarrow> ('z timer_st_scheme \<Rightarrow> 'z timer_st_scheme) \<Rightarrow> 'z machine hal_ops" where
  "x86_hal lk opt wake =
    \<lparr>op_cpu_init = (\<lambda>m. with_kernel m (cpu_init lk (kernel_of m))),
     op_cpu_id = (\<lambda>m. cpu_id),
     op_cpu_halt = (\<lambda>m. map_option (with_kernel m) (cpu_halt wake (kernel_of m))),
     op_cpu_features = (\<lambda>m. cpu_features),
     op_irq_enable = (\<lambda>m. with_kernel m (irq_enable (kernel_of m))),
     op_irq_disable = (\<lambda>m. map_prod id (with_kernel m) (irq_disable (kernel_of m))),
     op_irq_restore = (\<lambda>state m. with_kernel m (irq_restore state (kernel_of m))),
     op_irq_register = (\<lambda>vector handler m. map_prod id (with_kernel m) (irq_register vector handler (kernel_of m))),
     op_irq_unregister = (\<lambda>vector m. with_kernel m (irq_unregister vector (kernel_of m))),
     op_mmu_init = hal_mmu_init,
     op_mmu_map = (\<lambda>phys virt flags m. hal_mmu_map phys virt flags),
     op_mmu_unmap = hal_mmu_unmap,
     op_mmu_flush_tlb = (\<lambda>virt m. with_tlb m (hal_mmu_flush_tlb virt (fst m, kernel_of m))),
     op_mmu_flush_tlb_all = (\<lambda>m. with_tlb m (hal_mmu_flush_tlb_all (fst m, kernel_of m))),
     op_io_inb = (\<lambda>port m. map_prod id (with_ports m) (io_inb port (ports (kernel_of m)))),
     op_io_inw = (\<lambda>port m. map_prod id (with_ports m) (io_inw port (ports (kernel_of m)))),
     op_io_inl = (\<lambda>port m. map_prod id (with_ports m) (io_inl port (ports (kernel_of m)))),
     op_io_outb = (\<lambda>port v m. with_ports m (io_outb port v (ports (kernel_of m)))),
     op_io_outw = (\<lambda>port v m. with_ports m (io_outw port v (ports (kernel_of m)))),
     op_io_outl = (\<lambda>port v m. with_ports m (io_outl port v (ports (kernel_of m)))),
     op_mmio_map = (\<lambda>phys sz m. mmio_map phys sz),
     op_mmio_unmap = mmio_unmap,
     op_smp_num_cpus = (\<lambda>m. smp_num_cpus),
     op_smp_send_ipi = smp_send_ipi,
     op_smp_broadcast_ipi = smp_broadcast_ipi,
     op_smp_boot_cpu = (\<lambda>cpu entry_point m. smp_boot_cpu cpu entry_point),
     op_timer_read_tsc = (\<lambda>m. hal_timer_read_tsc (kernel_of m)),
     op_timer_read_us = (\<lambda>m. hal_timer_read_us (kernel_of m)),
     op_timer_init = (\<lambda>f m. map_option (map_sum id (with_kernel m)) (hal_timer_init lk f (kernel_of m))),
     op_system_reboot = (\<lambda>m. map_prod id (with_kernel m) (hal_system_reboot (kernel_of m))),
     op_system_shutdown = (\<lambda>m. map_option (with_kernel m) (system_shutdown wake (kernel_of m))),
     op_panic = (\<lambda>message m. map_option (Pair (fst m)) (panic_handler opt message (snd m)))\<rparr>"


section \<open>The contract\<close>

text \<open>
  What callers rely on: disabling and restoring interrupts bracket a critical section, and
  registering a handler touches nothing else.
\<close>

locale hal_interface =
  fixes ops :: "'m hal_ops" and enabled :: "'m \<Rightarrow> bool" and handlers :: "'m \<Rightarrow> u8 \<Rightarrow> addr"
  assumes enable: "enabled (op_irq_enable ops m)"
    and disable: "op_irq_disable ops m = (f, m') \<Longrightarrow> \<not> enabled m' \<and> handlers m' = handlers m"
    and restore: "op_irq_disable ops m = (f, m') \<Longrightarrow>
      enabled (op_irq_restore ops f m1) = enabled m \<and> handlers (op_irq_restore ops f m1) = handlers m1"
    and register: "op_irq_register ops v h m = (r, m') \<Longrightarrow>
      r = 0 \<and> handlers m' = (handlers m)(v := h) \<and> enabled m' = enabled m"
    and unregister: "handlers (op_irq_unregister ops v m) = (handlers m)(v := 0)"
      "enabled (op_irq_unregister ops v m) = enabled m"
begin

definition critical :: "('m \<Rightarrow> 'm) \<Rightarrow> 'm \<Rightarrow> 'm" where
  "critical body m = (let (f, m) = op_irq_disable ops m in op_irq_restore ops f (body m))"

lemma critical_flag: "enabled (critical body m) = enabled m"
  by (auto simp: critical_def restore split: prod.split)

lemma critical_excludes:
  "\<exists>f m1. \<not> enabled m1 \<and> critical body m = op_irq_restore ops f (body m1) \<and> enabled (op_irq_restore ops f (body m1)) = enabled m"
proof -
  obtain f m1 where "op_irq_disable ops m = (f, m1)" by fastforce
  then show ?thesis using disable [of m f m1] restore [of m f m1] by (intro exI [of _ f] exI [of _ m1]) (simp add: critical_def)
qed

text \<open>An inner critical section does not open the outer one.\<close>

lemma critical_nested: "enabled (critical (\<lambda>m. g (critical body m)) m) = enabled m"
  "\<not> enabled m \<Longrightarrow> \<not> enabled (critical body m)"
  by (simp_all add: critical_flag)

lemma register_unregister:
  "handlers (op_irq_unregister ops v (snd (op_irq_register ops v h m))) = (handlers m)(v := 0)"
  using register [of v h m] by (cases "op_irq_register ops v h m") (simp add: unregister)

end

lemma kernel_of_with [simp]: "kernel_of (with_kernel m s) = s"
  by (simp add: kernel_of_def with_kernel_def)

lemma irq_flag_simps:
  "bit (ctx_eflags (regs (irq_enable s))) 9" "\<not> bit (ctx_eflags (regs (snd (irq_disable s)))) 9"
  "bit (ctx_eflags (regs (irq_restore (fst (irq_disable s)) s'))) 9 = bit (ctx_eflags (regs s)) 9"
  by (simp_all add: irq_enable_def irq_disable_def irq_restore_def bit_simps)

interpretation x86_hal: hal_interface "x86_hal lk opt wake"
  "\<lambda>m. bit (ctx_eflags (regs (kernel_of m))) 9" "\<lambda>m. interrupt_handlers (kernel_of m)" for lk opt wake
  by unfold_locales
    (auto simp: x86_hal_def irq_flag_simps irq_register_def idt_register_handler_def irq_unregister_def
      idt_unregister_handler_def map_prod_def split_beta, auto simp: irq_disable_def irq_restore_def)


section \<open>Properties\<close>

lemma hal_x86_init_gate:
  "idt (hal_x86_init lk s) v = (if unat v < 32 then make_gate (isr_stub (l_stubs lk) (unat v)) 0x08 0x8E
      else if unat v < 48 then make_gate (irq_stub (l_stubs lk) (unat v - 32)) 0x08 0x8E
      else if v = 0x80 then make_gate (syscall_entry_int80 (l_stubs lk)) 0x08 0xEE else make_gate 0 0 0)"
  by (simp add: hal_x86_init_def cpu_init_def idt_init_gate)


text \<open>The sample machine of the panics, booted.\<close>

definition sample_linkage :: linkage where
  "sample_linkage = \<lparr>l_tss = 0x1000, l_gdt = 0x2000, l_idt = 0x3000,
     l_stubs = \<lparr>isr_stub = (\<lambda>i. 0x100000 + of_nat i * 16), irq_stub = (\<lambda>i. 0x101000 + of_nat i * 16), syscall_entry_int80 = 0x102000\<rparr>,
     l_timer_handler = 0, l_kernel_start = 0, l_kernel_end = 0, l_idle_entry = 0, l_bootstrap_task = 0, l_task_wrapper = 0,
     l_user_test_start = 0, l_user_test_end = 0, l_test_thread_entry = 0\<rparr>"


end
