(* ===== verification/Assertions.thy ===== *)
theory Assertions
  imports Panic
begin

text \<open>
  The assertion macros of \<^verbatim>\<open>include/kernel/assert.h\<close>: in a build with assertions a failed one
  prints a line about its operands, if it has one, and then panics; in a release build
  they are nothing. What they have in common is the contract \<open>assertion\<close>, proved once and
  instantiated for every macro. The components that assert something model the panic as a
  fault; the last theorem connects the two.
\<close>

section \<open>The macros\<close>

text \<open>
  \<^verbatim>\<open>__FILE__\<close>, \<^verbatim>\<open>__LINE__\<close> and \<^verbatim>\<open>__func__\<close> at the place of the assertion; texts of operands
  (\<^verbatim>\<open>#expr\<close>) are string constants. An assertion goes on, ends in the halt loop of the panic, or
  faults.
\<close>

record site =
  at_file :: addr
  at_line :: u32
  at_func :: addr

datatype 's checked = Passed 's | Halted 's | Faulted fault

definition panic_at :: "ops_table \<Rightarrow> site \<Rightarrow> addr \<Rightarrow> 'z panic_st \<Rightarrow> 'z panic_st checked option" where
  "panic_at ops l expr st = map_option Halted (kernel_panic_assert ops (at_file l) (at_line l) (at_func l) expr st)"

definition kassert_macro :: "ops_table \<Rightarrow> site \<Rightarrow> bool \<Rightarrow> addr \<Rightarrow> 'z panic_st \<Rightarrow> 'z panic_st checked option" where
  "kassert_macro ops l b expr = (\<lambda>(s, c).
     if kernel_assert s \<and> \<not> b then panic_at ops l expr (s, c) else Some (Passed (s, c)))"

definition kassert_msg :: "ops_table \<Rightarrow> site \<Rightarrow> bool \<Rightarrow> addr \<Rightarrow> addr \<Rightarrow> 'z panic_st \<Rightarrow> 'z panic_st checked option" where
  "kassert_msg ops l b expr msg = (\<lambda>(s, c).
     if kernel_assert s \<and> \<not> b then
       Option.bind (kprintf_all ops (memory s) [(c_text (''Assertion failed: %s'' @ [NL]), [msg])] c) (\<lambda>c.
       panic_at ops l expr (s, c))
     else Some (Passed (s, c)))"

definition kassert_eq :: "ops_table \<Rightarrow> site \<Rightarrow> u32 \<times> addr \<Rightarrow> u32 \<times> addr \<Rightarrow> addr \<Rightarrow> 'z panic_st \<Rightarrow> 'z panic_st checked option" where
  "kassert_eq ops l = (\<lambda>(a, ta) (b, tb) expr (s, c).
     if kernel_assert s \<and> a \<noteq> b then
       Option.bind (kprintf_all ops (memory s) [(c_text (''Assertion failed: %s == %s (%d != %d)'' @ [NL]), [ta, tb, a, b])] c) (\<lambda>c.
       panic_at ops l expr (s, c))
     else Some (Passed (s, c)))"

definition kassert_neq :: "ops_table \<Rightarrow> site \<Rightarrow> u32 \<times> addr \<Rightarrow> u32 \<times> addr \<Rightarrow> addr \<Rightarrow> 'z panic_st \<Rightarrow> 'z panic_st checked option" where
  "kassert_neq ops l = (\<lambda>(a, ta) (b, tb) expr (s, c).
     if kernel_assert s \<and> a = b then
       Option.bind (kprintf_all ops (memory s) [(c_text (''Assertion failed: %s != %s'' @ [NL]), [ta, tb])] c) (\<lambda>c.
       panic_at ops l expr (s, c))
     else Some (Passed (s, c)))"

definition kassert_not_null :: "ops_table \<Rightarrow> site \<Rightarrow> addr \<Rightarrow> addr \<Rightarrow> 'z panic_st \<Rightarrow> 'z panic_st checked option" where
  "kassert_not_null ops l ptr expr = (\<lambda>(s, c).
     if kernel_assert s \<and> ptr = 0 then panic_at ops l expr (s, c) else Some (Passed (s, c)))"

definition kassert_null :: "ops_table \<Rightarrow> site \<Rightarrow> addr \<Rightarrow> addr \<Rightarrow> 'z panic_st \<Rightarrow> 'z panic_st checked option" where
  "kassert_null ops l ptr expr = (\<lambda>(s, c).
     if kernel_assert s \<and> ptr \<noteq> 0 then panic_at ops l expr (s, c) else Some (Passed (s, c)))"

definition kassert_irqs_disabled :: "ops_table \<Rightarrow> site \<Rightarrow> addr \<Rightarrow> 'z panic_st \<Rightarrow> 'z panic_st checked option" where
  "kassert_irqs_disabled ops l expr = (\<lambda>(s, c).
     let flags = ctx_eflags (regs s)
     in if kernel_assert s \<and> flags AND 0x200 \<noteq> 0 then panic_at ops l expr (s, c) else Some (Passed (s, c)))"

definition kassert_irqs_enabled :: "ops_table \<Rightarrow> site \<Rightarrow> addr \<Rightarrow> 'z panic_st \<Rightarrow> 'z panic_st checked option" where
  "kassert_irqs_enabled ops l expr = (\<lambda>(s, c).
     let flags = ctx_eflags (regs s)
     in if kernel_assert s \<and> \<not> flags AND 0x200 \<noteq> 0 then panic_at ops l expr (s, c) else Some (Passed (s, c)))"

text \<open>The comparisons are those of \<^verbatim>\<open>int\<close> operands.\<close>

definition kassert_range :: "ops_table \<Rightarrow> site \<Rightarrow> u32 \<times> addr \<Rightarrow> u32 \<Rightarrow> u32 \<Rightarrow> addr \<Rightarrow> 'z panic_st \<Rightarrow> 'z panic_st checked option" where
  "kassert_range ops l = (\<lambda>(v, tv) lo hi expr (s, c).
     if kernel_assert s \<and> (sint v < sint lo \<or> sint v > sint hi) then
       Option.bind (kprintf_all ops (memory s)
         [(c_text (''Assertion failed: %s in range [%d, %d] (got %d)'' @ [NL]), [tv, lo, hi, v])] c) (\<lambda>c.
       panic_at ops l expr (s, c))
     else Some (Passed (s, c)))"

text \<open>A division by zero if the alignment is zero.\<close>

definition kassert_aligned :: "ops_table \<Rightarrow> site \<Rightarrow> addr \<times> addr \<Rightarrow> u32 \<Rightarrow> addr \<Rightarrow> 'z panic_st \<Rightarrow> 'z panic_st checked option" where
  "kassert_aligned ops l = (\<lambda>(ptr, tp) alignment expr (s, c).
     if kernel_assert s \<and> alignment = 0 then Some (Faulted DivByZero)
     else if kernel_assert s \<and> ptr mod alignment \<noteq> 0 then
       Option.bind (kprintf_all ops (memory s)
         [(c_text (''Assertion failed: %s aligned to %d (ptr=%p)'' @ [NL]), [tp, alignment, ptr])] c) (\<lambda>c.
       panic_at ops l expr (s, c))
     else Some (Passed (s, c)))"


section \<open>The contract of an assertion\<close>

text \<open>
  A condition on the state, the lines about the operands, the text of the assertion and its
  place.
\<close>

locale assertion =
  fixes check :: "ops_table \<Rightarrow> 'z panic_st \<Rightarrow> 'z panic_st checked option"
    and condition :: "'z irq_st_scheme \<Rightarrow> bool"
    and report :: "item list list"
    and expr :: addr
    and l :: site
  assumes passes: "\<not> kernel_assert s \<or> condition s \<Longrightarrow> check ops (s, c) = Some (Passed (s, c))"
    and panics: "kernel_assert s \<Longrightarrow> \<not> condition s \<Longrightarrow> check ops (s, c) =
      Option.bind (kprintf_all ops (memory s) (map message_call report) c) (\<lambda>c. panic_at ops l expr (s, c))"
begin

text \<open>The report goes to both backends, below what is on the screen, and interrupts are off.\<close>

lemma reports:
  assumes "console_ready va sa c" and "serial_line_ready c" and "kernel_assert s" and "\<not> condition s"
    and "\<forall>p \<in> {at_file l, at_func l, expr}. p \<noteq> 0 \<and> c_string (memory s) p (str p) \<and> 0x0A \<notin> set (str p)"
    and "\<forall>js \<in> set report. \<forall>i \<in> set js. item_ok (memory s) str i \<and> item_plain str i"
  shows "\<exists>c'. check (kernel_backends va sa) (s, c) = Some (Halted (snd (irq_disable s), c')) \<and>
    shows_and_sends va sa (message_text str (report @ assertion_items (at_file l) (at_line l) (at_func l) expr))
      (message_text str (report @ assertion_items (at_file l) (at_line l) (at_func l) expr)) c c'"
proof -
  obtain c1 where c1: "kprintf_all (kernel_backends va sa) (memory s) (map message_call report) c = Some c1"
      "shows_and_sends va sa (message_text str report) (message_text str report) c c1"
    using kprintf_all_both [OF assms(1,2,6)] by blast
  then have r: "console_ready va sa c1" "serial_line_ready c1"
    using assms(2) by (simp_all add: shows_and_sends_def serial_line_ready_def)
  obtain c' where c': "kernel_panic_assert (kernel_backends va sa) (at_file l) (at_line l) (at_func l) expr (s, c1) =
        Some (snd (irq_disable s), c')"
      "shows_and_sends va sa (message_text str (assertion_items (at_file l) (at_line l) (at_func l) expr))
        (message_text str (assertion_items (at_file l) (at_line l) (at_func l) expr)) c1 c'"
    using kernel_panic_assert_spec [OF r assms(5)] by blast
  have "message_text str (report @ js) = message_text str report @ message_text str js" for js
    by (simp add: message_text_def)
  then show ?thesis
    using panics [OF assms(3,4)] c1 c' shows_and_sends_trans [OF c1(2) c'(2)] by (simp add: panic_at_def)
qed

text \<open>Before the console is set up the panic is silent.\<close>

lemma silent:
  assumes "\<not> vga_set c" and "kernel_assert s" and "\<not> condition s"
  shows "check ops (s, c) = Some (Halted (snd (irq_disable s), c))"
proof -
  have "kprintf_all ops (memory s) (map message_call js) c = Some c" for js
    using assms(1) by (induction js) (simp_all add: kprintf_def message_call_def)
  then show ?thesis using panics [OF assms(2,3)] kernel_panic_assert_silent [OF assms(1)] by (simp add: panic_at_def)
qed

lemma passed_iff:
  "check ops (s, c) = Some (Passed st) \<longleftrightarrow> st = (s, c) \<and> (kernel_assert s \<longrightarrow> condition s)"
  using passes [of s ops c] panics [of s ops c] by (cases "kernel_assert s \<and> \<not> condition s") (auto simp: panic_at_def bind_eq_Some_conv)

end


section \<open>The macros keep the contract\<close>

definition operands_line :: "string \<Rightarrow> addr \<Rightarrow> string \<Rightarrow> addr \<Rightarrow> item list" where
  "operands_line w a x b = lits w @ Str a # lits x @ [Str b]"

interpretation kassert: assertion "\<lambda>ops. kassert_macro ops l b expr" "\<lambda>_. b" "[]" expr l for l b expr
  by unfold_locales (auto simp: kassert_macro_def)

interpretation kassert_msg: assertion "\<lambda>ops. kassert_msg ops l b expr msg" "\<lambda>_. b"
  "[lits ''Assertion failed: '' @ Str msg # lits [NL]]" expr l for l b expr msg
  by unfold_locales (auto simp: kassert_msg_def message_simps)

interpretation kassert_eq: assertion "\<lambda>ops. kassert_eq ops l (a, ta) (b, tb) expr" "\<lambda>_. a = b"
  "[operands_line ''Assertion failed: '' ta '' == '' tb @ lits '' ('' @ SDec a # lits '' != '' @ SDec b # lits ('')'' @ [NL])]"
  expr l for l a ta b tb expr
  by unfold_locales (auto simp: kassert_eq_def operands_line_def message_simps)

interpretation kassert_neq: assertion "\<lambda>ops. kassert_neq ops l (a, ta) (b, tb) expr" "\<lambda>_. a \<noteq> b"
  "[operands_line ''Assertion failed: '' ta '' != '' tb @ lits [NL]]" expr l for l a ta b tb expr
  by unfold_locales (auto simp: kassert_neq_def operands_line_def message_simps)

interpretation kassert_not_null: assertion "\<lambda>ops. kassert_not_null ops l ptr expr" "\<lambda>_. ptr \<noteq> 0" "[]" expr l for l ptr expr
  by unfold_locales (auto simp: kassert_not_null_def)

interpretation kassert_null: assertion "\<lambda>ops. kassert_null ops l ptr expr" "\<lambda>_. ptr = 0" "[]" expr l for l ptr expr
  by unfold_locales (auto simp: kassert_null_def)

lemma if_flag_bit: "(f :: u32) AND 0x200 = 0 \<longleftrightarrow> \<not> bit f 9"
  using and_exp_eq_0_iff_not_bit [of f 9] by simp

interpretation kassert_irqs_disabled: assertion "\<lambda>ops. kassert_irqs_disabled ops l expr"
  "\<lambda>s. \<not> bit (ctx_eflags (regs s)) 9" "[]" expr l for l expr
  by unfold_locales (auto simp: kassert_irqs_disabled_def Let_def if_flag_bit)

interpretation kassert_irqs_enabled: assertion "\<lambda>ops. kassert_irqs_enabled ops l expr"
  "\<lambda>s. bit (ctx_eflags (regs s)) 9" "[]" expr l for l expr
  by unfold_locales (auto simp: kassert_irqs_enabled_def Let_def if_flag_bit)

interpretation kassert_range: assertion "\<lambda>ops. kassert_range ops l (v, tv) lo hi expr" "\<lambda>_. sint lo \<le> sint v \<and> sint v \<le> sint hi"
  "[lits ''Assertion failed: '' @ Str tv # lits '' in range ['' @ SDec lo # lits '', '' @ SDec hi # lits ''] (got '' @ SDec v # lits ('')'' @ [NL])]"
  expr l for l v tv lo hi expr
  by unfold_locales (auto simp: kassert_range_def message_simps)

text \<open>With the alignment at which the kernel uses it.\<close>

interpretation kassert_aligned: assertion "\<lambda>ops. kassert_aligned ops l (ptr, tp) FRAME_SIZE expr" "\<lambda>_. ptr mod FRAME_SIZE = 0"
  "[lits ''Assertion failed: '' @ Str tp # lits '' aligned to '' @ SDec FRAME_SIZE # lits '' (ptr='' @ Ptr ptr # lits ('')'' @ [NL])]"
  expr l for l ptr tp expr
  by unfold_locales (auto simp: kassert_aligned_def message_simps)


section \<open>Properties\<close>

lemma c_string_unique: "c_string m p xs \<Longrightarrow> c_string m p ys \<Longrightarrow> xs = ys"
proof (induction xs arbitrary: p ys)
  case Nil
  then show ?case by (cases ys) (auto simp: c_string_Cons_iff)
next
  case (Cons x xs)
  then show ?case by (cases ys) (auto simp: c_string_Cons_iff)
qed

text \<open>One function gives the text of every string constant in memory.\<close>

lemma literals_text:
  assumes "literals_at lit xs m"
  shows "\<exists>str :: addr \<Rightarrow> u8 list. \<forall>x \<in> set xs. lit x \<noteq> 0 \<and> c_string m (lit x) (map of_char x) \<and> str (lit x) = map of_char x"
proof (intro exI [of _ "\<lambda>p. SOME t. c_string m p t"] ballI conjI)
  fix x assume "x \<in> set xs"
  with assms have c: "lit x \<noteq> 0" "c_string m (lit x) (map of_char x)" by (simp_all add: literals_at_def)
  then show "lit x \<noteq> 0" "c_string m (lit x) (map of_char x)" by simp_all
  show "(SOME t. c_string m (lit x) t) = map of_char x" using c(2) by (blast intro: some_equality c_string_unique)
qed

definition unaligned_text :: "string \<Rightarrow> addr \<Rightarrow> u8 list" where
  "unaligned_text file page =
     map of_char ''Assertion failed: page aligned to 4096 (ptr=0x'' @ hex_text 8 page @ map of_char ('')'' @ [NL]) @
     map of_char ([NL, NL] @ rule_text @ ''  KERNEL PANIC - ASSERTION FAILED'' @ [NL] @ rule_text @ ''File: '' @ file @
       '':393'' @ [NL] @ ''Function: pmm_free_page'' @ [NL] @ ''Expression: page aligned'' @ [NL] @ rule_text)"

lemma assertion_numbers: "show_int 4096 = map of_char ''4096''" "show_int 393 = map of_char ''393''"
  by (simp_all add: show_int_def show_nat_def nat_digits.simps digit_table_def)

definition free_site :: "(string \<Rightarrow> addr) \<Rightarrow> string \<Rightarrow> site" where
  "free_site lit file = \<lparr>at_file = lit file, at_line = 393, at_func = lit ''pmm_free_page''\<rparr>"

definition assertion_strings :: "string list" where
  "assertion_strings = [''mm/pmm.c'', ''pmm_free_page'', ''page'', ''page aligned'']"

text \<open>
  C36: a failed assertion stops the kernel and says which one. Releasing an address that is not that
  of a page, in a build with assertions, is the fault of the memory manager's model
  and, on the console, the panic of \<^verbatim>\<open>kassert_aligned\<close>: the macro does not return, interrupts
  are disabled and the rest of the kernel state is as it was, and the serial line has received the
  address, the file, the line and the function. In a release build the macro does nothing.
\<close>

theorem free_unaligned_page_stops:
  assumes "console_ready va sa c" and "serial_line_ready c" and "initialized s" and "bitmap s \<noteq> NullBitmap"
    and "page mod FRAME_SIZE \<noteq> 0" and "0x0A \<notin> set (map of_char file :: u8 list)"
    and "literals_at lit [file, ''pmm_free_page'', ''page'', ''page aligned''] (memory s)"
  shows "if kernel_assert s then
      pmm_free_page page s = Inl (AssertFailed ''page aligned'') \<and>
      (\<exists>s' c'. kassert_aligned (kernel_backends va sa) (free_site lit file) (page, lit ''page'') FRAME_SIZE (lit ''page aligned'') (s, c) =
          Some (Halted (s', c')) \<and>
        \<not> bit (ctx_eflags (regs s')) 9 \<and> s' = s\<lparr>regs := (regs s)\<lparr>ctx_eflags := ctx_eflags (regs s')\<rparr>\<rparr> \<and>
        sent SERIAL_COM1 (port_log c') = sent SERIAL_COM1 (port_log c) @ unaligned_text file page)
    else kassert_aligned (kernel_backends va sa) (free_site lit file) (page, lit ''page'') FRAME_SIZE (lit ''page aligned'') (s, c) =
      Some (Passed (s, c))"
proof (cases "kernel_assert s")
  case True
  let ?l = "free_site lit file"
  let ?report = "[lits ''Assertion failed: '' @ Str (lit ''page'') # lits '' aligned to '' @ SDec FRAME_SIZE # lits '' (ptr='' @ Ptr page # lits ('')'' @ [NL])]"
  obtain str :: "addr \<Rightarrow> u8 list" where str: "\<forall>x \<in> set [file, ''pmm_free_page'', ''page'', ''page aligned''].
      lit x \<noteq> 0 \<and> c_string (memory s) (lit x) (map of_char x) \<and> str (lit x) = map of_char x"
    using literals_text [OF assms(7)] by blast
  have f: "\<forall>p \<in> {at_file ?l, at_func ?l, lit ''page aligned''}. p \<noteq> 0 \<and> c_string (memory s) p (str p) \<and> 0x0A \<notin> set (str p)"
    using str assms(6) by (simp add: free_site_def)
  have ok: "\<forall>js \<in> set ?report. \<forall>i \<in> set js. item_ok (memory s) str i \<and> item_plain str i"
    using str by (simp add: lits_def)
  have t: "message_text str (?report @ assertion_items (at_file ?l) (at_line ?l) (at_func ?l) (lit ''page aligned'')) = unaligned_text file page"
    using str by (simp add: message_text_def lits_def assertion_items_def unaligned_text_def rule_text_def free_site_def
        assertion_numbers hex_text_def)
  obtain c' where c': "kassert_aligned (kernel_backends va sa) ?l (page, lit ''page'') FRAME_SIZE (lit ''page aligned'') (s, c) =
        Some (Halted (snd (irq_disable s), c'))"
      "shows_and_sends va sa (unaligned_text file page) (unaligned_text file page) c c'"
    using kassert_aligned.reports [OF assms(1,2) True assms(5) f ok] unfolding t by blast
  have "pmm_free_page page s = Inl (AssertFailed ''page aligned'')"
    using True assms(3-5) by (simp add: pmm_free_page_def kassert_def)
  moreover have "\<not> bit (ctx_eflags (regs (snd (irq_disable s)))) 9" by (simp add: irq_disable_def bit_simps)
  moreover have "snd (irq_disable s) = s\<lparr>regs := (regs s)\<lparr>ctx_eflags := ctx_eflags (regs (snd (irq_disable s)))\<rparr>\<rparr>"
    by (simp add: irq_disable_def)
  ultimately show ?thesis using True c' by (auto simp: shows_and_sends_def)
next
  case False
  then show ?thesis by (simp add: kassert_aligned.passes)
qed

text \<open>The address 0x1234 is released.\<close>

definition sample_assert :: timer_st where
  "sample_assert = sample_timer\<lparr>memory := literal_block assertion_strings, kernel_assert := True,
     initialized := True, bitmap := FrameBitmap\<rparr>"

theorem free_unaligned_page_stops_witness:
  "\<exists>s' c'. kassert_aligned (kernel_backends 0x5000 0x6000) (free_site (literal_addr assertion_strings) ''mm/pmm.c'')
       (0x1234, literal_addr assertion_strings ''page'') FRAME_SIZE (literal_addr assertion_strings ''page aligned'')
       (sample_assert, sample_console) = Some (Halted (s', c')) \<and>
     sent SERIAL_COM1 (port_log c') = unaligned_text ''mm/pmm.c'' 0x1234"
proof -
  have "literals_at (literal_addr assertion_strings) assertion_strings (memory sample_assert)"
    using literal_block_at [of assertion_strings] by (simp add: sample_assert_def assertion_strings_def)
  then have lits: "literals_at (literal_addr assertion_strings)
      [''mm/pmm.c'', ''pmm_free_page'', ''page'', ''page aligned''] (memory sample_assert)"
    by (simp add: assertion_strings_def)
  have h: "initialized sample_assert" "bitmap sample_assert \<noteq> NullBitmap" "kernel_assert sample_assert"
      "(0x1234 :: u32) mod FRAME_SIZE \<noteq> 0" "0x0A \<notin> set (map of_char ''mm/pmm.c'' :: u8 list)"
    by (simp_all add: sample_assert_def)
  have "sent SERIAL_COM1 (port_log sample_console) = []" by simp
  with free_unaligned_page_stops [OF sample_console_ready h(1,2,4,5) lits] h(3) show ?thesis by (auto simp: assertion_strings_def)
qed

end
