(* ===== verification/Kernel_Types.thy ===== *)
theory Kernel_Types
  imports Address_Space
begin

text \<open>
  The inline functions and macros of \<^verbatim>\<open>include/kernel/types.h\<close> and the page macros of
  \<^verbatim>\<open>include/kernel/mmu.h\<close>: atomic counters, alignment, minimum and maximum. An atomic
  operation is one step from the old value of the counter to its new one, with a result. The
  lemmas say when the rounding macros can be trusted, and that a reference count
  built on these operations reports its last release exactly once.
\<close>

section \<open>Atomic counters\<close>

type_synonym atomic_t = u32

definition atomic_init :: "u32 \<Rightarrow> atomic_t \<Rightarrow> atomic_t" where
  "atomic_init v a = v"

definition atomic_read :: "atomic_t \<Rightarrow> u32" where
  "atomic_read a = a"

definition atomic_write :: "u32 \<Rightarrow> atomic_t \<Rightarrow> atomic_t" where
  "atomic_write v a = v"

text \<open>The old value and the counter afterwards.\<close>

definition atomic_fetch_inc :: "atomic_t \<Rightarrow> u32 \<times> atomic_t" where
  "atomic_fetch_inc a = (a, a + 1)"

definition atomic_dec :: "atomic_t \<Rightarrow> u32 \<times> atomic_t" where
  "atomic_dec a = (a, a - 1)"

definition atomic_cas :: "u32 \<Rightarrow> u32 \<Rightarrow> atomic_t \<Rightarrow> bool \<times> atomic_t" where
  "atomic_cas expected desired a = (if a = expected then (True, desired) else (False, a))"

definition atomic_dec_and_test :: "atomic_t \<Rightarrow> bool \<times> atomic_t" where
  "atomic_dec_and_test a = (a - 1 = 0, a - 1)"

text \<open>Some holders of a reference release it one after the other.\<close>

fun release_all :: "nat \<Rightarrow> atomic_t \<Rightarrow> bool list \<times> atomic_t" where
  "release_all 0 a = ([], a)"
| "release_all (Suc n) a =
     (let (zero, a) = atomic_dec_and_test a; (zs, a) = release_all n a in (zero # zs, a))"

lemma release_all_last:
  assumes "0 < unat a"
  shows "release_all (unat a) a = (replicate (unat a - 1) False @ [True], 0)"
proof -
  have "release_all (Suc n) a = (replicate n False @ [True], 0)" if "unat a = Suc n" for n a
    using that
  proof (induction n arbitrary: a)
    case 0
    then have "a = 1" by (simp add: word_unat_eq_iff)
    then show ?case by (simp add: atomic_dec_and_test_def)
  next
    case (Suc n)
    then have "1 \<le> a" by (simp add: word_le_nat_alt)
    then have "unat (a - 1) = Suc n" using Suc.prems by (simp add: unat_sub)
    moreover have "a - 1 \<noteq> 0" using calculation by auto
    ultimately show ?case using Suc.IH [of "a - 1"] by (simp add: atomic_dec_and_test_def del: release_all.simps(2)) (simp add: atomic_dec_and_test_def)
  qed
  from this [of a "unat a - 1"] assms show ?thesis by simp
qed

text \<open>A compare-and-swap with the value just read succeeds if nobody came in between, and only then changes anything.\<close>

lemma atomic_cas_iff: "fst (atomic_cas e d a) \<longleftrightarrow> atomic_read a = e" "snd (atomic_cas e d a) = (if fst (atomic_cas e d a) then d else a)"
  by (simp_all add: atomic_cas_def atomic_read_def)


section \<open>Alignment\<close>

definition ALIGN_DOWN :: "u32 \<Rightarrow> u32 \<Rightarrow> u32" where
  "ALIGN_DOWN x a = x AND NOT (a - 1)"

definition ALIGN_UP :: "u32 \<Rightarrow> u32 \<Rightarrow> u32" where
  "ALIGN_UP x a = (x + a - 1) AND NOT (a - 1)"

definition IS_ALIGNED :: "u32 \<Rightarrow> u32 \<Rightarrow> bool" where
  "IS_ALIGNED x a \<longleftrightarrow> x AND (a - 1) = 0"

definition PAGE_ALIGN_UP :: "addr \<Rightarrow> addr" where
  "PAGE_ALIGN_UP a = (a + 4096 - 1) AND NOT (4096 - 1)"

definition MIN_u32 :: "u32 \<Rightarrow> u32 \<Rightarrow> u32" where
  "MIN_u32 a b = (if a < b then a else b)"

definition MAX_u32 :: "u32 \<Rightarrow> u32 \<Rightarrow> u32" where
  "MAX_u32 a b = (if a > b then a else b)"

text \<open>For powers of two.\<close>

lemma and_not_mask: "x AND NOT (mask k) = x - take_bit k (x :: u32)"
proof -
  have "(x AND NOT (mask k)) + take_bit k x = (x AND NOT (mask k)) OR take_bit k x"
    by (rule disjunctive_add) (auto simp: bit_simps)
  also have "\<dots> = x" by (rule bit_word_eqI) (auto simp: bit_simps)
  finally show ?thesis by (simp add: eq_diff_eq)
qed

lemma unat_take_bit: "unat (take_bit k x :: u32) = unat x mod 2 ^ k"
  using unsigned_take_bit_eq [of k x, where 'a = nat] by (simp only: take_bit_eq_mod)

lemma unat_align_mask: "unat (x AND NOT (mask k) :: u32) = unat x div 2 ^ k * 2 ^ k"
proof -
  have "take_bit k x \<le> x" by (simp add: word_le_nat_alt unat_take_bit)
  then show ?thesis by (simp add: and_not_mask unat_sub unat_take_bit minus_mod_eq_div_mult)
qed

lemma pow2_minus_1: "(2 ^ k :: u32) - 1 = mask k"
  by (simp add: mask_eq_exp_minus_1)

lemma pow2_bound: "k < 32 \<Longrightarrow> (2 :: nat) ^ k < 2 ^ 32"
  by (rule power_strict_increasing) simp_all

lemma unat_pow2: "k < 32 \<Longrightarrow> unat (2 ^ k :: u32) = 2 ^ k"
  using pow2_bound [of k] unsigned_of_nat [of "2 ^ k", where 'a = nat and 'b = 32] by (simp add: take_bit_eq_mod)

lemma ALIGN_DOWN_spec: "unat (ALIGN_DOWN x (2 ^ k)) = unat x div 2 ^ k * 2 ^ k"
  by (simp add: ALIGN_DOWN_def pow2_minus_1 unat_align_mask)

lemma IS_ALIGNED_spec: "IS_ALIGNED x (2 ^ k) \<longleftrightarrow> 2 ^ k dvd unat x"
proof -
  have "IS_ALIGNED x (2 ^ k) \<longleftrightarrow> unat (take_bit k x) = 0"
    by (simp add: IS_ALIGNED_def pow2_minus_1 take_bit_eq_mask [symmetric] word_unat_eq_iff)
  then show ?thesis by (simp add: unat_take_bit mod_eq_0_iff_dvd)
qed

text \<open>
  Rounding up gives the least aligned number that is not smaller, if there is one in 32 bits;
  above that it wraps to zero.
\<close>

lemma ALIGN_UP_spec:
  assumes "k < 32"
  shows "unat (ALIGN_UP x (2 ^ k)) = (unat x + 2 ^ k - 1) div 2 ^ k * 2 ^ k mod 2 ^ 32"
proof -
  have le: "(1 :: nat) \<le> 2 ^ k" "(2 :: nat) ^ k < 2 ^ 32" using pow2_bound [OF assms] by simp_all
  have "unat (x + 2 ^ k - 1) = (unat x + (2 ^ k - 1)) mod 2 ^ 32"
  proof -
    have "unat (2 ^ k - 1 :: u32) = 2 ^ k - 1" using assms by (simp add: unat_sub word_le_nat_alt unat_pow2)
    then have "unat (x + (2 ^ k - 1)) = (unat x + (2 ^ k - 1)) mod 2 ^ 32" by (simp only: unat_word_ariths) simp
    then show ?thesis by (simp add: add_diff_eq)
  qed
  then have u: "unat (ALIGN_UP x (2 ^ k)) = ((unat x + (2 ^ k - 1)) mod 2 ^ 32) div 2 ^ k * 2 ^ k"
    by (simp only: ALIGN_UP_def pow2_minus_1 unat_align_mask)
  have "n mod 2 ^ 32 div 2 ^ k * 2 ^ k = n div 2 ^ k * 2 ^ k mod 2 ^ 32" for n :: nat
  proof -
    have split: "(2 :: nat) ^ 32 = 2 ^ k * 2 ^ (32 - k)" using assms by (simp flip: power_add)
    have "n mod (a * b) div a * a = n div a * a mod (a * b)" if "0 < a" for a b :: nat
      using that by (simp add: mod_mult2_eq mult_mod_right [symmetric] mult.commute)
    from this [of "2 ^ k" "2 ^ (32 - k)"] show ?thesis unfolding split by simp
  qed
  with u le show ?thesis by simp
qed

lemma ALIGN_UP_least:
  assumes "k < 32" and "unat x \<le> 2 ^ 32 - 2 ^ k"
  shows "IS_ALIGNED (ALIGN_UP x (2 ^ k)) (2 ^ k)" "x \<le> ALIGN_UP x (2 ^ k)"
    "IS_ALIGNED y (2 ^ k) \<Longrightarrow> x \<le> y \<Longrightarrow> ALIGN_UP x (2 ^ k) \<le> y"
proof -
  define a :: nat where "a = 2 ^ k"
  define r where "r = (unat x + a - 1) div a * a"
  have a: "0 < a" "a \<le> 2 ^ 32" using pow2_bound [OF assms(1)] by (simp_all add: a_def)
  have r: "r + (unat x + a - 1) mod a = unat x + a - 1" by (simp add: r_def)
  then have "r < 2 ^ 32" using assms(2) a by (simp add: a_def [symmetric])
  then have u: "unat (ALIGN_UP x (2 ^ k)) = r" using ALIGN_UP_spec [OF assms(1), of x] by (simp add: r_def a_def)
  then show "IS_ALIGNED (ALIGN_UP x (2 ^ k)) (2 ^ k)" by (simp add: IS_ALIGNED_spec r_def a_def)
  have "(unat x + a - 1) mod a \<le> a - 1" using a(1) by (simp add: Suc_leI less_Suc_eq_le [symmetric])
  with r a(1) have "unat x \<le> r" by linarith
  then show "x \<le> ALIGN_UP x (2 ^ k)" by (simp add: word_le_nat_alt u)
  assume "IS_ALIGNED y (2 ^ k)" and "x \<le> y"
  then obtain m where m: "unat y = a * m" "unat x \<le> a * m" by (auto simp: IS_ALIGNED_spec a_def word_le_nat_alt)
  then have "(unat x + a - 1) div a \<le> (a * m + (a - 1)) div a" using a(1) by (intro div_le_mono) simp
  also have "\<dots> = m" using a(1) by (metis diff_less div_less div_mult_self4 add_0 add.right_neutral less_numeral_extra(1) less_not_refl)
  finally show "ALIGN_UP x (2 ^ k) \<le> y" using m(1) by (simp add: word_le_nat_alt u r_def)
qed

lemma PAGE_ALIGN_UP_eq: "PAGE_ALIGN_UP a = ALIGN_UP a (2 ^ 12)" "PAGE_ALIGN_DOWN a = ALIGN_DOWN a (2 ^ 12)"
  by (simp_all add: PAGE_ALIGN_UP_def ALIGN_UP_def PAGE_ALIGN_DOWN_def ALIGN_DOWN_def)

lemma MIN_MAX: "MIN_u32 a b = min a b" "MAX_u32 a b = max a b"
  by (auto simp: MIN_u32_def MAX_u32_def min_def max_def)

end
