(* ===== verification/Ktest.thy ===== *)
theory Ktest
  imports Klib_String
begin

text \<open>
  The kernel's self-test framework, \<^verbatim>\<open>core/ktest.c\<close> with \<^verbatim>\<open>include/kernel/ktest.h\<close>, and the
  tests of the string library, \<^verbatim>\<open>lib/string_test.c\<close>. A test is a function on the state
  that may not return (\<open>None\<close>). The section \<^verbatim>\<open>.ktests\<close> is the list of registered tests.
  The place of a string literal is given by a function \<open>lit\<close>, that of the local
  arrays by their stack frame. Messages on the console are left out.
\<close>

section \<open>The framework\<close>

abbreviation KTEST_PASS :: int where "KTEST_PASS \<equiv> 0"
abbreviation KTEST_FAIL :: int where "KTEST_FAIL \<equiv> - 1"

record 's ktest =
  kt_name :: addr
  kt_subsystem :: addr
  kt_fn :: "'s \<Rightarrow> (int \<times> 's) option"

text \<open>The assertion macros: leave the test with a failure, or go on.\<close>

definition ktest_assert :: "bool \<Rightarrow> 's \<Rightarrow> (int \<times> 's) option \<Rightarrow> (int \<times> 's) option" where
  "ktest_assert condition s k = (if \<not> condition then Some (KTEST_FAIL, s) else k)"

fun ktest_loop :: "'s ktest list \<Rightarrow> int \<Rightarrow> int \<Rightarrow> int \<Rightarrow> 's \<Rightarrow> (int \<times> int \<times> int \<times> 's) option" where
  "ktest_loop [] n passed failed s = Some (n, passed, failed, s)"
| "ktest_loop (test # tests) n passed failed s =
     (case kt_fn test s of
        None \<Rightarrow> None
      | Some (result, s) \<Rightarrow>
        if result = KTEST_PASS then ktest_loop tests (n + 1) (passed + 1) failed s
        else ktest_loop tests (n + 1) passed (failed + 1) s)"

definition ktest_run_all :: "'s ktest list \<Rightarrow> 's \<Rightarrow> (int \<times> 's) option" where
  "ktest_run_all tests s =
     (case ktest_loop tests 0 0 0 s of
        None \<Rightarrow> None
      | Some (n, passed, failed, s) \<Rightarrow> Some (failed, s))"

partial_function (option) str_equal :: "mem \<Rightarrow> addr \<Rightarrow> addr \<Rightarrow> bool option" where
  "str_equal m a b =
     (if m a \<noteq> 0 \<and> m b \<noteq> 0 \<and> m a = m b then str_equal m (a + 1) (b + 1) else Some (m a = m b))"

fun subsystem_loop ::
  "('s \<Rightarrow> mem) \<Rightarrow> addr \<Rightarrow> 's ktest list \<Rightarrow> int \<Rightarrow> int \<Rightarrow> int \<Rightarrow> 's \<Rightarrow> (int \<times> int \<times> int \<times> 's) option" where
  "subsystem_loop rd subsystem [] n passed failed s = Some (n, passed, failed, s)"
| "subsystem_loop rd subsystem (test # tests) n passed failed s =
     (case str_equal (rd s) (kt_subsystem test) subsystem of
        None \<Rightarrow> None
      | Some equal \<Rightarrow>
        if \<not> equal then subsystem_loop rd subsystem tests n passed failed s
        else
          (case kt_fn test s of
             None \<Rightarrow> None
           | Some (result, s) \<Rightarrow>
             if result = KTEST_PASS then subsystem_loop rd subsystem tests (n + 1) (passed + 1) failed s
             else subsystem_loop rd subsystem tests (n + 1) passed (failed + 1) s))"

definition ktest_run_subsystem :: "('s \<Rightarrow> mem) \<Rightarrow> 's ktest list \<Rightarrow> addr \<Rightarrow> 's \<Rightarrow> (int \<times> 's) option" where
  "ktest_run_subsystem rd tests subsystem s =
     (case subsystem_loop rd subsystem tests 0 0 0 s of
        None \<Rightarrow> None
      | Some (n, passed, failed, s) \<Rightarrow> Some (failed, s))"


section \<open>The tests of the string library\<close>

text \<open>An array with an initialiser: its bytes, then zeros up to its size.\<close>

definition init_array :: "addr \<Rightarrow> u8 list \<Rightarrow> nat \<Rightarrow> mem \<Rightarrow> mem" where
  "init_array dst xs n m =
     (\<lambda>x. if unat (x - dst) < length xs then xs ! unat (x - dst) else if unat (x - dst) < n then 0 else m x)"

abbreviation text_bytes :: "string \<Rightarrow> u8 list" where
  "text_bytes \<equiv> map of_char"

definition test_strlen_basic :: "(string \<Rightarrow> addr) \<Rightarrow> mem \<Rightarrow> (int \<times> mem) option" where
  "test_strlen_basic lit m =
     Option.bind (strlen m (lit '''')) (\<lambda>n. ktest_assert (n = 0) m (
     Option.bind (strlen m (lit ''a'')) (\<lambda>n. ktest_assert (n = 1) m (
     Option.bind (strlen m (lit ''hello'')) (\<lambda>n. ktest_assert (n = 5) m (
     Option.bind (strlen m (lit ''hello world'')) (\<lambda>n. ktest_assert (n = 11) m (
     Some (KTEST_PASS, m)))))))))"

definition test_strlcpy_basic :: "(string \<Rightarrow> addr) \<Rightarrow> addr \<Rightarrow> mem \<Rightarrow> (int \<times> mem) option" where
  "test_strlcpy_basic lit dst m =
     (let (ret, m) = strlcpy dst (lit ''hello'') 10 m in
      ktest_assert (ret = 5) m (
      Option.bind (strlen m dst) (\<lambda>n. ktest_assert (n = 5) m (
      ktest_assert (m dst = of_char CHR ''h'') m (
      ktest_assert (m (dst + 4) = of_char CHR ''o'') m (
      ktest_assert (m (dst + 5) = 0) m (
      Some (KTEST_PASS, m))))))))"

definition test_strlcpy_truncate :: "(string \<Rightarrow> addr) \<Rightarrow> addr \<Rightarrow> mem \<Rightarrow> (int \<times> mem) option" where
  "test_strlcpy_truncate lit dst m =
     (let (ret, m) = strlcpy dst (lit ''hello world'') 5 m in
      ktest_assert (ret = 11) m (
      Option.bind (strlen m dst) (\<lambda>n. ktest_assert (n = 4) m (
      ktest_assert (m (dst + 4) = 0) m (
      Some (KTEST_PASS, m))))))"

definition test_strlcat_basic :: "(string \<Rightarrow> addr) \<Rightarrow> addr \<Rightarrow> mem \<Rightarrow> (int \<times> mem) option" where
  "test_strlcat_basic lit dst m =
     (let m = init_array dst (text_bytes ''hello'') 20 m in
      Option.bind (strlcat dst (lit '' world'') 20 m) (\<lambda>(ret, m).
      ktest_assert (ret = 11) m (
      Option.bind (strlen m dst) (\<lambda>n. ktest_assert (n = 11) m (
      Some (KTEST_PASS, m))))))"

definition test_strlcat_truncate :: "(string \<Rightarrow> addr) \<Rightarrow> addr \<Rightarrow> mem \<Rightarrow> (int \<times> mem) option" where
  "test_strlcat_truncate lit dst m =
     (let m = init_array dst (text_bytes ''hello'') 10 m in
      Option.bind (strlcat dst (lit '' world'') 10 m) (\<lambda>(_, m).
      Option.bind (strlen m dst) (\<lambda>n. ktest_assert (n = 9) m (
      ktest_assert (m (dst + 9) = 0) m (
      Some (KTEST_PASS, m))))))"

definition test_memset_basic :: "addr \<Rightarrow> mem \<Rightarrow> (int \<times> mem) option" where
  "test_memset_basic buf m =
     (let (_, m) = memset buf 0 10 m in
      ktest_assert (list_all (\<lambda>i. m (index_addr buf i) = 0) [0..<10]) m (
      let (_, m) = memset buf (of_char CHR ''A'') 10 m in
      ktest_assert (list_all (\<lambda>i. m (index_addr buf i) = of_char CHR ''A'') [0..<10]) m (
      Some (KTEST_PASS, m))))"

definition test_memcpy_basic :: "addr \<Rightarrow> addr \<Rightarrow> mem \<Rightarrow> (int \<times> mem) option" where
  "test_memcpy_basic src dst m =
     (let m = init_array src (text_bytes ''hello world'') 12 m;
          (_, m) = memset dst 0 20 m;
          (_, m) = memcpy dst src 12 m in
      Option.bind (strlen m dst) (\<lambda>n. Option.bind (strlen m src) (\<lambda>k.
      ktest_assert (n = k) m (
      ktest_assert (m dst = of_char CHR ''h'') m (
      ktest_assert (m (dst + 10) = of_char CHR ''d'') m (
      Some (KTEST_PASS, m)))))))"

text \<open>The registrations, in the order of the file; \<open>fr\<close> is the stack frame of a test.\<close>

definition string_tests :: "(string \<Rightarrow> addr) \<Rightarrow> addr \<Rightarrow> mem ktest list" where
  "string_tests lit fr = map (\<lambda>(nm, f). \<lparr>kt_name = lit nm, kt_subsystem = lit ''string'', kt_fn = f\<rparr>)
     [(''strlen_basic'', test_strlen_basic lit), (''strlcpy_basic'', test_strlcpy_basic lit fr),
      (''strlcpy_truncate'', test_strlcpy_truncate lit fr), (''strlcat_basic'', test_strlcat_basic lit fr),
      (''strlcat_truncate'', test_strlcat_truncate lit fr), (''memset_basic'', test_memset_basic fr),
      (''memcpy_basic'', test_memcpy_basic (fr + 32) fr)]"


section \<open>Lemmas\<close>

lemma str_equal_c_string:
  "c_string m p xs \<Longrightarrow> c_string m q ys \<Longrightarrow> str_equal m p q = Some (xs = ys)"
proof (induction xs arbitrary: p q ys)
  case Nil
  then show ?case by (cases ys) (subst str_equal.simps, auto simp: c_string_Cons_iff)+
next
  case (Cons x xs)
  note c = c_string_Cons [OF Cons.prems(1)]
  show ?case
  proof (cases ys)
    case Nil
    then show ?thesis using c Cons.prems(2) by (subst str_equal.simps) simp
  next
    case (Cons y ys')
    note d = c_string_Cons [OF Cons.prems(2) [unfolded Cons]]
    show ?thesis using c d Cons.IH [OF c(3) d(3)] Cons by (subst str_equal.simps) auto
  qed
qed

text \<open>The literals the tests use, and that they lie outside the frame.\<close>

definition string_literals :: "string list" where
  "string_literals = ['''', ''a'', ''hello'', ''hello world'', '' world'', ''string'']"

definition string_layout :: "(string \<Rightarrow> addr) \<Rightarrow> addr \<Rightarrow> mem \<Rightarrow> bool" where
  "string_layout lit fr m \<longleftrightarrow>
     (\<forall>x \<in> set string_literals. c_string m (lit x) (text_bytes x) \<and> apart fr 64 (lit x) (text_bytes x))"

definition keeps_outside :: "addr \<Rightarrow> mem \<Rightarrow> mem \<Rightarrow> bool" where
  "keeps_outside fr m m' \<longleftrightarrow> (\<forall>x. \<not> x - fr < 64 \<longrightarrow> m' x = m x)"

lemma keeps_outside_refl [simp]: "keeps_outside fr m m"
  by (simp add: keeps_outside_def)

lemma keeps_outside_trans: "keeps_outside fr m m1 \<Longrightarrow> keeps_outside fr m1 m2 \<Longrightarrow> keeps_outside fr m m2"
  by (simp add: keeps_outside_def)

lemma layout_string:
  assumes "string_layout lit fr m" and "x \<in> set string_literals"
  shows "c_string m (lit x) (text_bytes x)" "n \<le> 64 \<Longrightarrow> apart fr n (lit x) (text_bytes x)"
  using assms by (auto simp: string_layout_def apart_def dest: order_less_le_trans)

lemma c_string_keeps:
  assumes "c_string m p xs" and "apart fr 64 p xs" and "keeps_outside fr m m'"
  shows "c_string m' p xs"
proof -
  have "m' (index_addr p i) = m (index_addr p i)" if "i \<le> length xs" for i
    using assms(2,3) that by (auto simp: apart_def keeps_outside_def)
  then show ?thesis using assms(1) by (auto simp: c_string_def)
qed

lemma layout_keeps: "string_layout lit fr m \<Longrightarrow> keeps_outside fr m m' \<Longrightarrow> string_layout lit fr m'"
  unfolding string_layout_def by (blast intro: c_string_keeps)

text \<open>A write inside the first \<open>n\<close> bytes of the frame.\<close>

lemma keeps_outsideI: "n \<le> 64 \<Longrightarrow> (\<And>x. \<not> x - fr < n \<Longrightarrow> m' x = m x) \<Longrightarrow> keeps_outside fr m m'"
  by (metis keeps_outside_def order_less_le_trans)

lemma init_array_string:
  assumes "length xs < n" and "n < 4294967296" and "\<forall>x \<in> set xs. x \<noteq> 0"
  shows "c_string (init_array p xs n m) p xs"
proof -
  have "unat (index_addr p i - p) = i" if "i \<le> length xs" for i
    using that assms by (simp add: index_addr_def unsigned_of_nat take_bit_eq_mod)
  with assms show ?thesis by (auto simp: c_string_def init_array_def)
qed

lemma init_array_outside: "length xs < n \<Longrightarrow> \<not> unat (x - p) < n \<Longrightarrow> init_array p xs n m x = m x"
  by (simp add: init_array_def)

text \<open>One lemma per test: its verdict, and that it writes only to its frame.\<close>

lemma strlen_basic_result:
  assumes "string_layout lit fr m"
  shows "test_strlen_basic lit m = Some (KTEST_PASS, m)"
proof -
  have "strlen m (lit x) = Some (of_nat (length x))" if "x \<in> set string_literals" for x
    using strlen_c_string [OF layout_string(1) [OF assms that]] by simp
  then show ?thesis by (simp add: test_strlen_basic_def ktest_assert_def string_literals_def)
qed

lemma strlcpy_basic_result:
  assumes "string_layout lit fr m"
  shows "\<exists>m'. test_strlcpy_basic lit fr m = Some (KTEST_PASS, m') \<and> keeps_outside fr m m'"
proof -
  have x: "''hello'' \<in> set string_literals" by (simp add: string_literals_def)
  from strlcpy_spec [OF layout_string [OF assms x], of 10] obtain m' where
    m': "strlcpy fr (lit ''hello'') 10 m = (5, m')" "c_string m' fr (text_bytes ''hello'')" "\<And>x. \<not> x - fr < 10 \<Longrightarrow> m' x = m x"
    by auto
  have "keeps_outside fr m m'" by (rule keeps_outsideI [of 10]) (simp_all add: m'(3))
  moreover have "m' fr = of_char CHR ''h''" "m' (fr + 4) = of_char CHR ''o''" "m' (fr + 5) = 0"
    using m'(2) by (simp_all add: c_string_Cons_iff add.assoc)
  ultimately show ?thesis
    using m'(1) strlen_c_string [OF m'(2)] by (simp add: test_strlcpy_basic_def ktest_assert_def)
qed

lemma strlcpy_truncate_result:
  assumes "string_layout lit fr m"
  shows "\<exists>m'. test_strlcpy_truncate lit fr m = Some (KTEST_FAIL, m') \<and> keeps_outside fr m m'"
proof -
  have x: "''hello world'' \<in> set string_literals" by (simp add: string_literals_def)
  from strlcpy_spec [OF layout_string [OF assms x], of 5] obtain m' where
    m': "strlcpy fr (lit ''hello world'') 5 m = (4, m')" "\<And>x. \<not> x - fr < 5 \<Longrightarrow> m' x = m x" by auto
  have "keeps_outside fr m m'" by (rule keeps_outsideI [of 5]) (simp_all add: m'(2))
  with m'(1) show ?thesis by (simp add: test_strlcpy_truncate_def ktest_assert_def)
qed

lemma strlcat_result:
  assumes "string_layout lit fr m" and n: "5 < n" "n \<le> 64"
  shows "\<exists>m'. strlcat fr (lit '' world'') (of_nat n) (init_array fr (text_bytes ''hello'') n m) = Some (11, m') \<and>
    c_string m' fr (take (n - 1) (text_bytes ''hello world'')) \<and> keeps_outside fr m m'"
proof -
  let ?m = "init_array fr (text_bytes ''hello'') n m"
  have un: "unat (of_nat n :: u32) = n" using n by (simp add: unsigned_of_nat take_bit_eq_mod)
  have le: "(of_nat n :: u32) \<le> 64" unfolding word_le_nat_alt un using n by simp
  have "keeps_outside fr m ?m"
    using n by (intro keeps_outsideI [OF le]) (simp add: init_array_outside word_less_nat_alt un)
  then have lay: "string_layout lit fr ?m" using layout_keeps assms(1) by blast
  have x: "'' world'' \<in> set string_literals" by (simp add: string_literals_def)
  have "c_string ?m fr (text_bytes ''hello'')" using n by (intro init_array_string) simp_all
  from strlcat_correct [OF this layout_string [OF lay x], of "of_nat n"] n un le obtain m' where
    m': "strlcat fr (lit '' world'') (of_nat n) ?m = Some (11, m')" "c_string m' fr (take (n - 1) (text_bytes ''hello world''))"
      "\<And>x. \<not> x - fr < of_nat n \<Longrightarrow> m' x = ?m x"
    by auto
  have "keeps_outside fr ?m m'" by (rule keeps_outsideI [OF le m'(3)])
  then show ?thesis using m'(1,2) keeps_outside_trans [OF \<open>keeps_outside fr m ?m\<close>] by blast
qed

lemma strlcat_basic_result:
  assumes "string_layout lit fr m"
  shows "\<exists>m'. test_strlcat_basic lit fr m = Some (KTEST_PASS, m') \<and> keeps_outside fr m m'"
proof -
  from strlcat_result [OF assms, of 20] obtain m' where
    m': "strlcat fr (lit '' world'') 20 (init_array fr (text_bytes ''hello'') 20 m) = Some (11, m')"
      "c_string m' fr (text_bytes ''hello world'')" "keeps_outside fr m m'" by auto
  then show ?thesis using strlen_c_string [OF m'(2)] by (simp add: test_strlcat_basic_def ktest_assert_def)
qed

lemma strlcat_truncate_result:
  assumes "string_layout lit fr m"
  shows "\<exists>m'. test_strlcat_truncate lit fr m = Some (KTEST_PASS, m') \<and> keeps_outside fr m m'"
proof -
  from strlcat_result [OF assms, of 10] obtain m' where
    m': "strlcat fr (lit '' world'') 10 (init_array fr (text_bytes ''hello'') 10 m) = Some (11, m')"
      "c_string m' fr (text_bytes ''hello wor'')" "keeps_outside fr m m'" by auto
  have "m' (fr + 9) = 0" using m'(2) by (simp add: c_string_Cons_iff add.assoc)
  then show ?thesis using m' strlen_c_string [OF m'(2)] by (simp add: test_strlcat_truncate_def ktest_assert_def)
qed

lemma memset_basic_result: "\<exists>m'. test_memset_basic fr m = Some (KTEST_PASS, m') \<and> keeps_outside fr m m'"
proof -
  define m1 where "m1 = snd (memset fr 0 10 m)"
  define m2 where "m2 = snd (memset fr (of_char CHR ''A'') 10 m1)"
  have i: "index_addr fr i - fr < 10" if "i < 10" for i
    using that by (simp add: index_addr_def word_less_nat_alt unsigned_of_nat take_bit_eq_mod)
  have m1: "m1 x = (if x - fr < 10 then 0 else m x)" for x by (simp add: m1_def memset_fills)
  have m2: "m2 x = (if x - fr < 10 then of_char CHR ''A'' else m1 x)" for x by (simp add: m2_def memset_fills)
  have "memset fr 0 10 m = (fr, m1)" "memset fr (of_char CHR ''A'') 10 m1 = (fr, m2)"
    by (simp_all add: m1_def m2_def memset_def)
  then have "test_memset_basic fr m = Some (KTEST_PASS, m2)"
    using i by (simp add: test_memset_basic_def ktest_assert_def list_all_iff m1 m2 del: upt_Suc)
  moreover have "keeps_outside fr m m2" by (rule keeps_outsideI [of 10]) (simp_all add: m1 m2)
  ultimately show ?thesis by blast
qed

lemma memcpy_basic_result: "\<exists>m'. test_memcpy_basic (fr + 32) fr m = Some (KTEST_PASS, m') \<and> keeps_outside fr m m'"
proof -
  define hw where "hw = text_bytes ''hello world''"
  have hw: "length hw = 11" "\<forall>x \<in> set hw. x \<noteq> 0" by (simp_all add: hw_def)
  define m0 where "m0 = init_array (fr + 32) hw 12 m"
  define m1 where "m1 = snd (memset fr 0 20 m0)"
  define m2 where "m2 = copied fr (fr + 32) 12 m1"
  have m1: "m1 x = (if x - fr < 20 then 0 else m0 x)" for x by (simp add: m1_def memset_fills)
  have far: "unat (index_addr (fr + 32) i - fr) = 32 + i" if "i < 32" for i
  proof -
    have "index_addr (fr + 32) i - fr = of_nat (32 + i)" by (simp add: index_addr_def)
    then show ?thesis using that by (simp add: unsigned_of_nat take_bit_eq_mod del: of_nat_add)
  qed
  have same: "m2 (index_addr (fr + 32) i) = m0 (index_addr (fr + 32) i)" "m1 (index_addr (fr + 32) i) = m0 (index_addr (fr + 32) i)"
    if "i < 12" for i using far [of i] that by (simp_all add: m2_def copied_def m1 word_less_nat_alt)
  have "c_string m0 (fr + 32) hw" unfolding m0_def using hw by (intro init_array_string) simp_all
  then have s2: "c_string m2 (fr + 32) hw" using same(1) hw by (simp add: c_string_def)
  have "m2 (index_addr fr i) = m2 (index_addr (fr + 32) i)" if "i < 12" for i
    using copied_at [of i 12 fr "fr + 32" m1] same that by (simp add: m2_def)
  then have d2: "c_string m2 fr hw" using s2 hw by (simp add: c_string_def)
  have "memset fr 0 20 m0 = (fr, m1)" by (simp add: m1_def memset_def)
  moreover have "memcpy fr (fr + 32) 12 m1 = (fr, m2)" unfolding m2_def
  proof (rule memcpy_copied)
    fix i k :: nat assume "i < k" "k < unat (12 :: u32)"
    then have "unat (index_addr fr i - fr) \<noteq> unat (index_addr (fr + 32) k - fr)"
      using far [of k] by (simp add: index_addr_def unsigned_of_nat take_bit_eq_mod)
    then show "index_addr fr i \<noteq> index_addr (fr + 32) k" by auto
  qed
  moreover have "m2 fr = of_char CHR ''h''" "m2 (fr + 10) = of_char CHR ''d''"
    using d2 by (simp_all add: hw_def c_string_Cons_iff add.assoc)
  ultimately have "test_memcpy_basic (fr + 32) fr m = Some (KTEST_PASS, m2)"
    using strlen_c_string [OF d2] strlen_c_string [OF s2]
    unfolding test_memcpy_basic_def hw_def [symmetric] Let_def m0_def [symmetric] by (simp add: ktest_assert_def)
  moreover have "m2 x = m x" if "\<not> x - fr < 64" for x
  proof -
    have u: "64 \<le> unat (x - fr)" using that by (simp add: word_less_nat_alt)
    then have "unat (x - fr - 32) = unat (x - fr) - 32" using unat_sub [of 32 "x - fr"] by (simp add: word_le_nat_alt)
    then have "\<not> unat (x - (fr + 32)) < 12" using u by (simp add: diff_diff_eq)
    moreover have "\<not> x - fr < 12" "\<not> x - fr < 20" using u by (simp_all add: word_less_nat_alt)
    ultimately show ?thesis using hw by (simp add: m2_def copied_other m1 m0_def init_array_outside)
  qed
  then have "keeps_outside fr m m2" by (simp add: keeps_outside_def)
  ultimately show ?thesis by blast
qed


section \<open>Properties\<close>

text \<open>The runner counts: all tests run in order, and the result is the number of verdicts other than pass.\<close>

fun verdicts :: "'s ktest list \<Rightarrow> 's \<Rightarrow> (int list \<times> 's) option" where
  "verdicts [] s = Some ([], s)"
| "verdicts (test # tests) s =
     Option.bind (kt_fn test s) (\<lambda>(r, s). map_option (\<lambda>(rs, s). (r # rs, s)) (verdicts tests s))"

lemma ktest_loop_verdicts:
  "ktest_loop tests n p f s = map_option (\<lambda>(rs, s). (n + int (length rs),
     p + int (length (filter (\<lambda>r. r = KTEST_PASS) rs)), f + int (length (filter (\<lambda>r. r \<noteq> KTEST_PASS) rs)), s)) (verdicts tests s)"
  by (induction tests arbitrary: n p f s) (auto split: option.splits simp: option.map_comp o_def split_def add.assoc)

lemma ktest_run_all_verdicts:
  "ktest_run_all tests s = map_option (\<lambda>(rs, s). (int (length (filter (\<lambda>r. r \<noteq> KTEST_PASS) rs)), s)) (verdicts tests s)"
  by (auto simp: ktest_run_all_def ktest_loop_verdicts split: option.splits)

text \<open>
  A test that, on a memory with the literals in place, has a verdict that is known and
  writes only to its frame; a list of such tests runs through.
\<close>

definition settled :: "(string \<Rightarrow> addr) \<Rightarrow> addr \<Rightarrow> mem ktest \<Rightarrow> int \<Rightarrow> bool" where
  "settled lit fr test r \<longleftrightarrow>
     (\<forall>m. string_layout lit fr m \<longrightarrow> (\<exists>m'. kt_fn test m = Some (r, m') \<and> keeps_outside fr m m'))"

lemma verdicts_settled:
  "list_all2 (settled lit fr) tests rs \<Longrightarrow> string_layout lit fr m \<Longrightarrow>
   \<exists>m'. verdicts tests m = Some (rs, m') \<and> keeps_outside fr m m'"
proof (induction arbitrary: m rule: list_all2_induct)
  case Nil
  then show ?case by simp
next
  case (Cons test tests r rs)
  obtain m1 where 1: "kt_fn test m = Some (r, m1)" "keeps_outside fr m m1"
    using Cons.hyps(1) Cons.prems by (auto simp: settled_def)
  obtain m2 where 2: "verdicts tests m1 = Some (rs, m2)" "keeps_outside fr m1 m2"
    using Cons.IH layout_keeps [OF Cons.prems 1(2)] by blast
  show ?case using 1 2 keeps_outside_trans by (auto intro: exI [of _ m2])
qed

text \<open>
  With every test registered under the same name, the run of one subsystem is the run of
  all tests, or of none.
\<close>

lemma subsystem_loop_settled:
  assumes "list_all2 (settled lit fr) tests rs" and "\<forall>test \<in> set tests. kt_subsystem test = p"
    and "string_layout lit fr m" and "c_string m p xs" "apart fr 64 p xs" and "c_string m q ys" "apart fr 64 q ys"
  shows "subsystem_loop (\<lambda>m. m) q tests n passed failed m =
    (if xs = ys then ktest_loop tests n passed failed m else Some (n, passed, failed, m))"
  using assms
proof (induction arbitrary: n passed failed m rule: list_all2_induct)
  case Nil
  then show ?case by simp
next
  case (Cons test tests r rs)
  obtain m1 where 1: "kt_fn test m = Some (r, m1)" "keeps_outside fr m m1"
    using Cons.hyps(1) Cons.prems by (auto simp: settled_def)
  have eq: "str_equal m (kt_subsystem test) q = Some (xs = ys)" using Cons.prems str_equal_c_string by simp
  have IH: "subsystem_loop (\<lambda>m. m) q tests n passed failed m' =
      (if xs = ys then ktest_loop tests n passed failed m' else Some (n, passed, failed, m'))"
    if "keeps_outside fr m m'" for n passed failed m'
    using Cons.prems that by (intro Cons.IH) (auto intro: layout_keeps c_string_keeps)
  show ?case using 1 eq IH [OF 1(2)] IH [of m] by simp
qed

lemma string_tests_settled: "list_all2 (settled lit fr) (string_tests lit fr) [0, 0, - 1, 0, 0, 0, 0]"
  using strlen_basic_result strlcpy_basic_result strlcpy_truncate_result strlcat_basic_result strlcat_truncate_result
    memset_basic_result memcpy_basic_result
  by (auto simp: string_tests_def settled_def)


text \<open>A sample layout: the literals from 0x1000, the frame at 0x8000.\<close>

definition sample_lit :: "string \<Rightarrow> addr" where
  "sample_lit x = (if x = '''' then 0x1000 else if x = ''a'' then 0x1010 else if x = ''hello'' then 0x1020
     else if x = ''hello world'' then 0x1030 else if x = '' world'' then 0x1040 else 0x1050)"

definition sample_rodata :: mem where
  "sample_rodata = fold (\<lambda>x. init_array (sample_lit x) (text_bytes x) 16) string_literals (\<lambda>_. 0)"

lemma apart_upt: "apart dst sz src xs \<longleftrightarrow> list_all (\<lambda>i. \<not> index_addr src i - dst < sz) [0..<Suc (length xs)]"
  by (auto simp: apart_def list_all_iff less_Suc_eq_le simp del: upt_Suc)

lemma sample_string_layout: "string_layout sample_lit 0x8000 sample_rodata"
proof -
  have "\<forall>x \<in> set string_literals. c_string sample_rodata (sample_lit x) (text_bytes x)"
    by (simp add: string_literals_def sample_rodata_def sample_lit_def init_array_def c_string_Cons_iff)
  moreover have "\<forall>x \<in> set string_literals. apart 0x8000 64 (sample_lit x) (text_bytes x)"
    by (simp add: string_literals_def sample_lit_def apart_upt index_addr_def)
  ultimately show ?thesis by (simp add: string_layout_def)
qed


end
