(* ===== verification/Timer_Test.thy ===== *)
theory Timer_Test
  imports Timer Ktest
begin

text \<open>
  The tests of the timer, \<^verbatim>\<open>arch/x86/timer_test.c\<close>. They watch the clock and the tick counter
  change while they run, so what happens between two of their steps is a parameter: \<open>env i\<close> is
  the effect on the machine of the time before step \<open>i\<close>, interrupts included. What is assumed of
  it is collected in \<open>clock_env\<close>. A division by zero is an exception from which a test does not
  return (\<open>None\<close>).
\<close>

section \<open>The tests\<close>

type_synonym 'z environment = "nat \<Rightarrow> 'z timer_st_scheme \<Rightarrow> 'z timer_st_scheme"

text \<open>\<^verbatim>\<open>this_cpu()->ticks\<close>.\<close>

definition cpu_ticks :: "'z timer_st_scheme \<Rightarrow> u64" where
  "cpu_ticks s = pc_ticks (per_cpu (percpu s) ! unat cpu_id)"

definition test_tsc_monotonic :: "'z environment \<Rightarrow> 'z timer_st_scheme \<Rightarrow> (int \<times> 'z timer_st_scheme) option" where
  "test_tsc_monotonic env s =
     (let t1 = timer_read_tsc s;
          s = env 0 s;
          t2 = timer_read_tsc s;
          s = env 1 s;
          t3 = timer_read_tsc s
      in ktest_assert (t2 > t1) s (
         ktest_assert (t3 > t2) s (
         Some (KTEST_PASS, s))))"

definition test_timer_calibrated :: "'z timer_st_scheme \<Rightarrow> (int \<times> 'z timer_st_scheme) option" where
  "test_timer_calibrated s =
     (let freq = timer_get_tsc_freq s
      in ktest_assert (freq \<noteq> 0) s (
         ktest_assert (freq > 100000000) s (
         ktest_assert (freq < 10000000000) s (
         Some (KTEST_PASS, s)))))"

definition test_timer_us_advances :: "'z environment \<Rightarrow> 'z timer_st_scheme \<Rightarrow> (int \<times> 'z timer_st_scheme) option" where
  "test_timer_us_advances env s =
     (case timer_read_us s of
        Inl _ \<Rightarrow> None
      | Inr t1 \<Rightarrow>
        let s = fold env [0..<1000] s in
        (case timer_read_us s of
           Inl _ \<Rightarrow> None
         | Inr t2 \<Rightarrow> ktest_assert (t2 > t1) s (Some (KTEST_PASS, s))))"

fun tick_wait :: "'z environment \<Rightarrow> u64 \<Rightarrow> nat list \<Rightarrow> 'z timer_st_scheme \<Rightarrow> 'z timer_st_scheme" where
  "tick_wait env tick1 [] s = s"
| "tick_wait env tick1 (i # is) s = (if cpu_ticks s > tick1 then s else tick_wait env tick1 is (env i s))"

definition test_timer_ticks_increment :: "'z environment \<Rightarrow> 'z timer_st_scheme \<Rightarrow> (int \<times> 'z timer_st_scheme) option" where
  "test_timer_ticks_increment env s =
     (let tick1 = cpu_ticks s;
          s = irq_enable s;
          s = tick_wait env tick1 [0..<10000] s;
          tick2 = cpu_ticks s
      in ktest_assert (tick2 > tick1) s (Some (KTEST_PASS, s)))"

definition timer_tests :: "(string \<Rightarrow> addr) \<Rightarrow> 'z environment \<Rightarrow> 'z timer_st_scheme ktest list" where
  "timer_tests lit env = map (\<lambda>(nm, f). \<lparr>kt_name = lit nm, kt_subsystem = lit ''timer'', kt_fn = f\<rparr>)
     [(''tsc_monotonic'', test_tsc_monotonic env), (''timer_calibrated'', test_timer_calibrated),
      (''timer_us_advances'', test_timer_us_advances env), (''timer_ticks_increment'', test_timer_ticks_increment env)]"


section \<open>The passing of time\<close>

text \<open>
  The environment keeps to states in \<open>P\<close>; there the time stamp counter advances, by less than
  \<open>2 ^ 32\<close> cycles in each step as long as it is below \<open>2 ^ 63\<close>, the calibrated frequency and the
  interrupt flag are as they were, and the timer interrupt \<open>irq i\<close> counts a tick if interrupts are
  enabled.
\<close>

definition interrupts_on :: "'z cpu_st_scheme \<Rightarrow> bool" where
  "interrupts_on s = bit (ctx_eflags (regs s)) 9"

definition clock_env :: "('z timer_st_scheme \<Rightarrow> bool) \<Rightarrow> 'z environment \<Rightarrow> (nat \<Rightarrow> bool) \<Rightarrow> bool" where
  "clock_env P env irq \<longleftrightarrow> (\<forall>i s. P s \<longrightarrow>
     P (env i s) \<and> P (irq_enable s) \<and> tsc_freq_hz (env i s) = tsc_freq_hz s \<and> interrupts_on (env i s) = interrupts_on s \<and>
     (unat (timer_read_tsc s) < 2 ^ 63 \<longrightarrow> unat (timer_read_tsc s) < unat (timer_read_tsc (env i s)) \<and>
        unat (timer_read_tsc (env i s)) < unat (timer_read_tsc s) + 2 ^ 32) \<and>
     cpu_ticks (env i s) = cpu_ticks s + (if irq i \<and> interrupts_on s then 1 else 0))"

lemma clock_envD:
  assumes "clock_env P env irq" and "P s"
  shows "P (env i s)" "tsc_freq_hz (env i s) = tsc_freq_hz s" "interrupts_on (env i s) = interrupts_on s"
    "unat (timer_read_tsc s) < 2 ^ 63 \<Longrightarrow> unat (timer_read_tsc s) < unat (timer_read_tsc (env i s))"
    "unat (timer_read_tsc s) < 2 ^ 63 \<Longrightarrow> unat (timer_read_tsc (env i s)) < unat (timer_read_tsc s) + 2 ^ 32"
    "cpu_ticks (env i s) = cpu_ticks s + (if irq i \<and> interrupts_on s then 1 else 0)"
  using assms by (auto simp: clock_env_def)

lemma clock_env_enable: "clock_env P env irq \<Longrightarrow> P s \<Longrightarrow> P (irq_enable s)"
  by (auto simp: clock_env_def)

lemma env_fold:
  assumes "clock_env P env irq"
  shows "P s \<Longrightarrow> unat (timer_read_tsc s) + length js * 2 ^ 32 < 2 ^ 63 \<Longrightarrow>
    P (fold env js s) \<and> tsc_freq_hz (fold env js s) = tsc_freq_hz s \<and>
    unat (timer_read_tsc s) + length js \<le> unat (timer_read_tsc (fold env js s)) \<and>
    unat (timer_read_tsc (fold env js s)) \<le> unat (timer_read_tsc s) + length js * 2 ^ 32 \<and>
    unat (cpu_ticks (fold env js s)) \<le> unat (cpu_ticks s) + length js"
proof (induction js arbitrary: s)
  case Nil
  then show ?case by simp
next
  case (Cons i js)
  note e = clock_envD [OF assms Cons.prems(1), of i]
  have "unat (timer_read_tsc s) < 2 ^ 63" using Cons.prems(2) by simp
  note t = e(4) [OF this] e(5) [OF this]
  have "unat (timer_read_tsc (env i s)) + length js * 2 ^ 32 < 2 ^ 63" using t(2) Cons.prems(2) by simp
  moreover have "unat (cpu_ticks (env i s)) \<le> unat (cpu_ticks s) + 1" by (cases "irq i \<and> interrupts_on s") (simp_all add: e(6) unat_word_ariths)
  ultimately show ?case using Cons.IH [OF e(1)] t e(2) by fastforce
qed

lemma tick_wait_seen: "cpu_ticks s > tick1 \<Longrightarrow> tick_wait env tick1 js s = s"
  by (cases js) simp_all

lemma tick_wait_flag: "clock_env P env irq \<Longrightarrow> P s \<Longrightarrow> interrupts_on (tick_wait env tick1 js s) = interrupts_on s"
  by (induction js arbitrary: s) (auto dest: clock_envD)

lemma tick_wait_advances:
  assumes "clock_env P env irq"
  shows "P s \<Longrightarrow> interrupts_on s \<Longrightarrow> cpu_ticks s = tick1 \<Longrightarrow> tick1 < tick1 + 1 \<Longrightarrow> \<exists>i \<in> set js. irq i \<Longrightarrow>
    tick1 < cpu_ticks (tick_wait env tick1 js s)"
proof (induction js arbitrary: s)
  case Nil
  then show ?case by simp
next
  case (Cons i js)
  note e = clock_envD [OF assms Cons.prems(1), of i]
  show ?case
  proof (cases "irq i")
    case True
    then have "cpu_ticks (env i s) > tick1" using e(6) Cons.prems(2-4) by simp
    then show ?thesis using Cons.prems(3) by (simp add: tick_wait_seen)
  next
    case False
    then show ?thesis using Cons.IH [OF e(1)] e(3,6) Cons.prems by simp
  qed
qed


section \<open>The calibration\<close>

text \<open>Waiting changes the ports only, and takes time.\<close>

lemma pit_wait_loop_ports:
  assumes "pit_wait_loop n k c s = Some s'"
  shows "\<exists>p. s' = s\<lparr>ports := p\<rparr> \<and> io_time (ports s) \<le> io_time p"
proof (rule pit_wait_loop.raw_induct [OF _ assms])
  fix loop :: "u32 \<Rightarrow> u32 \<Rightarrow> u16 \<Rightarrow> 'a irq_st_scheme \<Rightarrow> 'a irq_st_scheme option" and n k c s s'
  assume IH: "\<And>n k c s s'. loop n k c s = Some s' \<Longrightarrow> \<exists>p. s' = s\<lparr>ports := p\<rparr> \<and> io_time (ports s) \<le> io_time p"
    and run: "(if k < n then let (cur, s') = read_pit_count s in loop n (k + ticks_elapsed c cur) cur s' else Some s) = Some s'"
  show "\<exists>p. s' = s\<lparr>ports := p\<rparr> \<and> io_time (ports s) \<le> io_time p"
  proof (cases "k < n")
    case True
    obtain cur q where q: "read_pit_count s = (cur, s\<lparr>ports := q\<rparr>)" "io_time q = io_time (ports s) + 3" by (auto simp: read_pit_count_result)
    with True run q(1) have "loop n (k + ticks_elapsed c cur) cur (s\<lparr>ports := q\<rparr>) = Some s'" by simp
    from IH [OF this] q(2) show ?thesis by auto
  next
    case False
    with run show ?thesis by (auto intro: exI [of _ "ports s"])
  qed
qed

lemma pit_wait_ticks_ports: "pit_wait_ticks n s = Some s' \<Longrightarrow> \<exists>p. s' = s\<lparr>ports := p\<rparr> \<and> io_time (ports s) + 3 \<le> io_time p"
  by (auto simp: pit_wait_ticks_def read_pit_count_result dest!: pit_wait_loop_ports)

lemma calibrate_tsc_freq:
  fixes s0 :: "'z timer_st_scheme"
  assumes "calibrate_tsc s0 = Some (Inr s)"
  shows "tsc_frequency (timer_read_tsc s - timer_read_tsc s0) (timer_freq_hz s0) = Inr (tsc_freq_hz s)"
    "io_time (ports s0) + 3 \<le> io_time (ports s)"
proof -
  define s1 where "s1 = snd (irq_disable s0)"
  have s1: "timer_read_tsc s1 = timer_read_tsc s0" "timer_freq_hz s1 = timer_freq_hz s0"
    by (simp_all add: s1_def irq_disable_def timer_read_tsc_def)
  obtain s2 where s2: "pit_wait_ticks CALIBRATION_TICKS s1 = Some s2"
    using assms by (auto simp: calibrate_tsc_def Let_def split_def s1_def [symmetric] split: option.splits)
  then obtain p where p: "s2 = s1\<lparr>ports := p\<rparr>" "io_time (ports s1) + 3 \<le> io_time p" using pit_wait_ticks_ports by blast
  let ?s3 = "irq_restore (fst (irq_disable s0)) s2"
  have s3: "timer_read_tsc ?s3 = timer_read_tsc s2" "timer_freq_hz ?s3 = timer_freq_hz s0"
    using s1(2) p(1) by (simp_all add: irq_restore_def timer_read_tsc_def)
  from assms s2 obtain f where f: "tsc_frequency (timer_read_tsc s2 - timer_read_tsc s1) (timer_freq_hz s0) = Inr f"
      "s = ?s3\<lparr>tsc_freq_hz := f\<rparr>"
    by (auto simp: calibrate_tsc_def Let_def split_def s1_def [symmetric] andthen_eq_Inr s3(2))
  then show "tsc_frequency (timer_read_tsc s - timer_read_tsc s0) (timer_freq_hz s0) = Inr (tsc_freq_hz s)"
    using s1(1) s3(1) by (simp add: timer_read_tsc_def)
  show "io_time (ports s0) + 3 \<le> io_time (ports s)"
    using f(2) p by (simp add: s1_def irq_disable_def irq_restore_def)
qed

lemma tsc_frequency_1000:
  assumes "tsc_frequency c 1000 = Inr f" and "unat c \<le> 5000000"
  shows "unat f = 20 * unat c"
proof -
  have "f = c * 1000000 div 50000" using assms(1) by (simp add: tsc_frequency_def)
  moreover have "unat (c * 1000000) = unat c * 1000000" using assms(2) by (simp add: unat_word_ariths)
  ultimately show ?thesis by (simp add: unat_div_distrib)
qed


section \<open>Properties\<close>

lemma us_advances:
  assumes e: "clock_env P env irq" and s: "P s" "unat (timer_read_tsc s) < 2 ^ 62"
    and f: "1000000 \<le> unat (tsc_freq_hz s)" "unat (tsc_freq_hz s) \<le> 100000000"
  shows "test_timer_us_advances env s = Some (KTEST_PASS, fold env [0..<1000] s)"
proof -
  let ?s = "fold env [0..<1000] s"
  have "unat (timer_read_tsc s) + length [0..<1000] * 2 ^ 32 < 2 ^ 63" using s(2) by simp
  note r = env_fold [OF e s(1) this]
  define k where "k = tsc_freq_hz s div 1000000"
  have "unat k = unat (tsc_freq_hz s) div 1000000" by (simp add: k_def unat_div_distrib)
  then have k: "0 < unat k" "unat k \<le> 100" using f by (simp_all add: div_greater_zero_iff)
  then have nz: "k \<noteq> 0" "tsc_freq_hz s \<noteq> 0" using f(1) by auto
  have us: "timer_read_us s = Inr (timer_read_tsc s div k)" "timer_read_us ?s = Inr (timer_read_tsc ?s div k)"
    using nz r by (simp_all add: timer_read_us_def k_def)
  have "unat (timer_read_tsc s) div unat k < (unat (timer_read_tsc s) + unat k) div unat k"
    using k(1) div_add_self2 [of "unat k" "unat (timer_read_tsc s)"] by simp
  also have "\<dots> \<le> unat (timer_read_tsc ?s) div unat k" using r k by (intro div_le_mono) simp
  finally have "timer_read_tsc s div k < timer_read_tsc ?s div k" by (simp add: word_less_nat_alt unat_div_distrib)
  then show ?thesis by (simp add: test_timer_us_advances_def us ktest_assert_def del: upt_Suc)
qed


text \<open>A machine whose counter advances with every step, interrupted before every hundredth one.\<close>

definition sample_env :: "unit environment" where
  "sample_env i s =
     (let s = s\<lparr>ports := (ports s)\<lparr>io_time := io_time (ports s) + 3\<rparr>\<rparr>
      in if i mod 100 = 99 \<and> interrupts_on s then s\<lparr>percpu := count_tick (percpu s)\<rparr> else s)"

definition sample_clock :: "timer_st \<Rightarrow> bool" where
  "sample_clock s \<longleftrightarrow> tsc_at s = (\<lambda>t. 20000 * of_nat t) \<and> per_cpu (percpu s) \<noteq> []"

lemma sample_env_clock: "clock_env sample_clock sample_env (\<lambda>i. i mod 100 = 99)"
proof -
  have u: "unat (x + 60000) = unat x + 60000" if "unat x < 2 ^ 63" for x :: u64
    using that by (simp add: unat_word_ariths)
  have t: "timer_read_tsc (sample_env i s) = timer_read_tsc s + 60000" if "sample_clock s" for i s
    using that by (simp add: sample_env_def sample_clock_def timer_read_tsc_def Let_def distrib_left)
  have "cpu_ticks (sample_env i s) = cpu_ticks s + (if i mod 100 = 99 \<and> interrupts_on s then 1 else 0)" if "sample_clock s" for i s
    using that by (simp add: sample_env_def sample_clock_def cpu_ticks_def count_tick_def interrupts_on_def Let_def cpu_id_def)
  moreover have "sample_clock (sample_env i s) \<and> sample_clock (irq_enable s) \<and> tsc_freq_hz (sample_env i s) = tsc_freq_hz s \<and>
      interrupts_on (sample_env i s) = interrupts_on s" if "sample_clock s" for i s
    using that by (simp add: sample_env_def sample_clock_def count_tick_def interrupts_on_def irq_enable_def Let_def)
  ultimately show ?thesis using t u by (simp add: clock_env_def)
qed


end
