(* ===== verification/Test_Thread.thy ===== *)
theory Test_Thread
  imports Timer_Test Syscall
begin

text \<open>
  Kernel threads as code: the wrapper every thread starts in (\<^verbatim>\<open>task_wrapper\<close> of
  \<^verbatim>\<open>core/task.c\<close>) and the test thread that \<^verbatim>\<open>kmain\<close> creates (\<^verbatim>\<open>test_thread_entry\<close> of
  \<^verbatim>\<open>core/init.c\<close>). A thread runs between interrupts and while other tasks have the processor; \<open>env i\<close> is
  what happens to the machine before its step \<open>i\<close>, until the thread has the processor
  again. The values the thread prints are its result, the fixed texts are left out. A call
  through \<^verbatim>\<open>int $0x80\<close> ends in the same handler and brings back its result (theory
  \<open>Entry\<close>).
\<close>

section \<open>The threads\<close>

text \<open>An entry point that returns gives \<open>Some ()\<close>, one that exits \<open>None\<close>.\<close>

type_synonym 'z thread_fn = "u32 \<Rightarrow> 'z timer_st_scheme \<Rightarrow> fault + unit option \<times> switch \<times> 'z timer_st_scheme"

definition task_wrapper :: "'z thread_fn \<Rightarrow> u32 \<Rightarrow> 'z timer_st_scheme \<Rightarrow> fault + switch \<times> 'z timer_st_scheme" where
  "task_wrapper entry arg s =
     andthen (entry arg s) (\<lambda>(r, d, s). case r of None \<Rightarrow> Inr (d, s) | Some _ \<Rightarrow> task_exit 0 s)"

text \<open>A system call of the thread and its resumption.\<close>

definition thread_call :: "'z environment \<Rightarrow> nat \<Rightarrow> u32 \<Rightarrow> 'z timer_st_scheme \<Rightarrow> fault + u32 \<times> 'z timer_st_scheme" where
  "thread_call env i num s =
     andthen (syscall_handler num 0 0 0 0 0 s) (\<lambda>(r, _, s).
     case r of None \<Rightarrow> Inl OutOfBounds | Some v \<Rightarrow> Inr (v, env i s))"

text \<open>The bounded wait for eleven ticks.\<close>

primrec ticks_wait :: "'z environment \<Rightarrow> u64 \<Rightarrow> nat \<Rightarrow> 'z timer_st_scheme \<Rightarrow> 'z timer_st_scheme" where
  "ticks_wait env start_ticks 0 s = s"
| "ticks_wait env start_ticks (Suc n) s =
     (if cpu_ticks s > start_ticks + 10 then s else ticks_wait env start_ticks n (env n s))"

text \<open>The last loop: the counter is printed, then the thread works for a while.\<close>

fun count_loop :: "'z environment \<Rightarrow> nat list \<Rightarrow> u32 \<Rightarrow> 'z timer_st_scheme \<Rightarrow> u32 list \<times> u32 \<times> 'z timer_st_scheme" where
  "count_loop env [] counter s = ([], counter, s)"
| "count_loop env (i # is) counter s =
     (let counter = counter + 1;
          (cs, counter', s) = count_loop env is counter (env i s)
      in (counter # cs, counter', s))"

record test_output =
  out_warning :: bool
  out_direct :: "u32 list"
  out_int80 :: "u32 list"
  out_counts :: "u32 list"

definition test_thread_entry ::
  "'z environment \<Rightarrow> u32 \<Rightarrow> 'z timer_st_scheme \<Rightarrow> fault + test_output \<times> u32 \<times> switch \<times> 'z timer_st_scheme" where
  "test_thread_entry env test_counter s =
     (let start_ticks = cpu_ticks s;
          s = ticks_wait env start_ticks 10000000 s;
          warning = (cpu_ticks s \<le> start_ticks) in
      andthen (thread_call env 0 SYS_GETPID s) (\<lambda>(pid, s).
      andthen (thread_call env 1 SYS_YIELD s) (\<lambda>(y, s).
      andthen (thread_call env 2 999 s) (\<lambda>(bad, s).
      andthen (thread_call env 3 SYS_GETPID s) (\<lambda>(pid', s).
      andthen (thread_call env 4 SYS_YIELD s) (\<lambda>(y', s).
      andthen (thread_call env 5 999 s) (\<lambda>(bad', s).
      let (counts, test_counter, s) = count_loop env [0..<5] test_counter s in
      andthen (task_exit 0 s) (\<lambda>(d, s).
      Inr (\<lparr>out_warning = warning, out_direct = [pid, y, bad], out_int80 = [pid', y', bad'], out_counts = counts\<rparr>,
        test_counter, d, s)))))))))"


section \<open>What the test thread sees\<close>

text \<open>
  The rest of the system keeps the kernel consistent, gives the processor back to thread \<open>c\<close> and does
  not change its number.
\<close>

definition resumes :: "u32 set \<Rightarrow> addr \<Rightarrow> u32 \<Rightarrow> 'z timer_st_scheme \<Rightarrow> bool" where
  "resumes M c pid s \<longleftrightarrow> (\<exists>qs. kernel_inv M s qs) \<and> task_current s = c \<and> task_get_idle s \<noteq> c \<and> t_id (tasks s c) = pid"

definition thread_env :: "u32 set \<Rightarrow> addr \<Rightarrow> u32 \<Rightarrow> 'z environment \<Rightarrow> bool" where
  "thread_env M c pid env \<longleftrightarrow> (\<forall>i s qs. kernel_inv M s qs \<longrightarrow> resumes M c pid (env i s))"

lemma thread_call_result:
  assumes "thread_env M c pid env" and "resumes M c pid s" and "num \<noteq> SYS_EXIT"
  shows "\<exists>s'. thread_call env i num s = Inr (if num = SYS_YIELD then 0 else if num = SYS_GETPID then pid else - 38, s') \<and>
    resumes M c pid s'"
proof -
  obtain qs where inv: "kernel_inv M s qs" and c: "task_current s = c" "t_id (tasks s c) = pid" using assms(2) by (auto simp: resumes_def)
  obtain r d s1 qs1 where s1: "syscall_handler num 0 0 0 0 0 s = Inr (r, d, s1)" "kernel_inv M s1 qs1"
      "r = (if num = SYS_EXIT then None else if num = SYS_YIELD then Some 0
         else if num = SYS_GETPID then Some (t_id (tasks s (task_current s))) else Some (- ENOSYS))"
    using syscall_handler_spec [OF inv, of num 0 0 0 0 0 0] assms(3) by blast
  have r: "r = Some (if num = SYS_YIELD then 0 else if num = SYS_GETPID then pid else - 38)"
    using s1(3) assms(3) c by simp
  have "resumes M c pid (env i s1)" using assms(1) s1(2) by (auto simp: thread_env_def)
  then show ?thesis using s1(1) r by (simp add: thread_call_def)
qed

lemma resumes_env: "thread_env M c pid env \<Longrightarrow> resumes M c pid s \<Longrightarrow> resumes M c pid (env i s)"
  by (auto simp: thread_env_def resumes_def)

lemma ticks_wait_resumes: "thread_env M c pid env \<Longrightarrow> resumes M c pid s \<Longrightarrow> resumes M c pid (ticks_wait env t n s)"
  by (induction n arbitrary: s) (auto intro: resumes_env)

lemma count_loop_resumes:
  "thread_env M c pid env \<Longrightarrow> resumes M c pid s \<Longrightarrow>
   \<exists>s'. count_loop env js k s = (map (\<lambda>i. k + of_nat (Suc i)) [0..<length js], k + of_nat (length js), s') \<and> resumes M c pid s'"
proof (induction js arbitrary: k s)
  case Nil
  then show ?case by simp
next
  case (Cons i js)
  obtain s' where s': "count_loop env js (k + 1) (env i s) =
      (map (\<lambda>i. k + 1 + of_nat (Suc i)) [0..<length js], k + 1 + of_nat (length js), s')" "resumes M c pid s'"
    using Cons.IH [OF Cons.prems(1) resumes_env [OF Cons.prems]] by blast
  have "map (\<lambda>i. k + of_nat (Suc i)) [0..<Suc (length js)] = (k + 1) # map (\<lambda>i. k + 1 + of_nat (Suc i)) [0..<length js]"
    by (subst upt_conv_Cons) (simp_all add: map_Suc_upt [symmetric] o_def ac_simps del: upt_Suc)
  then show ?case using s' by (simp add: ac_simps del: upt_Suc)
qed

text \<open>
  The test thread gets its own number, 0 and \<open>-38\<close> both ways, counts five times and then is gone:
  it exits, so the wrapper's own exit is never reached.
\<close>

lemma test_thread_result:
  assumes "thread_env M c pid env" and "resumes M c pid s"
  shows "\<exists>w d s' qs'. test_thread_entry env k s =
      Inr (\<lparr>out_warning = w, out_direct = [pid, 0, - 38], out_int80 = [pid, 0, - 38],
            out_counts = [k + 1, k + 2, k + 3, k + 4, k + 5]\<rparr>, k + 5, d, s') \<and>
    kernel_inv M s' qs' \<and> task_current s' \<noteq> c \<and> (\<forall>p. c \<notin> set (qs' p))"
proof -
  define s0 where "s0 = ticks_wait env (cpu_ticks s) 10000000 s"
  note call = thread_call_result [OF assms(1)]
  have r0: "resumes M c pid s0" unfolding s0_def by (rule ticks_wait_resumes [OF assms])
  obtain s1 where s1: "thread_call env 0 SYS_GETPID s0 = Inr (pid, s1)" "resumes M c pid s1" using call [OF r0, of SYS_GETPID 0] by auto
  obtain s2 where s2: "thread_call env 1 SYS_YIELD s1 = Inr (0, s2)" "resumes M c pid s2" using call [OF s1(2), of SYS_YIELD 1] by auto
  obtain s3 where s3: "thread_call env 2 999 s2 = Inr (- 38, s3)" "resumes M c pid s3" using call [OF s2(2), of 999 2] by auto
  obtain s4 where s4: "thread_call env 3 SYS_GETPID s3 = Inr (pid, s4)" "resumes M c pid s4" using call [OF s3(2), of SYS_GETPID 3] by auto
  obtain s5 where s5: "thread_call env 4 SYS_YIELD s4 = Inr (0, s5)" "resumes M c pid s5" using call [OF s4(2), of SYS_YIELD 4] by auto
  obtain s6 where s6: "thread_call env 5 999 s5 = Inr (- 38, s6)" "resumes M c pid s6" using call [OF s5(2), of 999 5] by auto
  obtain s7 where s7: "count_loop env [0..<5] k s6 = ([k + 1, k + 2, k + 3, k + 4, k + 5], k + 5, s7)" "resumes M c pid s7"
    using count_loop_resumes [OF assms(1) s6(2), of "[0..<5]" k] by (auto simp: upt_rec)
  obtain qs where q: "kernel_inv M s7 qs" "task_current s7 \<noteq> task_get_idle s7" "task_current s7 = c"
    using s7(2) by (auto simp: resumes_def)
  from exit_kernel_inv [OF q(1,2), of 0] obtain d s8 qs8 where
    s8: "task_exit 0 s7 = Inr (d, s8)" "kernel_inv M s8 qs8" "live_tasks s8 qs8 \<subseteq> live_tasks s7 qs - {c}"
    unfolding q(3) by blast
  have "task_current s8 \<in> live_tasks s8 qs8" "\<And>p. set (qs8 p) \<subseteq> live_tasks s8 qs8"
    by (auto simp: live_tasks_def task_current_def scheduler_current_def)
  then have "task_current s8 \<noteq> c \<and> (\<forall>p. c \<notin> set (qs8 p))" using s8(3) by blast
  moreover have "test_thread_entry env k s =
      Inr (\<lparr>out_warning = cpu_ticks s0 \<le> cpu_ticks s, out_direct = [pid, 0, - 38], out_int80 = [pid, 0, - 38],
            out_counts = [k + 1, k + 2, k + 3, k + 4, k + 5]\<rparr>, k + 5, d, s8)"
    unfolding test_thread_entry_def Let_def s0_def [symmetric]
    by (simp only: s1(1) s2(1) s3(1) s4(1) s5(1) s6(1) s7(1) s8(1) andthen_Inr prod.case)
  ultimately show ?thesis using s8(2) by blast
qed

text \<open>A thread whose entry point returns is gone, too.\<close>

lemma task_wrapper_exits:
  assumes "entry arg s = Inr (Some (), d, s1)" and "kernel_inv M s1 qs" and "task_current s1 \<noteq> task_get_idle s1"
  shows "\<exists>d s' qs'. task_wrapper entry arg s = Inr (d, s') \<and> kernel_inv M s' qs' \<and>
    live_tasks s' qs' \<subseteq> live_tasks s1 qs - {task_current s1}"
  using exit_kernel_inv [OF assms(2,3), of 0] assms(1) by (auto simp: task_wrapper_def)

end
