(* ===== verification/Vga_Ops.thy ===== *)
theory Vga_Ops
  imports Console
begin

text \<open>
  The driver interface of the screen: \<^verbatim>\<open>struct vga_ops\<close> of \<^verbatim>\<open>include/drivers/vga.h\<close> as a record of
  operations, and \<^verbatim>\<open>vga_text_ops\<close> of \<^verbatim>\<open>drivers/vga/vga_text.c\<close> as its instance. The contract of a driver is a locale;
  a client may make any sequence of requests.
\<close>

section \<open>The table\<close>

record 's vga_ops =
  op_init :: "'s \<Rightarrow> int \<times> 's"
  op_shutdown :: "'s \<Rightarrow> 's"
  op_clear :: "'s \<Rightarrow> 's"
  op_putchar :: "u8 \<Rightarrow> 's \<Rightarrow> 's"
  op_putchar_at :: "u8 \<Rightarrow> u16 \<Rightarrow> u16 \<Rightarrow> 's \<Rightarrow> 's"
  op_write :: "u8 list \<Rightarrow> 's \<Rightarrow> 's"
  op_write_at :: "u8 list \<Rightarrow> u16 \<Rightarrow> u16 \<Rightarrow> 's \<Rightarrow> 's"
  op_set_color :: "vga_color \<Rightarrow> vga_color \<Rightarrow> 's \<Rightarrow> 's"
  op_move_cursor :: "u16 \<Rightarrow> u16 \<Rightarrow> 's \<Rightarrow> 's"
  op_get_cursor :: "'s \<Rightarrow> u16 \<times> u16"
  op_scroll :: "'s \<Rightarrow> 's"
  op_cursor_enable :: "bool \<Rightarrow> 's \<Rightarrow> 's"

definition vga_text_ops :: "'a vga_st_scheme vga_ops" where
  "vga_text_ops = \<lparr>
     op_init = vga_text_init,
     op_shutdown = vga_text_shutdown,
     op_clear = vga_text_clear,
     op_putchar = vga_text_putchar,
     op_putchar_at = vga_text_putchar_at,
     op_write = vga_text_write,
     op_write_at = vga_text_write_at,
     op_set_color = vga_text_set_color,
     op_move_cursor = vga_text_move_cursor,
     op_get_cursor = vga_text_get_cursor,
     op_scroll = vga_text_scroll,
     op_cursor_enable = vga_text_cursor_enable\<rparr>"

text \<open>\<^verbatim>\<open>vga_text_get_driver\<close>, which never returns null.\<close>

definition vga_text_get_driver :: "'a vga_st_scheme vga_ops option" where
  "vga_text_get_driver = Some vga_text_ops"

text \<open>A request of a client of the driver.\<close>

datatype vga_request = Init | Shutdown | Clear | Putchar u8 | PutcharAt u8 u16 u16 | Write "u8 list"
  | WriteAt "u8 list" u16 u16 | SetColor vga_color vga_color | MoveCursor u16 u16 | Scroll | CursorEnable bool

fun run_request :: "'s vga_ops \<Rightarrow> vga_request \<Rightarrow> 's \<Rightarrow> 's" where
  "run_request ops Init s = snd (op_init ops s)"
| "run_request ops Shutdown s = op_shutdown ops s"
| "run_request ops Clear s = op_clear ops s"
| "run_request ops (Putchar c) s = op_putchar ops c s"
| "run_request ops (PutcharAt c x y) s = op_putchar_at ops c x y s"
| "run_request ops (Write str) s = op_write ops str s"
| "run_request ops (WriteAt str x y) s = op_write_at ops str x y s"
| "run_request ops (SetColor fg bg) s = op_set_color ops fg bg s"
| "run_request ops (MoveCursor x y) s = op_move_cursor ops x y s"
| "run_request ops Scroll s = op_scroll ops s"
| "run_request ops (CursorEnable e) s = op_cursor_enable ops e s"


section \<open>The contract of a driver\<close>

text \<open>
  Every request keeps the invariant and what the driver does not own (\<open>frame\<close>); the cursor is
  on the screen and where it was moved to.
\<close>

locale vga_driver =
  fixes ops :: "'s vga_ops" and inv :: "'s \<Rightarrow> bool" and frame :: "'s \<Rightarrow> 's \<Rightarrow> bool"
  assumes frame_refl: "frame s s"
    and frame_trans: "frame s t \<Longrightarrow> frame t u \<Longrightarrow> frame s u"
    and request: "inv s \<Longrightarrow> inv (run_request ops r s) \<and> frame s (run_request ops r s)"
    and cursor_inside: "inv s \<Longrightarrow> op_get_cursor ops s = (x, y) \<Longrightarrow> x < 80 \<and> y < 25"
    and cursor_moved: "inv s \<Longrightarrow> x < 80 \<Longrightarrow> y < 25 \<Longrightarrow> op_get_cursor ops (op_move_cursor ops x y s) = (x, y)"
begin

lemma requests: "inv s \<Longrightarrow> inv (fold (run_request ops) rs s) \<and> frame s (fold (run_request ops) rs s)"
proof (induction rs arbitrary: s)
  case Nil
  then show ?case by (simp add: frame_refl)
next
  case (Cons r rs)
  have "inv (run_request ops r s)" "frame s (run_request ops r s)" using request [OF Cons.prems] by simp_all
  then show ?case using Cons.IH [of "run_request ops r s"] frame_trans by auto
qed

lemma requests_cursor:
  assumes "inv s" and "x < 80" and "y < 25"
  shows "op_get_cursor ops (fold (run_request ops) (rs @ [MoveCursor x y]) s) = (x, y)"
  using cursor_moved [OF _ assms(2,3)] requests [OF assms(1)] by simp

end


section \<open>The text mode driver\<close>

text \<open>What is not the driver's: cells outside the screen, every port but two, the state of others.\<close>

definition only_screen :: "'a vga_st_scheme \<Rightarrow> 'a vga_st_scheme \<Rightarrow> bool" where
  "only_screen s s' \<longleftrightarrow> hal_set s' = hal_set s \<and> port_in s' = port_in s \<and> vga_st.more s' = vga_st.more s
     \<and> (\<exists>ws. port_log s' = port_log s @ ws \<and> set ws \<subseteq> range (OutB VGA_CTRL_REG) \<union> range (OutB VGA_DATA_REG))
     \<and> (\<forall>a. (\<forall>i < 2000. a \<noteq> VGA_MEMORY + 2 * of_nat i) \<longrightarrow> vga_cells s' a = vga_cells s a)"

lemma only_screen_refl: "only_screen s s"
  by (simp add: only_screen_def)

lemma only_screen_trans: "only_screen s t \<Longrightarrow> only_screen t u \<Longrightarrow> only_screen s u"
  unfolding only_screen_def by (elim conjE exE) (intro conjI, auto)

lemma only_screen_keeps: "keeps_rest s t \<Longrightarrow> vga_buffer s = VGA_MEMORY \<Longrightarrow> only_screen s t"
  by (auto simp: keeps_rest_def only_screen_def on_screen_def cell_addr_def)

lemma only_screen_upd [simp]:
  "only_screen s (t\<lparr>current_color := k\<rparr>) \<longleftrightarrow> only_screen s t" "only_screen s (t\<lparr>vga_initialized := b\<rparr>) \<longleftrightarrow> only_screen s t"
  "only_screen s (t\<lparr>cursor_x := x\<rparr>) \<longleftrightarrow> only_screen s t" "only_screen s (t\<lparr>cursor_y := y\<rparr>) \<longleftrightarrow> only_screen s t"
  "only_screen s (t\<lparr>vga_buffer := p\<rparr>) \<longleftrightarrow> only_screen s t"
  by (simp_all add: only_screen_def)

lemma only_screen_cursor: "only_screen s t \<Longrightarrow> only_screen s (update_hardware_cursor t)"
  by (rule only_screen_trans) (auto simp: only_screen_def update_hardware_cursor_def Let_def)

lemma only_screen_cursor_enable: "only_screen s t \<Longrightarrow> only_screen s (vga_text_cursor_enable e t)"
  by (rule only_screen_trans) (auto simp: only_screen_def vga_text_cursor_enable_def)

lemma vga_inv_simps [simp]:
  "vga_inv (s\<lparr>current_color := k\<rparr>) \<longleftrightarrow> vga_inv s" "vga_inv (s\<lparr>vga_initialized := b\<rparr>) \<longleftrightarrow> vga_inv s"
  "vga_inv (update_hardware_cursor s) \<longleftrightarrow> vga_inv s" "vga_inv (vga_text_cursor_enable e s) \<longleftrightarrow> vga_inv s"
  by (simp_all add: vga_inv_def vga_text_cursor_enable_def)

lemma redraws_safe: "vga_inv s \<Longrightarrow> redraws f s t \<Longrightarrow> vga_inv t \<and> only_screen s t"
  using only_screen_keeps [OF keeps_rest_redraws, of f s t] by (auto simp: redraws_def vga_inv_def)

lemma putchar_at_safe: "vga_inv s \<Longrightarrow> vga_inv (vga_text_putchar_at c x y s) \<and> only_screen s (vga_text_putchar_at c x y s)"
  using redraws_safe [OF _ redraws_set_cell, of s "unat y * 80 + unat x"] screen_index [of "unat y" "unat x"]
  by (auto simp: vga_text_putchar_at_def only_screen_refl not_le word_less_nat_alt)

lemma write_at_safe:
  "vga_inv s \<Longrightarrow> vga_inv (write_at_loop str i x y s) \<and> only_screen s (write_at_loop str i x y s)"
proof (induction str arbitrary: i s)
  case Nil
  then show ?case by (simp add: only_screen_refl)
next
  case (Cons c str)
  note p = putchar_at_safe [OF Cons.prems, of c "ucast (ucast x + i :: u32)" y]
  then show ?case using Cons.IH [of _ "i + 1"] Cons.prems only_screen_trans by (auto simp: only_screen_refl)
qed

lemma clear_safe: "vga_buffer s = VGA_MEMORY \<Longrightarrow> vga_inv (vga_text_clear s) \<and> only_screen s (vga_text_clear s)"
  using vga_text_clear_blank(1,2) only_screen_keeps by blast

lemma init_safe:
  assumes "vga_initialized s \<longrightarrow> vga_inv s"
  shows "fst (vga_text_init s) = 0 \<and> vga_inv (snd (vga_text_init s)) \<and> only_screen s (snd (vga_text_init s))"
proof (cases "vga_initialized s")
  case True
  then show ?thesis using assms by (simp add: vga_text_init_def only_screen_refl)
next
  case False
  let ?t = "s\<lparr>vga_buffer := VGA_MEMORY, cursor_x := 0, cursor_y := 0,
    current_color := make_color VGA_COLOR_LIGHT_GREY VGA_COLOR_BLACK, vga_initialized := True\<rparr>"
  have "only_screen s ?t" by (simp add: only_screen_refl)
  moreover have "vga_inv (vga_text_clear ?t)" "only_screen ?t (vga_text_clear ?t)" using clear_safe [of ?t] by simp_all
  ultimately have "vga_inv (vga_text_clear ?t)" "only_screen s (vga_text_clear ?t)" using only_screen_trans by blast+
  then show ?thesis using False by (simp add: vga_text_init_def Let_def only_screen_cursor_enable)
qed

lemma write_safe: "vga_inv s \<Longrightarrow> vga_inv (vga_text_write str s) \<and> only_screen s (vga_text_write str s)"
  using vga_text_write_refines [of s str] only_screen_keeps by (auto simp: renders_def vga_inv_def)

lemma text_request_safe:
  assumes "vga_inv s"
  shows "vga_inv (run_request vga_text_ops r s) \<and> only_screen s (run_request vga_text_ops r s)"
proof (cases r)
  case Init
  then show ?thesis using init_safe [of s] assms by (simp add: vga_text_ops_def)
next
  case Shutdown
  then show ?thesis using clear_safe [of s] assms by (simp add: vga_text_ops_def vga_text_shutdown_def) (simp add: vga_inv_def)
next
  case Clear
  then show ?thesis using clear_safe [of s] assms by (simp add: vga_text_ops_def) (simp add: vga_inv_def)
next
  case (Putchar c)
  then show ?thesis using write_safe [OF assms, of "[c]"] by (simp add: vga_text_ops_def vga_text_write_def)
next
  case (MoveCursor x y)
  then show ?thesis using assms
    by (auto simp: vga_text_ops_def vga_text_move_cursor_def only_screen_refl only_screen_cursor) (simp add: vga_inv_def)
next
  case Scroll
  then show ?thesis using redraws_safe [OF assms redraws_scroll] by (simp add: vga_text_ops_def)
qed (use assms putchar_at_safe write_safe write_at_safe only_screen_cursor_enable [OF only_screen_refl] in
    \<open>simp_all add: vga_text_ops_def vga_text_write_at_def vga_text_set_color_def only_screen_refl\<close>)

interpretation text_driver: vga_driver vga_text_ops vga_inv only_screen
proof
  fix s t u :: "'a vga_st_scheme"
  show "only_screen s s" by (rule only_screen_refl)
  show "only_screen s t \<Longrightarrow> only_screen t u \<Longrightarrow> only_screen s u" by (rule only_screen_trans)
qed (simp_all add: text_request_safe, auto simp: vga_text_ops_def vga_text_get_cursor_def vga_text_move_cursor_def vga_inv_def)


section \<open>Properties\<close>

text \<open>The helpers of \<^verbatim>\<open>vga.c\<close> are the table's operations once a driver is selected.\<close>

lemma vga_helpers_dispatch:
  assumes "vga_set s"
  shows "vga_clear s = op_clear vga_text_ops s" "vga_putchar c s = op_putchar vga_text_ops c s"
    "vga_set_color fg bg s = op_set_color vga_text_ops fg bg s"
  using assms by (simp_all add: vga_clear_def vga_putchar_def vga_set_color_def vga_text_ops_def)

text \<open>
  C26: the screen driver keeps to the screen. From a driver that is not initialised, or is in order, its
  initialisation succeeds, and whatever requests follow (characters and strings of any bytes at
  the cursor or at any coordinates, colours, cursor moves, scrolling, clearing, shutdown and initialisation
  again), the cursor is within 80 columns and 25 rows, no cell outside the 2000 of the text buffer
  has changed, no port but the two of the cursor was written, and nothing else of the kernel's
  state has changed; moving the cursor to a place on the screen puts it there.
\<close>

theorem vga_driver_keeps_to_screen:
  fixes s :: "'a vga_st_scheme" and rs :: "vga_request list"
  assumes "vga_initialized s \<longrightarrow> vga_inv s"
  defines "s' \<equiv> fold (run_request vga_text_ops) rs (snd (op_init vga_text_ops s))"
  shows "fst (op_init vga_text_ops s) = 0 \<and> cursor_x s' < 80 \<and> cursor_y s' < 25 \<and>
    hal_set s' = hal_set s \<and> port_in s' = port_in s \<and> vga_st.more s' = vga_st.more s \<and>
    (\<exists>ws. port_log s' = port_log s @ ws \<and> set ws \<subseteq> range (OutB VGA_CTRL_REG) \<union> range (OutB VGA_DATA_REG)) \<and>
    (\<forall>a. (\<forall>i < 2000. a \<noteq> VGA_MEMORY + 2 * of_nat i) \<longrightarrow> vga_cells s' a = vga_cells s a) \<and>
    (\<forall>x y. x < 80 \<and> y < 25 \<longrightarrow> op_get_cursor vga_text_ops (op_move_cursor vga_text_ops x y s') = (x, y))"
proof -
  let ?i = "snd (op_init vga_text_ops s)"
  have i: "fst (op_init vga_text_ops s) = 0" "vga_inv ?i" "only_screen s ?i"
    using init_safe [OF assms(1)] by (simp_all add: vga_text_ops_def)
  have "vga_inv s'" and "only_screen ?i s'" using text_driver.requests [OF i(2), of rs] by (simp_all add: s'_def)
  then have "only_screen s s'" and "vga_inv s'" using only_screen_trans [OF i(3)] by simp_all
  then show ?thesis using i(1) text_driver.cursor_moved [OF \<open>vga_inv s'\<close>] unfolding only_screen_def vga_inv_def by blast
qed

text \<open>A fresh driver, a string far too long for its place, a scroll and a restart.\<close>

theorem vga_driver_keeps_to_screen_witness:
  "cursor_x (fold (run_request vga_text_ops) [WriteAt (replicate 100 0x41) 70 24, Scroll, PutcharAt 0xE9 80 25, Shutdown, Init]
      (snd (op_init vga_text_ops (sample_vga\<lparr>vga_initialized := False, vga_buffer := 0, cursor_x := 999\<rparr>)))) < 80"
  using vga_driver_keeps_to_screen [of "sample_vga\<lparr>vga_initialized := False, vga_buffer := 0, cursor_x := 999\<rparr>"
      "[WriteAt (replicate 100 0x41) 70 24, Scroll, PutcharAt 0xE9 80 25, Shutdown, Init]"] by simp

end
