(* ===== verification/Pmm_Report.thy ===== *)
theory Pmm_Report
  imports Messages Pmm
begin

text \<open>
  The report at the end of \<^verbatim>\<open>pmm_init\<close> in \<^verbatim>\<open>mm/pmm.c\<close>: the frame counters and their size in kilobytes, which is
  computed in 32 bits.
\<close>

section \<open>Definitions\<close>

definition frames_kb :: "u32 \<Rightarrow> u32" where
  "frames_kb n = n * FRAME_SIZE div 1024"

definition pmm_report_calls :: "'z pmm_st_scheme \<Rightarrow> (u8 list \<times> u32 list) list" where
  "pmm_report_calls s =
     (let total_kb = frames_kb (total_frames s);
          free_kb = frames_kb (free_frames s);
          reserved_kb = frames_kb (reserved_frames s)
      in [(c_text (''[PMM] Total frames: %u (%u KB)'' @ [NL]), [total_frames s, total_kb]),
          (c_text (''[PMM] Free frames: %u (%u KB)'' @ [NL]), [free_frames s, free_kb]),
          (c_text (''[PMM] Reserved frames: %u (%u KB)'' @ [NL]), [reserved_frames s, reserved_kb])])"


section \<open>The text of the report\<close>

lemma frames_kb_exact: "unat n < 2 ^ 20 \<Longrightarrow> unat (frames_kb n) = 4 * unat n"
  by (simp add: frames_kb_def unat_div_distrib unat_word_ariths)

text \<open>With every frame of the 4 GB the manager is made for, the product wraps to zero.\<close>

lemma frames_kb_wraps: "frames_kb MAX_FRAMES = 0"
  by (simp add: frames_kb_def)

text \<open>One line of the report: a count of frames and the kilobytes in them.\<close>

definition frames_line :: "string \<Rightarrow> nat \<Rightarrow> u8 list" where
  "frames_line what n = map of_char (''[PMM] '' @ what @ '' frames: '') @ show_nat 10 n @ map of_char '' ('' @
     show_nat 10 (4 * n) @ map of_char ('' KB)'' @ [NL])"

definition report_items :: "string \<Rightarrow> u32 \<Rightarrow> item list" where
  "report_items what n = lits (''[PMM] '' @ what @ '' frames: '') @ UDec n # lits '' ('' @ UDec (frames_kb n) # lits ('' KB)'' @ [NL])"

lemma pmm_report_items:
  "pmm_report_calls s = map message_call [report_items ''Total'' (total_frames s), report_items ''Free'' (free_frames s),
     report_items ''Reserved'' (reserved_frames s)]"
  by (simp add: pmm_report_calls_def report_items_def message_simps)

lemma report_items_text: "unat n < 2 ^ 20 \<Longrightarrow> concat (map (item_text str) (report_items what n)) = frames_line what (unat n)"
  by (simp add: report_items_def frames_line_def lits_def frames_kb_exact concat_map_singleton comp_def)

lemma report_items_ok:
  "0 \<notin> set (map of_char what :: u8 list) \<Longrightarrow> 0x25 \<notin> set (map of_char what :: u8 list) \<Longrightarrow>
     \<forall>i \<in> set (report_items what n). item_ok m str i \<and> item_plain str i"
  by (auto simp: report_items_def lits_def)

text \<open>
  The report is exact: after the initialisation the number of managed frames and of free frames is
  printed as it is, each with its size in kilobytes, as long as not all of 4 GB is managed.
\<close>

lemma pmm_report_correct:
  assumes "console_ready va sa c" and "serial_line_ready c" and "pmm_inv M s" and "card M < 2 ^ 20"
    and "unat (reserved_frames s) < 2 ^ 20"
  shows "\<exists>c'. kprintf_all (kernel_backends va sa) m (pmm_report_calls s) c = Some c' \<and> console_ready va sa c' \<and>
    sent SERIAL_COM1 (port_log c') = sent SERIAL_COM1 (port_log c) @ frames_line ''Total'' (card M) @
      frames_line ''Free'' (card (free_set s)) @ frames_line ''Reserved'' (unat (reserved_frames s))"
proof -
  let ?jss = "[report_items ''Total'' (total_frames s), report_items ''Free'' (free_frames s), report_items ''Reserved'' (reserved_frames s)]"
  have n: "unat (total_frames s) = card M" "unat (free_frames s) = card (free_set s)" "free_set s \<subseteq> M"
    using assms(3) by (auto simp: pmm_inv_def)
  have "card (free_set s) \<le> card M" using n(3) by (intro card_mono) auto
  then have t: "message_text str ?jss = frames_line ''Total'' (card M) @ frames_line ''Free'' (card (free_set s)) @
      frames_line ''Reserved'' (unat (reserved_frames s))" for str
    using n assms(4,5) by (simp add: message_text_def report_items_text)
  have "\<forall>js \<in> set ?jss. \<forall>i \<in> set js. item_ok m str i \<and> item_plain str i" for str
    using report_items_ok [of "''Total''"] report_items_ok [of "''Free''"] report_items_ok [of "''Reserved''"] by simp
  from kprintf_all_both [OF assms(1,2) this] show ?thesis
    unfolding pmm_report_items by (auto simp: shows_and_sends_def t)
qed

end
