(* ===== verification/Spec2Isabelle.thy ===== *)
theory Spec2Isabelle
  imports Fairness Boot_Console Console_Ops Entry Hal Assertions Kernel_Types Test_Thread Vga_Ops Pmm_Report
begin

text \<open>
  A formal model of the AionCore kernel, a small single-CPU kernel for i686
  written in C, with the theorems that make its components correct.

  \<^bold>\<open>The program.\<close> The kernel consists of a hardware layer (segment and interrupt
  tables, interrupt controllers, interval timer, paging; \<^verbatim>\<open>arch/x86\<close>), a physical
  memory manager (\<^verbatim>\<open>mm/pmm.c\<close>), tasks, a priority scheduler, system calls, user tasks,
  per-CPU data and a console multiplexer (\<^verbatim>\<open>core\<close>), the screen and serial drivers
  (\<^verbatim>\<open>drivers\<close>) and a string library (\<^verbatim>\<open>lib/string.c\<close>). The physical memory manager
  serves pages to the MMU (page tables), to the task subsystem (task structures and
  stacks) and to user task creation; the scheduler links task structures into ready
  queues and switches register files; the timer interrupt drives the scheduler; system
  calls reach the scheduler through task exit and yield; \<^verbatim>\<open>kprintf\<close> writes to the console,
  which fans out to the screen and the serial port.

  \<^bold>\<open>State.\<close> The state of each component is a record whose fields are the static
  variables of its source file, and the records extend one another in the order of
  the calls: \<open>pmm_st\<close> (frame bitmap and counters), \<open>mmu_st\<close> (physical memory, page
  table descriptor, control registers), \<open>cpu_st\<close> (registers, segment tables), \<open>sched_st\<close> (task
  structures, scheduler), \<open>irq_st\<close> (interrupt table, handlers, ports), \<open>timer_st\<close> (per-CPU data,
  clock). The console side has its own chain: \<open>io_st\<close> (ports), \<open>vga_st\<close>, \<open>console_st\<close>.
  Every operation is polymorphic in the extension, so it is applied unchanged in the
  states of the components above it. Machine integers have their width and wrap.
  Physical memory is a function from 32-bit addresses to bytes; page tables, multiboot data
  and stacks lie in it. Task structures lie in a heap of their own, indexed by address.

  \<^bold>\<open>Errors.\<close> An operation that can fault returns \<open>fault + 'a\<close>: a failed \<^verbatim>\<open>kassert\<close> (in builds
  that have them), an access through null, an access out of bounds, a division by zero, a
  page fault. Error returns of the code (a null pointer, a negative number) are ordinary
  results. Loops over counts terminate and are proved to. Loops that wait for a device or
  follow data (\<^verbatim>\<open>parse_mmap\<close>, \<^verbatim>\<open>pit_wait_ticks\<close>, the serial wait, \<^verbatim>\<open>strlen\<close>, \<^verbatim>\<open>strcmp\<close>) are
  partial functions into \<open>option\<close>, where \<open>None\<close> is not returning; no fuel is used, and the
  theorems about them show that they return under conditions on the device or the data.

  \<^bold>\<open>Theories.\<close>
  \<^item> \<open>Kernel_Prelude\<close>: integer types, faults, memory accesses, the interfaces \<open>bit_array\<close> and
    \<open>codec\<close>.
  \<^item> \<open>Frame_Allocator\<close>, \<open>Address_Space\<close>, \<open>Ready_Queue\<close>: the contracts of the page allocator, of the
    MMU and of the ready queues, as locales with what follows for clients: no page is
    handed out twice, many pages can be installed, tasks are dispatched by priority and
    in order of arrival. They are interpreted on the code's model in \<open>Pmm\<close>, \<open>Mmu\<close> and
    \<open>Scheduler\<close>, and the properties of the components above rest on those interpretations.
  \<^item> \<open>Pmm\<close>, \<open>Pmm_Init\<close> (\<^verbatim>\<open>mm/pmm.c\<close>): bitmap, allocation, release, reservation, and
    initialisation from the boot loader's map. Under \<open>pmm_inv\<close> the bitmap is the set of
    free frames, the counters agree with it and no assertion fails; initialisation
    establishes it.
  \<^item> \<open>Mmu\<close> (\<^verbatim>\<open>arch/x86/mmu.c\<close>): page directory and tables as words in memory. The hardware's table
    walk (\<open>translate\<close>) is the abstraction; mapping and unmapping refine the update of
    a partial function, creating and destroying an address space returns every
    page, and \<^verbatim>\<open>mmu_init\<close> maps the first 16 MB to themselves.
  \<^item> \<open>Paging\<close>: memory accesses through the page tables, the effect of \<^verbatim>\<open>memcpy\<close> on virtual addresses.
  \<^item> \<open>Tlb\<close>: the translation look-aside buffer beside the page tables. Its entries come and go at any
    moment; under every interleaving with the kernel's page table operations an access uses the
    translation the page tables have at that moment.
  \<^item> \<open>Gdt\<close> (\<^verbatim>\<open>arch/x86/gdt.c\<close>): descriptors decode to what was encoded, and the tables that are loaded.
  \<^item> \<open>Scheduler\<close> (\<^verbatim>\<open>core/scheduler.c\<close>, \<^verbatim>\<open>context.s\<close>): 256 doubly linked queues with a bitmap refine
    256 lists; picking the highest priority, the tick and the switch are shown
    on every branch.
  \<^item> \<open>Task\<close> (\<^verbatim>\<open>core/task.c\<close>): creation, destruction, exit and yield, and the step relation
    \<open>kernel_step\<close> whose invariant \<open>kernel_inv\<close> holds for every interleaving.
  \<^item> \<open>User_Task\<close> (\<^verbatim>\<open>core/user.c\<close>): a ring 3 task from its pages to its first registers.
  \<^item> \<open>Port_Io\<close>, \<open>Idt\<close>, \<open>Timer\<close> (\<^verbatim>\<open>arch/x86/hal.c\<close>, \<^verbatim>\<open>idt.c\<close>, \<^verbatim>\<open>timer.c\<close>): port accesses, gates and
    interrupt controllers, the common interrupt handlers, the interval timer and
    the timer interrupt, which keeps the invariant of the kernel.
  \<^item> \<open>Syscall\<close> (\<^verbatim>\<open>core/syscall.c\<close>): the dispatcher and its four calls.
  \<^item> \<open>Percpu\<close> (\<^verbatim>\<open>core/percpu.c\<close>): the trace ring refines a bounded queue that drops and counts.
  \<^item> \<open>Klib_String\<close> (\<^verbatim>\<open>lib/string.c\<close>): memory and string functions.
  \<^item> \<open>Vga_Text\<close>, \<open>Serial\<close>, \<open>Console\<close>, \<open>Kprintf\<close> (\<^verbatim>\<open>drivers\<close>, \<^verbatim>\<open>core/console.c\<close>): the screen refines an
    abstract grid, output reaches every enabled backend, numbers and formats print
    what they mean.
  \<^item> \<open>Vga_Ops\<close>: the driver table of the screen with its contract; no sequence of requests reaches
    beyond the screen.
  \<^item> \<open>Page_Use\<close>: which operations write to free pages only, for the frame of memory in the next two.
  \<^item> \<open>Boot\<close> (\<^verbatim>\<open>core/init.c\<close>, \<^verbatim>\<open>arch/x86/hal.c\<close>): \<^verbatim>\<open>kmain\<close> from the hardware layer to its last call.
    From a well-formed memory map and image the boot returns no error and ends in the
    first instruction of the user program in ring 3, with every invariant established.
  \<^item> \<open>System\<close>: the running system as the step relation \<open>system_step\<close>, whose steps are interrupts, system calls,
    thread creations, changes of the registers by user code and stores of user code.
    From power-on, every reachable state satisfies the invariants, can serve the next
    request, and has the memory outside the user's pages under the kernel's control only.
    A kernel operation is one step; the kernel stack it runs on is not part of the
    memory of the model.
  \<^item> \<open>Fairness\<close>: tasks of one priority that compute without end get the CPU in turn, within
    a bound on the timer ticks.
  \<^item> \<open>Messages\<close>, \<open>Boot_Console\<close>: sequences of \<^verbatim>\<open>kprintf\<close> calls; the console side of \<^verbatim>\<open>kmain\<close> with the
    report of \<^verbatim>\<open>gdt_verify\<close> and the banner. \<open>Pmm_Report\<close>: the sizes that \<^verbatim>\<open>pmm_init\<close> prints.
  \<^item> \<open>Console_Ops\<close>: what the multiplexer needs of a backend, as a locale, and that with the kernel's
    backends every sequence of its operations ends with a well-formed console.
  \<^item> \<open>Entry\<close> (\<^verbatim>\<open>syscall.s\<close>, \<^verbatim>\<open>idt_asm.s\<close>, \<^verbatim>\<open>boot.s\<close>, \<^verbatim>\<open>user_test.s\<close>): the assembly around the C code, on a
    register file with all registers. System calls, from ring 3 and from the kernel's own code
    (\<^verbatim>\<open>syscall_int80\<close>), and interrupts hand over the right words and give every register back;
    the user program makes the requests it means to.
  \<^item> \<open>Panic\<close> (\<^verbatim>\<open>core/init.c\<close>, \<^verbatim>\<open>include/kernel/assert.h\<close>, \<^verbatim>\<open>arch/x86/idt.c\<close>): the panics and what they
    leave on the screen and the serial line.
  \<^item> \<open>Assertions\<close> (\<^verbatim>\<open>include/kernel/assert.h\<close>): the assertion macros of debug builds as instances of one
    contract: with a true condition, or in a release build, nothing happens; with a false one the
    report is printed and the kernel stops.
  \<^item> \<open>Hal\<close> (\<^verbatim>\<open>arch/x86/hal.c\<close>, \<^verbatim>\<open>include/kernel/hal.h\<close>): the table of hardware operations, its contract as a
    locale, halting and the idle loop, and what a reboot request leads to.
  \<^item> \<open>Kernel_Types\<close> (\<^verbatim>\<open>include/kernel/types.h\<close>): atomic counters and alignment.
  \<^item> \<open>Ktest\<close> (\<^verbatim>\<open>core/ktest.c\<close>, \<^verbatim>\<open>lib/string_test.c\<close>): the test runner and the verdicts of the kernel's own
    tests of the string library.
  \<^item> \<open>Timer_Test\<close>, \<open>Test_Thread\<close> (\<^verbatim>\<open>arch/x86/timer_test.c\<close>, \<^verbatim>\<open>core/init.c\<close>): the tests of the clock and the thread
    that exercises the system calls. What the machine does between two of their instructions (the
    counter advances, interrupts are taken) is a parameter, the environment.

  \<^bold>\<open>Boundaries.\<close> Registered interrupt handlers, the addresses of assembly stubs and of linker
  symbols, the answers of ports and of the time stamp counter, the memory the boot
  loader left and the kernel's build flag for assertions are parameters. Where a
  theorem needs a fact about the machine (a counter that moves, a transmitter that
  becomes ready, a memory map that is well formed) it is a hypothesis, and a witness
  instantiates it.

  \<^bold>\<open>Not modelled.\<close> The assembly entry points and the C code are modelled on
  register files of their own; the calling convention between them is a hypothesis
  (\<open>c_function\<close>). Apart from the boot banner, the memory report and the panics, console messages of the other
  components are left out, since they change neither their state nor their results. In
  the step relations a thread is known by its entry address; the bodies of the idle thread and of the
  test thread are modelled on their own, with what other tasks do meanwhile as the environment.
  Memory accesses in \<open>Paging\<close> and above go through the page tables and not through the buffer of \<open>Tlb\<close>, whose
  theorem says that this makes no difference. Memory barriers and branch hints of \<^verbatim>\<open>types.h\<close> have no
  effect on one CPU. Host tests and build files are not part of the running kernel.
\<close>

end
